(* ===== verification/Audit_Prelude.thy ===== *)
theory Audit_Prelude
  imports Main "HOL-Library.Char_ord" "HOL-Library.List_Lexorder"
begin

text \<open>
  Shared base of the development: what the Rust sources use of their language and standard
  library (byte strings and their ASCII classes, decimal printing and parsing, \<open>str::split\<close>,
  \<open>Result\<close> plumbing, three-way comparison, ordered maps), with the lemmas every component
  reuses.

  Conventions.  A Rust \<open>String\<close> is its UTF-8 byte sequence, a HOL \<^typ>\<open>string\<close> (a HOL
  \<^typ>\<open>char\<close> is one byte), so \<open>str::len\<close> is \<^const>\<open>length\<close>.  \<open>Result<A, E>\<close> is
  \<^typ>\<open>'e + 'a\<close> with the error on the left.  Signed and unsigned machine integers that are only
  stored, compared, printed and parsed are \<^typ>\<open>int\<close> and \<^typ>\<open>nat\<close> with the range
  predicates below; \<open>usize\<close> counts are \<^typ>\<open>nat\<close>.
\<close>

named_theorems audit_defs \<open>definitions of the operations, unfolded by the component proofs\<close>
named_theorems ascii_defs \<open>definitions of the ASCII character classes\<close>

section \<open>Machine integer ranges\<close>

definition in_i64 :: "int \<Rightarrow> bool" where
  "in_i64 i \<longleftrightarrow> - (2 ^ 63) \<le> i \<and> i < 2 ^ 63"

definition in_u32 :: "nat \<Rightarrow> bool" where
  "in_u32 n \<longleftrightarrow> n < 2 ^ 32"

section \<open>Results\<close>

text \<open>\<open>Result::map_err\<close> and \<open>Result::map\<close>.\<close>

definition map_err :: "('e \<Rightarrow> 'f) \<Rightarrow> 'e + 'a \<Rightarrow> 'f + 'a" where
  "map_err f r = (case r of Inl e \<Rightarrow> Inl (f e) | Inr x \<Rightarrow> Inr x)"

definition map_ok :: "('a \<Rightarrow> 'b) \<Rightarrow> 'e + 'a \<Rightarrow> 'e + 'b" where
  "map_ok f r = (case r of Inl e \<Rightarrow> Inl e | Inr x \<Rightarrow> Inr (f x))"

lemma map_err_simps [simp]:
  "map_err f (Inl e) = Inl (f e)"
  "map_err f (Inr x) = Inr x"
  by (simp_all add: map_err_def)

lemma map_ok_simps [simp]:
  "map_ok f (Inl e) = Inl e"
  "map_ok f (Inr x) = Inr (f x)"
  by (simp_all add: map_ok_def)

lemma map_err_eq_Inr [simp]: "map_err f r = Inr x \<longleftrightarrow> r = Inr x"
  by (cases r) simp_all

lemma map_err_eq_Inl: "map_err f r = Inl e \<longleftrightarrow> (\<exists>d. r = Inl d \<and> e = f d)"
  by (cases r) auto

lemma map_ok_eq_Inr: "map_ok f r = Inr y \<longleftrightarrow> (\<exists>x. r = Inr x \<and> y = f x)"
  by (cases r) auto

text \<open>\<open>Result::and_then\<close>, which is also how the \<open>?\<close> operator is written.\<close>

fun and_then :: "'e + 'a \<Rightarrow> ('a \<Rightarrow> 'e + 'b) \<Rightarrow> 'e + 'b" where
  "and_then (Inl e) f = Inl e"
| "and_then (Inr x) f = f x"

lemma and_then_eq_Inr: "and_then r f = Inr y \<longleftrightarrow> (\<exists>x. r = Inr x \<and> f x = Inr y)"
  by (cases r) auto

lemma and_then_eq_Inl: "and_then r f = Inl e \<longleftrightarrow> r = Inl e \<or> (\<exists>x. r = Inr x \<and> f x = Inl e)"
  by (cases r) auto

text \<open>An early return guarded by a condition: \<open>if c \<open>{\<close> return Err(e); \<open>}\<close>\<close>.\<close>

definition fail_if :: "bool \<Rightarrow> 'e \<Rightarrow> 'e + unit" where
  "fail_if c e = (if c then Inl e else Inr ())"

lemma fail_if_eq [simp]:
  "fail_if c e = Inr u \<longleftrightarrow> \<not> c"
  "fail_if c e = Inl d \<longleftrightarrow> c \<and> d = e"
  "fail_if True e = Inl e"
  "fail_if False e = Inr ()"
  by (auto simp: fail_if_def)

text \<open>The collecting loops of the sources: the first error stops the loop.\<close>

fun try_map :: "('a \<Rightarrow> 'e + 'b) \<Rightarrow> 'a list \<Rightarrow> 'e + 'b list" where
  "try_map f [] = Inr []"
| "try_map f (x # xs) =
     (case f x of
        Inl e \<Rightarrow> Inl e
      | Inr y \<Rightarrow> (case try_map f xs of Inl e \<Rightarrow> Inl e | Inr ys \<Rightarrow> Inr (y # ys)))"

lemma try_map_eq_Inr:
  "try_map f xs = Inr ys \<longleftrightarrow> list_all2 (\<lambda>x y. f x = Inr y) xs ys"
proof (induction xs arbitrary: ys)
  case Nil
  then show ?case by auto
next
  case (Cons x xs)
  show ?case
  proof (cases "try_map f xs")
    case (Inl e)
    with Cons.IH have "\<not> list_all2 (\<lambda>x y. f x = Inr y) xs zs" for zs
      by (metis sum.distinct(1))
    with Inl show ?thesis
      by (simp add: list_all2_Cons1 split: sum.split)
  next
    case (Inr zs)
    with Cons.IH have "list_all2 (\<lambda>x y. f x = Inr y) xs ws \<longleftrightarrow> zs = ws" for ws
      by (metis sum.inject(2))
    with Inr show ?thesis
      by (auto simp: list_all2_Cons1 split: sum.split)
  qed
qed

lemma try_map_Inl: "try_map f xs = Inl e \<Longrightarrow> \<exists>x \<in> set xs. f x = Inl e"
  by (induction xs) (auto split: sum.splits)

lemma try_map_all:
  assumes "try_map f xs = Inr ys" and "\<And>x y. f x = Inr y \<Longrightarrow> P y \<longleftrightarrow> Q x"
  shows "list_all P ys \<longleftrightarrow> list_all Q xs"
proof -
  from assms(1) have "list_all2 (\<lambda>x y. f x = Inr y) xs ys" by (simp add: try_map_eq_Inr)
  then show ?thesis by (induction rule: list_all2_induct) (auto simp: assms(2))
qed

lemma list_all2_left: "list_all2 P xs ys \<Longrightarrow> x \<in> set xs \<Longrightarrow> \<exists>y \<in> set ys. P x y"
  by (induction rule: list_all2_induct) auto

lemma list_all2_right: "list_all2 P xs ys \<Longrightarrow> y \<in> set ys \<Longrightarrow> \<exists>x \<in> set xs. P x y"
  by (induction rule: list_all2_induct) auto

lemma try_map_all_Inr: "(\<And>x. x \<in> set xs \<Longrightarrow> f x = Inr (g x)) \<Longrightarrow> try_map f xs = Inr (map g xs)"
  by (induction xs) auto

lemma filter_repeated:
  assumes "i < j" "j < length xs" "P (xs ! i)" "P (xs ! j)" "f (xs ! i) = f (xs ! j)"
  shows "\<not> distinct (map f (filter P xs))"
proof -
  have "take j xs @ xs ! j # drop (Suc j) xs = xs" using assms(2) by (rule id_take_nth_drop [symmetric])
  from arg_cong [OF this, of "filter P"]
  have eq: "filter P xs = filter P (take j xs) @ xs ! j # filter P (drop (Suc j) xs)"
    using assms(4) by simp
  have "xs ! i = take j xs ! i" "i < length (take j xs)" using assms(1,2) by simp_all
  then have "xs ! i \<in> set (take j xs)" by (metis nth_mem)
  with assms(3) have "xs ! i \<in> set (filter P (take j xs))" by simp
  from imageI [OF this, of f] assms(5) have "f (xs ! j) \<in> f ` set (filter P (take j xs))" by (simp only:)
  then show ?thesis unfolding eq by simp
qed

section \<open>Three-way comparison\<close>

datatype ordering = Less | Equal | Greater

definition cmp :: "'a::linorder \<Rightarrow> 'a \<Rightarrow> ordering" where
  "cmp x y = (if x < y then Less else if x = y then Equal else Greater)"

text \<open>\<open>Ordering::then_with\<close>.\<close>

fun then_with :: "ordering \<Rightarrow> ordering \<Rightarrow> ordering" where
  "then_with Equal o2 = o2"
| "then_with o1 _ = o1"

lemma cmp_eq_iff [simp]:
  "cmp x y = Equal \<longleftrightarrow> x = y"
  "cmp x y = Less \<longleftrightarrow> x < y"
  "cmp x y = Greater \<longleftrightarrow> y < x"
  by (auto simp: cmp_def)

lemma then_with_eq_iff [simp]:
  "then_with o1 o2 = Equal \<longleftrightarrow> o1 = Equal \<and> o2 = Equal"
  "then_with o1 o2 = Less \<longleftrightarrow> o1 = Less \<or> (o1 = Equal \<and> o2 = Less)"
  "then_with o1 o2 = Greater \<longleftrightarrow> o1 = Greater \<or> (o1 = Equal \<and> o2 = Greater)"
  by (cases o1; simp)+

text \<open>
  The contract of \<open>Ord::cmp\<close>: equality only on equal values, reversal under swapping, transitivity.
  Lexicographic chains built with \<open>then_with\<close> inherit it.
\<close>

locale comparator =
  fixes f :: "'a \<Rightarrow> 'a \<Rightarrow> ordering"
  assumes cmp_Equal: "f x y = Equal \<longleftrightarrow> x = y"
    and cmp_swap: "f x y = Greater \<longleftrightarrow> f y x = Less"
    and cmp_trans: "f x y = Less \<Longrightarrow> f y z = Less \<Longrightarrow> f x z = Less"
begin

lemma cmp_cases: "f x y = Less \<or> x = y \<or> f y x = Less"
  by (cases "f x y") (auto simp: cmp_Equal cmp_swap)

lemma cmp_irrefl: "f x x \<noteq> Less"
  by (metis cmp_Equal ordering.distinct(1))

lemma cmp_asym: "f x y = Less \<Longrightarrow> f y x \<noteq> Less"
  using cmp_trans cmp_irrefl by blast

lemma cmp_le_iff: "f x y \<noteq> Greater \<longleftrightarrow> f x y = Less \<or> x = y"
  by (cases "f x y") (auto simp: cmp_Equal cmp_swap cmp_irrefl dest: cmp_asym)

end

lemma comparator_cmp: "comparator (cmp :: 'a::linorder \<Rightarrow> 'a \<Rightarrow> ordering)"
  by unfold_locales (auto dest: less_trans)

lemma comparator_then:
  assumes "comparator f" "comparator g"
  shows "comparator (\<lambda>x y. then_with (f (fst x) (fst y)) (g (snd x) (snd y)))"
proof
  fix x y z :: "'a \<times> 'b"
  note f = comparator.cmp_Equal [OF assms(1)] comparator.cmp_swap [OF assms(1)]
  note g = comparator.cmp_Equal [OF assms(2)] comparator.cmp_swap [OF assms(2)]
  show "then_with (f (fst x) (fst y)) (g (snd x) (snd y)) = Equal \<longleftrightarrow> x = y"
    by (simp add: f g prod_eq_iff)
  show "then_with (f (fst x) (fst y)) (g (snd x) (snd y)) = Greater \<longleftrightarrow>
      then_with (f (fst y) (fst x)) (g (snd y) (snd x)) = Less"
    by (auto simp: f g)
  show "then_with (f (fst x) (fst z)) (g (snd x) (snd z)) = Less"
    if "then_with (f (fst x) (fst y)) (g (snd x) (snd y)) = Less"
      "then_with (f (fst y) (fst z)) (g (snd y) (snd z)) = Less"
    using that comparator.cmp_trans [OF assms(1)] comparator.cmp_trans [OF assms(2)]
    by (auto simp: f g)
qed

lemma comparator_inj:
  assumes "comparator f" "\<And>x y. h x = h y \<Longrightarrow> x = y"
  shows "comparator (\<lambda>x y. f (h x) (h y))"
  using comparator.cmp_Equal [OF assms(1)] comparator.cmp_swap [OF assms(1)]
    comparator.cmp_trans [OF assms(1)] assms(2)
  by unfold_locales (auto intro: arg_cong [of _ _ h])

section \<open>Bytes and ASCII classes\<close>

type_synonym bytes = string

definition byte :: "char \<Rightarrow> nat" where
  "byte c = of_char c"

definition is_ascii_lowercase :: "char \<Rightarrow> bool" where
  [ascii_defs]: "is_ascii_lowercase c \<longleftrightarrow> 97 \<le> byte c \<and> byte c \<le> 122"

definition is_ascii_uppercase :: "char \<Rightarrow> bool" where
  [ascii_defs]: "is_ascii_uppercase c \<longleftrightarrow> 65 \<le> byte c \<and> byte c \<le> 90"

definition is_ascii_digit :: "char \<Rightarrow> bool" where
  [ascii_defs]: "is_ascii_digit c \<longleftrightarrow> 48 \<le> byte c \<and> byte c \<le> 57"

definition is_ascii_alphanumeric :: "char \<Rightarrow> bool" where
  [ascii_defs]: "is_ascii_alphanumeric c \<longleftrightarrow>
     is_ascii_lowercase c \<or> is_ascii_uppercase c \<or> is_ascii_digit c"

definition is_ascii_hexdigit :: "char \<Rightarrow> bool" where
  [ascii_defs]: "is_ascii_hexdigit c \<longleftrightarrow>
     is_ascii_digit c \<or> (97 \<le> byte c \<and> byte c \<le> 102) \<or> (65 \<le> byte c \<and> byte c \<le> 70)"

definition is_ascii_graphic :: "char \<Rightarrow> bool" where
  [ascii_defs]: "is_ascii_graphic c \<longleftrightarrow> 33 \<le> byte c \<and> byte c \<le> 126"

lemma byte_lt [simp]: "byte c < 256"
  by (simp add: byte_def)

lemma byte_char_of [simp]: "n < 256 \<Longrightarrow> byte (char_of n) = n"
  by (simp add: byte_def of_char_of)

lemma byte_inject [simp]: "byte c = byte d \<longleftrightarrow> c = d"
  by (simp add: byte_def)

section \<open>Hexadecimal\<close>

definition hex_digit :: "nat \<Rightarrow> char" where
  "hex_digit d = (if d < 10 then char_of (48 + d) else char_of (87 + d))"

lemma hex_digit_hexdigit:
  assumes "d < 16"
  shows "is_ascii_hexdigit (hex_digit d) \<and> \<not> is_ascii_uppercase (hex_digit d)"
  using assms by (simp add: hex_digit_def ascii_defs)

lemma hex_digit_inject: "d < 16 \<Longrightarrow> e < 16 \<Longrightarrow> hex_digit d = hex_digit e \<longleftrightarrow> d = e"
proof -
  assume "d < 16" "e < 16"
  then have "byte (hex_digit d) = byte (hex_digit e) \<longleftrightarrow> d = e"
    by (auto simp: hex_digit_def split: if_splits)
  then show ?thesis by simp
qed

text \<open>\<open>hex_lower\<close> appends, for each byte, the digits of \<open>b >> 4\<close> and \<open>b & 0x0f\<close>.\<close>

definition hex_lower :: "bytes \<Rightarrow> string" where
  "hex_lower bs = concat (map (\<lambda>b. [hex_digit (byte b div 16), hex_digit (byte b mod 16)]) bs)"

lemma byte_div16 [simp]: "byte b div 16 < 16"
  using byte_lt [of b] by linarith

lemma length_hex_lower [simp]: "length (hex_lower bs) = 2 * length bs"
  by (induction bs) (simp_all add: hex_lower_def)

lemma hex_lower_chars:
  "c \<in> set (hex_lower bs) \<Longrightarrow> is_ascii_hexdigit c \<and> \<not> is_ascii_uppercase c"
  by (auto simp: hex_lower_def hex_digit_hexdigit)

lemma hex_lower_inject: "hex_lower as = hex_lower bs \<longleftrightarrow> as = bs"
proof
  assume "hex_lower as = hex_lower bs"
  then show "as = bs"
  proof (induction as arbitrary: bs)
    case Nil
    then show ?case by (cases bs) (simp_all add: hex_lower_def)
  next
    case (Cons a as)
    then obtain b bs' where bs: "bs = b # bs'"
      by (cases bs) (simp_all add: hex_lower_def)
    with Cons.prems have div: "byte a div 16 = byte b div 16"
      and mod: "byte a mod 16 = byte b mod 16"
      and rest: "hex_lower as = hex_lower bs'"
      by (simp_all add: hex_lower_def hex_digit_inject)
    from div mod have "byte a = byte b"
      by (metis div_mult_mod_eq)
    with rest Cons.IH bs show ?case by simp
  qed
qed simp

section \<open>Decimal printing and parsing\<close>

definition digit_char :: "nat \<Rightarrow> char" where
  "digit_char d = char_of (48 + d)"

fun show_nat :: "nat \<Rightarrow> string" where
  "show_nat n = (if n < 10 then [digit_char n] else show_nat (n div 10) @ [digit_char (n mod 10)])"

declare show_nat.simps [simp del]

definition show_int :: "int \<Rightarrow> string" where
  "show_int i = (if i < 0 then CHR ''-'' # show_nat (nat (- i)) else show_nat (nat i))"

text \<open>
  \<open>str::parse\<close> at an integer type: an optional sign (a minus only at a signed type), at least
  one digit, digits only, and the value in range.
\<close>

fun dec_value :: "nat \<Rightarrow> string \<Rightarrow> nat option" where
  "dec_value acc [] = Some acc"
| "dec_value acc (c # cs) =
     (if is_ascii_digit c then dec_value (acc * 10 + (byte c - 48)) cs else None)"

definition parse_digits :: "string \<Rightarrow> nat option" where
  "parse_digits s = (if s = [] then None else dec_value 0 s)"

definition parse_u32 :: "string \<Rightarrow> nat option" where
  "parse_u32 s =
     (let body = (case s of c # cs \<Rightarrow> if c = CHR ''+'' then cs else s | [] \<Rightarrow> s)
      in case parse_digits body of
           Some n \<Rightarrow> if in_u32 n then Some n else None
         | None \<Rightarrow> None)"

definition parse_i64 :: "string \<Rightarrow> int option" where
  "parse_i64 s =
     (let (neg, body) = (case s of
            c # cs \<Rightarrow> if c = CHR ''-'' then (True, cs)
                       else if c = CHR ''+'' then (False, cs) else (False, s)
          | [] \<Rightarrow> (False, s))
      in case parse_digits body of
           Some n \<Rightarrow> (let i = (if neg then - int n else int n)
                      in if in_i64 i then Some i else None)
         | None \<Rightarrow> None)"

lemma byte_digit_char [simp]: "d < 10 \<Longrightarrow> byte (digit_char d) = 48 + d"
  by (simp add: digit_char_def)

lemma digit_char_digit [simp]: "d < 10 \<Longrightarrow> is_ascii_digit (digit_char d)"
  by (simp add: is_ascii_digit_def)

lemma show_nat_not_Nil [simp]: "show_nat n \<noteq> []"
  by (subst show_nat.simps) simp

lemma show_nat_digits: "c \<in> set (show_nat n) \<Longrightarrow> is_ascii_digit c"
proof (induction n rule: show_nat.induct)
  case (1 n)
  then show ?case
    by (cases "n < 10") (auto simp: show_nat.simps [of n])
qed

lemma dec_value_append:
  "dec_value acc (as @ bs) = (case dec_value acc as of None \<Rightarrow> None | Some v \<Rightarrow> dec_value v bs)"
  by (induction as arbitrary: acc) auto

lemma dec_value_show_nat: "dec_value 0 (show_nat n) = Some n"
proof (induction n rule: show_nat.induct)
  case (1 n)
  then show ?case
    by (cases "n < 10") (simp_all add: show_nat.simps [of n] dec_value_append)
qed

lemma parse_digits_show_nat [simp]: "parse_digits (show_nat n) = Some n"
  by (simp add: parse_digits_def dec_value_show_nat)

lemma show_nat_hd:
  assumes "show_nat n = c # cs"
  shows "c \<noteq> CHR ''-'' \<and> c \<noteq> CHR ''+''"
proof -
  have "is_ascii_digit c" using assms show_nat_digits [of c n] by simp
  then show ?thesis by (auto simp: is_ascii_digit_def byte_def)
qed

lemma parse_u32_show_nat:
  assumes "in_u32 n"
  shows "parse_u32 (show_nat n) = Some n"
proof -
  obtain c cs where s: "show_nat n = c # cs" by (cases "show_nat n") simp_all
  with show_nat_hd have "c \<noteq> CHR ''+''" by auto
  moreover have "parse_digits (c # cs) = Some n" using s parse_digits_show_nat by metis
  ultimately show ?thesis using assms s by (simp add: parse_u32_def)
qed

lemma parse_i64_show_int:
  assumes "in_i64 i"
  shows "parse_i64 (show_int i) = Some i"
proof (cases "i < 0")
  case True
  with assms show ?thesis by (simp add: parse_i64_def show_int_def)
next
  case False
  obtain c cs where s: "show_nat (nat i) = c # cs" by (cases "show_nat (nat i)") simp_all
  with show_nat_hd have "c \<noteq> CHR ''-''" "c \<noteq> CHR ''+''" by auto
  moreover have "parse_digits (c # cs) = Some (nat i)" using s parse_digits_show_nat by metis
  ultimately show ?thesis using False assms s by (simp add: parse_i64_def show_int_def)
qed

lemma show_int_chars: "c \<in> set (show_int i) \<Longrightarrow> is_ascii_digit c \<or> c = CHR ''-''"
  by (auto simp: show_int_def dest: show_nat_digits split: if_splits)

lemma show_int_not_Nil [simp]: "show_int i \<noteq> []"
  by (simp add: show_int_def)

lemma show_int_neq_dash: "show_int i \<noteq> ''-''"
proof (cases "i < 0")
  case False
  then show ?thesis
    using show_nat_hd [of "nat i" "CHR ''-''" "[]"] by (auto simp: show_int_def)
qed (simp add: show_int_def)

lemma show_nat_neq_dash: "show_nat n \<noteq> ''-''"
  using show_nat_hd [of n "CHR ''-''" "[]"] by auto

lemma length_show_nat: "0 < k \<Longrightarrow> n < 10 ^ k \<Longrightarrow> length (show_nat n) \<le> k"
proof (induction k arbitrary: n)
  case (Suc k)
  show ?case
  proof (cases "n < 10")
    case True
    then show ?thesis by (simp add: show_nat.simps)
  next
    case False
    with Suc.prems have "0 < k" "n div 10 < 10 ^ k"
      by (auto intro!: gr0I simp: less_mult_imp_div_less mult.commute)
    then have "length (show_nat (n div 10)) \<le> k" by (rule Suc.IH)
    with False show ?thesis by (simp add: show_nat.simps [of n])
  qed
qed simp

lemma length_show_u32: "in_u32 n \<Longrightarrow> length (show_nat n) \<le> 10"
  by (rule length_show_nat) (simp_all add: in_u32_def)

lemma length_show_i64:
  assumes "in_i64 i"
  shows "length (show_int i) \<le> 20"
proof -
  from assms have "nat (- i) < 10 ^ 19" "nat i < 10 ^ 19" by (auto simp: in_i64_def)
  then have "length (show_nat (nat (- i))) \<le> 19" "length (show_nat (nat i)) \<le> 19"
    by (auto intro: length_show_nat)
  then show ?thesis by (simp add: show_int_def)
qed

text \<open>\<open>{:0w}\<close>: pad a number on the left with zeros.\<close>

definition pad_zero :: "nat \<Rightarrow> string \<Rightarrow> string" where
  "pad_zero w s = replicate (w - length s) (CHR ''0'') @ s"

section \<open>Splitting and trimming\<close>

text \<open>\<open>str::split(d)\<close>: always at least one piece.\<close>

fun split_on :: "char \<Rightarrow> string \<Rightarrow> string list" where
  "split_on d [] = [[]]"
| "split_on d (c # cs) =
     (if c = d then [] # split_on d cs
      else case split_on d cs of [] \<Rightarrow> [[c]] | p # ps \<Rightarrow> (c # p) # ps)"

lemma split_on_not_Nil [simp]: "split_on d s \<noteq> []"
  by (induction s) (auto split: list.splits)

lemma split_on_no_delim: "d \<notin> set a \<Longrightarrow> split_on d a = [a]"
  by (induction a) auto

lemma split_on_delim: "d \<notin> set a \<Longrightarrow> split_on d (a @ d # b) = a # split_on d b"
  by (induction a) auto

text \<open>
  \<open>s.trim().is_empty()\<close>: every code point of the string has the Unicode property
  \<open>White_Space\<close>.  On UTF-8 bytes these are the bytes 9 to 13 and 32, and the encodings of
  U+0085, U+00A0, U+1680, U+2000 to U+200A, U+2028, U+2029, U+202F, U+205F and U+3000.
\<close>

definition ws_len :: "string \<Rightarrow> nat" where
  "ws_len s = (case map byte s of
       [] \<Rightarrow> 0
     | b # bs \<Rightarrow>
         if (9 \<le> b \<and> b \<le> 13) \<or> b = 32 then 1
         else (case bs of
             [] \<Rightarrow> 0
           | b2 # bs2 \<Rightarrow>
               if b = 194 \<and> (b2 = 133 \<or> b2 = 160) then 2
               else (case bs2 of
                   [] \<Rightarrow> 0
                 | b3 # _ \<Rightarrow>
                     if (b = 225 \<and> b2 = 154 \<and> b3 = 128)
                        \<or> (b = 226 \<and> b2 = 128
                            \<and> ((128 \<le> b3 \<and> b3 \<le> 138) \<or> b3 = 168 \<or> b3 = 169 \<or> b3 = 175))
                        \<or> (b = 226 \<and> b2 = 129 \<and> b3 = 159)
                        \<or> (b = 227 \<and> b2 = 128 \<and> b3 = 128)
                     then 3 else 0)))"

function trim_is_empty :: "string \<Rightarrow> bool" where
  "trim_is_empty s =
     (if s = [] then True else if ws_len s = 0 then False else trim_is_empty (drop (ws_len s) s))"
  by pat_completeness auto
termination
  by (relation "measure length") auto

declare trim_is_empty.simps [simp del]

lemma trim_is_empty_Nil [simp]: "trim_is_empty []"
  by (simp add: trim_is_empty.simps)

section \<open>Ordered maps\<close>

text \<open>
  \<open>BTreeMap\<close>: the entries in ascending key order.  \<open>get\<close> is \<^const>\<open>map_of\<close>, \<open>keys\<close> and
  \<open>values\<close> are the projections of the entry list.
\<close>

fun bt_insert :: "'k::linorder \<Rightarrow> 'v \<Rightarrow> ('k \<times> 'v) list \<Rightarrow> ('k \<times> 'v) list" where
  "bt_insert k v [] = [(k, v)]"
| "bt_insert k v (e # m) =
     (if k = fst e then (k, v) # m
      else if k < fst e then (k, v) # e # m
      else e # bt_insert k v m)"

definition bt_ok :: "('k::linorder \<times> 'v) list \<Rightarrow> bool" where
  "bt_ok m \<longleftrightarrow> sorted_wrt (<) (map fst m)"

lemma sorted_wrt_neq_distinct: "sorted_wrt (\<lambda>a b. a \<noteq> b) xs \<Longrightarrow> distinct xs"
  by (induction xs) auto

lemma bt_ok_Nil [simp]: "bt_ok []"
  by (simp add: bt_ok_def)

lemma bt_ok_Cons: "bt_ok (e # m) \<longleftrightarrow> (\<forall>k \<in> fst ` set m. fst e < k) \<and> bt_ok m"
  by (auto simp: bt_ok_def)

lemma keys_bt_insert [simp]: "fst ` set (bt_insert k v m) = insert k (fst ` set m)"
  by (induction m) auto

lemma bt_ok_insert [simp]: "bt_ok m \<Longrightarrow> bt_ok (bt_insert k v m)"
  by (induction m) (auto simp: bt_ok_Cons)

lemma bt_last_Max:
  assumes "bt_ok m" "m \<noteq> []"
  shows "fst (last m) = Max (set (map fst m))"
proof (rule Max_eqI [symmetric])
  show "fst (last m) \<in> set (map fst m)" using assms(2) by simp
  show "k \<le> fst (last m)" if "k \<in> set (map fst m)" for k
    using assms that by (induction m) (auto simp: bt_ok_Cons less_imp_le)
qed simp

lemma bt_ok_distinct: "bt_ok m \<Longrightarrow> distinct (map fst m)"
  by (induction m) (auto simp: bt_ok_Cons)

lemma map_of_bt_insert: "bt_ok m \<Longrightarrow> map_of (bt_insert k v m) = (map_of m)(k \<mapsto> v)"
  by (induction m) (auto simp: bt_ok_Cons fun_eq_iff)

lemma bt_insert_fresh:
  assumes "k \<notin> fst ` set m"
  shows "set (bt_insert k v m) = insert (k, v) (set m)"
    and "length (bt_insert k v m) = Suc (length m)"
  using assms by (induction m) auto

lemma set_bt_insert_subset: "set (bt_insert k v m) \<subseteq> insert (k, v) (set m)"
  by (induction m) auto

lemma bt_ok_filter: "bt_ok m \<Longrightarrow> bt_ok (filter P m)"
  by (simp add: bt_ok_def sorted_wrt_map sorted_wrt_filter)

text \<open>A strictly sorted list is determined by its elements.\<close>

lemma bt_ok_set_eq:
  assumes "bt_ok m" "bt_ok n" "set m = set n"
  shows "m = n"
  using assms
proof (induction m arbitrary: n)
  case Nil
  then show ?case by simp
next
  case (Cons e m)
  from Cons.prems(3) obtain f n' where n: "n = f # n'" by (cases n) auto
  have "e = f"
  proof (rule ccontr)
    assume "e \<noteq> f"
    with Cons.prems(3) n have "e \<in> set n'" "f \<in> set m" by auto
    then have "fst f < fst e" "fst e < fst f"
      using Cons.prems(1,2) n by (auto simp: bt_ok_Cons)
    then show False by simp
  qed
  moreover have "e \<notin> set m" "f \<notin> set n'"
    using Cons.prems(1,2) n by (auto simp: bt_ok_Cons)
  ultimately have "set m = set n'"
    using Cons.prems(3) n by auto
  with Cons.IH [of n'] Cons.prems(1,2) n \<open>e = f\<close> show ?case
    by (simp add: bt_ok_Cons)
qed

end
