(* ===== verification/Audit_Identifiers.thy ===== *)
theory Audit_Identifiers
  imports Audit_Prelude
begin

text \<open>
  \<open>crates/audit-core/src/errors.rs\<close> and \<open>identifiers.rs\<close>: the error taxonomy, the derived
  identifiers (\<open>StableId\<close> and the eleven types the \<open>id_type!\<close> macro generates) and the
  validated reference values.

  Code outside the repository enters as a parameter: the record \<open>hash_ext\<close> holds SHA-256 (crate
  \<open>sha2\<close>) and the JSON encoding of a list of strings (crate \<open>serde_json\<close>, whose result the
  source unwraps because it cannot fail).  SHA-256 returns an array of 32 bytes: the type
  \<open>hash256\<close>.  Later theories extend the record with the encoders of their own types.

  A validated newtype over \<open>String\<close> is the string itself; its checked constructor returns the
  string or the error.  A typed identifier is its \<open>value\<close> string: the prefix is a constant of the
  type.
\<close>

section \<open>Errors\<close>

datatype AuditError =
    InvalidIdentifier string string
  | InvalidTimestamp string
  | InvalidEvent string
  | UnsupportedEvent string
  | UnsupportedEventVersion string
  | DuplicateEvent string
  | AuthorizationFailure string
  | ScopeViolation string
  | StorageFailure string
  | SourceFailure string
  | IntegrityFailure string
  | MalformedEvidence string
  | ReportGenerationFailure string
  | ExportFailure string
  | DecryptionAuthorizationFailure string
  | UnsupportedSchema string
  | VersionMismatch string
  | ReplayConflict string
  | SerializationFailure string
  | InvalidQuery string
  | ValidationFailure string
  | Internal string

fun AuditError_to_string :: "AuditError \<Rightarrow> string" where
  "AuditError_to_string (InvalidIdentifier kind d) = ''invalid '' @ kind @ '': '' @ d"
| "AuditError_to_string (InvalidTimestamp d) = ''invalid timestamp: '' @ d"
| "AuditError_to_string (InvalidEvent d) = ''invalid event: '' @ d"
| "AuditError_to_string (UnsupportedEvent d) = ''unsupported event: '' @ d"
| "AuditError_to_string (UnsupportedEventVersion d) = ''unsupported event version: '' @ d"
| "AuditError_to_string (DuplicateEvent d) = ''duplicate event: '' @ d"
| "AuditError_to_string (AuthorizationFailure d) = ''authorization failure: '' @ d"
| "AuditError_to_string (ScopeViolation d) = ''scope violation: '' @ d"
| "AuditError_to_string (StorageFailure d) = ''storage failure: '' @ d"
| "AuditError_to_string (SourceFailure d) = ''source failure: '' @ d"
| "AuditError_to_string (IntegrityFailure d) = ''integrity failure: '' @ d"
| "AuditError_to_string (MalformedEvidence d) = ''malformed evidence: '' @ d"
| "AuditError_to_string (ReportGenerationFailure d) = ''report generation failure: '' @ d"
| "AuditError_to_string (ExportFailure d) = ''export failure: '' @ d"
| "AuditError_to_string (DecryptionAuthorizationFailure d) =
     ''decryption authorization failure: '' @ d"
| "AuditError_to_string (UnsupportedSchema d) = ''unsupported schema: '' @ d"
| "AuditError_to_string (VersionMismatch d) = ''version mismatch: '' @ d"
| "AuditError_to_string (ReplayConflict d) = ''replay conflict: '' @ d"
| "AuditError_to_string (SerializationFailure d) = ''serialization failure: '' @ d"
| "AuditError_to_string (InvalidQuery d) = ''invalid query: '' @ d"
| "AuditError_to_string (ValidationFailure d) = ''validation failure: '' @ d"
| "AuditError_to_string (Internal d) = ''internal error: '' @ d"

section \<open>Hashing and JSON from outside the repository\<close>

typedef hash256 = "{bs :: bytes. length bs = 32}"
  morphisms hash_bytes_of Abs_hash256
  by (rule exI [of _ "replicate 32 (CHR 0x00)"]) simp

setup_lifting type_definition_hash256

lemma length_hash_bytes_of [simp]: "length (hash_bytes_of h) = 32"
  using hash_bytes_of [of h] by simp

record hash_ext =
  sha256 :: "bytes \<Rightarrow> hash256"
  json_strings :: "string list \<Rightarrow> bytes"

definition sha256_hex :: "('z) hash_ext_scheme \<Rightarrow> bytes \<Rightarrow> string" where
  "sha256_hex X input = hex_lower (hash_bytes_of (sha256 X input))"

lemma length_sha256_hex [simp]: "length (sha256_hex X bs) = 64"
  by (simp add: sha256_hex_def)

section \<open>Stable identifiers\<close>

record StableId =
  sid_prefix :: string
  sid_value :: string

definition BODY_HEX_LEN :: nat where
  "BODY_HEX_LEN = 32"

definition derive_bytes :: "('z) hash_ext_scheme \<Rightarrow> string \<Rightarrow> bytes \<Rightarrow> StableId" where
  "derive_bytes X prefix bs =
     (let digest = sha256_hex X bs
      in \<lparr>sid_prefix = prefix, sid_value = prefix @ ''_'' @ take BODY_HEX_LEN digest\<rparr>)"

definition derive :: "('z) hash_ext_scheme \<Rightarrow> string \<Rightarrow> string list \<Rightarrow> StableId" where
  "derive X prefix parts = derive_bytes X prefix (json_strings X parts)"

definition validate_prefix :: "string \<Rightarrow> AuditError + unit" where
  "validate_prefix prefix =
     (if 1 \<le> length prefix \<and> length prefix \<le> 8
         \<and> (case prefix of [] \<Rightarrow> False | c # _ \<Rightarrow> is_ascii_lowercase c)
         \<and> list_all (\<lambda>c. is_ascii_lowercase c \<or> c = CHR ''_'') prefix
      then Inr ()
      else Inl (InvalidIdentifier ''stable id prefix''
                  (''`'' @ prefix @ ''` must be 1-8 lowercase chars or underscores'')))"

definition checked :: "string \<Rightarrow> string \<Rightarrow> AuditError + StableId" where
  "checked prefix raw =
     (case validate_prefix prefix of
        Inl e \<Rightarrow> Inl e
      | Inr _ \<Rightarrow>
          if length raw < length prefix + 1 + 1
             \<or> take (length prefix + 1) raw \<noteq> prefix @ ''_''
             \<or> \<not> list_all is_ascii_hexdigit (drop (length prefix + 1) raw)
          then Inl (InvalidIdentifier ''stable id''
                      (''`'' @ raw @ ''` is not a valid `'' @ prefix @ ''_<hex>` id''))
          else Inr \<lparr>sid_prefix = prefix, sid_value = raw\<rparr>)"

text \<open>The types generated by \<open>id_type!\<close>, the macro's argument being the prefix.\<close>

datatype id_type =
    RecordIdT | EventIdT | CaseIdT | EvidenceIdT | ReportIdT | RequestIdT
  | AuditorIdT | AccessEntryIdT | FindingIdT | NoteIdT | ManifestIdT

fun PREFIX :: "id_type \<Rightarrow> string" where
  "PREFIX RecordIdT = ''rec''"
| "PREFIX EventIdT = ''evt''"
| "PREFIX CaseIdT = ''case''"
| "PREFIX EvidenceIdT = ''evid''"
| "PREFIX ReportIdT = ''rep''"
| "PREFIX RequestIdT = ''req''"
| "PREFIX AuditorIdT = ''aud''"
| "PREFIX AccessEntryIdT = ''acc''"
| "PREFIX FindingIdT = ''find''"
| "PREFIX NoteIdT = ''note''"
| "PREFIX ManifestIdT = ''mfst''"

type_synonym RecordId = string
type_synonym EventId = string
type_synonym CaseId = string
type_synonym EvidenceId = string
type_synonym ReportId = string
type_synonym RequestId = string
type_synonym AuditorId = string
type_synonym AccessEntryId = string
type_synonym FindingId = string
type_synonym NoteId = string
type_synonym ManifestId = string

definition id_derive :: "('z) hash_ext_scheme \<Rightarrow> id_type \<Rightarrow> string list \<Rightarrow> string" where
  "id_derive X t parts = sid_value (derive X (PREFIX t) parts)"

definition id_derive_bytes :: "('z) hash_ext_scheme \<Rightarrow> id_type \<Rightarrow> bytes \<Rightarrow> string" where
  "id_derive_bytes X t bs = sid_value (derive_bytes X (PREFIX t) bs)"

definition from_checked :: "id_type \<Rightarrow> string \<Rightarrow> AuditError + string" where
  "from_checked t raw = map_ok sid_value (checked (PREFIX t) raw)"

section \<open>Reference values\<close>

type_synonym NetworkId = string
type_synonym AccountId = string
type_synonym ContractId = string
type_synonym TransactionHash = string
type_synonym ReasonCode = string

definition NetworkId_new :: "string \<Rightarrow> AuditError + NetworkId" where
  "NetworkId_new label =
     (if 1 \<le> length label \<and> length label \<le> 32
         \<and> list_all (\<lambda>c. is_ascii_lowercase c \<or> is_ascii_digit c \<or> c = CHR ''-'') label
      then Inr label
      else Inl (InvalidIdentifier ''network id'' ''must be 1-32 chars of [a-z0-9-]''))"

definition is_mainnet :: "NetworkId \<Rightarrow> bool" where
  "is_mainnet n \<longleftrightarrow> n = ''mainnet''"

definition REF_MAX_LEN :: nat where
  "REF_MAX_LEN = 128"

definition validate_ref :: "string \<Rightarrow> string \<Rightarrow> AuditError + unit" where
  "validate_ref kind raw =
     (if raw \<noteq> [] \<and> length raw \<le> REF_MAX_LEN \<and> list_all is_ascii_graphic raw
      then Inr ()
      else Inl (InvalidIdentifier kind
                  (''must be 1-'' @ show_nat REF_MAX_LEN @ '' printable ASCII chars'')))"

definition AccountId_new :: "string \<Rightarrow> AuditError + AccountId" where
  "AccountId_new raw = map_ok (\<lambda>_. raw) (validate_ref ''account id'' raw)"

definition ContractId_new :: "string \<Rightarrow> AuditError + ContractId" where
  "ContractId_new raw = map_ok (\<lambda>_. raw) (validate_ref ''contract id'' raw)"

definition TransactionHash_new :: "string \<Rightarrow> AuditError + TransactionHash" where
  "TransactionHash_new raw = map_ok (\<lambda>_. raw) (validate_ref ''transaction hash'' raw)"

definition ReasonCode_new :: "string \<Rightarrow> AuditError + ReasonCode" where
  "ReasonCode_new raw =
     (if 1 \<le> length raw \<and> length raw \<le> 64
         \<and> list_all (\<lambda>c. is_ascii_uppercase c \<or> is_ascii_digit c
              \<or> c = CHR ''.'' \<or> c = CHR ''_'' \<or> c = CHR ''-'') raw
      then Inr raw
      else Inl (InvalidIdentifier ''reason code'' ''must be 1-64 chars of [A-Z0-9._-]''))"

section \<open>Lemmas\<close>

lemma validate_prefix_PREFIX [simp]: "validate_prefix (PREFIX t) = Inr ()"
  by (cases t) (simp_all add: validate_prefix_def ascii_defs byte_def)

lemma PREFIX_no_underscore: "CHR ''_'' \<notin> set (PREFIX t)"
  by (cases t) simp_all

lemma PREFIX_inject: "PREFIX t = PREFIX t' \<Longrightarrow> t = t'"
  by (cases t; cases t'; simp)

lemma from_checked_eq_Inr:
  "from_checked t raw = Inr v \<longleftrightarrow>
     v = raw \<and> (\<exists>body. raw = PREFIX t @ ''_'' @ body \<and> body \<noteq> []
                    \<and> list_all is_ascii_hexdigit body)"
  (is "?L \<longleftrightarrow> v = raw \<and> ?R")
proof
  assume L: ?L
  let ?n = "length (PREFIX t) + 1"
  from L have v: "v = raw" and len: "\<not> length raw < ?n + 1"
    and tk: "take ?n raw = PREFIX t @ ''_''" and hex: "list_all is_ascii_hexdigit (drop ?n raw)"
    by (auto simp: from_checked_def checked_def map_ok_eq_Inr split: if_splits)
  have "raw = PREFIX t @ ''_'' @ drop ?n raw"
    using tk append_take_drop_id [of ?n raw] by simp
  moreover have "drop ?n raw \<noteq> []" using len by simp
  ultimately show "v = raw \<and> ?R" using v hex by blast
next
  assume "v = raw \<and> ?R"
  then show ?L
    by (auto simp: from_checked_def checked_def Suc_le_eq not_less)
qed

lemma from_checked_id: "from_checked t raw = Inr v \<Longrightarrow> v = raw"
  by (simp add: from_checked_eq_Inr)

lemma id_derive_bytes_checked: "from_checked t (id_derive_bytes X t bs) = Inr (id_derive_bytes X t bs)"
proof -
  let ?body = "take BODY_HEX_LEN (sha256_hex X bs)"
  have "list_all is_ascii_hexdigit ?body"
    unfolding list_all_iff using hex_lower_chars by (auto simp: sha256_hex_def dest: in_set_takeD)
  moreover have "length ?body = 32"
    by (simp add: BODY_HEX_LEN_def)
  then have "?body \<noteq> []" by (metis list.size(3) zero_neq_numeral)
  ultimately show ?thesis
    unfolding from_checked_eq_Inr by (auto simp: id_derive_bytes_def derive_bytes_def)
qed

lemma id_derive_checked: "from_checked t (id_derive X t parts) = Inr (id_derive X t parts)"
  using id_derive_bytes_checked [of t X "json_strings X parts"]
  by (simp add: id_derive_def id_derive_bytes_def derive_def)

lemma length_id_derive_bytes:
  "length (id_derive_bytes X t bs) = length (PREFIX t) + 33"
  by (simp add: id_derive_bytes_def derive_bytes_def BODY_HEX_LEN_def)

text \<open>Identifier domains are disjoint: a string accepted by one identifier type is refused by all others.\<close>

lemma from_checked_disjoint:
  assumes "from_checked t raw = Inr v" "from_checked t' raw = Inr v'"
  shows "t = t'"
proof -
  from assms obtain b b' where v: "PREFIX t @ CHR ''_'' # b = PREFIX t' @ CHR ''_'' # b'"
    by (auto simp: from_checked_eq_Inr)
  have "split_on (CHR ''_'') (PREFIX t @ CHR ''_'' # b)
      = split_on (CHR ''_'') (PREFIX t' @ CHR ''_'' # b')"
    by (simp only: v)
  then have "PREFIX t = PREFIX t'"
    by (simp add: split_on_delim PREFIX_no_underscore del: split_on.simps)
  then show ?thesis by (rule PREFIX_inject)
qed

lemma is_ascii_hexdigit_alnum: "is_ascii_hexdigit c \<Longrightarrow> is_ascii_alphanumeric c"
  by (auto simp: ascii_defs)

end
