(* ===== verification/Audit_Time.thy ===== *)
theory Audit_Time
  imports Audit_Identifiers
begin

text \<open>
  \<open>crates/audit-core/src/timestamps.rs\<close> (UTC timestamps, RFC 3339 rendering, clocks, time
  ranges) and \<open>pagination.rs\<close> (cursors, page requests, pages).

  A \<open>Timestamp\<close> is its Unix seconds, an \<open>i64\<close>, here an \<^typ>\<open>int\<close> in the range
  \<^const>\<open>in_i64\<close>.  A clock is the instant it reports.  The calendar conversion is checked against
  the day number of the proleptic Gregorian calendar, defined from its leap-year rule and month
  lengths.
\<close>

type_synonym Timestamp = int

section \<open>Calendar conversion\<close>

text \<open>Rust's \<open>/\<close> on signed integers truncates towards zero.\<close>

definition rust_div :: "int \<Rightarrow> int \<Rightarrow> int" where
  "rust_div a b = sgn a * sgn b * (\<bar>a\<bar> div \<bar>b\<bar>)"

definition civil_from_days :: "int \<Rightarrow> int \<times> int \<times> int" where
  "civil_from_days z0 =
     (let z = z0 + 719468;
          era = rust_div (if z \<ge> 0 then z else z - 146096) 146097;
          doe = z - era * 146097;
          yoe = (doe - doe div 1460 + doe div 36524 - doe div 146096) div 365;
          y = yoe + era * 400;
          doy = doe - (365 * yoe + yoe div 4 - yoe div 100);
          mp = (5 * doy + 2) div 153;
          d = doy - (153 * mp + 2) div 5 + 1;
          m = (if mp < 10 then mp + 3 else mp - 9)
      in (if m \<le> 2 then y + 1 else y, m, d))"

text \<open>\<open>div_euclid\<close> and \<open>rem_euclid\<close> by a positive divisor are HOL's \<open>div\<close> and \<open>mod\<close>.\<close>

definition unix_to_civil :: "int \<Rightarrow> int \<times> int \<times> int \<times> int \<times> int \<times> int" where
  "unix_to_civil secs =
     (let days = secs div 86400;
          rm = secs mod 86400;
          (y, mo, d) = civil_from_days days;
          h = rm div 3600;
          mi = (rm mod 3600) div 60;
          s = rm mod 60
      in (y, mo, d, h, mi, s))"

definition to_rfc3339 :: "Timestamp \<Rightarrow> AuditError + string" where
  "to_rfc3339 t =
     (let (y, mo, d, h, mi, s) = unix_to_civil t
      in if \<not> (0 \<le> y \<and> y \<le> 9999)
         then Inl (InvalidTimestamp (show_int t @ '' seconds is outside the RFC 3339 year range''))
         else Inr (pad_zero 4 (show_int y) @ ''-'' @ pad_zero 2 (show_int mo) @ ''-''
                   @ pad_zero 2 (show_int d) @ ''T'' @ pad_zero 2 (show_int h) @ '':''
                   @ pad_zero 2 (show_int mi) @ '':'' @ pad_zero 2 (show_int s) @ ''Z''))"

text \<open>\<open>Display for Timestamp\<close>.\<close>

definition Timestamp_to_string :: "Timestamp \<Rightarrow> string" where
  "Timestamp_to_string t = (case to_rfc3339 t of Inr s \<Rightarrow> s | Inl _ \<Rightarrow> ''unix:'' @ show_int t)"

definition is_at_or_after :: "Timestamp \<Rightarrow> Timestamp \<Rightarrow> bool" where
  "is_at_or_after t other \<longleftrightarrow> t \<ge> other"

section \<open>Time ranges\<close>

record TimeRange =
  tr_start :: "Timestamp option"
  tr_end :: "Timestamp option"

definition TimeRange_all :: TimeRange where
  "TimeRange_all = \<lparr>tr_start = None, tr_end = None\<rparr>"

definition TimeRange_new :: "Timestamp option \<Rightarrow> Timestamp option \<Rightarrow> AuditError + TimeRange" where
  "TimeRange_new start stop =
     (case (start, stop) of
        (Some a, Some b) \<Rightarrow>
          if a > b
          then Inl (InvalidTimestamp
                 (''range start '' @ show_int a @ '' is after range end '' @ show_int b))
          else Inr \<lparr>tr_start = start, tr_end = stop\<rparr>
      | _ \<Rightarrow> Inr \<lparr>tr_start = start, tr_end = stop\<rparr>)"

definition TimeRange_at :: "Timestamp \<Rightarrow> TimeRange" where
  "TimeRange_at instant = \<lparr>tr_start = Some instant, tr_end = Some instant\<rparr>"

definition TimeRange_contains :: "TimeRange \<Rightarrow> Timestamp \<Rightarrow> bool" where
  "TimeRange_contains r t \<longleftrightarrow>
     (case tr_start r of None \<Rightarrow> True | Some s \<Rightarrow> t \<ge> s)
     \<and> (case tr_end r of None \<Rightarrow> True | Some e \<Rightarrow> t \<le> e)"

section \<open>Pagination\<close>

definition MAX_PAGE_SIZE :: nat where
  "MAX_PAGE_SIZE = 1000"

type_synonym Cursor = string

definition cursor_char :: "char \<Rightarrow> bool" where
  "cursor_char c \<longleftrightarrow> is_ascii_alphanumeric c \<or> c \<in> set ''_-.~:/+=|''"

definition Cursor_new :: "string \<Rightarrow> AuditError + Cursor" where
  "Cursor_new raw =
     (if 1 \<le> length raw \<and> length raw \<le> 128 \<and> list_all cursor_char raw
      then Inr raw
      else Inl (InvalidIdentifier ''cursor'' ''must be 1-128 URL-safe printable ASCII chars''))"

record PageRequest =
  pr_limit :: nat
  pr_cursor :: "Cursor option"

definition PageRequest_with_cursor :: "nat \<Rightarrow> Cursor option \<Rightarrow> AuditError + PageRequest" where
  "PageRequest_with_cursor limit c =
     (if \<not> (1 \<le> limit \<and> limit \<le> MAX_PAGE_SIZE)
      then Inl (ValidationFailure (''page limit '' @ show_nat limit @ '' is outside 1..=''
                  @ show_nat MAX_PAGE_SIZE))
      else Inr \<lparr>pr_limit = limit, pr_cursor = c\<rparr>)"

definition PageRequest_new :: "nat \<Rightarrow> AuditError + PageRequest" where
  "PageRequest_new limit = PageRequest_with_cursor limit None"

record 'a Page =
  pg_items :: "'a list"
  pg_next_cursor :: "Cursor option"

definition Page_empty :: "'a Page" where
  "Page_empty = \<lparr>pg_items = [], pg_next_cursor = None\<rparr>"

definition Page_new :: "'a list \<Rightarrow> Cursor option \<Rightarrow> 'a Page" where
  "Page_new items next_cursor = \<lparr>pg_items = items, pg_next_cursor = next_cursor\<rparr>"

definition has_more :: "'a Page \<Rightarrow> bool" where
  "has_more p \<longleftrightarrow> pg_next_cursor p \<noteq> None"

section \<open>The Gregorian calendar as specification\<close>

definition leap :: "int \<Rightarrow> bool" where
  "leap y \<longleftrightarrow> y mod 4 = 0 \<and> (y mod 100 \<noteq> 0 \<or> y mod 400 = 0)"

definition month_length :: "int \<Rightarrow> int \<Rightarrow> int" where
  "month_length y m =
     (if m = 2 then (if leap y then 29 else 28)
      else if m = 4 \<or> m = 6 \<or> m = 9 \<or> m = 11 then 30 else 31)"

definition valid_date :: "int \<Rightarrow> int \<Rightarrow> int \<Rightarrow> bool" where
  "valid_date y m d \<longleftrightarrow> 1 \<le> m \<and> m \<le> 12 \<and> 1 \<le> d \<and> d \<le> month_length y m"

text \<open>
  The day number of a date counted from 1970-01-01: whole years before \<open>y\<close>, whole months before
  \<open>m\<close>, days; 719163 is the day number of 1970-01-01 counted from 0001-01-01.
\<close>

definition day_number :: "int \<Rightarrow> int \<Rightarrow> int \<Rightarrow> int" where
  "day_number y m d =
     365 * (y - 1) + (y - 1) div 4 - (y - 1) div 100 + (y - 1) div 400
     + (\<Sum>k\<leftarrow>[1..m - 1]. month_length y k) + d - 719163"

section \<open>Correctness of the conversion\<close>

text \<open>
  \<open>year_start\<close> is the first day of a year counted from 1 March inside a 400-year era, \<open>yoe_num\<close>
  the numerator of the year-of-era formula.  The formula is monotone in the day, so checking it on
  the first and the last day of each of the 400 years decides it on all 146097 days of the era.
\<close>

definition year_start :: "int \<Rightarrow> int" where
  "year_start y = 365 * y + y div 4 - y div 100"

definition yoe_num :: "int \<Rightarrow> int" where
  "yoe_num doe = doe - doe div 1460 + doe div 36524 - doe div 146096"

lemma div_Suc_step: "0 < k \<Longrightarrow> (n + 1) div k = n div k + (if (n + 1) mod k = 0 then 1 else (0::int))"
proof -
  assume k: "0 < k"
  have "n + 1 = k * (n div k) + (n mod k + 1)" by simp
  then have 1: "(n + 1) div k = n div k + (n mod k + 1) div k" "(n + 1) mod k = (n mod k + 1) mod k"
    using k by (metis div_mult_self4 less_irrefl, metis mod_mult_self4)
  show ?thesis
  proof (cases "n mod k + 1 = k")
    case True with 1 k show ?thesis by simp
  next
    case False
    have "n mod k < k" "0 \<le> n mod k" using k by simp_all
    with False have "0 < n mod k + 1" "n mod k + 1 < k" by auto
    with 1 show ?thesis by simp
  qed
qed

lemma div_step_back: "0 < k \<Longrightarrow> (y::int) div k = (y - 1) div k + (if y mod k = 0 then 1 else 0)"
  using div_Suc_step [of k "y - 1"] by (simp only: diff_add_cancel)

lemma yoe_num_step: "yoe_num n \<le> yoe_num (n + 1)"
proof -
  have "(n + 1) mod 36524 = 0" if "(n + 1) mod 146096 = 0"
    using that dvd_trans [of 36524 146096 "n + 1"] by (simp add: mod_eq_0_iff_dvd)
  then show ?thesis by (simp add: yoe_num_def div_Suc_step)
qed

lemma yoe_num_mono: "a \<le> b \<Longrightarrow> yoe_num a \<le> yoe_num b"
proof (induction b rule: int_ge_induct)
  case base show ?case by simp
next
  case (step i) then show ?case using yoe_num_step [of i] by simp
qed

lemma yoe_ends:
  "list_all (\<lambda>y. yoe_num (year_start y) div 365 = y
     \<and> yoe_num (if y = 399 then 146096 else year_start (y + 1) - 1) div 365 = y) [0..399]"
  by code_simp

definition doy_ok :: "int \<Rightarrow> bool" where
  "doy_ok doy \<longleftrightarrow>
     (let mp = (5 * doy + 2) div 153; d = doy - (153 * mp + 2) div 5 + 1
      in 0 \<le> mp \<and> mp \<le> 11 \<and> 1 \<le> d
       \<and> d \<le> (if mp = 11 then 29 else if mp = 1 \<or> mp = 3 \<or> mp = 6 \<or> mp = 8 then 30 else 31)
       \<and> (mp = 11 \<and> d = 29 \<longleftrightarrow> doy = 365))"

lemma doy_table: "list_all doy_ok [0..365]"
  by code_simp

lemma year_start_step:
  "year_start (y + 1) = year_start y + 365
     + (if (y + 1) mod 4 = 0 then 1 else 0) - (if (y + 1) mod 100 = 0 then 1 else 0)"
  by (simp add: year_start_def div_Suc_step)

lemma find_year:
  assumes "0 \<le> n" "n < year_start (int k)"
  shows "\<exists>y. 0 \<le> y \<and> y < int k \<and> year_start y \<le> n \<and> n < year_start (y + 1)"
  using assms
proof (induction k)
  case 0
  then show ?case by (simp add: year_start_def)
next
  case (Suc k)
  show ?case
  proof (cases "n < year_start (int k)")
    case True
    with Suc obtain y where "0 \<le> y \<and> y < int k \<and> year_start y \<le> n \<and> n < year_start (y + 1)" by blast
    then show ?thesis by auto
  next
    case False
    with Suc.prems show ?thesis by (intro exI [of _ "int k"]) (simp add: add.commute)
  qed
qed

lemma yoe_correct:
  assumes "0 \<le> doe" "doe \<le> 146096"
  defines "yoe \<equiv> yoe_num doe div 365"
  shows "0 \<le> yoe" "yoe \<le> 399" "year_start yoe \<le> doe" "doe < year_start (yoe + 1) \<or> (yoe = 399 \<and> doe = 146096)"
proof -
  have "\<exists>y. 0 \<le> y \<and> y \<le> 399 \<and> year_start y \<le> doe \<and> doe \<le> (if y = 399 then 146096 else year_start (y + 1) - 1)"
  proof (cases "doe = 146096")
    case True
    then show ?thesis by (intro exI [of _ 399]) (simp add: year_start_def)
  next
    case False
    with assms have "doe < year_start (int 400)" by (simp add: year_start_def)
    from find_year [OF assms(1) this] obtain y where
      "0 \<le> y" "y < 400" "year_start y \<le> doe" "doe < year_start (y + 1)" by auto
    with assms(2) show ?thesis by (intro exI [of _ y]) auto
  qed
  then obtain y where y: "0 \<le> y" "y \<le> 399" and lo: "year_start y \<le> doe"
    and hi: "doe \<le> (if y = 399 then 146096 else year_start (y + 1) - 1)" by blast
  from y yoe_ends have ends: "yoe_num (year_start y) div 365 = y"
     "yoe_num (if y = 399 then 146096 else year_start (y + 1) - 1) div 365 = y"
    by (auto simp: list_all_iff)
  have "yoe = y"
    using zdiv_mono1 [OF yoe_num_mono [OF lo], of 365] zdiv_mono1 [OF yoe_num_mono [OF hi], of 365]
    by (simp add: ends yoe_def)
  with y lo hi show "0 \<le> yoe" "yoe \<le> 399" "year_start yoe \<le> doe" "doe < year_start (yoe + 1) \<or> (yoe = 399 \<and> doe = 146096)"
    by (auto simp: year_start_def split: if_splits)
qed

lemma rust_div_era: "rust_div (if z \<ge> 0 then z else z - 146096) 146097 = z div 146097"
proof (cases "z \<ge> 0")
  case True then show ?thesis by (cases "z = 0") (simp_all add: rust_div_def)
next
  case False
  have "(146096 - z) div 146097 = - (z div 146097)"
    using zdiv_zminus1_eq_if [of 146097 "z - 146096"] by simp
  with False show ?thesis by (simp add: rust_div_def)
qed


definition leaps :: "int \<Rightarrow> int" where
  "leaps y = y div 4 - y div 100 + y div 400"

lemma leap_count_arith:
  assumes "a4 = b4 + (if p then 1 else 0)" "a100 = b100 + (if q then 1 else 0)"
    "a400 = b400 + (if r then 1 else 0)" "q \<longrightarrow> p" "r \<longrightarrow> q"
  shows "a4 - a100 + a400 = b4 - b100 + b400 + (if p \<and> (\<not> q \<or> r) then 1 else (0::int))"
  unfolding assms(1-3) using assms(4,5) by (cases p; cases q; cases r; simp)

lemma leaps_step: "leaps y = leaps (y - 1) + (if leap y then 1 else 0)"
  unfolding leaps_def leap_def
proof (rule leap_count_arith)
  show "y mod 100 = 0 \<longrightarrow> y mod 4 = 0"
    using dvd_trans [of 4 100 y] by (simp add: mod_eq_0_iff_dvd)
  show "y mod 400 = 0 \<longrightarrow> y mod 100 = 0"
    using dvd_trans [of 100 400 y] by (simp add: mod_eq_0_iff_dvd)
qed (rule div_step_back, simp)+

lemma day_number_leaps:
  "day_number y m d = 365 * (y - 1) + leaps (y - 1) + (\<Sum>k\<leftarrow>[1..m - 1]. month_length y k) + d - 719163"
  by (simp add: day_number_def leaps_def)

lemma months_from_march:
  assumes "0 \<le> mp" "mp \<le> 9"
  shows "(\<Sum>k\<leftarrow>[1..mp + 2]. month_length y k) = (153 * mp + 2) div 5 + (if leap y then 60 else 59)"
proof -
  from assms have "mp = 0 \<or> mp = 1 \<or> mp = 2 \<or> mp = 3 \<or> mp = 4 \<or> mp = 5 \<or> mp = 6 \<or> mp = 7
      \<or> mp = 8 \<or> mp = 9" by presburger
  then show ?thesis by (elim disjE) (simp_all add: month_length_def upto_rec1)
qed

lemma day_number_march:
  assumes "0 \<le> mp" "mp \<le> 11"
  shows "day_number (if mp < 10 then y else y + 1) (if mp < 10 then mp + 3 else mp - 9) d
       = 365 * y + leaps y + (153 * mp + 2) div 5 + d - 719469"
proof (cases "mp < 10")
  case True
  then have "day_number y (mp + 3) d
     = 365 * (y - 1) + leaps (y - 1) + ((153 * mp + 2) div 5 + (if leap y then 60 else 59)) + d - 719163"
    using months_from_march [of mp y] assms by (simp add: day_number_leaps add.commute)
  with True leaps_step [of y] show ?thesis by simp
next
  case False
  with assms have "mp = 10 \<or> mp = 11" by presburger
  then show ?thesis by (elim disjE) (simp_all add: day_number_leaps month_length_def upto_rec1)
qed

lemma leaps_era: "0 \<le> yoe \<Longrightarrow> yoe \<le> 399 \<Longrightarrow> leaps (yoe + era * 400) = 97 * era + (yoe div 4 - yoe div 100)"
proof -
  assume "0 \<le> yoe" "yoe \<le> 399"
  moreover have "(yoe + era * 400) div 4 = yoe div 4 + era * 100"
     "(yoe + era * 400) div 100 = yoe div 100 + era * 4"
    using div_mult_self1 [of 4 yoe "era * 100"] div_mult_self1 [of 100 yoe "era * 4"] by (simp_all add: algebra_simps)
  ultimately show ?thesis by (simp add: leaps_def)
qed

lemma civil_from_days_correct_aux:
  assumes "civil_from_days z0 = (y, m, d)"
  shows "valid_date y m d" "day_number y m d = z0"
proof -
  define z where "z = z0 + 719468"
  define era where "era = z div 146097"
  define doe where "doe = z - era * 146097"
  define yoe where "yoe = yoe_num doe div 365"
  define doy where "doy = doe - year_start yoe"
  define mp where "mp = (5 * doy + 2) div 153"
  have z: "z = era * 146097 + doe" by (simp add: doe_def)
  have "doe = z mod 146097" by (simp add: doe_def era_def minus_div_mult_eq_mod)
  then have doe: "0 \<le> doe" "doe \<le> 146096" by (simp_all)
  note yoe = yoe_correct [OF doe, folded yoe_def]
  have leap_next: "leap (yoe + era * 400 + 1) \<longleftrightarrow> leap (yoe + 1)"
    using mod_mult_self1 [of "yoe + 1" "era * 100" 4] mod_mult_self1 [of "yoe + 1" "era * 4" 100]
      mod_mult_self1 [of "yoe + 1" era 400] by (simp add: leap_def algebra_simps)
  have doy: "0 \<le> doy" "doy \<le> 365" "doy = 365 \<Longrightarrow> leap (yoe + 1)"
    using yoe(3,4) year_start_step [of yoe]
    by (auto simp: doy_def leap_def year_start_def [of 399] split: if_splits)
  then have "doy_ok doy" using doy_table by (simp add: list_all_iff)
  note T = this [unfolded doy_ok_def Let_def, folded mp_def]
  note tab = T [THEN conjunct1] T [THEN conjunct2, THEN conjunct1]
    T [THEN conjunct2, THEN conjunct2, THEN conjunct1]
    T [THEN conjunct2, THEN conjunct2, THEN conjunct2, THEN conjunct1]
    T [THEN conjunct2, THEN conjunct2, THEN conjunct2, THEN conjunct2]
  have "civil_from_days z0 =
      (if (if mp < 10 then mp + 3 else mp - 9) \<le> 2 then yoe + era * 400 + 1 else yoe + era * 400,
       if mp < 10 then mp + 3 else mp - 9, doy - (153 * mp + 2) div 5 + 1)"
    by (simp only: civil_from_days_def Let_def rust_div_era yoe_num_def year_start_def
        z_def era_def doe_def yoe_def doy_def mp_def)
  with assms tab(1,2) have eq: "y = (if mp < 10 then yoe + era * 400 else yoe + era * 400 + 1)"
    "m = (if mp < 10 then mp + 3 else mp - 9)" "d = doy - (153 * mp + 2) div 5 + 1"
    by (auto split: if_splits)
  show "day_number y m d = z0"
    unfolding eq day_number_march [OF tab(1,2)] leaps_era [OF yoe(1,2)]
    using z by (simp add: z_def doy_def year_start_def algebra_simps)
  show "valid_date y m d"
    using tab doy(3) leap_next unfolding eq by (auto simp: valid_date_def month_length_def)
qed


definition year_day :: "int \<Rightarrow> int" where
  "year_day y = 365 * (y - 1) + leaps (y - 1) - 719162"

lemma year_day_step: "year_day (y + 1) = year_day y + 365 + (if leap y then 1 else 0)"
  using leaps_step [of y] by (simp add: year_day_def)

lemma year_day_mono: "a \<le> b \<Longrightarrow> year_day a \<le> year_day b"
proof (induction b rule: int_ge_induct)
  case (step i)
  then show ?case using year_day_step [of i] by (simp split: if_splits)
qed simp

lemma month_offset:
  assumes "1 \<le> m" "m \<le> 12"
  shows "0 \<le> (\<Sum>k\<leftarrow>[1..m - 1]. month_length y k)"
    and "(\<Sum>k\<leftarrow>[1..m - 1]. month_length y k) + month_length y m \<le> 365 + (if leap y then 1 else 0)"
proof -
  from assms have m: "m = 1 \<or> m = 2 \<or> m = 3 \<or> m = 4 \<or> m = 5 \<or> m = 6 \<or> m = 7
      \<or> m = 8 \<or> m = 9 \<or> m = 10 \<or> m = 11 \<or> m = 12" by presburger
  from m show "0 \<le> (\<Sum>k\<leftarrow>[1..m - 1]. month_length y k)"
    by (elim disjE) (simp_all add: month_length_def upto_rec1)
  from m show "(\<Sum>k\<leftarrow>[1..m - 1]. month_length y k) + month_length y m \<le> 365 + (if leap y then 1 else 0)"
    by (elim disjE) (simp_all add: month_length_def upto_rec1)
qed

lemma year_span:
  assumes "valid_date y m d"
  shows "year_day y \<le> day_number y m d" "day_number y m d < year_day (y + 1)"
proof -
  from assms have m: "1 \<le> m" "m \<le> 12" and d: "1 \<le> d" "d \<le> month_length y m"
    by (simp_all add: valid_date_def)
  have n: "day_number y m d = year_day y + (\<Sum>k\<leftarrow>[1..m - 1]. month_length y k) + d - 1"
    by (simp add: day_number_leaps year_day_def)
  show "year_day y \<le> day_number y m d" "day_number y m d < year_day (y + 1)"
    using n d month_offset [OF m, of y] year_day_step [of y] by linarith+
qed

lemma year_in_range:
  assumes "valid_date y m d"
  shows "a \<le> y \<and> y < b \<longleftrightarrow> year_day a \<le> day_number y m d \<and> day_number y m d < year_day b"
proof -
  note span = year_span [OF assms]
  show ?thesis
    using span year_day_mono [of a y] year_day_mono [of "y + 1" b]
      year_day_mono [of "y + 1" a] year_day_mono [of b y]
    by (cases "a \<le> y"; cases "y < b") auto
qed

lemma civil_from_days_in_i64:
  assumes "in_i64 t"
  shows "in_i64 (t div 86400 + 719468)" "in_i64 (t div 86400 + 719468 - 146096)"
proof -
  have "t div 86400 \<le> (2 ^ 63 - 1) div 86400" "(- (2 ^ 63)) div 86400 \<le> t div 86400"
    using assms by (auto intro!: zdiv_mono1 simp: in_i64_def)
  then show "in_i64 (t div 86400 + 719468)" "in_i64 (t div 86400 + 719468 - 146096)"
    by (simp_all add: in_i64_def)
qed

lemma day_split:
  fixes r :: int
  assumes "0 \<le> r" "r < 86400"
  shows "r div 3600 * 3600 + (r mod 3600) div 60 * 60 + r mod 60 = r"
    "0 \<le> r div 3600" "r div 3600 < 24"
    "0 \<le> (r mod 3600) div 60" "(r mod 3600) div 60 < 60"
proof -
  have "r mod 3600 mod 60 = r mod 60"
    by (rule mod_mod_cancel) simp
  moreover have "r mod 3600 = (r mod 3600) div 60 * 60 + r mod 3600 mod 60"
    "r = r div 3600 * 3600 + r mod 3600" by simp_all
  ultimately show "r div 3600 * 3600 + (r mod 3600) div 60 * 60 + r mod 60 = r" by linarith
qed (use assms in \<open>simp_all add: div_less_iff_less_mult\<close>)

lemma unix_to_civil_spec:
  "case unix_to_civil t of (y, mo, d, h, mi, s) \<Rightarrow>
     valid_date y mo d
     \<and> 0 \<le> h \<and> h < 24 \<and> 0 \<le> mi \<and> mi < 60 \<and> 0 \<le> s \<and> s < 60
     \<and> day_number y mo d * 86400 + h * 3600 + mi * 60 + s = t"
proof -
  obtain y m d where c: "civil_from_days (t div 86400) = (y, m, d)"
    by (cases "civil_from_days (t div 86400)")
  define r where "r = t mod 86400"
  define h where "h = r div 3600"
  define mi where "mi = (r mod 3600) div 60"
  define sc where "sc = r mod 60"
  have r: "0 \<le> r" "r < 86400" by (simp_all add: r_def)
  have u: "unix_to_civil t = (y, m, d, h, mi, sc)"
    by (simp only: unix_to_civil_def c Let_def prod.case r_def h_def mi_def sc_def)
  have "t div 86400 * 86400 + r = t" by (simp add: r_def)
  then have "day_number y m d * 86400 + r = t"
    by (simp only: civil_from_days_correct_aux(2) [OF c])
  moreover have "h * 3600 + mi * 60 + sc = r" "0 \<le> h" "h < 24" "0 \<le> mi" "mi < 60"
    using day_split [OF r] by (simp_all only: h_def mi_def sc_def)
  moreover have "0 \<le> sc" "sc < 60" by (simp_all add: sc_def)
  moreover have "valid_date y m d" by (rule civil_from_days_correct_aux(1) [OF c])
  ultimately show ?thesis unfolding u by simp
qed

text \<open>
  C32: \<open>unix_to_civil\<close> is correct on every timestamp: the date it returns is a valid date of the
  proleptic Gregorian calendar, the time of day is within range, and date and time together
  denote exactly the given number of seconds since 1970-01-01T00:00:00Z.
\<close>

theorem unix_to_civil_correct:
  "case unix_to_civil t of (y, mo, d, h, mi, s) \<Rightarrow>
     valid_date y mo d
     \<and> 0 \<le> h \<and> h < 24 \<and> 0 \<le> mi \<and> mi < 60 \<and> 0 \<le> s \<and> s < 60
     \<and> day_number y mo d * 86400 + h * 3600 + mi * 60 + s = t"
  by (rule unix_to_civil_spec)

lemma year_of_unix_to_civil:
  assumes "unix_to_civil t = (y, mo, d, h, mi, s)"
  shows "0 \<le> y \<and> y \<le> 9999 \<longleftrightarrow> - 62167219200 \<le> t \<and> t \<le> 253402300799"
proof -
  from assms have c: "civil_from_days (t div 86400) = (y, mo, d)"
    by (auto simp: unix_to_civil_def Let_def split: prod.splits)
  note range = year_in_range [OF civil_from_days_correct_aux(1) [OF c], of 0 10000]
  have "year_day 0 = - 719528" "year_day 10000 = 2932897"
    by (simp_all add: year_day_def leaps_def)
  with range civil_from_days_correct_aux(2) [OF c] show ?thesis by auto
qed

lemma length_pad_zero: "length s \<le> w \<Longrightarrow> length (pad_zero w s) = w"
  by (simp add: pad_zero_def)

lemma length_show_int_digits:
  assumes "0 \<le> i" "i < 10 ^ w" "0 < w"
  shows "length (show_int i) \<le> w"
  using assms length_show_nat [of w "nat i"] by (simp add: show_int_def nat_less_iff)

lemma month_length_le: "month_length y m \<le> 31"
  by (simp add: month_length_def)

text \<open>
  \<open>to_rfc3339\<close> renders exactly the instants of the years 0000 to 9999, as a string of 20
  characters, and reports \<open>InvalidTimestamp\<close> on every other instant.
\<close>

lemma to_rfc3339_range:
  "if - 62167219200 \<le> t \<and> t \<le> 253402300799
   then \<exists>s. to_rfc3339 t = Inr s \<and> length s = 20
   else to_rfc3339 t
     = Inl (InvalidTimestamp (show_int t @ '' seconds is outside the RFC 3339 year range''))"
proof -
  obtain y mo d h mi s where c: "unix_to_civil t = (y, mo, d, h, mi, s)"
    by (cases "unix_to_civil t")
  note corr = unix_to_civil_spec [of t, unfolded c prod.case]
  note range = year_of_unix_to_civil [OF c]
  show ?thesis
  proof (cases "0 \<le> y \<and> y \<le> 9999")
    case True
    have "0 \<le> mo" "mo < 10 ^ 2" "0 \<le> d" "d < 10 ^ 2"
      using corr month_length_le [of y mo] by (auto simp: valid_date_def)
    with True corr have "length (show_int y) \<le> 4" "length (show_int mo) \<le> 2"
      "length (show_int d) \<le> 2" "length (show_int h) \<le> 2" "length (show_int mi) \<le> 2"
      "length (show_int s) \<le> 2"
      by (auto intro!: length_show_int_digits)
    with True range show ?thesis
      by (simp add: to_rfc3339_def c length_pad_zero)
  next
    case False
    with range show ?thesis by (auto simp: to_rfc3339_def c)
  qed
qed

end
