(* ===== verification/Audit_Event.thy ===== *)
theory Audit_Event
  imports Audit_Time
begin

text \<open>
  \<open>crates/audit-core/src/correlation.rs\<close> (references), \<open>privacy.rs\<close> (classification) and
  \<open>event.rs\<close> (the normalized event envelope and its invariants).

  A struct is a record whose field names carry the struct's initials; an enum is a datatype with
  the source's variants.  \<open>BTreeMap<String, _>\<close> fields are ordered association lists
  (\<^const>\<open>bt_ok\<close>).
\<close>

section \<open>Correlation references\<close>

datatype DecisionResult = Allowed | Denied | Flagged

fun DecisionResult_as_str :: "DecisionResult \<Rightarrow> string" where
  "DecisionResult_as_str Allowed = ''allowed''"
| "DecisionResult_as_str Denied = ''denied''"
| "DecisionResult_as_str Flagged = ''flagged''"

type_synonym VersionLabel = string

definition VersionLabel_new :: "string \<Rightarrow> AuditError + VersionLabel" where
  "VersionLabel_new raw =
     (if 1 \<le> length raw \<and> length raw \<le> 32
         \<and> (case raw of [] \<Rightarrow> True | c # _ \<Rightarrow> c \<noteq> CHR ''-'')
         \<and> list_all (\<lambda>c. is_ascii_alphanumeric c \<or> c = CHR ''.'' \<or> c = CHR ''_'' \<or> c = CHR ''-'') raw
      then Inr raw
      else Inl (InvalidIdentifier ''version label''
            (''must be 1-32 chars of [0-9A-Za-z._-], not starting with '' @ [CHR 0x27, CHR ''-'', CHR 0x27])))"

record LedgerReference =
  lr_network :: NetworkId
  lr_sequence :: int
  lr_close_time :: "Timestamp option"

definition LedgerReference_new ::
  "NetworkId \<Rightarrow> int \<Rightarrow> Timestamp option \<Rightarrow> AuditError + LedgerReference" where
  "LedgerReference_new network sequence close_time =
     (if sequence < 1
      then Inl (InvalidIdentifier ''ledger sequence''
                  (''sequence '' @ show_int sequence @ '' must be >= 1''))
      else Inr \<lparr>lr_network = network, lr_sequence = sequence, lr_close_time = close_time\<rparr>)"

record TransactionReference =
  txr_network :: NetworkId
  txr_hash :: TransactionHash

record OperationReference =
  opr_transaction :: TransactionReference
  opr_index :: nat
  opr_op_type :: "string option"

definition OperationReference_new ::
  "TransactionReference \<Rightarrow> nat \<Rightarrow> string option \<Rightarrow> AuditError + OperationReference" where
  "OperationReference_new transaction index op_type =
     (if (case op_type of None \<Rightarrow> False
          | Some t \<Rightarrow> \<not> (1 \<le> length t \<and> length t \<le> 64 \<and> list_all is_ascii_graphic t))
      then Inl (InvalidIdentifier ''operation type'' ''must be 1-64 printable ASCII chars'')
      else Inr \<lparr>opr_transaction = transaction, opr_index = index, opr_op_type = op_type\<rparr>)"

record AccountReference =
  acr_network :: NetworkId
  acr_account :: AccountId

definition AccountReference_to_string :: "AccountReference \<Rightarrow> string" where
  "AccountReference_to_string a = acr_network a @ '':'' @ acr_account a"

record ContractReference =
  cor_network :: NetworkId
  cor_contract :: ContractId

definition ContractReference_to_string :: "ContractReference \<Rightarrow> string" where
  "ContractReference_to_string c = cor_network c @ '':'' @ cor_contract c"

record TokenReference =
  tok_network :: NetworkId
  tok_contract :: "ContractId option"
  tok_asset_code :: "string option"
  tok_issuer :: "AccountId option"

definition for_contract :: "NetworkId \<Rightarrow> ContractId \<Rightarrow> TokenReference" where
  "for_contract network contract =
     \<lparr>tok_network = network, tok_contract = Some contract, tok_asset_code = None, tok_issuer = None\<rparr>"

definition for_classic_asset ::
  "NetworkId \<Rightarrow> string \<Rightarrow> AccountId \<Rightarrow> AuditError + TokenReference" where
  "for_classic_asset network asset_code issuer =
     (if \<not> (1 \<le> length asset_code \<and> length asset_code \<le> 12
            \<and> list_all is_ascii_alphanumeric asset_code)
      then Inl (InvalidIdentifier ''asset code'' ''must be 1-12 alphanumeric chars'')
      else Inr \<lparr>tok_network = network, tok_contract = None,
                tok_asset_code = Some asset_code, tok_issuer = Some issuer\<rparr>)"

definition TokenReference_display :: "TokenReference \<Rightarrow> string" where
  "TokenReference_display t =
     (case (tok_contract t, tok_asset_code t) of
        (Some c, _) \<Rightarrow> tok_network t @ '':contract:'' @ c
      | (None, Some code) \<Rightarrow>
          tok_network t @ '':asset:'' @ code @ '':''
            @ (case tok_issuer t of Some i \<Rightarrow> i | None \<Rightarrow> ''unknown'')
      | (None, None) \<Rightarrow> tok_network t @ '':asset:unknown'')"

definition is_sha256_hex :: "string \<Rightarrow> bool" where
  "is_sha256_hex s \<longleftrightarrow>
     length s = 64 \<and> list_all (\<lambda>c. is_ascii_hexdigit c \<and> \<not> is_ascii_uppercase c) s"

record PolicyReference =
  pol_policy :: ContractId
  pol_version :: VersionLabel
  pol_digest :: "string option"

definition PolicyReference_new :: "ContractId \<Rightarrow> VersionLabel \<Rightarrow> PolicyReference" where
  "PolicyReference_new policy version =
     \<lparr>pol_policy = policy, pol_version = version, pol_digest = None\<rparr>"

definition PolicyReference_with_digest ::
  "PolicyReference \<Rightarrow> string option \<Rightarrow> AuditError + PolicyReference" where
  "PolicyReference_with_digest p digest =
     (case digest of
        Some d \<Rightarrow>
          if \<not> is_sha256_hex d
          then Inl (InvalidIdentifier ''policy digest'' ''must be 64 lowercase hex chars'')
          else Inr (p\<lparr>pol_digest := Some d\<rparr>)
      | None \<Rightarrow> Inr p)"

record PolicyDecisionReference =
  pdr_policy :: PolicyReference
  pdr_result :: DecisionResult
  pdr_reason :: "ReasonCode option"
  pdr_decided_at :: "Timestamp option"

definition PolicyDecisionReference_new ::
  "PolicyReference \<Rightarrow> DecisionResult \<Rightarrow> PolicyDecisionReference" where
  "PolicyDecisionReference_new policy result =
     \<lparr>pdr_policy = policy, pdr_result = result, pdr_reason = None, pdr_decided_at = None\<rparr>"

record EnforcementResultReference =
  err_hook :: string
  err_hook_version :: VersionLabel
  err_result :: DecisionResult
  err_reason :: "ReasonCode option"

definition EnforcementResultReference_new ::
  "string \<Rightarrow> VersionLabel \<Rightarrow> DecisionResult \<Rightarrow> AuditError + EnforcementResultReference" where
  "EnforcementResultReference_new hook hook_version result =
     (if \<not> (1 \<le> length hook \<and> length hook \<le> 128 \<and> list_all is_ascii_graphic hook)
      then Inl (InvalidIdentifier ''hook identifier'' ''must be 1-128 printable ASCII chars'')
      else Inr \<lparr>err_hook = hook, err_hook_version = hook_version,
                err_result = result, err_reason = None\<rparr>)"

section \<open>Data classification\<close>

datatype DataClassification =
  Public | Operational | Confidential | Restricted | HighlyRestricted

fun DataClassification_as_str :: "DataClassification \<Rightarrow> string" where
  "DataClassification_as_str Public = ''public''"
| "DataClassification_as_str Operational = ''operational''"
| "DataClassification_as_str Confidential = ''confidential''"
| "DataClassification_as_str Restricted = ''restricted''"
| "DataClassification_as_str HighlyRestricted = ''highly-restricted''"

text \<open>The derived \<open>Ord\<close>: variants in declaration order.\<close>

fun sensitivity :: "DataClassification \<Rightarrow> nat" where
  "sensitivity Public = 0"
| "sensitivity Operational = 1"
| "sensitivity Confidential = 2"
| "sensitivity Restricted = 3"
| "sensitivity HighlyRestricted = 4"

lemma sensitivity_inject [simp]: "sensitivity a = sensitivity b \<longleftrightarrow> a = b"
  by (cases a; cases b) simp_all

instantiation DataClassification :: linorder
begin

definition less_eq_DataClassification :: "DataClassification \<Rightarrow> DataClassification \<Rightarrow> bool" where
  "less_eq_DataClassification a b \<longleftrightarrow> sensitivity a \<le> sensitivity b"

definition less_DataClassification :: "DataClassification \<Rightarrow> DataClassification \<Rightarrow> bool" where
  "less_DataClassification a b \<longleftrightarrow> sensitivity a < sensitivity b"

instance
  by standard (auto simp: less_eq_DataClassification_def less_DataClassification_def)

end

definition is_at_least :: "DataClassification \<Rightarrow> DataClassification \<Rightarrow> bool" where
  "is_at_least a b \<longleftrightarrow> a \<ge> b"

definition is_loggable :: "DataClassification \<Rightarrow> bool" where
  "is_loggable c \<longleftrightarrow> c = Public \<or> c = Operational \<or> c = Confidential"

type_synonym FieldClassifications = "(string \<times> DataClassification) list"

section \<open>Event kinds\<close>

datatype EventKind =
    TransferAuthorized
  | TransferDenied
  | TransferFlagged
  | AccountFrozen
  | AccountUnfrozen
  | TokenBound
  | TokenUnbound
  | ConfigurationChanged
  | EnforcementInitialized
  | ComplianceDecision
  | PolicyVersionChanged
  | AuthorizationChanged
  | AuditAccess
  | InvestigationOpened
  | InvestigationUpdated
  | InvestigationClosed
  | EvidenceGenerated
  | ReportGenerated
  | RecordCorrected

fun EventKind_as_str :: "EventKind \<Rightarrow> string" where
  "EventKind_as_str TransferAuthorized = ''transfer-authorized''"
| "EventKind_as_str TransferDenied = ''transfer-denied''"
| "EventKind_as_str TransferFlagged = ''transfer-flagged''"
| "EventKind_as_str AccountFrozen = ''account-frozen''"
| "EventKind_as_str AccountUnfrozen = ''account-unfrozen''"
| "EventKind_as_str TokenBound = ''token-bound''"
| "EventKind_as_str TokenUnbound = ''token-unbound''"
| "EventKind_as_str ConfigurationChanged = ''configuration-changed''"
| "EventKind_as_str EnforcementInitialized = ''enforcement-initialized''"
| "EventKind_as_str ComplianceDecision = ''compliance-decision''"
| "EventKind_as_str PolicyVersionChanged = ''policy-version-changed''"
| "EventKind_as_str AuthorizationChanged = ''authorization-changed''"
| "EventKind_as_str AuditAccess = ''audit-access''"
| "EventKind_as_str InvestigationOpened = ''investigation-opened''"
| "EventKind_as_str InvestigationUpdated = ''investigation-updated''"
| "EventKind_as_str InvestigationClosed = ''investigation-closed''"
| "EventKind_as_str EvidenceGenerated = ''evidence-generated''"
| "EventKind_as_str ReportGenerated = ''report-generated''"
| "EventKind_as_str RecordCorrected = ''record-corrected''"

definition EventKind_from_wire :: "string \<Rightarrow> EventKind option" where
  "EventKind_from_wire s =
     (if s = ''transfer-authorized'' then Some TransferAuthorized
      else if s = ''transfer-denied'' then Some TransferDenied
      else if s = ''transfer-flagged'' then Some TransferFlagged
      else if s = ''account-frozen'' then Some AccountFrozen
      else if s = ''account-unfrozen'' then Some AccountUnfrozen
      else if s = ''token-bound'' then Some TokenBound
      else if s = ''token-unbound'' then Some TokenUnbound
      else if s = ''configuration-changed'' then Some ConfigurationChanged
      else if s = ''enforcement-initialized'' then Some EnforcementInitialized
      else if s = ''compliance-decision'' then Some ComplianceDecision
      else if s = ''policy-version-changed'' then Some PolicyVersionChanged
      else if s = ''authorization-changed'' then Some AuthorizationChanged
      else if s = ''audit-access'' then Some AuditAccess
      else if s = ''investigation-opened'' then Some InvestigationOpened
      else if s = ''investigation-updated'' then Some InvestigationUpdated
      else if s = ''investigation-closed'' then Some InvestigationClosed
      else if s = ''evidence-generated'' then Some EvidenceGenerated
      else if s = ''report-generated'' then Some ReportGenerated
      else if s = ''record-corrected'' then Some RecordCorrected
      else None)"

definition EventKind_ALL :: "EventKind list" where
  "EventKind_ALL =
     [TransferAuthorized,
      TransferDenied,
      TransferFlagged,
      AccountFrozen,
      AccountUnfrozen,
      TokenBound,
      TokenUnbound,
      ConfigurationChanged,
      EnforcementInitialized,
      ComplianceDecision,
      PolicyVersionChanged,
      AuthorizationChanged,
      AuditAccess,
      InvestigationOpened,
      InvestigationUpdated,
      InvestigationClosed,
      EvidenceGenerated,
      ReportGenerated,
      RecordCorrected]"

section \<open>The event envelope\<close>

datatype OriginKind = OnChain | Derived | Imported | Simulated

record DerivationInfo =
  di_method :: string
  di_source_events :: "EventId list"
  di_note :: string

definition DerivationInfo_new ::
  "string \<Rightarrow> EventId list \<Rightarrow> string \<Rightarrow> AuditError + DerivationInfo" where
  "DerivationInfo_new method source_events note =
     (if method = [] \<or> length method > 64 \<or> \<not> list_all is_ascii_graphic method
      then Inl (InvalidIdentifier ''derivation method'' ''must be 1-64 printable ASCII chars'')
      else if length note > 512
      then Inl (InvalidIdentifier ''derivation note'' ''must be at most 512 chars'')
      else Inr \<lparr>di_method = method, di_source_events = source_events, di_note = note\<rparr>)"

record EventProvenance =
  ep_origin :: OriginKind
  ep_source :: string
  ep_parser_version :: VersionLabel
  ep_derivation :: "DerivationInfo option"

definition EventProvenance_new ::
  "OriginKind \<Rightarrow> string \<Rightarrow> VersionLabel \<Rightarrow> AuditError + EventProvenance" where
  "EventProvenance_new origin source parser_version =
     (if \<not> (1 \<le> length source \<and> length source \<le> 64
            \<and> list_all (\<lambda>c. is_ascii_graphic c \<and> c \<noteq> CHR '' '') source)
      then Inl (InvalidIdentifier ''provenance source''
                  ''must be 1-64 printable ASCII chars without spaces'')
      else Inr \<lparr>ep_origin = origin, ep_source = source,
                ep_parser_version = parser_version, ep_derivation = None\<rparr>)"

definition with_derivation :: "EventProvenance \<Rightarrow> DerivationInfo \<Rightarrow> EventProvenance" where
  "with_derivation p info = p\<lparr>ep_derivation := Some info\<rparr>"

record EventOrder =
  eo_ledger_sequence :: "int option"
  eo_transaction_position :: "nat option"
  eo_operation_index :: "nat option"
  eo_event_index :: "nat option"

definition EventOrder_default :: EventOrder where
  "EventOrder_default = \<lparr>eo_ledger_sequence = None, eo_transaction_position = None,
     eo_operation_index = None, eo_event_index = None\<rparr>"

record AuditEvent =
  ev_event_id :: EventId
  ev_kind :: EventKind
  ev_schema_version :: nat
  ev_network :: NetworkId
  ev_provenance :: EventProvenance
  ev_observed_at :: "Timestamp option"
  ev_order :: EventOrder
  ev_ledger :: "LedgerReference option"
  ev_transaction :: "TransactionReference option"
  ev_operation :: "OperationReference option"
  ev_token :: "TokenReference option"
  ev_actor :: "AccountReference option"
  ev_subject :: "AccountReference option"
  ev_decision :: "PolicyDecisionReference option"
  ev_enforcement :: "EnforcementResultReference option"
  ev_outcome :: "DecisionResult option"
  ev_reason :: "ReasonCode option"
  ev_details :: "(string \<times> string) list"

definition EVENT_SCHEMA_VERSION :: nat where
  "EVENT_SCHEMA_VERSION = 1"

definition AuditEvent_new ::
  "EventId \<Rightarrow> EventKind \<Rightarrow> NetworkId \<Rightarrow> EventProvenance \<Rightarrow> AuditEvent" where
  "AuditEvent_new event_id kind network provenance =
     \<lparr>ev_event_id = event_id, ev_kind = kind, ev_schema_version = EVENT_SCHEMA_VERSION,
      ev_network = network, ev_provenance = provenance, ev_observed_at = None,
      ev_order = EventOrder_default, ev_ledger = None, ev_transaction = None,
      ev_operation = None, ev_token = None, ev_actor = None, ev_subject = None,
      ev_decision = None, ev_enforcement = None, ev_outcome = None, ev_reason = None,
      ev_details = []\<rparr>"

text \<open>The loop over the references that name a network: the first mismatch is the error.\<close>

fun check_networks :: "NetworkId \<Rightarrow> (string \<times> NetworkId option) list \<Rightarrow> AuditError + unit" where
  "check_networks network [] = Inr ()"
| "check_networks network ((label, net) # rest) =
     (case net of
        None \<Rightarrow> check_networks network rest
      | Some n \<Rightarrow>
          if n \<noteq> network
          then Inl (InvalidEvent (label @ '' reference is on network `'' @ n
                      @ ''` but the event is on `'' @ network @ ''`''))
          else check_networks network rest)"

definition network_refs :: "AuditEvent \<Rightarrow> (string \<times> NetworkId option) list" where
  "network_refs e =
     [(''ledger'', map_option lr_network (ev_ledger e)),
      (''transaction'', map_option txr_network (ev_transaction e)),
      (''token'', map_option tok_network (ev_token e)),
      (''actor'', map_option acr_network (ev_actor e)),
      (''subject'', map_option acr_network (ev_subject e))]"

definition AuditEvent_validate :: "AuditEvent \<Rightarrow> AuditError + unit" where
  "AuditEvent_validate e =
     (if ev_schema_version e \<noteq> EVENT_SCHEMA_VERSION
      then Inl (UnsupportedSchema (''event schema version '' @ show_nat (ev_schema_version e)
                  @ '' is not supported (expected '' @ show_nat EVENT_SCHEMA_VERSION @ '')''))
      else if ep_origin (ev_provenance e) = Derived \<and> ep_derivation (ev_provenance e) = None
      then Inl (InvalidEvent ''derived events must carry derivation info'')
      else case check_networks (ev_network e) (network_refs e) of
             Inl err \<Rightarrow> Inl err
           | Inr _ \<Rightarrow>
               (case ev_operation e of
                  None \<Rightarrow> Inr ()
                | Some op \<Rightarrow>
                    (case ev_transaction e of
                       None \<Rightarrow> Inl (InvalidEvent
                                 ''operation reference requires a transaction reference'')
                     | Some tx \<Rightarrow>
                         if opr_transaction op \<noteq> tx
                         then Inl (InvalidEvent
                                ''operation reference must match its transaction reference'')
                         else Inr ())))"

section \<open>Lemmas\<close>

lemma option_if_SomeE:
  assumes "(if s = w then Some x else r) = Some y"
  obtains "s = w" "x = y" | "s \<noteq> w" "r = Some y"
  using assms by (auto split: if_splits)

text \<open>
  The wire names of event kinds round-trip and name nothing else: a string parses to a kind
  exactly when it is that kind's wire name, and the registry \<open>ALL\<close> holds every kind once.
\<close>

lemma EventKind_wire_roundtrip:
  "(EventKind_from_wire s = Some k \<longleftrightarrow> s = EventKind_as_str k)
   \<and> k \<in> set EventKind_ALL \<and> distinct EventKind_ALL"
proof (intro conjI)
  have "EventKind_from_wire (EventKind_as_str k) = Some k"
    by (cases k) (simp_all add: EventKind_from_wire_def)
  moreover have "EventKind_from_wire s = Some k \<Longrightarrow> s = EventKind_as_str k"
    unfolding EventKind_from_wire_def by (elim option_if_SomeE) simp_all
  ultimately show "EventKind_from_wire s = Some k \<longleftrightarrow> s = EventKind_as_str k" by blast
  show "k \<in> set EventKind_ALL" "distinct EventKind_ALL"
    by (cases k; simp add: EventKind_ALL_def) (simp add: EventKind_ALL_def)
qed

lemma check_networks_Inr:
  "check_networks network refs = Inr () \<longleftrightarrow> (\<forall>(l, net) \<in> set refs. net = None \<or> net = Some network)"
  by (induction refs) (auto split: option.splits if_splits)

text \<open>The envelope invariant \<open>validate\<close> enforces.\<close>

definition event_wf :: "AuditEvent \<Rightarrow> bool" where
  "event_wf e \<longleftrightarrow>
     ev_schema_version e = EVENT_SCHEMA_VERSION
     \<and> (ep_origin (ev_provenance e) = Derived \<longrightarrow> ep_derivation (ev_provenance e) \<noteq> None)
     \<and> (\<forall>l. ev_ledger e = Some l \<longrightarrow> lr_network l = ev_network e)
     \<and> (\<forall>t. ev_transaction e = Some t \<longrightarrow> txr_network t = ev_network e)
     \<and> (\<forall>t. ev_token e = Some t \<longrightarrow> tok_network t = ev_network e)
     \<and> (\<forall>a. ev_actor e = Some a \<longrightarrow> acr_network a = ev_network e)
     \<and> (\<forall>a. ev_subject e = Some a \<longrightarrow> acr_network a = ev_network e)
     \<and> (\<forall>op. ev_operation e = Some op \<longrightarrow> ev_transaction e = Some (opr_transaction op))"

lemma AuditEvent_validate_Inr: "AuditEvent_validate e = Inr () \<longleftrightarrow> event_wf e"
  by (auto simp: AuditEvent_validate_def event_wf_def check_networks_Inr network_refs_def
      split: sum.splits option.splits if_splits)

lemma AuditEvent_validate_wf [simp]: "event_wf e \<Longrightarrow> AuditEvent_validate e = Inr ()"
  by (simp add: AuditEvent_validate_Inr)

lemma AuditEvent_validate_InrD [dest]: "AuditEvent_validate e = Inr u \<Longrightarrow> event_wf e"
  by (simp add: AuditEvent_validate_Inr)

lemma AuditEvent_validate_Inl [dest]: "AuditEvent_validate e = Inl err \<Longrightarrow> \<not> event_wf e"
  by (metis AuditEvent_validate_Inr sum.distinct(1))

end
