(* ===== verification/Audit_Record.thy ===== *)
theory Audit_Record
  imports Audit_Event
begin

text \<open>
  \<open>crates/audit-core/src/record.rs\<close> (the persisted record), the digest model of
  \<open>integrity.rs\<close>, and \<open>serialization.rs\<close>.

  \<open>serde_json::to_vec\<close> on an event is the field \<open>json_event\<close> of the extended parameter record; it
  returns the canonical bytes or the message of the serialization error.
\<close>

section \<open>Digests\<close>

record IntegrityDigest =
  dg_algorithm :: string
  dg_value :: string

definition SHA256 :: string where
  "SHA256 = ''sha-256''"

definition IntegrityDigest_sha256 :: "string \<Rightarrow> AuditError + IntegrityDigest" where
  "IntegrityDigest_sha256 raw =
     (if \<not> (length raw = 64
            \<and> list_all (\<lambda>c. is_ascii_hexdigit c \<and> \<not> is_ascii_uppercase c) raw)
      then Inl (InvalidIdentifier ''integrity digest'' ''must be 64 lowercase hex chars'')
      else Inr \<lparr>dg_algorithm = SHA256, dg_value = raw\<rparr>)"

record RecordIntegrity =
  ri_digest :: IntegrityDigest
  ri_prev_digest :: "IntegrityDigest option"
  ri_chained :: bool

section \<open>Records\<close>

record AuditRecord =
  rc_record_id :: RecordId
  rc_event :: AuditEvent
  rc_recorded_at :: Timestamp
  rc_schema_version :: nat
  rc_classification :: DataClassification
  rc_redactions :: FieldClassifications
  rc_supersedes :: "RecordId option"
  rc_correction_reason :: "string option"
  rc_integrity :: "RecordIntegrity option"

record event_ext = hash_ext +
  json_event :: "AuditEvent \<Rightarrow> string + bytes"

definition RECORD_SCHEMA_VERSION :: nat where
  "RECORD_SCHEMA_VERSION = 1"

text \<open>\<open>canonical_json\<close> at the event type: the serializer's failure is a \<open>SerializationFailure\<close>.\<close>

definition event_canonical_bytes :: "('z) event_ext_scheme \<Rightarrow> AuditEvent \<Rightarrow> AuditError + bytes" where
  "event_canonical_bytes X e = map_err SerializationFailure (json_event X e)"

definition from_event :: "('z) event_ext_scheme \<Rightarrow> AuditEvent \<Rightarrow> Timestamp \<Rightarrow> AuditError + AuditRecord" where
  "from_event X event now =
     (case AuditEvent_validate event of
        Inl e \<Rightarrow> Inl e
      | Inr _ \<Rightarrow>
          (case event_canonical_bytes X event of
             Inl e \<Rightarrow> Inl e
           | Inr bs \<Rightarrow>
               Inr \<lparr>rc_record_id = id_derive_bytes X RecordIdT bs, rc_event = event,
                    rc_recorded_at = now, rc_schema_version = RECORD_SCHEMA_VERSION,
                    rc_classification = Confidential, rc_redactions = [],
                    rc_supersedes = None, rc_correction_reason = None, rc_integrity = None\<rparr>))"

definition from_event_classified ::
  "('z) event_ext_scheme \<Rightarrow> AuditEvent \<Rightarrow> DataClassification \<Rightarrow> Timestamp \<Rightarrow> AuditError + AuditRecord" where
  "from_event_classified X event classification now =
     (case from_event X event now of
        Inl e \<Rightarrow> Inl e
      | Inr r \<Rightarrow> Inr (r\<lparr>rc_classification := classification\<rparr>))"

definition correction ::
  "('z) event_ext_scheme \<Rightarrow> AuditRecord \<Rightarrow> string \<Rightarrow> AuditEvent \<Rightarrow> Timestamp \<Rightarrow> AuditError + AuditRecord" where
  "correction X original reason event now =
     (if ev_kind event \<noteq> RecordCorrected
      then Inl (InvalidEvent ''correction records require kind `record-corrected`'')
      else if trim_is_empty reason
      then Inl (ValidationFailure ''correction reason must not be empty'')
      else if length reason > 512
      then Inl (ValidationFailure ''correction reason must be at most 512 chars'')
      else case from_event X event now of
             Inl e \<Rightarrow> Inl e
           | Inr r \<Rightarrow> Inr (r\<lparr>rc_supersedes := Some (rc_record_id original),
                            rc_correction_reason := Some reason\<rparr>))"

definition AuditRecord_validate :: "AuditRecord \<Rightarrow> AuditError + unit" where
  "AuditRecord_validate r =
     (case AuditEvent_validate (rc_event r) of
        Inl e \<Rightarrow> Inl e
      | Inr _ \<Rightarrow>
          if rc_schema_version r \<noteq> RECORD_SCHEMA_VERSION
          then Inl (UnsupportedSchema (''record schema version '' @ show_nat (rc_schema_version r)
                      @ '' is not supported (expected '' @ show_nat RECORD_SCHEMA_VERSION @ '')''))
          else if ev_kind (rc_event r) = RecordCorrected
          then if rc_supersedes r = None
               then Inl (InvalidEvent ''record-corrected events must carry a supersedes link'')
               else if rc_correction_reason r = None
               then Inl (InvalidEvent ''record-corrected events must carry a correction reason'')
               else Inr ()
          else if rc_supersedes r \<noteq> None \<or> rc_correction_reason r \<noteq> None
          then Inl (InvalidEvent ''correction links are only valid on record-corrected events'')
          else Inr ())"

definition rc_event_id :: "AuditRecord \<Rightarrow> EventId" where
  "rc_event_id r = ev_event_id (rc_event r)"

section \<open>Lemmas\<close>

text \<open>The record invariant \<open>validate\<close> enforces.\<close>

definition record_wf :: "AuditRecord \<Rightarrow> bool" where
  "record_wf r \<longleftrightarrow>
     event_wf (rc_event r) \<and> rc_schema_version r = RECORD_SCHEMA_VERSION
     \<and> (if ev_kind (rc_event r) = RecordCorrected
        then rc_supersedes r \<noteq> None \<and> rc_correction_reason r \<noteq> None
        else rc_supersedes r = None \<and> rc_correction_reason r = None)"

lemma AuditRecord_validate_Inr: "AuditRecord_validate r = Inr () \<longleftrightarrow> record_wf r"
proof (cases "event_wf (rc_event r)")
  case True
  then show ?thesis by (simp add: AuditRecord_validate_def record_wf_def)
next
  case False
  then obtain e where "AuditEvent_validate (rc_event r) = Inl e"
    by (cases "AuditEvent_validate (rc_event r)") auto
  with False show ?thesis by (simp add: AuditRecord_validate_def record_wf_def)
qed

lemma AuditRecord_validate_wf [simp]: "record_wf r \<Longrightarrow> AuditRecord_validate r = Inr ()"
  by (simp add: AuditRecord_validate_Inr)

lemma AuditRecord_validate_InrD [dest]: "AuditRecord_validate r = Inr u \<Longrightarrow> record_wf r"
  by (simp add: AuditRecord_validate_Inr)

lemma AuditRecord_validate_Inl [dest]: "AuditRecord_validate r = Inl e \<Longrightarrow> \<not> record_wf r"
  by (auto simp flip: AuditRecord_validate_Inr)

lemma from_event_eq_Inr:
  "from_event X event now = Inr r \<longleftrightarrow>
     event_wf event
     \<and> (\<exists>bs. json_event X event = Inr bs
          \<and> r = \<lparr>rc_record_id = id_derive_bytes X RecordIdT bs, rc_event = event,
                rc_recorded_at = now, rc_schema_version = RECORD_SCHEMA_VERSION,
                rc_classification = Confidential, rc_redactions = [],
                rc_supersedes = None, rc_correction_reason = None, rc_integrity = None\<rparr>)"
  by (cases "AuditEvent_validate event"; cases "json_event X event")
     (auto simp: from_event_def event_canonical_bytes_def)

lemma from_event_fields:
  assumes "from_event X event now = Inr r"
  shows "rc_event r = event" "rc_recorded_at r = now" "rc_event_id r = ev_event_id event"
  using assms by (auto simp: from_event_eq_Inr rc_event_id_def)

text \<open>
  Every record the constructors build passes \<open>validate\<close> except the one constructor misuse the
  source allows: \<open>from_event\<close> on a \<open>record-corrected\<close> event yields a record without correction
  links, which \<open>validate\<close> (and so every store insertion) refuses; \<open>correction\<close> yields a valid
  record that supersedes the original and keeps its reason, and leaves identity to the event.
\<close>

lemma record_constructors_validate:
  "(case from_event X event now of
      Inl e \<Rightarrow> True
    | Inr r \<Rightarrow> (AuditRecord_validate r = Inr () \<longleftrightarrow> ev_kind event \<noteq> RecordCorrected))
   \<and> (case correction X original reason event now of
        Inl e \<Rightarrow> True
      | Inr r \<Rightarrow> AuditRecord_validate r = Inr ()
          \<and> rc_supersedes r = Some (rc_record_id original)
          \<and> rc_correction_reason r = Some reason)"
proof (cases "from_event X event now")
  case (Inl e)
  then show ?thesis by (simp add: correction_def)
next
  case (Inr r)
  then have "event_wf (rc_event r)" "rc_event r = event" "rc_supersedes r = None"
    "rc_correction_reason r = None" "rc_schema_version r = RECORD_SCHEMA_VERSION"
    by (auto simp: from_event_eq_Inr)
  then show ?thesis
    by (simp add: Inr correction_def record_wf_def AuditRecord_validate_Inr)
qed

section \<open>Sample values\<close>

text \<open>Small well-formed events and records on which the theorems of the development are instantiated.\<close>

definition sample_event :: "EventId \<Rightarrow> int option \<Rightarrow> AuditEvent" where
  "sample_event eid ledger =
     (AuditEvent_new eid AccountFrozen ''testnet''
        \<lparr>ep_origin = OnChain, ep_source = ''safeguard-hooks'', ep_parser_version = ''1.0.0'',
         ep_derivation = None\<rparr>)
       \<lparr>ev_order := EventOrder_default\<lparr>eo_ledger_sequence := ledger\<rparr>\<rparr>"

definition sample_record :: "RecordId \<Rightarrow> EventId \<Rightarrow> int option \<Rightarrow> AuditRecord" where
  "sample_record rid eid ledger =
     \<lparr>rc_record_id = rid, rc_event = sample_event eid ledger, rc_recorded_at = 1700000000,
      rc_schema_version = RECORD_SCHEMA_VERSION, rc_classification = Confidential,
      rc_redactions = [], rc_supersedes = None, rc_correction_reason = None, rc_integrity = None\<rparr>"

lemma sample_event_fields [simp]:
  "ev_event_id (sample_event eid l) = eid"
  "ev_kind (sample_event eid l) = AccountFrozen"
  "ev_order (sample_event eid l) = EventOrder_default\<lparr>eo_ledger_sequence := l\<rparr>"
  "event_wf (sample_event eid l)"
  by (simp_all add: sample_event_def AuditEvent_new_def event_wf_def)

lemma sample_record_fields [simp]:
  "rc_record_id (sample_record rid eid l) = rid"
  "rc_event (sample_record rid eid l) = sample_event eid l"
  "rc_event_id (sample_record rid eid l) = eid"
  "rc_recorded_at (sample_record rid eid l) = 1700000000"
  "rc_integrity (sample_record rid eid l) = None"
  "record_wf (sample_record rid eid l)"
  by (simp_all add: sample_record_def rc_event_id_def record_wf_def)

end
