(* ===== verification/Audit_Storage.thy ===== *)
theory Audit_Storage
  imports Audit_Record
begin

text \<open>
  \<open>crates/storage/src\<close>: the store error taxonomy, position keys and their cursor encoding, the
  query model, write batches, and the contract of the append-only store (trait \<open>EventStore\<close>) as a
  locale.
\<close>

section \<open>Store errors\<close>

datatype StoreError =
    NotFound string
  | Duplicate string
  | InvalidCursor string
  | SInvalidQuery string
  | BatchRejected string
  | IntegrityMismatch string
  | Unsupported string
  | SStorageFailure string

fun StoreError_to_string :: "StoreError \<Rightarrow> string" where
  "StoreError_to_string (NotFound d) = ''record not found: '' @ d"
| "StoreError_to_string (Duplicate d) = ''duplicate record: '' @ d"
| "StoreError_to_string (InvalidCursor d) = ''invalid cursor: '' @ d"
| "StoreError_to_string (SInvalidQuery d) = ''invalid query: '' @ d"
| "StoreError_to_string (BatchRejected d) = ''batch rejected: '' @ d"
| "StoreError_to_string (IntegrityMismatch d) = ''integrity mismatch: '' @ d"
| "StoreError_to_string (Unsupported d) = ''unsupported operation: '' @ d"
| "StoreError_to_string (SStorageFailure d) = ''storage failure: '' @ d"

fun from_core :: "AuditError \<Rightarrow> StoreError" where
  "from_core (DuplicateEvent d) = Duplicate d"
| "from_core (InvalidEvent d) = SInvalidQuery d"
| "from_core (IntegrityFailure d) = IntegrityMismatch d"
| "from_core (StorageFailure d) = SStorageFailure d"
| "from_core other = SStorageFailure (AuditError_to_string other)"

section \<open>Position keys\<close>

datatype PositionKey = PositionKey
  (pk_ledger: "int option")
  (pk_operation: "nat option")
  (pk_event: "nat option")
  (pk_recorded_at: int)
  (pk_record_id: RecordId)

fun cmp_unknown_last :: "'a::linorder option \<Rightarrow> 'a option \<Rightarrow> ordering" where
  "cmp_unknown_last (Some x) (Some y) = cmp x y"
| "cmp_unknown_last (Some _) None = Less"
| "cmp_unknown_last None (Some _) = Greater"
| "cmp_unknown_last None None = Equal"

definition PositionKey_cmp :: "PositionKey \<Rightarrow> PositionKey \<Rightarrow> ordering" where
  "PositionKey_cmp a b =
     then_with (cmp_unknown_last (pk_ledger a) (pk_ledger b))
       (then_with (cmp_unknown_last (pk_operation a) (pk_operation b))
          (then_with (cmp_unknown_last (pk_event a) (pk_event b))
             (then_with (cmp (pk_recorded_at a) (pk_recorded_at b))
                (cmp (pk_record_id a) (pk_record_id b)))))"

lemma comparator_unknown_last: "comparator (cmp_unknown_last :: 'a::linorder option \<Rightarrow> _)"
proof
  fix x y z :: "'a option"
  show "cmp_unknown_last x y = Equal \<longleftrightarrow> x = y"
    by (cases x; cases y) simp_all
  show "cmp_unknown_last x y = Greater \<longleftrightarrow> cmp_unknown_last y x = Less"
    by (cases x; cases y) simp_all
  show "cmp_unknown_last x y = Less \<Longrightarrow> cmp_unknown_last y z = Less \<Longrightarrow> cmp_unknown_last x z = Less"
    by (cases x; cases y; cases z) auto
qed

lemma comparator_PositionKey: "comparator PositionKey_cmp"
proof -
  let ?h = "\<lambda>k. (pk_ledger k, pk_operation k, pk_event k, pk_recorded_at k, pk_record_id k)"
  have "comparator (\<lambda>x y. (\<lambda>u v. then_with (cmp_unknown_last (fst u) (fst v))
      (then_with (cmp_unknown_last (fst (snd u)) (fst (snd v)))
        (then_with (cmp_unknown_last (fst (snd (snd u))) (fst (snd (snd v))))
          (then_with (cmp (fst (snd (snd (snd u)))) (fst (snd (snd (snd v)))))
            (cmp (snd (snd (snd (snd u)))) (snd (snd (snd (snd v)))))))))
      (?h x) (?h y))"
    by (rule comparator_inj)
       (auto intro!: comparator_then comparator_unknown_last comparator_cmp simp: PositionKey.expand)
  then show ?thesis
    by (simp add: PositionKey_cmp_def [abs_def])
qed

interpretation pk: comparator PositionKey_cmp
  by (rule comparator_PositionKey)

instantiation PositionKey :: linorder
begin

definition less_eq_PositionKey :: "PositionKey \<Rightarrow> PositionKey \<Rightarrow> bool" where
  "less_eq_PositionKey a b \<longleftrightarrow> PositionKey_cmp a b \<noteq> Greater"

definition less_PositionKey :: "PositionKey \<Rightarrow> PositionKey \<Rightarrow> bool" where
  "less_PositionKey a b \<longleftrightarrow> PositionKey_cmp a b = Less"

instance
proof
  fix x y z :: PositionKey
  show "(x < y) = (x \<le> y \<and> \<not> y \<le> x)"
    using pk.cmp_swap [of x y] pk.cmp_swap [of y x] pk.cmp_asym [of x y]
    by (auto simp: less_eq_PositionKey_def less_PositionKey_def)
  show "x \<le> x"
    by (simp add: less_eq_PositionKey_def pk.cmp_le_iff)
  show "x \<le> y \<Longrightarrow> y \<le> z \<Longrightarrow> x \<le> z"
    by (auto simp: less_eq_PositionKey_def pk.cmp_le_iff dest: pk.cmp_trans)
  show "x \<le> y \<Longrightarrow> y \<le> x \<Longrightarrow> x = y"
    by (auto simp: less_eq_PositionKey_def pk.cmp_le_iff dest: pk.cmp_asym)
  show "x \<le> y \<or> y \<le> x"
    using pk.cmp_cases [of x y] by (auto simp: less_eq_PositionKey_def pk.cmp_le_iff)
qed

end

definition PositionKey_of :: "AuditRecord \<Rightarrow> PositionKey" where
  "PositionKey_of r =
     (let order = ev_order (rc_event r)
      in PositionKey (eo_ledger_sequence order) (eo_operation_index order) (eo_event_index order)
           (rc_recorded_at r) (rc_record_id r))"

text \<open>
  \<open>to_cursor\<close> unwraps \<open>Cursor::new\<close> with \<open>expect\<close>: \<open>None\<close> is that panic.
\<close>

definition cursor_text :: "PositionKey \<Rightarrow> string" where
  "cursor_text k =
     (case pk_ledger k of Some x \<Rightarrow> show_int x | None \<Rightarrow> ''-'') @ ''|'' @
     (case pk_operation k of Some x \<Rightarrow> show_nat x | None \<Rightarrow> ''-'') @ ''|'' @
     (case pk_event k of Some x \<Rightarrow> show_nat x | None \<Rightarrow> ''-'') @ ''|'' @
     show_int (pk_recorded_at k) @ ''|'' @ pk_record_id k"

definition to_cursor :: "PositionKey \<Rightarrow> Cursor option" where
  "to_cursor k = (case Cursor_new (cursor_text k) of Inr c \<Rightarrow> Some c | Inl _ \<Rightarrow> None)"

definition cursor_i64 :: "string \<Rightarrow> string \<Rightarrow> AuditError + int option" where
  "cursor_i64 s name =
     (if s = ''-'' then Inr None
      else case parse_i64 s of
             Some i \<Rightarrow> Inr (Some i)
           | None \<Rightarrow> Inl (InvalidIdentifier ''cursor'' (name @ '' is not an integer'')))"

definition cursor_u32 :: "string \<Rightarrow> string \<Rightarrow> AuditError + nat option" where
  "cursor_u32 s name =
     (if s = ''-'' then Inr None
      else case parse_u32 s of
             Some n \<Rightarrow> Inr (Some n)
           | None \<Rightarrow> Inl (InvalidIdentifier ''cursor'' (name @ '' is not an integer'')))"

definition from_cursor :: "Cursor \<Rightarrow> AuditError + PositionKey" where
  "from_cursor c =
     (case split_on (CHR ''|'') c of
        [p0, p1, p2, p3, p4] \<Rightarrow>
          (case parse_i64 p3 of
             None \<Rightarrow> Inl (InvalidIdentifier ''cursor'' ''recorded_at is not an integer'')
           | Some recorded_at \<Rightarrow>
               (case from_checked RecordIdT p4 of
                  Inl e \<Rightarrow> Inl e
                | Inr record_id \<Rightarrow>
                    (case cursor_i64 p0 ''ledger'' of
                       Inl e \<Rightarrow> Inl e
                     | Inr ledger \<Rightarrow>
                         (case cursor_u32 p1 ''operation'' of
                            Inl e \<Rightarrow> Inl e
                          | Inr operation \<Rightarrow>
                              (case cursor_u32 p2 ''event'' of
                                 Inl e \<Rightarrow> Inl e
                               | Inr event \<Rightarrow>
                                   Inr (PositionKey ledger operation event recorded_at record_id))))))
      | _ \<Rightarrow> Inl (InvalidIdentifier ''cursor'' ''expected 5 position fields''))"

section \<open>Queries\<close>

datatype SortDirection = Ascending | Descending

record AuditQuery =
  q_network :: "NetworkId option"
  q_token :: "TokenReference option"
  q_account :: "string option"
  q_transaction :: "string option"
  q_policy :: "string option"
  q_decision :: "DecisionResult option"
  q_event_kinds :: "EventKind list"
  q_time_range :: "TimeRange option"
  q_sort :: SortDirection

text \<open>The builder has the fields of the query; \<open>build\<close> is its only check.\<close>

type_synonym AuditQueryBuilder = AuditQuery

definition AuditQuery_builder :: AuditQueryBuilder where
  "AuditQuery_builder =
     \<lparr>q_network = None, q_token = None, q_account = None, q_transaction = None, q_policy = None,
      q_decision = None, q_event_kinds = [], q_time_range = None, q_sort = Ascending\<rparr>"

definition query_with_network :: "NetworkId \<Rightarrow> AuditQueryBuilder \<Rightarrow> AuditQueryBuilder" where [simp]:
  "query_with_network network b = b\<lparr>q_network := Some network\<rparr>"

definition query_with_token :: "TokenReference \<Rightarrow> AuditQueryBuilder \<Rightarrow> AuditQueryBuilder" where [simp]:
  "query_with_token token b = b\<lparr>q_token := Some token\<rparr>"

definition query_with_account :: "string \<Rightarrow> AuditQueryBuilder \<Rightarrow> AuditQueryBuilder" where [simp]:
  "query_with_account account b = b\<lparr>q_account := Some account\<rparr>"

definition query_with_transaction :: "string \<Rightarrow> AuditQueryBuilder \<Rightarrow> AuditQueryBuilder" where [simp]:
  "query_with_transaction hash b = b\<lparr>q_transaction := Some hash\<rparr>"

definition query_with_policy :: "string \<Rightarrow> AuditQueryBuilder \<Rightarrow> AuditQueryBuilder" where [simp]:
  "query_with_policy policy b = b\<lparr>q_policy := Some policy\<rparr>"

definition query_with_decision :: "DecisionResult \<Rightarrow> AuditQueryBuilder \<Rightarrow> AuditQueryBuilder" where [simp]:
  "query_with_decision decision b = b\<lparr>q_decision := Some decision\<rparr>"

definition query_with_event_kinds :: "EventKind list \<Rightarrow> AuditQueryBuilder \<Rightarrow> AuditQueryBuilder" where [simp]:
  "query_with_event_kinds kinds b = b\<lparr>q_event_kinds := kinds\<rparr>"

definition query_with_time_range :: "TimeRange \<Rightarrow> AuditQueryBuilder \<Rightarrow> AuditQueryBuilder" where [simp]:
  "query_with_time_range rng b = b\<lparr>q_time_range := Some rng\<rparr>"

definition query_sorted :: "SortDirection \<Rightarrow> AuditQueryBuilder \<Rightarrow> AuditQueryBuilder" where [simp]:
  "query_sorted direction b = b\<lparr>q_sort := direction\<rparr>"

definition AuditQuery_build :: "AuditQueryBuilder \<Rightarrow> AuditError + AuditQuery" where
  "AuditQuery_build b =
     (case (q_network b, q_token b) of
        (Some network, Some token) \<Rightarrow>
          if tok_network token \<noteq> network
          then Inl (InvalidQuery (''token filter is on network `'' @ tok_network token
                      @ ''` but the query is on `'' @ network @ ''`''))
          else Inr b
      | _ \<Rightarrow> Inr b)"

definition matches :: "AuditQuery \<Rightarrow> AuditRecord \<Rightarrow> bool" where
  "matches q r =
     (let event = rc_event r in
      if (case q_network q of Some n \<Rightarrow> ev_network event \<noteq> n | None \<Rightarrow> False) then False
      else if (case q_token q of Some t \<Rightarrow> ev_token event \<noteq> Some t | None \<Rightarrow> False) then False
      else if (case q_account q of
                 Some a \<Rightarrow> \<not> (map_option acr_account (ev_actor event) = Some a
                              \<or> map_option acr_account (ev_subject event) = Some a)
               | None \<Rightarrow> False) then False
      else if (case q_transaction q of
                 Some h \<Rightarrow> \<not> (case ev_transaction event of Some t \<Rightarrow> txr_hash t = h | None \<Rightarrow> False)
               | None \<Rightarrow> False) then False
      else if (case q_policy q of
                 Some p \<Rightarrow> \<not> (case ev_decision event of
                               Some d \<Rightarrow> pol_policy (pdr_policy d) = p | None \<Rightarrow> False)
               | None \<Rightarrow> False) then False
      else if (case q_decision q of
                 Some d \<Rightarrow> \<not> (ev_outcome event = Some d
                              \<or> (case ev_decision event of
                                   Some pd \<Rightarrow> pdr_result pd = d | None \<Rightarrow> False))
               | None \<Rightarrow> False) then False
      else if q_event_kinds q \<noteq> [] \<and> ev_kind event \<notin> set (q_event_kinds q) then False
      else if (case q_time_range q of
                 Some rng \<Rightarrow>
                   \<not> TimeRange_contains rng
                       (case ev_observed_at event of Some t \<Rightarrow> t | None \<Rightarrow> rc_recorded_at r)
               | None \<Rightarrow> False) then False
      else True)"

section \<open>Write batches\<close>

text \<open>A batch is the list of records its constructor accepted.\<close>

type_synonym WriteBatch = "AuditRecord list"

fun WriteBatch_check :: "EventId set \<Rightarrow> RecordId set \<Rightarrow> AuditRecord list \<Rightarrow> AuditError + unit" where
  "WriteBatch_check seen_events seen_records [] = Inr ()"
| "WriteBatch_check seen_events seen_records (r # rs) =
     (case AuditRecord_validate r of
        Inl e \<Rightarrow> Inl e
      | Inr _ \<Rightarrow>
          if rc_event_id r \<in> seen_events
          then Inl (DuplicateEvent (''batch contains duplicate event '' @ rc_event_id r))
          else if rc_record_id r \<in> seen_records
          then Inl (DuplicateEvent (''batch contains duplicate record '' @ rc_record_id r))
          else WriteBatch_check (insert (rc_event_id r) seen_events)
                 (insert (rc_record_id r) seen_records) rs)"

definition WriteBatch_new :: "AuditRecord list \<Rightarrow> AuditError + WriteBatch" where
  "WriteBatch_new records = map_ok (\<lambda>_. records) (WriteBatch_check {} {} records)"

definition WriteBatch_empty :: WriteBatch where [simp]:
  "WriteBatch_empty = []"

definition WriteBatch_len :: "WriteBatch \<Rightarrow> nat" where [simp]:
  "WriteBatch_len b = length b"

definition WriteBatch_is_empty :: "WriteBatch \<Rightarrow> bool" where [simp]:
  "WriteBatch_is_empty b = (b = [])"

record BatchOutcome =
  bo_inserted :: nat
  bo_duplicates :: nat

definition BatchOutcome_describe :: "BatchOutcome \<Rightarrow> string" where
  "BatchOutcome_describe out =
     ''inserted '' @ show_nat (bo_inserted out) @ '', duplicate '' @ show_nat (bo_duplicates out)"

datatype InsertOutcome = Inserted | Duplicate

definition InsertOutcome_changed :: "InsertOutcome \<Rightarrow> bool" where
  "InsertOutcome_changed out = (out = Inserted)"

definition validate_insertable :: "AuditRecord \<Rightarrow> StoreError + unit" where
  "validate_insertable r = map_err from_core (AuditRecord_validate r)"

definition batch_wf :: "WriteBatch \<Rightarrow> bool" where
  "batch_wf rs \<longleftrightarrow>
     (\<forall>r \<in> set rs. record_wf r) \<and> distinct (map rc_event_id rs) \<and> distinct (map rc_record_id rs)"

lemma WriteBatch_check_Inr:
  "WriteBatch_check E R rs = Inr () \<longleftrightarrow>
     batch_wf rs \<and> rc_event_id ` set rs \<inter> E = {} \<and> rc_record_id ` set rs \<inter> R = {}"
proof (induction rs arbitrary: E R)
  case Nil
  then show ?case by (simp add: batch_wf_def)
next
  case (Cons r rs)
  show ?case
  proof (cases "record_wf r")
    case True
    then show ?thesis by (auto simp: batch_wf_def Cons.IH)
  next
    case False
    then obtain e where "AuditRecord_validate r = Inl e"
      by (cases "AuditRecord_validate r") auto
    with False show ?thesis by (simp add: batch_wf_def)
  qed
qed

lemma WriteBatch_new_Inr: "WriteBatch_new rs = Inr b \<longleftrightarrow> b = rs \<and> batch_wf rs"
  by (auto simp: WriteBatch_new_def map_ok_eq_Inr WriteBatch_check_Inr)

section \<open>Cursor round trip\<close>

definition key_ok :: "PositionKey \<Rightarrow> bool" where
  "key_ok k \<longleftrightarrow>
     (\<forall>l. pk_ledger k = Some l \<longrightarrow> in_i64 l)
     \<and> (\<forall>n. pk_operation k = Some n \<longrightarrow> in_u32 n) \<and> (\<forall>n. pk_event k = Some n \<longrightarrow> in_u32 n)
     \<and> in_i64 (pk_recorded_at k) \<and> from_checked RecordIdT (pk_record_id k) = Inr (pk_record_id k)"

lemma digit_not_bar: "is_ascii_digit c \<Longrightarrow> c \<noteq> CHR ''|''"
  by (auto simp: is_ascii_digit_def byte_def)

lemma bar_free:
  "CHR ''|'' \<notin> set (show_nat n)" "CHR ''|'' \<notin> set (show_int i)"
  using digit_not_bar show_nat_digits show_int_chars by force+

lemma record_id_chars:
  assumes "from_checked RecordIdT rid = Inr rid" "c \<in> set rid"
  shows "is_ascii_alphanumeric c \<or> c = CHR ''_''"
proof -
  from assms(1) obtain body where rid: "rid = ''rec_'' @ body"
    and body: "\<forall>c \<in> set body. is_ascii_hexdigit c"
    by (auto simp: from_checked_eq_Inr list_all_iff)
  show ?thesis
  proof (cases "c \<in> set body")
    case True
    with body is_ascii_hexdigit_alnum show ?thesis by blast
  next
    case False
    with assms(2) rid show ?thesis by (auto simp: ascii_defs byte_def)
  qed
qed

lemma from_cursor_text:
  assumes "key_ok k"
  shows "from_cursor (cursor_text k) = Inr k"
proof -
  obtain l o' e t rid where k: "k = PositionKey l o' e t rid" by (cases k)
  let ?f = "\<lambda>v. case v of Some x \<Rightarrow> show_int x | None \<Rightarrow> ''-''"
  let ?g = "\<lambda>v. case v of Some x \<Rightarrow> show_nat x | None \<Rightarrow> ''-''"
  from assms have rid: "from_checked RecordIdT rid = Inr rid" by (simp add: k key_ok_def)
  then have "CHR ''|'' \<notin> set rid"
    using record_id_chars [of rid "CHR ''|''"] by (auto simp: ascii_defs byte_def)
  moreover have "CHR ''|'' \<notin> set (?f l)" "CHR ''|'' \<notin> set (?g o')" "CHR ''|'' \<notin> set (?g e)"
    by (simp_all add: bar_free split: option.split)
  ultimately have "split_on (CHR ''|'') (cursor_text k) = [?f l, ?g o', ?g e, show_int t, rid]"
    by (simp add: cursor_text_def k split_on_delim split_on_no_delim bar_free)
  moreover have "cursor_i64 (?f l) ''ledger'' = Inr l"
    using assms by (auto simp: k key_ok_def cursor_i64_def parse_i64_show_int show_int_neq_dash
        split: option.split)
  moreover have "cursor_u32 (?g o') n = Inr o'" "cursor_u32 (?g e) n = Inr e" for n
    using assms by (auto simp: k key_ok_def cursor_u32_def parse_u32_show_nat show_nat_neq_dash
        split: option.split)
  moreover have "parse_i64 (show_int t) = Some t"
    using assms by (simp add: k key_ok_def parse_i64_show_int)
  ultimately show ?thesis by (simp add: from_cursor_def rid k)
qed

lemma cursor_char_digit: "is_ascii_digit c \<Longrightarrow> cursor_char c"
  by (simp add: cursor_char_def is_ascii_alphanumeric_def)

lemma to_cursor_eq:
  assumes "key_ok k"
  shows "to_cursor k = (if length (cursor_text k) \<le> 128 then Some (cursor_text k) else None)"
proof -
  have "cursor_char c" if "c \<in> set (pk_record_id k)" for c
    using assms record_id_chars [of "pk_record_id k" c] that by (auto simp: key_ok_def cursor_char_def)
  moreover have "cursor_char c" if "c \<in> set (show_nat n)" for c n
    using show_nat_digits [OF that] by (rule cursor_char_digit)
  moreover have "cursor_char c" if "c \<in> set (show_int n)" for c n
    using show_int_chars [OF that] by (auto simp: cursor_char_digit) (simp add: cursor_char_def)
  moreover have "cursor_char (CHR ''|'')" "cursor_char (CHR ''-'')" by (simp_all add: cursor_char_def)
  ultimately have "list_all cursor_char (cursor_text k)"
    by (auto simp: list_all_iff cursor_text_def split: option.splits)
  moreover have "1 \<le> length (cursor_text k)" by (simp add: cursor_text_def)
  ultimately show ?thesis by (simp add: to_cursor_def Cursor_new_def)
qed

lemma length_cursor_text:
  assumes "key_ok k"
  shows "length (cursor_text k) \<le> 64 + length (pk_record_id k)"
proof -
  have "length (case pk_ledger k of Some x \<Rightarrow> show_int x | None \<Rightarrow> ''-'') \<le> 20"
    using assms length_show_i64 by (auto simp: key_ok_def split: option.split)
  moreover have "length (case pk_operation k of Some x \<Rightarrow> show_nat x | None \<Rightarrow> ''-'') \<le> 10"
    "length (case pk_event k of Some x \<Rightarrow> show_nat x | None \<Rightarrow> ''-'') \<le> 10"
    using assms length_show_u32 by (auto simp: key_ok_def split: option.split)
  moreover have "length (show_int (pk_recorded_at k)) \<le> 20"
    using assms by (simp add: key_ok_def length_show_i64)
  ultimately show ?thesis by (simp add: cursor_text_def)
qed

lemma cursor_roundtrip:
  assumes "key_ok k" "length (pk_record_id k) \<le> 64"
  shows "to_cursor k = Some (cursor_text k)" "from_cursor (cursor_text k) = Inr k"
  using to_cursor_eq [OF assms(1)] length_cursor_text [OF assms(1)] assms(2)
    from_cursor_text [OF assms(1)] by simp_all

section \<open>The store contract\<close>

text \<open>
  What a client of \<open>EventStore\<close> relies on: a rejected batch writes nothing; an accepted one adds
  exactly its events, counts new and known records, and writes nothing for a batch that is known
  already; the store's own invariant is kept.  \<open>st_contains\<close> is \<open>contains_event\<close>.
\<close>

locale event_store =
  fixes st_insert_batch :: "'s \<Rightarrow> WriteBatch \<Rightarrow> (StoreError + BatchOutcome) \<times> 's"
    and st_contains :: "'s \<Rightarrow> EventId \<Rightarrow> bool"
    and st_invar :: "'s \<Rightarrow> bool"
  assumes batch_rejected: "st_insert_batch s b = (Inl e, s') \<Longrightarrow> s' = s"
    and batch_contains: "st_invar s \<Longrightarrow> st_insert_batch s b = (Inr out, s') \<Longrightarrow>
          st_contains s' ev \<longleftrightarrow> st_contains s ev \<or> ev \<in> rc_event_id ` set b"
    and batch_inserted: "st_invar s \<Longrightarrow> st_insert_batch s b = (Inr out, s') \<Longrightarrow>
          bo_inserted out = length (filter (\<lambda>r. \<not> st_contains s (rc_event_id r)) b)"
    and batch_duplicates: "st_invar s \<Longrightarrow> st_insert_batch s b = (Inr out, s') \<Longrightarrow>
          bo_duplicates out = length (filter (\<lambda>r. st_contains s (rc_event_id r)) b)"
    and batch_known: "st_invar s \<Longrightarrow> \<forall>r \<in> set b. record_wf r \<and> st_contains s (rc_event_id r) \<Longrightarrow>
          st_insert_batch s b = (Inr \<lparr>bo_inserted = 0, bo_duplicates = length b\<rparr>, s)"
    and batch_invar: "st_invar s \<Longrightarrow> batch_wf b \<Longrightarrow> st_insert_batch s b = (res, s') \<Longrightarrow> st_invar s'"
begin

lemma batch_accounts:
  assumes "st_invar s" "st_insert_batch s b = (Inr out, s')"
  shows "bo_inserted out + bo_duplicates out = length b"
  using batch_inserted [OF assms] batch_duplicates [OF assms]
    sum_length_filter_compl [of "\<lambda>r. st_contains s (rc_event_id r)" b] by simp

lemma batch_monotone:
  assumes "st_invar s" "st_insert_batch s b = (res, s')" "st_contains s ev"
  shows "st_contains s' ev"
proof (cases res)
  case (Inl e)
  with assms batch_rejected show ?thesis by blast
next
  case (Inr out)
  with assms batch_contains show ?thesis by blast
qed

text \<open>Writing the same batch again changes nothing.\<close>

lemma batch_again:
  assumes "st_invar s" "batch_wf b" "st_insert_batch s b = (Inr out, s')"
  shows "st_insert_batch s' b = (Inr \<lparr>bo_inserted = 0, bo_duplicates = length b\<rparr>, s')"
proof (rule batch_known)
  show "st_invar s'" using assms by (rule batch_invar)
  show "\<forall>r \<in> set b. record_wf r \<and> st_contains s' (rc_event_id r)"
    using assms batch_contains [OF assms(1,3)] by (auto simp: batch_wf_def)
qed

end

end
