(* ===== verification/Audit_Memory_Store.thy ===== *)
theory Audit_Memory_Store
  imports Audit_Storage
begin

text \<open>
  \<open>crates/memory-store/src\<close>: the in-memory \<open>EventStore\<close>.  \<open>HashMap\<close> fields are HOL maps, the
  \<open>BTreeMap\<close> history is the ordered entry list.  Mutating methods return the result and the new
  store.  \<open>mem_query\<close> returns \<open>None\<close> where the source panics (\<open>PositionKey::to_cursor\<close>).
\<close>

record MemoryEventStore =
  ms_records :: "(PositionKey \<times> AuditRecord) list"
  ms_by_event :: "EventId \<rightharpoonup> RecordId"
  ms_by_record :: "RecordId \<rightharpoonup> PositionKey"

definition mem_new :: MemoryEventStore where
  "mem_new = \<lparr>ms_records = [], ms_by_event = Map.empty, ms_by_record = Map.empty\<rparr>"

text \<open>The three map insertions shared by \<open>insert\<close> and phase 2 of \<open>insert_batch\<close>.\<close>

definition mem_commit :: "MemoryEventStore \<Rightarrow> AuditRecord \<Rightarrow> MemoryEventStore" where
  "mem_commit s r =
     (let key = PositionKey_of r
      in s\<lparr>ms_records := bt_insert key r (ms_records s),
           ms_by_event := (ms_by_event s)(rc_event_id r \<mapsto> rc_record_id r),
           ms_by_record := (ms_by_record s)(rc_record_id r \<mapsto> key)\<rparr>)"

definition mem_insert ::
  "MemoryEventStore \<Rightarrow> AuditRecord \<Rightarrow> (StoreError + InsertOutcome) \<times> MemoryEventStore" where
  "mem_insert s r =
     (case AuditRecord_validate r of
        Inl e \<Rightarrow> (Inl (from_core e), s)
      | Inr _ \<Rightarrow>
          if ms_by_event s (rc_event_id r) \<noteq> None then (Inr Duplicate, s)
          else (Inr Inserted, mem_commit s r))"

text \<open>Phase 1 of \<open>insert_batch\<close>: the records to insert and the two counters.\<close>

fun mem_plan ::
  "(EventId \<rightharpoonup> RecordId) \<Rightarrow> AuditRecord list \<Rightarrow> AuditRecord list \<Rightarrow> nat \<Rightarrow> nat
     \<Rightarrow> StoreError + AuditRecord list \<times> nat \<times> nat" where
  "mem_plan known [] to_insert inserted duplicates = Inr (to_insert, inserted, duplicates)"
| "mem_plan known (r # rs) to_insert inserted duplicates =
     (case AuditRecord_validate r of
        Inl e \<Rightarrow> Inl (from_core e)
      | Inr _ \<Rightarrow>
          if known (rc_event_id r) \<noteq> None
          then mem_plan known rs to_insert inserted (duplicates + 1)
          else mem_plan known rs (to_insert @ [r]) (inserted + 1) duplicates)"

definition mem_insert_batch ::
  "MemoryEventStore \<Rightarrow> WriteBatch \<Rightarrow> (StoreError + BatchOutcome) \<times> MemoryEventStore" where
  "mem_insert_batch s batch =
     (case mem_plan (ms_by_event s) batch [] 0 0 of
        Inl e \<Rightarrow> (Inl e, s)
      | Inr (to_insert, inserted, duplicates) \<Rightarrow>
          (Inr \<lparr>bo_inserted = inserted, bo_duplicates = duplicates\<rparr>,
           foldl mem_commit s to_insert))"

definition mem_get :: "MemoryEventStore \<Rightarrow> RecordId \<Rightarrow> StoreError + AuditRecord" where
  "mem_get s rid =
     (case ms_by_record s rid of
        None \<Rightarrow> Inl (NotFound (''record '' @ rid))
      | Some key \<Rightarrow>
          (case map_of (ms_records s) key of
             None \<Rightarrow> Inl (NotFound (''record '' @ rid))
           | Some r \<Rightarrow> Inr r))"

definition mem_get_by_event :: "MemoryEventStore \<Rightarrow> EventId \<Rightarrow> StoreError + AuditRecord option" where
  "mem_get_by_event s eid =
     (case ms_by_event s eid of
        Some rid \<Rightarrow> map_ok Some (mem_get s rid)
      | None \<Rightarrow> Inr None)"

definition mem_contains_event :: "MemoryEventStore \<Rightarrow> EventId \<Rightarrow> bool" where
  "mem_contains_event s eid \<longleftrightarrow> ms_by_event s eid \<noteq> None"

definition mem_matched :: "MemoryEventStore \<Rightarrow> AuditQuery \<Rightarrow> AuditRecord list" where
  "mem_matched s q =
     (if q_sort q = Ascending then filter (matches q) (map snd (ms_records s))
      else filter (matches q) (rev (map snd (ms_records s))))"

text \<open>\<open>iter().position(p).unwrap_or(len)\<close>.\<close>

fun position_or_len :: "('a \<Rightarrow> bool) \<Rightarrow> 'a list \<Rightarrow> nat" where
  "position_or_len p [] = 0"
| "position_or_len p (x # xs) = (if p x then 0 else Suc (position_or_len p xs))"

definition past :: "SortDirection \<Rightarrow> PositionKey \<Rightarrow> PositionKey \<Rightarrow> bool" where
  "past dir boundary key \<longleftrightarrow> (if dir = Ascending then key > boundary else key < boundary)"

definition mem_query ::
  "MemoryEventStore \<Rightarrow> AuditQuery \<Rightarrow> PageRequest \<Rightarrow> (StoreError + AuditRecord Page) option" where
  "mem_query s q page =
     (let matched = mem_matched s q;
          start = (case pr_cursor page of
                     None \<Rightarrow> Inr 0
                   | Some c \<Rightarrow>
                       (case from_cursor c of
                          Inl e \<Rightarrow> Inl (InvalidCursor (AuditError_to_string e))
                        | Inr boundary \<Rightarrow>
                            Inr (position_or_len
                                   (\<lambda>r. past (q_sort q) boundary (PositionKey_of r)) matched)))
      in case start of
           Inl e \<Rightarrow> Some (Inl e)
         | Inr st \<Rightarrow>
             (let en = min (st + pr_limit page) (length matched);
                  items = take (en - st) (drop st matched)
              in if en < length matched \<and> en > st
                 then (case to_cursor (PositionKey_of (matched ! (en - 1))) of
                         None \<Rightarrow> None
                       | Some c \<Rightarrow> Some (Inr (Page_new items (Some c))))
                 else Some (Inr (Page_new items None))))"

definition mem_len :: "MemoryEventStore \<Rightarrow> nat" where
  "mem_len s = length (ms_records s)"

definition mem_last_position :: "MemoryEventStore \<Rightarrow> PositionKey option" where
  "mem_last_position s = (if ms_records s = [] then None else Some (fst (last (ms_records s))))"

section \<open>Query helpers\<close>

definition mem_page_request :: "nat \<Rightarrow> StoreError + PageRequest" where
  "mem_page_request limit =
     map_err (\<lambda>e. SInvalidQuery (AuditError_to_string e)) (PageRequest_new limit)"

definition build_query :: "(AuditQueryBuilder \<Rightarrow> AuditQueryBuilder) \<Rightarrow> StoreError + AuditQuery" where
  "build_query f =
     map_err (\<lambda>e. SInvalidQuery (AuditError_to_string e)) (AuditQuery_build (f AuditQuery_builder))"

text \<open>The common shape of \<open>by_account\<close>, \<open>by_transaction\<close> and \<open>denied\<close>.\<close>

definition mem_query_with ::
  "MemoryEventStore \<Rightarrow> (AuditQueryBuilder \<Rightarrow> AuditQueryBuilder) \<Rightarrow> nat
     \<Rightarrow> (StoreError + AuditRecord Page) option" where
  "mem_query_with s f limit =
     (case build_query f of
        Inl e \<Rightarrow> Some (Inl e)
      | Inr q \<Rightarrow>
          (case mem_page_request limit of
             Inl e \<Rightarrow> Some (Inl e)
           | Inr page \<Rightarrow> mem_query s q page))"

definition by_account :: "MemoryEventStore \<Rightarrow> string \<Rightarrow> nat \<Rightarrow> (StoreError + AuditRecord Page) option" where
  "by_account s account limit =
     mem_query_with s (query_with_account account) limit"

definition by_transaction :: "MemoryEventStore \<Rightarrow> string \<Rightarrow> nat \<Rightarrow> (StoreError + AuditRecord Page) option" where
  "by_transaction s hash limit =
     mem_query_with s (query_with_transaction hash) limit"

definition denied :: "MemoryEventStore \<Rightarrow> nat \<Rightarrow> (StoreError + AuditRecord Page) option" where
  "denied s limit = mem_query_with s (query_with_decision Denied) limit"

section \<open>The store invariant\<close>

definition mem_inv :: "MemoryEventStore \<Rightarrow> bool" where
  "mem_inv s \<longleftrightarrow>
     bt_ok (ms_records s)
     \<and> (\<forall>(k, r) \<in> set (ms_records s). k = PositionKey_of r \<and> record_wf r
          \<and> ms_by_event s (rc_event_id r) \<noteq> None \<and> ms_by_record s (rc_record_id r) \<noteq> None)
     \<and> (\<forall>rid k. ms_by_record s rid = Some k \<longrightarrow>
          (\<exists>r. map_of (ms_records s) k = Some r \<and> rc_record_id r = rid))
     \<and> (\<forall>e rid. ms_by_event s e = Some rid \<longrightarrow> ms_by_record s rid \<noteq> None)"

lemma mem_inv_new [simp]: "mem_inv mem_new"
  by (simp add: mem_inv_def mem_new_def)

lemma PositionKey_of_record_id [simp]: "pk_record_id (PositionKey_of r) = rc_record_id r"
  by (simp add: PositionKey_of_def Let_def)

lemma mem_commit_fields [simp]:
  "ms_records (mem_commit s r) = bt_insert (PositionKey_of r) r (ms_records s)"
  "ms_by_event (mem_commit s r) = (ms_by_event s)(rc_event_id r \<mapsto> rc_record_id r)"
  "ms_by_record (mem_commit s r) = (ms_by_record s)(rc_record_id r \<mapsto> PositionKey_of r)"
  by (simp_all add: mem_commit_def Let_def)

lemma mem_inv_ok: "mem_inv s \<Longrightarrow> bt_ok (ms_records s)"
  by (simp add: mem_inv_def)

lemma mem_inv_entry:
  assumes "mem_inv s" "(k, r) \<in> set (ms_records s)"
  shows "k = PositionKey_of r" "record_wf r" "ms_by_event s (rc_event_id r) \<noteq> None"
    "ms_by_record s (rc_record_id r) \<noteq> None"
proof -
  from assms have "case (k, r) of (k, r) \<Rightarrow> k = PositionKey_of r \<and> record_wf r
      \<and> ms_by_event s (rc_event_id r) \<noteq> None \<and> ms_by_record s (rc_record_id r) \<noteq> None"
    unfolding mem_inv_def by blast
  then show "k = PositionKey_of r" "record_wf r" "ms_by_event s (rc_event_id r) \<noteq> None"
    "ms_by_record s (rc_record_id r) \<noteq> None" by simp_all
qed

lemma mem_inv_by_record:
  assumes "mem_inv s" "ms_by_record s rid = Some k"
  obtains r where "map_of (ms_records s) k = Some r" "rc_record_id r = rid" "k = PositionKey_of r"
proof -
  from assms obtain r where r: "map_of (ms_records s) k = Some r" "rc_record_id r = rid"
    unfolding mem_inv_def by blast
  moreover from r(1) have "k = PositionKey_of r"
    using mem_inv_entry(1) [OF assms(1)] map_of_SomeD by fast
  ultimately show ?thesis by (rule that)
qed

lemma mem_inv_by_event: "mem_inv s \<Longrightarrow> ms_by_event s e = Some rid \<Longrightarrow> ms_by_record s rid \<noteq> None"
  unfolding mem_inv_def by blast

lemma mem_inv_commit:
  assumes inv: "mem_inv s" and wf: "record_wf r"
  shows "mem_inv (mem_commit s r)"
proof -
  let ?k = "PositionKey_of r"
  note new = map_of_bt_insert [OF mem_inv_ok [OF inv], of ?k r]
  have "\<exists>r'. map_of (bt_insert ?k r (ms_records s)) k = Some r' \<and> rc_record_id r' = rid"
    if "((ms_by_record s)(rc_record_id r \<mapsto> ?k)) rid = Some k" for rid k
  proof (cases "rid = rc_record_id r")
    case True
    with that have "k = ?k" by simp
    with True show ?thesis unfolding new by simp
  next
    case False
    with that obtain r' where r': "map_of (ms_records s) k = Some r'" "rc_record_id r' = rid"
      "k = PositionKey_of r'"
      using mem_inv_by_record [OF inv] by (metis fun_upd_other)
    with False have "k \<noteq> ?k" by (metis PositionKey_of_record_id)
    with r' show ?thesis unfolding new by simp
  qed
  moreover have "set (bt_insert ?k r (ms_records s)) \<subseteq> insert (?k, r) (set (ms_records s))"
    by (rule set_bt_insert_subset)
  ultimately show ?thesis
    using inv wf mem_inv_ok [OF inv] by (fastforce simp: mem_inv_def)
qed

lemma mem_inv_insert: "mem_inv s \<Longrightarrow> mem_inv (snd (mem_insert s r))"
  by (auto simp: mem_insert_def mem_inv_commit split: sum.split)

text \<open>\<open>InsertOutcome::changed\<close> tells exactly whether the store is another one.\<close>

lemma mem_insert_changed:
  assumes "mem_insert s r = (Inr out, s')"
  shows "InsertOutcome_changed out \<longleftrightarrow> s' \<noteq> s"
proof (cases "mem_contains_event s (rc_event_id r)")
  case False
  then have "mem_commit s r \<noteq> s"
    by (metis mem_commit_fields(2) mem_contains_event_def fun_upd_same option.distinct(1))
  with False assms show ?thesis
    by (auto simp: mem_insert_def InsertOutcome_changed_def split: sum.splits if_splits)
qed (use assms in \<open>auto simp: mem_insert_def mem_contains_event_def InsertOutcome_changed_def split: sum.splits if_splits\<close>)

lemma mem_plan_Inr:
  "mem_plan known rs ti i d = Inr res \<longleftrightarrow>
     (\<forall>r \<in> set rs. record_wf r)
     \<and> res = (ti @ filter (\<lambda>r. known (rc_event_id r) = None) rs,
              i + length (filter (\<lambda>r. known (rc_event_id r) = None) rs),
              d + length (filter (\<lambda>r. known (rc_event_id r) \<noteq> None) rs))"
proof (induction rs arbitrary: ti i d)
  case Nil
  then show ?case by auto
next
  case (Cons r rs)
  show ?case
  proof (cases "record_wf r")
    case True
    then show ?thesis by (simp add: Cons.IH)
  next
    case False
    then obtain e where "AuditRecord_validate r = Inl e"
      by (cases "AuditRecord_validate r") auto
    with False show ?thesis by simp
  qed
qed

lemma mem_plan_wf:
  "\<forall>r \<in> set rs. record_wf r \<Longrightarrow>
     mem_plan known rs [] 0 0
     = Inr (filter (\<lambda>r. known (rc_event_id r) = None) rs,
            length (filter (\<lambda>r. known (rc_event_id r) = None) rs),
            length (filter (\<lambda>r. known (rc_event_id r) \<noteq> None) rs))"
  by (simp add: mem_plan_Inr)

lemma mem_insert_batch_Inr:
  "mem_insert_batch s b = (Inr out, s') \<longleftrightarrow>
     (\<forall>r \<in> set b. record_wf r)
     \<and> out = \<lparr>bo_inserted = length (filter (\<lambda>r. \<not> mem_contains_event s (rc_event_id r)) b),
              bo_duplicates = length (filter (\<lambda>r. mem_contains_event s (rc_event_id r)) b)\<rparr>
     \<and> s' = foldl mem_commit s (filter (\<lambda>r. \<not> mem_contains_event s (rc_event_id r)) b)"
proof (cases "\<forall>r \<in> set b. record_wf r")
  case True
  then show ?thesis
    by (auto simp: mem_insert_batch_def mem_contains_event_def mem_plan_wf)
next
  case False
  then have "mem_plan (ms_by_event s) b [] 0 0 \<noteq> Inr res" for res
    by (simp add: mem_plan_Inr)
  with False show ?thesis
    by (cases "mem_plan (ms_by_event s) b [] 0 0") (auto simp: mem_insert_batch_def)
qed

lemma mem_insert_batch_Inl: "mem_insert_batch s b = (Inl e, s') \<Longrightarrow> s' = s"
  by (auto simp: mem_insert_batch_def split: sum.splits)

lemma mem_contains_commit [simp]:
  "mem_contains_event (mem_commit s r) e \<longleftrightarrow> e = rc_event_id r \<or> mem_contains_event s e"
  by (simp add: mem_contains_event_def)

lemma mem_contains_foldl_commit [simp]:
  "mem_contains_event (foldl mem_commit s rs) e \<longleftrightarrow>
     mem_contains_event s e \<or> e \<in> rc_event_id ` set rs"
  by (induction rs arbitrary: s) auto

lemma mem_inv_foldl_commit:
  "mem_inv s \<Longrightarrow> \<forall>r \<in> set rs. record_wf r \<Longrightarrow> mem_inv (foldl mem_commit s rs)"
  by (induction rs arbitrary: s) (auto simp: mem_inv_commit)

lemma mem_inv_insert_batch: "mem_inv s \<Longrightarrow> mem_insert_batch s b = (res, s') \<Longrightarrow> mem_inv s'"
  by (cases res) (auto simp: mem_insert_batch_Inr mem_inv_foldl_commit dest: mem_insert_batch_Inl)

text \<open>The memory store fulfils the store contract.\<close>

interpretation mem: event_store mem_insert_batch mem_contains_event mem_inv
proof
  fix s s' b out ev res e
  show "mem_insert_batch s b = (Inl e, s') \<Longrightarrow> s' = s"
    by (rule mem_insert_batch_Inl)
  show "mem_contains_event s' ev \<longleftrightarrow> mem_contains_event s ev \<or> ev \<in> rc_event_id ` set b"
    if "mem_insert_batch s b = (Inr out, s')"
    using that by (auto simp: mem_insert_batch_Inr)
  show "bo_inserted out = length (filter (\<lambda>r. \<not> mem_contains_event s (rc_event_id r)) b)"
    "bo_duplicates out = length (filter (\<lambda>r. mem_contains_event s (rc_event_id r)) b)"
    if "mem_insert_batch s b = (Inr out, s')"
    using that by (simp_all add: mem_insert_batch_Inr)
  show "mem_insert_batch s b = (Inr \<lparr>bo_inserted = 0, bo_duplicates = length b\<rparr>, s)"
    if "\<forall>r \<in> set b. record_wf r \<and> mem_contains_event s (rc_event_id r)"
    using that by (simp add: mem_insert_batch_Inr filter_empty_conv filter_id_conv)
  show "mem_inv s \<Longrightarrow> mem_insert_batch s b = (res, s') \<Longrightarrow> mem_inv s'"
    by (rule mem_inv_insert_batch)
qed

section \<open>Lookups and the append-only history\<close>

text \<open>
  The abstract content of the store: the record each event id maps to.
\<close>

definition mem_history :: "MemoryEventStore \<Rightarrow> EventId \<rightharpoonup> AuditRecord" where
  "mem_history s e = (case mem_get_by_event s e of Inr x \<Rightarrow> x | Inl _ \<Rightarrow> None)"

definition history_insert :: "(EventId \<rightharpoonup> AuditRecord) \<Rightarrow> AuditRecord \<Rightarrow> (EventId \<rightharpoonup> AuditRecord)" where
  "history_insert h r =
     (if record_wf r \<and> h (rc_event_id r) = None then h(rc_event_id r \<mapsto> r) else h)"

lemma mem_get_by_event_total:
  assumes "mem_inv s"
  shows "mem_get_by_event s e = Inr (mem_history s e)"
    and "mem_history s e = None \<longleftrightarrow> \<not> mem_contains_event s e"
proof -
  have "mem_get_by_event s e = Inr (mem_history s e)
      \<and> (mem_history s e = None \<longleftrightarrow> \<not> mem_contains_event s e)"
  proof (cases "ms_by_event s e")
    case None
    then show ?thesis by (simp add: mem_history_def mem_get_by_event_def mem_contains_event_def)
  next
    case (Some rid)
    with assms obtain k where k: "ms_by_record s rid = Some k"
      using mem_inv_by_event by blast
    with assms obtain r where "map_of (ms_records s) k = Some r"
      by (rule mem_inv_by_record)
    with Some k show ?thesis
      by (simp add: mem_history_def mem_get_by_event_def mem_get_def mem_contains_event_def)
  qed
  then show "mem_get_by_event s e = Inr (mem_history s e)"
    "mem_history s e = None \<longleftrightarrow> \<not> mem_contains_event s e" by simp_all
qed

text \<open>A record id unknown to the store makes the commit a genuine append.\<close>

lemma fresh_key:
  assumes "mem_inv s" "ms_by_record s (rc_record_id r) = None"
  shows "PositionKey_of r \<notin> fst ` set (ms_records s)"
proof
  assume "PositionKey_of r \<in> fst ` set (ms_records s)"
  then obtain r' where "(PositionKey_of r, r') \<in> set (ms_records s)" by auto
  note e = mem_inv_entry [OF assms(1) this]
  from e(1) have "rc_record_id r' = rc_record_id r" by (metis PositionKey_of_record_id)
  with e(4) assms(2) show False by simp
qed

lemma mem_commit_get_any:
  assumes "mem_inv s"
  shows "mem_get (mem_commit s r) rid = (if rid = rc_record_id r then Inr r else mem_get s rid)"
proof (cases "rid = rc_record_id r")
  case True
  then show ?thesis
    using map_of_bt_insert [OF mem_inv_ok [OF assms], of "PositionKey_of r" r]
    by (simp add: mem_get_def)
next
  case False
  have "k \<noteq> PositionKey_of r" if "ms_by_record s rid = Some k" for k
    using mem_inv_by_record [OF assms that] False by (metis PositionKey_of_record_id)
  with False show ?thesis
    using map_of_bt_insert [OF mem_inv_ok [OF assms], of "PositionKey_of r" r]
    by (auto simp: mem_get_def split: option.split)
qed

lemma mem_commit_get:
  assumes "mem_inv s" "ms_by_record s (rc_record_id r) = None"
  shows "mem_get (mem_commit s r) rid = (if rid = rc_record_id r then Inr r else mem_get s rid)"
  by (rule mem_commit_get_any [OF assms(1)])

text \<open>In general a commit puts the record under its event and under every event kept under the same record id.\<close>

lemma mem_commit_history_any:
  assumes "mem_inv s"
  shows "mem_history (mem_commit s r) =
    (\<lambda>e. if ms_by_event s e = Some (rc_record_id r) then Some r else mem_history s e)(rc_event_id r \<mapsto> r)"
proof
  fix e
  show "mem_history (mem_commit s r) e =
    ((\<lambda>e. if ms_by_event s e = Some (rc_record_id r) then Some r else mem_history s e)(rc_event_id r \<mapsto> r)) e"
    by (auto simp: mem_history_def mem_get_by_event_def mem_commit_get_any [OF assms] split: option.split sum.split)
qed

lemma mem_commit_history:
  assumes "mem_inv s" "ms_by_record s (rc_record_id r) = None"
  shows "mem_history (mem_commit s r) = (mem_history s)(rc_event_id r \<mapsto> r)"
proof -
  have "ms_by_event s e \<noteq> Some (rc_record_id r)" for e
    using mem_inv_by_event [OF assms(1), of e "rc_record_id r"] assms(2) by auto
  then show ?thesis by (simp add: mem_commit_history_any [OF assms(1)])
qed

lemma mem_insert_wf:
  "record_wf r \<Longrightarrow> mem_insert s r =
     (if mem_contains_event s (rc_event_id r) then (Inr Duplicate, s)
      else (Inr Inserted, mem_commit s r))"
  by (simp add: mem_insert_def mem_contains_event_def)

lemma mem_insert_not_wf:
  assumes "\<not> record_wf r"
  obtains e where "mem_insert s r = (Inl (from_core e), s)" "AuditRecord_validate r = Inl e"
  using assms by (cases "AuditRecord_validate r") (auto simp: mem_insert_def)

lemma mem_insert_history:
  assumes "mem_inv s" "ms_by_record s (rc_record_id r) = None \<or> mem_contains_event s (rc_event_id r)"
  shows "mem_history (snd (mem_insert s r)) = history_insert (mem_history s) r"
proof (cases "record_wf r")
  case True
  then show ?thesis
    using assms(2) mem_get_by_event_total(2) [OF assms(1)] mem_commit_history [OF assms(1), of r]
    by (auto simp: mem_insert_wf history_insert_def)
next
  case False
  then show ?thesis
    by (auto simp: history_insert_def elim: mem_insert_not_wf [of r s])
qed

lemma mem_commit_len:
  assumes "mem_inv s" "ms_by_record s (rc_record_id r) = None"
  shows "mem_len (mem_commit s r) = Suc (mem_len s)"
  using bt_insert_fresh(2) [OF fresh_key [OF assms]] by (simp add: mem_len_def)

text \<open>Batches are sequences of single insertions.\<close>

lemma batch_as_inserts:
  assumes "\<forall>r \<in> set b. record_wf r" "distinct (map rc_event_id b)"
  shows "foldl mem_commit s (filter (\<lambda>r. \<not> mem_contains_event s (rc_event_id r)) b)
       = foldl (\<lambda>s r. snd (mem_insert s r)) s b"
  using assms
proof (induction b arbitrary: s)
  case (Cons r b)
  let ?s = "snd (mem_insert s r)"
  have "filter (\<lambda>x. \<not> mem_contains_event ?s (rc_event_id x)) b
      = filter (\<lambda>x. \<not> mem_contains_event s (rc_event_id x)) b"
  proof (rule filter_cong [OF refl])
    fix x
    assume "x \<in> set b"
    with Cons.prems(2) have "rc_event_id x \<noteq> rc_event_id r" by (auto simp: image_iff dest: sym)
    with Cons.prems(1) show "(\<not> mem_contains_event ?s (rc_event_id x)) = (\<not> mem_contains_event s (rc_event_id x))"
      by (simp add: mem_insert_wf)
  qed
  with Cons.IH [of ?s] Cons.prems show ?case
    by (cases "mem_contains_event s (rc_event_id r)") (simp_all add: mem_insert_wf)
qed simp

section \<open>Pages\<close>

lemma sorted_matched:
  assumes "mem_inv s"
  shows "sorted_wrt (\<lambda>a b. past (q_sort q) (PositionKey_of a) (PositionKey_of b)) (mem_matched s q)"
proof -
  have keys: "map fst (ms_records s) = map PositionKey_of (map snd (ms_records s))"
    using mem_inv_entry(1) [OF assms] by (auto intro!: map_cong)
  have "sorted_wrt (\<lambda>a b. PositionKey_of a < PositionKey_of b) (map snd (ms_records s))"
    using mem_inv_ok [OF assms] unfolding bt_ok_def keys by (simp only: sorted_wrt_map)
  then show ?thesis
    by (auto simp: mem_matched_def past_def sorted_wrt_rev intro!: sorted_wrt_filter)
qed

lemma drop_position_or_len:
  "sorted_wrt (\<lambda>a b. P a \<longrightarrow> P b) xs \<Longrightarrow> drop (position_or_len P xs) xs = filter P xs"
proof (induction xs)
  case (Cons x xs)
  show ?case
  proof (cases "P x")
    case True
    with Cons.prems have "\<forall>y \<in> set xs. P y" by simp
    with True show ?thesis by (simp add: filter_id_conv)
  next
    case False
    with Cons show ?thesis by simp
  qed
qed simp

lemma position_or_len_le: "position_or_len P xs \<le> length xs"
  by (induction xs) auto

lemma filter_after_nth:
  assumes "sorted_wrt R xs" "\<And>a b. R a b \<Longrightarrow> \<not> R b a" "i < length xs"
  shows "filter (R (xs ! i)) xs = drop (Suc i) xs"
proof -
  have "\<not> R (xs ! i) x" if "x \<in> set (take (Suc i) xs)" for x
  proof -
    from that obtain j where "j \<le> i" "x = xs ! j"
      using assms(3) by (auto simp: in_set_conv_nth less_Suc_eq_le)
    then show ?thesis
      using assms sorted_wrt_nth_less [OF assms(1), of j i] by (cases "j = i") auto
  qed
  moreover have "R (xs ! i) x" if "x \<in> set (drop (Suc i) xs)" for x
  proof -
    from that obtain j where "j < length xs - Suc i" "x = xs ! Suc (i + j)"
      by (auto simp: in_set_conv_nth)
    then show ?thesis using sorted_wrt_nth_less [OF assms(1), of i "Suc (i + j)"] by simp
  qed
  ultimately have "filter (R (xs ! i)) (take (Suc i) xs @ drop (Suc i) xs) = drop (Suc i) xs"
    unfolding filter_append by (simp add: filter_empty_conv filter_id_conv)
  then show ?thesis by simp
qed

text \<open>
  The records a request may serve: all matches without a cursor, the matches past the boundary
  with one.
\<close>

definition page_rest :: "MemoryEventStore \<Rightarrow> AuditQuery \<Rightarrow> PositionKey option \<Rightarrow> AuditRecord list" where
  "page_rest s q bd =
     (case bd of None \<Rightarrow> mem_matched s q
      | Some k \<Rightarrow> filter (\<lambda>r. past (q_sort q) k (PositionKey_of r)) (mem_matched s q))"

definition boundary :: "Cursor option \<Rightarrow> AuditError + PositionKey option" where
  "boundary c = (case c of None \<Rightarrow> Inr None | Some c \<Rightarrow> map_ok Some (from_cursor c))"

lemma past_trans: "past dir a b \<Longrightarrow> past dir b c \<Longrightarrow> past dir a c"
  by (auto simp: past_def split: if_splits)

lemma past_asym: "past dir a b \<Longrightarrow> \<not> past dir b a"
  by (auto simp: past_def split: if_splits)

lemma mem_query_eq:
  fixes q :: AuditQuery
  assumes inv: "mem_inv s" and limit: "0 < pr_limit p" and bd: "boundary (pr_cursor p) = Inr bd"
  defines "rest \<equiv> page_rest s q bd"
  shows "mem_query s q p =
     (if length rest > pr_limit p
      then (case to_cursor (PositionKey_of (rest ! (pr_limit p - 1))) of
              None \<Rightarrow> None
            | Some c \<Rightarrow> Some (Inr (Page_new (take (pr_limit p) rest) (Some c))))
      else Some (Inr (Page_new rest None)))"
proof -
  let ?m = "mem_matched s q"
  obtain st where st: "st \<le> length ?m" "rest = drop st ?m"
    and q: "mem_query s q p =
      (let en = min (st + pr_limit p) (length ?m); items = take (en - st) (drop st ?m)
       in if en < length ?m \<and> en > st
          then (case to_cursor (PositionKey_of (?m ! (en - 1))) of
                  None \<Rightarrow> None | Some c \<Rightarrow> Some (Inr (Page_new items (Some c))))
          else Some (Inr (Page_new items None)))"
  proof (cases "pr_cursor p")
    case None
    with bd have "bd = None" by (simp add: boundary_def)
    with None show ?thesis
      by (intro that [of 0]) (simp_all add: mem_query_def rest_def page_rest_def Let_def)
  next
    case (Some c)
    with bd obtain k where k: "from_cursor c = Inr k" "bd = Some k"
      by (auto simp: boundary_def map_ok_eq_Inr)
    let ?P = "\<lambda>r. past (q_sort q) k (PositionKey_of r)"
    have "sorted_wrt (\<lambda>a b. ?P a \<longrightarrow> ?P b) ?m"
      using sorted_matched [OF inv] by (rule sorted_wrt_mono_rel [rotated]) (auto dest: past_trans)
    then have "drop (position_or_len ?P ?m) ?m = filter ?P ?m"
      by (rule drop_position_or_len)
    then have drp: "rest = drop (position_or_len ?P ?m) ?m"
      using k by (simp add: rest_def page_rest_def)
    show ?thesis
    proof (rule that [OF position_or_len_le drp])
      show "mem_query s q p =
        (let en = min (position_or_len ?P ?m + pr_limit p) (length ?m);
             items = take (en - position_or_len ?P ?m) (drop (position_or_len ?P ?m) ?m)
         in if en < length ?m \<and> en > position_or_len ?P ?m
            then (case to_cursor (PositionKey_of (?m ! (en - 1))) of
                    None \<Rightarrow> None | Some c \<Rightarrow> Some (Inr (Page_new items (Some c))))
            else Some (Inr (Page_new items None)))"
        by (simp only: mem_query_def Some k option.case sum.case Let_def)
    qed
  qed
  show ?thesis
  proof (cases "length rest > pr_limit p")
    case True
    then have en: "min (st + pr_limit p) (length ?m) = st + pr_limit p"
      and lt: "st + pr_limit p < length ?m" using st by auto
    have "?m ! (st + pr_limit p - 1) = rest ! (pr_limit p - 1)" using st lt limit by simp
    with True en lt st limit show ?thesis by (simp add: q Let_def split: option.split)
  next
    case False
    then have "min (st + pr_limit p) (length ?m) = length ?m" using st by simp
    with False show ?thesis using st by (simp add: q Let_def)
  qed
qed

text \<open>
  Following the cursors: ask for a page, append it, go on with its cursor until a page has none.
  \<open>None\<close> is a panic, an error, or running out of the given number of requests.
\<close>

fun drain :: "nat \<Rightarrow> MemoryEventStore \<Rightarrow> AuditQuery \<Rightarrow> nat \<Rightarrow> Cursor option \<Rightarrow> AuditRecord list option" where
  "drain 0 s q limit c = None"
| "drain (Suc n) s q limit c =
     (case mem_query s q \<lparr>pr_limit = limit, pr_cursor = c\<rparr> of
        Some (Inr page) \<Rightarrow>
          (case pg_next_cursor page of
             None \<Rightarrow> Some (pg_items page)
           | Some c' \<Rightarrow> map_option ((@) (pg_items page)) (drain n s q limit (Some c')))
      | _ \<Rightarrow> None)"

definition mem_keys_ok :: "MemoryEventStore \<Rightarrow> bool" where
  "mem_keys_ok s \<longleftrightarrow>
     (\<forall>(k, r) \<in> set (ms_records s). key_ok k \<and> length (rc_record_id r) \<le> 64)"

lemma matched_key_ok:
  assumes "mem_inv s" "mem_keys_ok s" "r \<in> set (mem_matched s q)"
  shows "key_ok (PositionKey_of r)" "length (rc_record_id r) \<le> 64"
proof -
  from assms(3) obtain k where k: "(k, r) \<in> set (ms_records s)"
    by (auto simp: mem_matched_def split: if_splits)
  with mem_inv_entry(1) [OF assms(1)] have "k = PositionKey_of r" by blast
  with k assms(2) show "key_ok (PositionKey_of r)" "length (rc_record_id r) \<le> 64"
    by (auto simp: mem_keys_ok_def)
qed

lemma page_rest_after:
  assumes "mem_inv s" "n + l \<le> length (mem_matched s q)" "0 < l"
  shows "page_rest s q (Some (PositionKey_of (drop n (mem_matched s q) ! (l - 1))))
       = drop (n + l) (mem_matched s q)"
proof -
  let ?m = "mem_matched s q" and ?R = "\<lambda>a b. past (q_sort q) (PositionKey_of a) (PositionKey_of b)"
  have "filter (?R (?m ! (n + l - 1))) ?m = drop (Suc (n + l - 1)) ?m"
    using assms sorted_matched [OF assms(1), of q] past_asym by (intro filter_after_nth) auto
  moreover have "drop n ?m ! (l - 1) = ?m ! (n + l - 1)" using assms by simp
  ultimately show ?thesis using assms(3) by (simp add: page_rest_def)
qed

lemma drain_drop:
  assumes inv: "mem_inv s" "mem_keys_ok s" and limit: "0 < limit"
    and n: "n \<le> length (mem_matched s q)" and bd: "boundary c = Inr bd"
    and rest: "page_rest s q bd = drop n (mem_matched s q)"
    and fuel: "length (mem_matched s q) - n < fuel"
  shows "drain fuel s q limit c = Some (drop n (mem_matched s q))"
  using n bd rest fuel
proof (induction fuel arbitrary: n c bd)
  case (Suc fuel)
  let ?m = "mem_matched s q" and ?p = "\<lparr>pr_limit = limit, pr_cursor = c\<rparr>"
  note eq = mem_query_eq [OF inv(1), of ?p bd q, simplified, OF limit Suc.prems(2), unfolded Suc.prems(3)]
  show ?case
  proof (cases "length (drop n ?m) > limit")
    case False
    then show ?thesis by (simp add: eq Page_new_def)
  next
    case True
    let ?r = "drop n ?m ! (limit - Suc 0)"
    have "limit - Suc 0 < length (drop n ?m)" using True by simp
    then have "?r \<in> set ?m" by (meson nth_mem in_set_dropD)
    note ok = matched_key_ok [OF inv this]
    have cur: "to_cursor (PositionKey_of ?r) = Some (cursor_text (PositionKey_of ?r))"
      "boundary (Some (cursor_text (PositionKey_of ?r))) = Inr (Some (PositionKey_of ?r))"
      using cursor_roundtrip [OF ok(1)] ok(2) by (simp_all add: boundary_def)
    have "drain fuel s q limit (Some (cursor_text (PositionKey_of ?r))) = Some (drop (n + limit) ?m)"
    proof (rule Suc.IH)
      show "n + limit \<le> length ?m" "length ?m - (n + limit) < fuel"
        using True limit Suc.prems(4) by auto
      show "boundary (Some (cursor_text (PositionKey_of ?r))) = Inr (Some (PositionKey_of ?r))"
        by (rule cur(2))
      show "page_rest s q (Some (PositionKey_of ?r)) = drop (n + limit) ?m"
        using True page_rest_after [OF inv(1) _ limit, of n q] by simp
    qed
    moreover have "take limit (drop n ?m) @ drop (n + limit) ?m = drop n ?m"
      by (metis append_take_drop_id drop_drop add.commute)
    ultimately show ?thesis
      using True by (simp add: eq cur(1) Page_new_def del: nth_drop split: option.split)
  qed
qed simp

section \<open>Reachable stores\<close>

inductive mem_reach :: "MemoryEventStore \<Rightarrow> bool" where
  start: "mem_reach mem_new"
| insert: "mem_reach s \<Longrightarrow> mem_reach (snd (mem_insert s r))"
| insert_batch: "mem_reach s \<Longrightarrow> mem_reach (snd (mem_insert_batch s b))"

lemma mem_reach_inv: "mem_reach s \<Longrightarrow> mem_inv s"
proof (induction rule: mem_reach.induct)
  case (insert_batch s b)
  then show ?case
    by (cases "mem_insert_batch s b") (auto dest: mem_inv_insert_batch)
qed (simp_all add: mem_inv_insert)

text \<open>
  In every store reachable from the empty one by \<open>insert\<close> and \<open>insert_batch\<close> (of any records,
  accepted or refused) the history is ordered by position key, every stored record is valid, and
  the two indexes never dangle: \<open>get_by_event\<close> never fails, and finds a record exactly for the
  events \<open>contains_event\<close> reports.
\<close>

lemma mem_reachable_consistent:
  assumes "mem_reach s"
  shows "mem_inv s \<and> (\<exists>h. mem_get_by_event s e = Inr h \<and> (h = None \<longleftrightarrow> \<not> mem_contains_event s e))"
  using mem_get_by_event_total [OF mem_reach_inv [OF assms], of e] mem_reach_inv [OF assms] by simp

text \<open>
  C1: what \<open>insert\<close> does to the history, the map from event ids to records, of any consistent store.  If the
  record's id is not in use, or its event is known, \<open>insert\<close> refines appending to an append-only history: the
  map gains exactly the new record, no earlier record changes, and a known event or an invalid record leaves
  everything as it was.  A valid record of a new event under a record id in use is not appended: it replaces
  what the store holds under that id, for every event kept under it, and is reported as inserted.  The
  outcome tells inserted, duplicate and refused apart.
\<close>

theorem mem_insert_refines_append:
  assumes "mem_inv s"
  shows "mem_history (snd (mem_insert s r)) =
      (if ms_by_record s (rc_record_id r) = None \<or> mem_contains_event s (rc_event_id r) \<or> \<not> record_wf r
       then history_insert (mem_history s) r
       else (\<lambda>e. if ms_by_event s e = Some (rc_record_id r) then Some r else mem_history s e)(rc_event_id r \<mapsto> r))
    \<and> (fst (mem_insert s r) = Inr Inserted \<longleftrightarrow> record_wf r \<and> mem_history s (rc_event_id r) = None)
    \<and> (fst (mem_insert s r) = Inr Duplicate \<longleftrightarrow> record_wf r \<and> mem_history s (rc_event_id r) \<noteq> None)
    \<and> (fst (mem_insert s r) \<noteq> Inr Inserted \<longrightarrow> snd (mem_insert s r) = s)"
proof (cases "record_wf r")
  case True
  then show ?thesis
    using mem_insert_history [OF assms, of r] mem_get_by_event_total(2) [OF assms] mem_commit_history_any [OF assms, of r]
    by (simp add: mem_insert_wf)
next
  case False
  then show ?thesis by (auto simp: history_insert_def elim: mem_insert_not_wf [of r s])
qed

theorem mem_insert_refines_append_witness:
  "mem_history (snd (mem_insert mem_new (sample_record ''rec_a1'' ''evt_a1'' None)))
   = history_insert (mem_history mem_new) (sample_record ''rec_a1'' ''evt_a1'' None)
   \<and> mem_history (snd (mem_insert (mem_commit mem_new (sample_record ''rec_a1'' ''evt_a1'' None))
         (sample_record ''rec_a1'' ''evt_b1'' None))) ''evt_a1'' = Some (sample_record ''rec_a1'' ''evt_b1'' None)"
proof (intro conjI)
  show "mem_history (snd (mem_insert mem_new (sample_record ''rec_a1'' ''evt_a1'' None)))
      = history_insert (mem_history mem_new) (sample_record ''rec_a1'' ''evt_a1'' None)"
    using mem_insert_refines_append [of mem_new "sample_record ''rec_a1'' ''evt_a1'' None"]
    by (simp add: mem_new_def mem_inv_def)
  let ?s = "mem_commit mem_new (sample_record ''rec_a1'' ''evt_a1'' None)"
  have "mem_inv ?s" by (intro mem_inv_commit mem_inv_new) simp_all
  note h = mem_insert_refines_append [OF this, of "sample_record ''rec_a1'' ''evt_b1'' None", THEN conjunct1]
  show "mem_history (snd (mem_insert ?s (sample_record ''rec_a1'' ''evt_b1'' None))) ''evt_a1''
      = Some (sample_record ''rec_a1'' ''evt_b1'' None)"
    unfolding h by (simp add: mem_new_def mem_contains_event_def)
qed

text \<open>
  A batch that passed \<open>WriteBatch::new\<close> is never refused by the memory store, has exactly the
  effect of inserting its records one after the other, accounts for every record, and writing the
  same batch a second time changes nothing and reports only duplicates.
\<close>

lemma mem_batch_is_inserts:
  assumes "mem_inv s" and "WriteBatch_new rs = Inr b"
  shows "\<exists>out s'. mem_insert_batch s b = (Inr out, s')
    \<and> s' = foldl (\<lambda>s r. snd (mem_insert s r)) s rs
    \<and> bo_inserted out + bo_duplicates out = length rs
    \<and> mem_insert_batch s' b = (Inr \<lparr>bo_inserted = 0, bo_duplicates = length rs\<rparr>, s')"
proof -
  from assms(2) have b: "b = rs" "batch_wf rs" by (simp_all add: WriteBatch_new_Inr)
  then obtain out s' where r: "mem_insert_batch s b = (Inr out, s')"
    by (auto simp: batch_wf_def mem_insert_batch_Inr)
  with b have "s' = foldl (\<lambda>s r. snd (mem_insert s r)) s rs"
    using batch_as_inserts [of rs s] by (simp add: mem_insert_batch_Inr batch_wf_def)
  then show ?thesis
    using r b mem.batch_accounts [OF assms(1) r] mem.batch_again [OF assms(1) _ r] by auto
qed

text \<open>
  What one page holds.  In either direction, a request serves the first \<open>limit\<close> matching
  records strictly past the boundary its cursor encodes (all matches without a cursor), in history
  order; it carries a cursor exactly when more matches remain, and that cursor decodes to the key
  of the last record served.  The answer depends on the boundary key only, so a cursor stays valid
  while the store grows.
\<close>

lemma mem_query_serves_page:
  assumes "mem_inv s" "mem_keys_ok s" "PageRequest_with_cursor limit c = Inr p"
    and "boundary c = Inr bd"
  shows "\<exists>next. mem_query s q p = Some (Inr (Page_new (take limit (page_rest s q bd)) next))
    \<and> (next = None \<longleftrightarrow> length (page_rest s q bd) \<le> limit)
    \<and> (\<forall>c'. next = Some c' \<longrightarrow>
          from_cursor c' = Inr (PositionKey_of (page_rest s q bd ! (limit - 1))))"
proof -
  from assms(3) have p: "pr_limit p = limit" "pr_cursor p = c" "0 < limit"
    by (auto simp: PageRequest_with_cursor_def split: if_splits)
  let ?rest = "page_rest s q bd"
  note eq = mem_query_eq [OF assms(1), of p bd q, unfolded p, OF p(3) assms(4)]
  show ?thesis
  proof (cases "length ?rest > limit")
    case True
    with p(3) have "?rest ! (limit - 1) \<in> set ?rest" by (intro nth_mem) simp
    then have "?rest ! (limit - 1) \<in> set (mem_matched s q)"
      by (auto simp: page_rest_def split: option.splits)
    note ok = matched_key_ok [OF assms(1,2) this]
    note rt = cursor_roundtrip [OF ok(1)]
    have "to_cursor (PositionKey_of (?rest ! (limit - 1)))
        = Some (cursor_text (PositionKey_of (?rest ! (limit - 1))))"
      "from_cursor (cursor_text (PositionKey_of (?rest ! (limit - 1))))
        = Inr (PositionKey_of (?rest ! (limit - 1)))"
      using rt ok(2) by simp_all
    with True show ?thesis unfolding eq by auto
  next
    case False
    then show ?thesis unfolding eq by auto
  qed
qed

text \<open>
  The query helpers on a consistent store: the first \<open>limit\<close> matching records, with a cursor exactly
  when there are more.  What matches is the dimension the helper names and nothing else.
\<close>

lemma mem_query_with_serves:
  assumes "mem_inv s" "mem_keys_ok s" "0 < limit" "limit \<le> MAX_PAGE_SIZE" "build_query f = Inr q"
  shows "\<exists>next. mem_query_with s f limit = Some (Inr (Page_new (take limit (mem_matched s q)) next))
    \<and> (next = None \<longleftrightarrow> length (mem_matched s q) \<le> limit)"
proof -
  have "PageRequest_with_cursor limit None = Inr \<lparr>pr_limit = limit, pr_cursor = None\<rparr>"
    "mem_page_request limit = Inr \<lparr>pr_limit = limit, pr_cursor = None\<rparr>"
    using assms(3,4) by (simp_all add: PageRequest_with_cursor_def mem_page_request_def PageRequest_new_def)
  then show ?thesis
    using mem_query_serves_page [OF assms(1,2), of limit None _ None q] assms(5)
    by (auto simp: mem_query_with_def boundary_def page_rest_def)
qed

lemma query_helpers_serve:
  assumes "mem_inv s" "mem_keys_ok s" "0 < limit" "limit \<le> MAX_PAGE_SIZE"
  defines "serves \<equiv> \<lambda>p P. \<exists>next. p = Some (Inr (Page_new (take limit (filter P (map snd (ms_records s)))) next))
    \<and> (next = None \<longleftrightarrow> length (filter P (map snd (ms_records s))) \<le> limit)"
  shows "serves (by_account s a limit)
      (\<lambda>r. map_option acr_account (ev_actor (rc_event r)) = Some a
        \<or> map_option acr_account (ev_subject (rc_event r)) = Some a)"
    and "serves (by_transaction s h limit)
      (\<lambda>r. map_option txr_hash (ev_transaction (rc_event r)) = Some h)"
    and "serves (denied s limit)
      (\<lambda>r. ev_outcome (rc_event r) = Some Denied
        \<or> map_option pdr_result (ev_decision (rc_event r)) = Some Denied)"
proof -
  have serves: "serves (mem_query_with s f limit) P"
    if "build_query f = Inr q" "q_sort q = Ascending" "\<And>r. matches q r = P r" for f q P
  proof -
    from that(3) have "matches q = P" by (rule ext)
    with mem_query_with_serves [OF assms(1-4) that(1)] that(2) show ?thesis
      by (simp add: serves_def mem_matched_def)
  qed
  note simps = build_query_def AuditQuery_build_def AuditQuery_builder_def matches_def Let_def
  show "serves (by_account s a limit)
      (\<lambda>r. map_option acr_account (ev_actor (rc_event r)) = Some a
        \<or> map_option acr_account (ev_subject (rc_event r)) = Some a)"
    unfolding by_account_def by (rule serves [of _ "query_with_account a AuditQuery_builder"])
       (auto simp: simps)
  show "serves (by_transaction s h limit)
      (\<lambda>r. map_option txr_hash (ev_transaction (rc_event r)) = Some h)"
    unfolding by_transaction_def by (rule serves [of _ "query_with_transaction h AuditQuery_builder"])
       (auto simp: simps split: option.splits)
  show "serves (denied s limit)
      (\<lambda>r. ev_outcome (rc_event r) = Some Denied
        \<or> map_option pdr_result (ev_decision (rc_event r)) = Some Denied)"
    unfolding denied_def by (rule serves [of _ "query_with_decision Denied AuditQuery_builder"])
       (auto simp: simps split: option.splits)
qed

text \<open>A one-record store for the witnesses of the paging theorems.\<close>

definition sample_store :: MemoryEventStore where
  "sample_store = snd (mem_insert mem_new (sample_record ''rec_a1'' ''evt_a1'' (Some 7)))"

lemma sample_store_ok: "mem_inv sample_store" "mem_keys_ok sample_store"
  by (simp_all add: sample_store_def mem_inv_insert)
     (simp add: mem_insert_wf mem_keys_ok_def key_ok_def mem_contains_event_def mem_new_def
        PositionKey_of_def in_i64_def in_u32_def EventOrder_default_def from_checked_eq_Inr
        ascii_defs byte_def)

text \<open>
  C14: following the cursors of a query from its first page returns every matching record exactly
  once, in history order (ascending or descending), whatever the page size, within at most one
  request more than there are matches, and without a panic.  This is for a consistent store whose
  position keys are in the range of their types and whose record ids have at most 64 characters, as every
  derived id has.  The store also accepts longer ids, and a page panics that ends, with more matches to
  come, on a record whose id does not fit a cursor.
\<close>

theorem mem_pagination_complete:
  assumes "mem_inv s" "mem_keys_ok s" "0 < limit"
  shows "drain (Suc (length (mem_matched s q))) s q limit None = Some (mem_matched s q)
    \<and> distinct (mem_matched s q)"
proof
  show "drain (Suc (length (mem_matched s q))) s q limit None = Some (mem_matched s q)"
    using drain_drop [OF assms, of 0 q None None "Suc (length (mem_matched s q))"]
    by (simp add: boundary_def page_rest_def del: drain.simps)
  have "sorted_wrt (\<lambda>a b. a \<noteq> b) (mem_matched s q)"
    using sorted_matched [OF assms(1)] by (rule sorted_wrt_mono_rel [rotated]) (auto dest: past_asym)
  then show "distinct (mem_matched s q)" by (rule sorted_wrt_neq_distinct)
qed

theorem mem_pagination_complete_witness:
  "drain (Suc (length (mem_matched sample_store AuditQuery_builder))) sample_store
     AuditQuery_builder 1 None
   = Some (mem_matched sample_store AuditQuery_builder)"
  using mem_pagination_complete [OF sample_store_ok, of 1 AuditQuery_builder] by simp

text \<open>
  \<open>last_position\<close> is the greatest position key of the history, and it is \<open>None\<close> exactly for the
  empty store.
\<close>

lemma mem_last_position_is_greatest:
  assumes "mem_inv s"
  shows "mem_last_position s =
    (if mem_len s = 0 then None else Some (Max (set (map fst (ms_records s)))))"
proof (cases "ms_records s = []")
  case False
  then have "fst (last (ms_records s)) = Max (set (map fst (ms_records s)))"
    using assms bt_last_Max [of "ms_records s"] by (simp add: mem_inv_def)
  with False show ?thesis by (simp add: mem_last_position_def mem_len_def)
qed (simp add: mem_last_position_def mem_len_def)

text \<open>
  \<open>last_position\<close> is not the key of the most recently appended record, which the contract of
  \<open>EventStore::last_position\<close> names: after a record of an earlier ledger has been appended later it
  is still the key of the first one.
\<close>

lemma mem_last_position_not_last_appended:
  "let r1 = sample_record ''rec_a1'' ''evt_a1'' (Some 9);
       r2 = sample_record ''rec_a2'' ''evt_a2'' (Some 4);
       s1 = snd (mem_insert mem_new r1)
   in fst (mem_insert s1 r2) = Inr Inserted
      \<and> mem_last_position (snd (mem_insert s1 r2)) = Some (PositionKey_of r1)
      \<and> PositionKey_of r1 \<noteq> PositionKey_of r2"
  by (simp add: mem_insert_wf mem_contains_event_def mem_new_def mem_last_position_def
      PositionKey_of_def less_PositionKey_def PositionKey_cmp_def Let_def)

text \<open>
  The memory store is append-only only as long as record ids are unique: nothing ties
  \<open>record_id\<close> to the event in \<open>validate\<close>, and a valid record of a new event that reuses a stored
  record's id and placement replaces that record.  Both insertions report \<open>Inserted\<close>, one record
  remains, and looking up the first event returns the second event's record.
\<close>

lemma mem_insert_overwrites_same_id:
  "let r1 = sample_record ''rec_a1'' ''evt_a1'' (Some 7);
       r2 = sample_record ''rec_a1'' ''evt_a2'' (Some 7);
       s1 = snd (mem_insert mem_new r1);
       s2 = snd (mem_insert s1 r2)
   in fst (mem_insert mem_new r1) = Inr Inserted \<and> fst (mem_insert s1 r2) = Inr Inserted
      \<and> mem_len s2 = 1 \<and> rc_event_id r1 \<noteq> rc_event_id r2
      \<and> mem_get_by_event s2 (rc_event_id r1) = Inr (Some r2)"
  by (simp add: mem_insert_wf mem_contains_event_def mem_new_def mem_len_def mem_get_by_event_def
      mem_get_def PositionKey_of_def Let_def)

end
