(* ===== verification/Audit_Integrity.thy ===== *)
theory Audit_Integrity
  imports Audit_Record
begin

text \<open>
  \<open>crates/integrity/src\<close> and the integrity vocabulary of \<open>crates/audit-core/src/integrity.rs\<close>:
  record digests, the chained scheme, manifests, verification and tamper detection.

  \<open>serde_json::to_vec\<close> on records and on manifest entries are the fields \<open>json_record\<close> and
  \<open>json_entries\<close> of the parameter record.  No theorem assumes SHA-256 to be injective, which no
  function into 32 bytes is: a statement of tamper evidence says that the history is unchanged or
  that two different byte strings that were actually hashed have the same digest.
\<close>

section \<open>Vocabulary\<close>

datatype IntegrityScheme = Standalone | Chained

fun IntegrityScheme_as_str :: "IntegrityScheme \<Rightarrow> string" where
  "IntegrityScheme_as_str Standalone = ''standalone''"
| "IntegrityScheme_as_str Chained = ''chained''"

datatype IntegrityStatus =
    Verified | DigestMismatch | MissingDigest | BrokenChain | UnsupportedAlgorithm | RecordMissing

fun IntegrityStatus_as_str :: "IntegrityStatus \<Rightarrow> string" where
  "IntegrityStatus_as_str Verified = ''verified''"
| "IntegrityStatus_as_str DigestMismatch = ''digest-mismatch''"
| "IntegrityStatus_as_str MissingDigest = ''missing-digest''"
| "IntegrityStatus_as_str BrokenChain = ''broken-chain''"
| "IntegrityStatus_as_str UnsupportedAlgorithm = ''unsupported-algorithm''"
| "IntegrityStatus_as_str RecordMissing = ''record-missing''"

fun is_verified :: "IntegrityStatus \<Rightarrow> bool" where
  "is_verified Verified = True"
| "is_verified _ = False"

record VerificationOutcome =
  vo_record_id :: RecordId
  vo_status :: IntegrityStatus
  vo_expected :: "string option"
  vo_computed :: "string option"
  vo_detail :: "string option"

definition VerificationOutcome_new ::
  "RecordId \<Rightarrow> IntegrityStatus \<Rightarrow> string option \<Rightarrow> string option \<Rightarrow> string option
     \<Rightarrow> VerificationOutcome" where
  "VerificationOutcome_new rid status expected computed detail =
     \<lparr>vo_record_id = rid, vo_status = status, vo_expected = expected, vo_computed = computed,
      vo_detail = detail\<rparr>"

record VerificationFailure =
  vf_status :: IntegrityStatus
  vf_record_id :: "RecordId option"
  vf_detail :: string

definition VerificationFailure_new ::
  "IntegrityStatus \<Rightarrow> RecordId option \<Rightarrow> string \<Rightarrow> VerificationFailure" where
  "VerificationFailure_new status rid detail =
     \<lparr>vf_status = status, vf_record_id = rid, vf_detail = detail\<rparr>"

record ManifestEntry =
  me_record_id :: RecordId
  me_digest :: IntegrityDigest

definition INTEGRITY_MANIFEST_SCHEMA_VERSION :: nat where
  "INTEGRITY_MANIFEST_SCHEMA_VERSION = 1"

record IntegrityManifest =
  im_manifest_id :: ManifestId
  im_schema_version :: nat
  im_generated_at :: Timestamp
  im_software_version :: string
  im_from_ledger :: "int option"
  im_to_ledger :: "int option"
  im_record_count :: nat
  im_entries :: "ManifestEntry list"
  im_aggregate_digest :: "IntegrityDigest option"

definition IntegrityManifest_new ::
  "ManifestId \<Rightarrow> Timestamp \<Rightarrow> string \<Rightarrow> int option \<Rightarrow> int option \<Rightarrow> ManifestEntry list
     \<Rightarrow> IntegrityDigest option \<Rightarrow> IntegrityManifest" where
  "IntegrityManifest_new mid generated_at software_version from_ledger to_ledger entries aggregate =
     \<lparr>im_manifest_id = mid, im_schema_version = INTEGRITY_MANIFEST_SCHEMA_VERSION,
      im_generated_at = generated_at, im_software_version = software_version,
      im_from_ledger = from_ledger, im_to_ledger = to_ledger, im_record_count = length entries,
      im_entries = entries, im_aggregate_digest = aggregate\<rparr>"

text \<open>\<open>if let (Some(from), Some(to)) = (a, b) \<open>{\<close> if from > to ...\<close>.\<close>

definition range_inverted :: "int option \<Rightarrow> int option \<Rightarrow> bool" where
  "range_inverted a b = (case (a, b) of (Some l, Some u) \<Rightarrow> l > u | _ \<Rightarrow> False)"

definition IntegrityManifest_validate :: "IntegrityManifest \<Rightarrow> AuditError + unit" where
  "IntegrityManifest_validate m =
     (if im_schema_version m \<noteq> INTEGRITY_MANIFEST_SCHEMA_VERSION
      then Inl (UnsupportedSchema (''integrity manifest schema version ''
                  @ show_nat (im_schema_version m) @ '' is not supported (expected ''
                  @ show_nat INTEGRITY_MANIFEST_SCHEMA_VERSION @ '')''))
      else if range_inverted (im_from_ledger m) (im_to_ledger m)
      then Inl (ValidationFailure ''manifest ledger range start exceeds its end'')
      else if im_record_count m \<noteq> length (im_entries m)
      then Inl (ValidationFailure (''manifest declares '' @ show_nat (im_record_count m)
                  @ '' records but carries '' @ show_nat (length (im_entries m))))
      else Inr ())"

datatype IntegrityError =
    InvalidArguments string
  | Canonicalization string string

fun IntegrityError_to_string :: "IntegrityError \<Rightarrow> string" where
  "IntegrityError_to_string (InvalidArguments d) = ''invalid integrity arguments: '' @ d"
| "IntegrityError_to_string (Canonicalization i d) =
     ''cannot canonicalize record '' @ i @ '': '' @ d"

fun IntegrityError_into_core :: "IntegrityError \<Rightarrow> AuditError" where
  "IntegrityError_into_core (InvalidArguments d) = ValidationFailure d"
| "IntegrityError_into_core (Canonicalization i d) = SerializationFailure (i @ '': '' @ d)"

section \<open>Hashing and standalone digests\<close>

record integrity_ext = event_ext +
  json_record :: "AuditRecord \<Rightarrow> string + bytes"
  json_entries :: "ManifestEntry list \<Rightarrow> string + bytes"

text \<open>\<open>.expect("sha256 digest is valid hex")\<close>: \<open>hash_bytes_digest\<close> below shows the constructor accepts.\<close>

definition hash_bytes :: "('z) hash_ext_scheme \<Rightarrow> bytes \<Rightarrow> IntegrityDigest" where
  "hash_bytes X data = projr (IntegrityDigest_sha256 (hex_lower (hash_bytes_of (sha256 X data))))"

definition record_canonical_bytes :: "('z) integrity_ext_scheme \<Rightarrow> AuditRecord \<Rightarrow> AuditError + bytes" where
  "record_canonical_bytes X r = map_err SerializationFailure (json_record X r)"

definition canonical_record_input ::
  "('z) integrity_ext_scheme \<Rightarrow> AuditRecord \<Rightarrow> IntegrityError + bytes" where
  "canonical_record_input X r =
     (let cleared = r\<lparr>rc_integrity := None\<rparr>
      in map_err (\<lambda>e. Canonicalization (rc_record_id r) (AuditError_to_string e))
           (record_canonical_bytes X cleared))"

definition record_digest ::
  "('z) integrity_ext_scheme \<Rightarrow> AuditRecord \<Rightarrow> IntegrityError + IntegrityDigest" where
  "record_digest X r = map_ok (hash_bytes X) (canonical_record_input X r)"

definition seal_standalone ::
  "('z) integrity_ext_scheme \<Rightarrow> AuditRecord \<Rightarrow> IntegrityError + AuditRecord" where
  "seal_standalone X r =
     map_ok (\<lambda>digest. r\<lparr>rc_integrity := Some \<lparr>ri_digest = digest, ri_prev_digest = None,
                                          ri_chained = False\<rparr>\<rparr>)
       (record_digest X r)"

section \<open>The chained scheme\<close>

definition chain_step ::
  "('z) integrity_ext_scheme \<Rightarrow> IntegrityDigest option \<Rightarrow> AuditRecord
     \<Rightarrow> IntegrityError + IntegrityDigest" where
  "chain_step X prev r =
     (case canonical_record_input X r of
        Inl e \<Rightarrow> Inl e
      | Inr input \<Rightarrow>
          Inr (hash_bytes X ((case prev of None \<Rightarrow> [] | Some p \<Rightarrow> dg_value p) @ input)))"

text \<open>The loop of \<open>seal_chain\<close>, \<open>prev\<close> being its mutable variable.\<close>

fun seal_from ::
  "('z) integrity_ext_scheme \<Rightarrow> IntegrityDigest option \<Rightarrow> AuditRecord list
     \<Rightarrow> IntegrityError + AuditRecord list" where
  "seal_from X prev [] = Inr []"
| "seal_from X prev (r # rs) =
     (case chain_step X prev r of
        Inl e \<Rightarrow> Inl e
      | Inr digest \<Rightarrow>
          map_ok (\<lambda>sealed. r\<lparr>rc_integrity := Some \<lparr>ri_digest = digest, ri_prev_digest = prev,
                                               ri_chained = True\<rparr>\<rparr> # sealed)
            (seal_from X (Some digest) rs))"

definition seal_chain ::
  "('z) integrity_ext_scheme \<Rightarrow> AuditRecord list \<Rightarrow> IntegrityError + AuditRecord list" where
  "seal_chain X rs = seal_from X None rs"

fun verify_from ::
  "('z) integrity_ext_scheme \<Rightarrow> IntegrityDigest option \<Rightarrow> AuditRecord list
     \<Rightarrow> VerificationFailure + unit" where
  "verify_from X prev [] = Inr ()"
| "verify_from X prev (r # rs) =
     (case rc_integrity r of
        None \<Rightarrow> Inl (VerificationFailure_new BrokenChain (Some (rc_record_id r))
                  ''record carries no integrity block'')
      | Some i \<Rightarrow>
          if \<not> ri_chained i
          then Inl (VerificationFailure_new BrokenChain (Some (rc_record_id r))
                 ''record is not flagged as chained'')
          else if ri_prev_digest i \<noteq> prev
          then Inl (VerificationFailure_new BrokenChain (Some (rc_record_id r))
                 (''record'' @ [CHR 0x27]
                    @ ''s prev_digest does not match its predecessor'' @ [CHR 0x27] @ ''s digest''))
          else
            (case chain_step X prev r of
               Inl e \<Rightarrow> Inl (VerificationFailure_new BrokenChain (Some (rc_record_id r))
                 (''cannot recompute digest: '' @ IntegrityError_to_string e))
             | Inr expected \<Rightarrow>
                 if ri_digest i \<noteq> expected
                 then Inl (VerificationFailure_new DigestMismatch (Some (rc_record_id r))
                        ''record digest does not recompute from its content'')
                 else verify_from X (Some expected) rs))"

definition verify_chain ::
  "('z) integrity_ext_scheme \<Rightarrow> AuditRecord list \<Rightarrow> VerificationFailure + unit" where
  "verify_chain X rs = verify_from X None rs"

section \<open>Manifests\<close>

record ManifestOptions =
  mo_from_ledger :: "int option"
  mo_to_ledger :: "int option"
  mo_software_version :: string

definition ManifestOptions_new ::
  "int option \<Rightarrow> int option \<Rightarrow> string \<Rightarrow> IntegrityError + ManifestOptions" where
  "ManifestOptions_new from_ledger to_ledger software_version =
     and_then
       (case (from_ledger, to_ledger) of
          (Some l, Some u) \<Rightarrow>
            fail_if (l > u) (InvalidArguments (''manifest ledger range '' @ show_int l @ ''..''
                               @ show_int u @ '' is inverted''))
        | _ \<Rightarrow> Inr ()) (\<lambda>_.
     and_then
       (map_err (\<lambda>e. InvalidArguments (''software version: '' @ AuditError_to_string e))
          (VersionLabel_new software_version)) (\<lambda>_.
     Inr \<lparr>mo_from_ledger = from_ledger, mo_to_ledger = to_ledger,
          mo_software_version = software_version\<rparr>))"

definition aggregate_input ::
  "('z) integrity_ext_scheme \<Rightarrow> ManifestEntry list \<Rightarrow> IntegrityError + bytes" where
  "aggregate_input X entries =
     map_err (Canonicalization ''manifest entries'') (json_entries X entries)"

definition aggregate_hex ::
  "('z) integrity_ext_scheme \<Rightarrow> ManifestEntry list \<Rightarrow> IntegrityError + string" where
  "aggregate_hex X entries =
     map_ok (\<lambda>bs. dg_value (hash_bytes X bs)) (aggregate_input X entries)"

text \<open>The loop of \<open>build_manifest\<close>; \<open>seen\<close> is its \<open>HashSet\<close>.\<close>

fun manifest_entries ::
  "('z) integrity_ext_scheme \<Rightarrow> RecordId set \<Rightarrow> AuditRecord list
     \<Rightarrow> IntegrityError + ManifestEntry list" where
  "manifest_entries X seen [] = Inr []"
| "manifest_entries X seen (r # rs) =
     (if rc_record_id r \<in> seen
      then Inl (InvalidArguments (''duplicate record id '' @ rc_record_id r @ '' in manifest range''))
      else
        and_then (record_digest X r) (\<lambda>digest.
        map_ok (\<lambda>es. \<lparr>me_record_id = rc_record_id r, me_digest = digest\<rparr> # es)
          (manifest_entries X (insert (rc_record_id r) seen) rs)))"

definition build_manifest ::
  "('z) integrity_ext_scheme \<Rightarrow> AuditRecord list \<Rightarrow> ManifestOptions \<Rightarrow> Timestamp
     \<Rightarrow> IntegrityError + IntegrityManifest" where
  "build_manifest X records options generated_at =
     and_then (manifest_entries X {} records) (\<lambda>entries.
     and_then (aggregate_hex X entries) (\<lambda>agg.
     and_then
       (map_err (\<lambda>e. Canonicalization ''aggregate digest'' (AuditError_to_string e))
          (IntegrityDigest_sha256 agg)) (\<lambda>aggregate.
     (let manifest_id = id_derive X ManifestIdT
            [mo_software_version options,
             (case mo_from_ledger options of Some l \<Rightarrow> show_int l | None \<Rightarrow> ''start''),
             (case mo_to_ledger options of Some l \<Rightarrow> show_int l | None \<Rightarrow> ''end''),
             show_nat (length records), dg_value aggregate];
          manifest = IntegrityManifest_new manifest_id generated_at (mo_software_version options)
            (mo_from_ledger options) (mo_to_ledger options) entries (Some aggregate)
      in and_then
           (map_err
              (\<lambda>e. InvalidArguments (''built manifest is invalid: '' @ AuditError_to_string e))
              (IntegrityManifest_validate manifest)) (\<lambda>_.
         Inr manifest)))))"

section \<open>Verification\<close>

definition verify_record ::
  "('z) integrity_ext_scheme \<Rightarrow> AuditRecord \<Rightarrow> IntegrityError + VerificationOutcome" where
  "verify_record X r =
     (case rc_integrity r of
        None \<Rightarrow> Inr (VerificationOutcome_new (rc_record_id r) MissingDigest None None
                  (Some ''record carries no integrity block''))
      | Some i \<Rightarrow>
          (let expected = Some (dg_value (ri_digest i))
           in if dg_algorithm (ri_digest i) \<noteq> SHA256
              then Inr (VerificationOutcome_new (rc_record_id r) UnsupportedAlgorithm expected None
                     (Some (''algorithm `'' @ dg_algorithm (ri_digest i) @ ''` is not implemented'')))
              else
                and_then (record_digest X r) (\<lambda>recomputed.
                  if recomputed = ri_digest i
                  then Inr (VerificationOutcome_new (rc_record_id r) Verified expected
                         (Some (dg_value recomputed)) None)
                  else Inr (VerificationOutcome_new (rc_record_id r) DigestMismatch expected
                         (Some (dg_value recomputed))
                         (Some ''record digest does not recompute from its content'')))))"

definition any_chained :: "AuditRecord list \<Rightarrow> bool" where
  "any_chained rs =
     list_ex (\<lambda>r. case rc_integrity r of None \<Rightarrow> False | Some i \<Rightarrow> ri_chained i) rs"

definition verify_all ::
  "('z) integrity_ext_scheme \<Rightarrow> AuditRecord list \<Rightarrow> IntegrityError + VerificationOutcome list" where
  "verify_all X rs =
     (if any_chained rs
      then (case verify_chain X rs of
              Inr _ \<Rightarrow> Inr []
            | Inl failure \<Rightarrow>
                (let rid = (case vf_record_id failure of
                              Some i \<Rightarrow> i
                            | None \<Rightarrow> id_derive X RecordIdT [''unknown''])
                 in Inr [VerificationOutcome_new rid (vf_status failure) None None
                           (Some (vf_detail failure))]))
      else try_map (verify_record X) rs)"

definition records_by_id :: "AuditRecord list \<Rightarrow> RecordId \<rightharpoonup> AuditRecord" where
  "records_by_id rs = foldl (\<lambda>m r. m(rc_record_id r \<mapsto> r)) Map.empty rs"

definition verify_entry ::
  "('z) integrity_ext_scheme \<Rightarrow> (RecordId \<rightharpoonup> AuditRecord) \<Rightarrow> ManifestEntry
     \<Rightarrow> IntegrityError + VerificationOutcome" where
  "verify_entry X by_id entry =
     (let digest = me_digest entry
      in case by_id (me_record_id entry) of
           None \<Rightarrow> Inr (VerificationOutcome_new (me_record_id entry) RecordMissing
                     (Some (dg_value digest)) None (Some ''record is not in the supplied set''))
         | Some r \<Rightarrow>
             and_then (record_digest X r) (\<lambda>recomputed.
               if recomputed = digest
               then Inr (VerificationOutcome_new (me_record_id entry) Verified
                      (Some (dg_value digest)) (Some (dg_value recomputed)) None)
               else Inr (VerificationOutcome_new (me_record_id entry) DigestMismatch
                      (Some (dg_value digest)) (Some (dg_value recomputed))
                      (Some ''record body no longer matches the manifest entry''))))"

definition verify_manifest_records ::
  "('z) integrity_ext_scheme \<Rightarrow> IntegrityManifest \<Rightarrow> AuditRecord list
     \<Rightarrow> IntegrityError + VerificationOutcome list" where
  "verify_manifest_records X m rs = try_map (verify_entry X (records_by_id rs)) (im_entries m)"

definition verify_manifest_aggregate ::
  "('z) integrity_ext_scheme \<Rightarrow> IntegrityManifest \<Rightarrow> IntegrityError + IntegrityStatus" where
  "verify_manifest_aggregate X m =
     (case im_aggregate_digest m of
        None \<Rightarrow> Inr MissingDigest
      | Some aggregate \<Rightarrow>
          if dg_algorithm aggregate \<noteq> SHA256 then Inr UnsupportedAlgorithm
          else map_ok (\<lambda>recomputed. if recomputed = dg_value aggregate then Verified
                                     else DigestMismatch)
                 (aggregate_hex X (im_entries m)))"

definition all_verified ::
  "('z) integrity_ext_scheme \<Rightarrow> AuditRecord list \<Rightarrow> IntegrityError + bool" where
  "all_verified X rs = map_ok (list_all (\<lambda>out. vo_status out = Verified)) (verify_all X rs)"

definition locate_tampering ::
  "('z) integrity_ext_scheme \<Rightarrow> AuditRecord list \<Rightarrow> IntegrityError + VerificationOutcome list" where
  "locate_tampering X rs = map_ok (filter (\<lambda>out. vo_status out \<noteq> Verified)) (verify_all X rs)"

definition detect ::
  "('z) integrity_ext_scheme \<Rightarrow> AuditRecord list \<Rightarrow> IntegrityError + bool" where
  "detect X rs = map_ok (\<lambda>os. os \<noteq> []) (locate_tampering X rs)"

definition intact ::
  "('z) integrity_ext_scheme \<Rightarrow> AuditRecord list \<Rightarrow> IntegrityError + bool" where
  "intact X rs = map_ok Not (detect X rs)"

section \<open>Digest lemmas\<close>

lemma hash_bytes_digest:
  "IntegrityDigest_sha256 (hex_lower (hash_bytes_of (sha256 X d))) = Inr (hash_bytes X d)"
  and hash_bytes_fields [simp]:
  "dg_algorithm (hash_bytes X d) = SHA256"
  "dg_value (hash_bytes X d) = sha256_hex X d"
  by (auto simp: hash_bytes_def IntegrityDigest_sha256_def list_all_iff sha256_hex_def
      dest: hex_lower_chars)

lemma sha256_hex_eq_iff [simp]: "sha256_hex X a = sha256_hex X b \<longleftrightarrow> sha256 X a = sha256 X b"
  by (simp add: sha256_hex_def hex_lower_inject hash_bytes_of_inject)

lemma hash_bytes_eq_iff [simp]: "hash_bytes X a = hash_bytes X b \<longleftrightarrow> sha256 X a = sha256 X b"
proof
  assume "hash_bytes X a = hash_bytes X b"
  then have "dg_value (hash_bytes X a) = dg_value (hash_bytes X b)" by simp
  then show "sha256 X a = sha256 X b" by simp
qed (simp add: hash_bytes_def)

lemma IntegrityDigest_sha256_hex [simp]:
  "IntegrityDigest_sha256 (sha256_hex X d) = Inr (hash_bytes X d)"
  using hash_bytes_digest by (simp add: sha256_hex_def)

lemma canonical_input_integrity [simp]:
  "canonical_record_input X (r\<lparr>rc_integrity := i\<rparr>) = canonical_record_input X r"
  by (simp add: canonical_record_input_def)

lemma chain_step_integrity [simp]: "chain_step X p (r\<lparr>rc_integrity := i\<rparr>) = chain_step X p r"
  by (simp add: chain_step_def)

lemma record_digest_eq_Inr:
  "record_digest X r = Inr d \<longleftrightarrow> (\<exists>bs. canonical_record_input X r = Inr bs \<and> d = hash_bytes X bs)"
  by (simp add: record_digest_def map_ok_eq_Inr)

lemma chain_step_eq_Inr:
  "chain_step X p r = Inr d \<longleftrightarrow>
     (\<exists>bs. canonical_record_input X r = Inr bs
        \<and> d = hash_bytes X ((case p of None \<Rightarrow> [] | Some q \<Rightarrow> dg_value q) @ bs))"
  by (auto simp: chain_step_def split: sum.splits)

lemma chain_step_None [simp]: "chain_step X None r = record_digest X r"
  by (cases "canonical_record_input X r") (simp_all add: chain_step_def record_digest_def)

lemma set_integrity_self:
  "r\<lparr>rc_integrity := i\<rparr> = r \<longleftrightarrow> rc_integrity r = i"
  "r = r\<lparr>rc_integrity := i\<rparr> \<longleftrightarrow> rc_integrity r = i"
  by (cases r; auto)+

section \<open>Chains: sealing and verifying\<close>

lemma verify_from_Cons:
  "verify_from X p (r # rs) = Inr () \<longleftrightarrow>
     (\<exists>d. chain_step X p r = Inr d
        \<and> rc_integrity r = Some \<lparr>ri_digest = d, ri_prev_digest = p, ri_chained = True\<rparr>
        \<and> verify_from X (Some d) rs = Inr ())"
proof (cases "rc_integrity r")
  case (Some i)
  then show ?thesis by (cases i; cases "chain_step X p r") auto
qed simp

lemma verify_from_iff_sealed:
  "verify_from X p rs = Inr () \<longleftrightarrow> seal_from X p rs = Inr rs"
proof (induction rs arbitrary: p)
  case (Cons r rs)
  show ?case
    by (cases "chain_step X p r")
      (auto simp: verify_from_Cons Cons.IH map_ok_eq_Inr set_integrity_self simp del: verify_from.simps)
qed simp

lemma seal_from_again: "seal_from X p rs = Inr ss \<Longrightarrow> seal_from X p ss = Inr ss"
proof (induction rs arbitrary: p ss)
  case (Cons r rs)
  then show ?case by (cases "chain_step X p r") (auto simp: map_ok_eq_Inr)
qed simp

lemma seal_from_bodies:
  "seal_from X p rs = Inr ss \<Longrightarrow>
     map (\<lambda>r. r\<lparr>rc_integrity := None\<rparr>) ss = map (\<lambda>r. r\<lparr>rc_integrity := None\<rparr>) rs"
proof (induction rs arbitrary: p ss)
  case (Cons r rs)
  then show ?case by (cases "chain_step X p r") (auto simp: map_ok_eq_Inr)
qed simp

lemma seal_from_total:
  "(\<exists>ss. seal_from X p rs = Inr ss) \<longleftrightarrow> list_all (\<lambda>r. \<not> isl (canonical_record_input X r)) rs"
proof (induction rs arbitrary: p)
  case (Cons r rs)
  show ?case
    using Cons.IH by (cases "canonical_record_input X r") (auto simp: chain_step_def map_ok_eq_Inr)
qed simp

text \<open>The digest the next record has to name as its predecessor.\<close>

definition chain_head :: "IntegrityDigest option \<Rightarrow> AuditRecord list \<Rightarrow> IntegrityDigest option" where
  "chain_head p rs = (if rs = [] then p else map_option ri_digest (rc_integrity (last rs)))"

lemma chain_head_simps [simp]:
  "chain_head p [] = p"
  "chain_head p (rs @ [r]) = map_option ri_digest (rc_integrity r)"
  by (simp_all add: chain_head_def)

lemma chain_head_Cons:
  "rc_integrity r = Some i \<Longrightarrow> chain_head p (r # rs) = chain_head (Some (ri_digest i)) rs"
  by (simp add: chain_head_def)

lemma verify_from_append:
  "verify_from X p (xs @ ys) = Inr () \<longleftrightarrow>
     verify_from X p xs = Inr () \<and> verify_from X (chain_head p xs) ys = Inr ()"
proof (induction xs arbitrary: p)
  case (Cons x xs)
  show ?case
    by (auto simp: verify_from_Cons Cons.IH chain_head_Cons simp del: verify_from.simps)
qed simp

section \<open>Tamper evidence\<close>

text \<open>
  The byte strings that are hashed along a chain.  \<open>chain_collision\<close> names two of them, one of each
  chain, that differ and have the same SHA-256 value.
\<close>

fun chain_inputs :: "('z) integrity_ext_scheme \<Rightarrow> IntegrityDigest option \<Rightarrow> AuditRecord list \<Rightarrow> bytes list" where
  "chain_inputs X p [] = []"
| "chain_inputs X p (r # rs) =
     ((case p of None \<Rightarrow> [] | Some q \<Rightarrow> dg_value q) @ projr (canonical_record_input X r))
       # chain_inputs X (map_option ri_digest (rc_integrity r)) rs"

definition chain_collision :: "('z) integrity_ext_scheme \<Rightarrow> AuditRecord list \<Rightarrow> AuditRecord list \<Rightarrow> bool" where
  "chain_collision X ss ts \<longleftrightarrow>
     (\<exists>a \<in> set (chain_inputs X None ss). \<exists>b \<in> set (chain_inputs X None ts).
        a \<noteq> b \<and> sha256 X a = sha256 X b)"

text \<open>\<open>serde_json\<close> writes a struct as a JSON object, so its first byte is an opening brace.\<close>

definition json_object :: "('z) integrity_ext_scheme \<Rightarrow> bool" where
  "json_object X \<longleftrightarrow> (\<forall>r bs. json_record X r = Inr bs \<longrightarrow> bs \<noteq> [] \<and> hd bs = CHR ''{'')"

lemma chain_inputs_append:
  "chain_inputs X p (xs @ ys) = chain_inputs X p xs @ chain_inputs X (chain_head p xs) ys"
proof (induction xs arbitrary: p)
  case (Cons x xs)
  then show ?case by (cases xs) (auto simp: chain_head_def)
qed simp

lemma chain_collision_mono:
  "chain_collision X xs (xs @ ys) \<Longrightarrow> chain_collision X (xs @ ys @ zs) (xs @ ys @ zs)"
  by (auto simp: chain_collision_def chain_inputs_append)

lemma canonical_input_brace:
  "json_object X \<Longrightarrow> canonical_record_input X r = Inr bs \<Longrightarrow> bs \<noteq> [] \<and> hd bs = CHR ''{''"
  by (auto simp: json_object_def canonical_record_input_def record_canonical_bytes_def)

lemma sha256_hex_not_brace: "sha256_hex X d @ bs \<noteq> cs" if "cs \<noteq> []" "hd cs = CHR ''{''"
proof
  assume "sha256_hex X d @ bs = cs"
  moreover have ne: "sha256_hex X d \<noteq> []" using length_sha256_hex [of X d] by force
  ultimately have "CHR ''{'' \<in> set (sha256_hex X d)"
    using that by (metis hd_append2 hd_in_set)
  then show False
    unfolding sha256_hex_def by (drule_tac hex_lower_chars) (simp add: ascii_defs byte_def)
qed

lemma verify_chain_snoc:
  assumes "verify_chain X (xs @ [x]) = Inr ()"
  obtains bs where "verify_chain X xs = Inr ()" "canonical_record_input X x = Inr bs"
    "chain_head None (xs @ [x]) =
       Some (hash_bytes X ((case chain_head None xs of None \<Rightarrow> [] | Some q \<Rightarrow> dg_value q) @ bs))"
    "set (chain_inputs X None (xs @ [x])) =
       insert ((case chain_head None xs of None \<Rightarrow> [] | Some q \<Rightarrow> dg_value q) @ bs)
         (set (chain_inputs X None xs))"
proof -
  from assms obtain d where v: "verify_chain X xs = Inr ()"
    and s: "chain_step X (chain_head None xs) x = Inr d"
    and i: "rc_integrity x = Some \<lparr>ri_digest = d, ri_prev_digest = chain_head None xs, ri_chained = True\<rparr>"
    by (auto simp: verify_chain_def verify_from_append verify_from_Cons simp del: verify_from.simps)
  from s obtain bs where "canonical_record_input X x = Inr bs"
    "d = hash_bytes X ((case chain_head None xs of None \<Rightarrow> [] | Some q \<Rightarrow> dg_value q) @ bs)"
    by (auto simp: chain_step_eq_Inr)
  with v i that show thesis by (auto simp: chain_inputs_append)
qed

lemma verify_chain_head:
  assumes "verify_chain X xs = Inr ()"
  shows "chain_head None xs = None \<longleftrightarrow> xs = []"
    and "chain_head None xs = Some d \<Longrightarrow> \<exists>i. d = hash_bytes X i"
  using assms by (cases xs rule: rev_cases; force elim: verify_chain_snoc)+

lemma chain_commits:
  assumes "json_object X"
  shows "verify_chain X ss = Inr () \<Longrightarrow> verify_chain X ts = Inr ()
    \<Longrightarrow> chain_head None ss = chain_head None ts
    \<Longrightarrow> map (canonical_record_input X) ss = map (canonical_record_input X) ts
        \<or> chain_collision X ss ts"
proof (induction ss arbitrary: ts rule: rev_induct)
  case Nil
  then show ?case using verify_chain_head(1) [of X ts] by auto
next
  case (snoc s ss)
  from verify_chain_head(1) [OF snoc.prems(2)] verify_chain_head(1) [OF snoc.prems(1)] snoc.prems(3)
  obtain ts' t where ts: "ts = ts' @ [t]" by (cases ts rule: rev_cases) auto
  let ?pre = "\<lambda>xs. (case chain_head None xs of None \<Rightarrow> [] | Some q \<Rightarrow> dg_value q)"
  from snoc.prems(1) obtain a where s: "verify_chain X ss = Inr ()" "canonical_record_input X s = Inr a"
    "chain_head None (ss @ [s]) = Some (hash_bytes X (?pre ss @ a))"
    "set (chain_inputs X None (ss @ [s])) = insert (?pre ss @ a) (set (chain_inputs X None ss))"
    by (rule verify_chain_snoc)
  from snoc.prems(2) [unfolded ts] obtain b where t: "verify_chain X ts' = Inr ()"
    "canonical_record_input X t = Inr b"
    "chain_head None (ts' @ [t]) = Some (hash_bytes X (?pre ts' @ b))"
    "set (chain_inputs X None (ts' @ [t])) = insert (?pre ts' @ b) (set (chain_inputs X None ts'))"
    by (rule verify_chain_snoc)
  from snoc.prems(3) s(3) t(3) ts have h: "sha256 X (?pre ss @ a) = sha256 X (?pre ts' @ b)"
    by (simp del: chain_head_simps)
  show ?case
  proof (cases "?pre ss @ a = ?pre ts' @ b")
    case False
    with h s(4) t(4) ts show ?thesis by (auto simp: chain_collision_def simp del: chain_head_simps)
  next
    case True
    have brace: "a \<noteq> [] \<and> hd a = CHR ''{''" "b \<noteq> [] \<and> hd b = CHR ''{''"
      using canonical_input_brace [OF assms] s(2) t(2) by auto
    have "chain_head None ss = chain_head None ts' \<and> a = b"
    proof (cases "chain_head None ss"; cases "chain_head None ts'")
      fix p q assume pq: "chain_head None ss = Some p" "chain_head None ts' = Some q"
      obtain i j where "p = hash_bytes X i" "q = hash_bytes X j"
        using verify_chain_head(2) s(1) t(1) pq by blast
      with True pq show ?thesis by simp
    next
      fix q assume "chain_head None ss = None" "chain_head None ts' = Some q"
      with True brace show ?thesis
        using verify_chain_head(2) [OF t(1)] sha256_hex_not_brace [of a] by force
    next
      fix q assume "chain_head None ss = Some q" "chain_head None ts' = None"
      with True brace show ?thesis
        using verify_chain_head(2) [OF s(1)] sha256_hex_not_brace [of b] by force
    qed (use True in simp)
    with snoc.IH [OF s(1) t(1)] s(2,4) t(2,4) ts show ?thesis
      by (auto simp: chain_collision_def)
  qed
qed

text \<open>
  C11: sealing and verifying agree exactly.  A history passes \<open>verify_chain\<close> if and only if sealing it
  again reproduces it block for block; what \<open>seal_chain\<close> returns always passes, with the bodies of
  the records unchanged; and sealing fails only when some record cannot be serialized.
\<close>

theorem verify_chain_iff_sealed:
  "(verify_chain X rs = Inr () \<longleftrightarrow> seal_chain X rs = Inr rs)
   \<and> (case seal_chain X rs of
        Inr ss \<Rightarrow> verify_chain X ss = Inr ()
          \<and> map (\<lambda>r. r\<lparr>rc_integrity := None\<rparr>) ss = map (\<lambda>r. r\<lparr>rc_integrity := None\<rparr>) rs
      | Inl e \<Rightarrow> list_ex (\<lambda>r. isl (canonical_record_input X r)) rs)"
proof (cases "seal_chain X rs")
  case (Inl e)
  then have "\<nexists>ss. seal_from X None rs = Inr ss" by (simp add: seal_chain_def)
  then have "list_ex (\<lambda>r. isl (canonical_record_input X r)) rs"
    unfolding seal_from_total by (auto simp: list_all_iff list_ex_iff)
  with Inl show ?thesis by (simp add: verify_chain_def seal_chain_def verify_from_iff_sealed)
next
  case (Inr ss)
  then show ?thesis
    using seal_from_again [of X None rs ss] seal_from_bodies [of X None rs ss]
    by (simp add: verify_chain_def seal_chain_def verify_from_iff_sealed)
qed

definition sample_ext :: integrity_ext where
  "sample_ext =
     \<lparr>sha256 = \<lambda>_. Abs_hash256 (replicate 32 (CHR 0x00)), json_strings = \<lambda>_. ''[]'',
      json_event = \<lambda>e. Inr (''{'' @ ev_event_id e @ ''}''),
      json_record = \<lambda>r. Inr (''{'' @ rc_record_id r @ ''}''),
      json_entries = \<lambda>es. Inr (''['' @ concat (map me_record_id es) @ '']'')\<rparr>"

lemma json_object_sample [simp]: "json_object sample_ext"
  by (auto simp: json_object_def sample_ext_def)

lemma canonical_sample [simp]:
  "canonical_record_input sample_ext r = Inr (''{'' @ rc_record_id r @ ''}'')"
  by (simp add: canonical_record_input_def record_canonical_bytes_def sample_ext_def)

lemma sha256_sample [simp]: "sha256 sample_ext a = sha256 sample_ext b"
  by (simp add: sample_ext_def)

text \<open>A sealed history over the sample serializer.\<close>

definition sample_chain :: "RecordId list \<Rightarrow> AuditRecord list" where
  "sample_chain rids =
     projr (seal_chain sample_ext (map (\<lambda>rid. sample_record rid ''evt_a1'' (Some 7)) rids))"

lemma sample_chain_sealed:
  "seal_chain sample_ext (map (\<lambda>rid. sample_record rid ''evt_a1'' (Some 7)) rids) = Inr (sample_chain rids)"
proof -
  have "\<exists>ss. seal_from sample_ext None (map (\<lambda>rid. sample_record rid ''evt_a1'' (Some 7)) rids) = Inr ss"
    unfolding seal_from_total by (simp add: list_all_iff)
  then show ?thesis by (auto simp: sample_chain_def seal_chain_def)
qed

lemma verify_sample_chain [simp]: "verify_chain sample_ext (sample_chain rids) = Inr ()"
  using sample_chain_sealed [of rids] seal_from_again
  by (auto simp: verify_chain_def seal_chain_def verify_from_iff_sealed)

lemma length_sample_chain [simp]: "length (sample_chain rids) = length rids"
  using sample_chain_sealed [of rids] seal_from_bodies map_eq_imp_length_eq
  by (fastforce simp: seal_chain_def)

lemma head_sample_chain: "rids \<noteq> [] \<Longrightarrow> rids' \<noteq> [] \<Longrightarrow>
   chain_head None (sample_chain rids) = chain_head None (sample_chain rids')"
  using verify_chain_head [OF verify_sample_chain [of rids]]
    verify_chain_head [OF verify_sample_chain [of rids']] length_sample_chain
  by (cases "chain_head None (sample_chain rids)"; cases "chain_head None (sample_chain rids')")
    (auto, (metis length_sample_chain length_0_conv)+)

text \<open>
  C12: the digest of its last record commits a chain to its whole history.  Two verified chains with
  the same head digest have the same number of records with the same canonical content in the same
  order, unless two different inputs hashed along them have the same SHA-256 value.
\<close>

theorem chain_head_commits_history:
  assumes "json_object X"
    and "verify_chain X ss = Inr ()" and "verify_chain X ts = Inr ()"
    and "chain_head None ss = chain_head None ts"
  shows "map (canonical_record_input X) ss = map (canonical_record_input X) ts
    \<or> chain_collision X ss ts"
  using chain_commits [OF assms] .

theorem chain_head_commits_history_witness:
  "chain_collision sample_ext (sample_chain [''rec_a1'']) (sample_chain [''rec_a1'', ''rec_a2''])"
proof -
  have "map (canonical_record_input sample_ext) (sample_chain [''rec_a1''])
      \<noteq> map (canonical_record_input sample_ext) (sample_chain [''rec_a1'', ''rec_a2''])"
    by (rule notI, drule map_eq_imp_length_eq) simp
  then show ?thesis
    using chain_head_commits_history [OF json_object_sample verify_sample_chain verify_sample_chain,
        of "[''rec_a1'']" "[''rec_a1'', ''rec_a2'']"] head_sample_chain by simp
qed

text \<open>
  Deleting records is detected, except at the end.  When a non-empty block that is followed by
  other records is removed from a verified chain, what remains fails verification (or the chain
  itself exhibits a SHA-256 collision); removing the newest records leaves a chain that verifies.
\<close>

lemma chain_deletion_detected:
  assumes "json_object X" and "verify_chain X (xs @ ys @ zs) = Inr ()" and "ys \<noteq> []"
  shows "(if zs = [] then verify_chain X (xs @ zs) = Inr ()
          else verify_chain X (xs @ zs) \<noteq> Inr () \<or> chain_collision X (xs @ ys @ zs) (xs @ ys @ zs))"
proof (cases zs)
  case Nil
  with assms(2) show ?thesis by (simp add: verify_chain_def verify_from_append)
next
  case (Cons z zs')
  show ?thesis
  proof (cases "verify_chain X (xs @ zs) = Inr ()")
    case True
    have v: "verify_chain X xs = Inr ()" "verify_chain X (xs @ ys) = Inr ()"
      using assms(2) by (simp_all add: verify_chain_def verify_from_append chain_head_def)
    from True assms(2,3) Cons have "chain_head None xs = chain_head None (xs @ ys)"
      by (auto simp: verify_chain_def verify_from_append verify_from_Cons chain_head_def
          simp del: verify_from.simps)
    from chain_commits [OF assms(1) v this] assms(3)
    have "chain_collision X xs (xs @ ys)" by (auto dest: map_eq_imp_length_eq)
    then show ?thesis using Cons by (simp add: chain_collision_mono)
  qed (simp add: Cons)
qed

section \<open>Whole histories\<close>

lemma verify_record_Verified:
  "verify_record X r = Inr out \<Longrightarrow>
     vo_status out = Verified \<longleftrightarrow>
       (case rc_integrity r of None \<Rightarrow> False | Some i \<Rightarrow> record_digest X r = Inr (ri_digest i))"
  by (auto simp: verify_record_def Let_def and_then_eq_Inr VerificationOutcome_new_def
      record_digest_eq_Inr split: option.splits if_splits)

lemma verify_chain_failure:
  "verify_from X p rs = Inl f \<Longrightarrow>
     vf_status f \<noteq> Verified \<and> (\<exists>r \<in> set rs. vf_record_id f = Some (rc_record_id r))"
  by (induction X p rs rule: verify_from.induct)
    (auto simp: VerificationFailure_new_def split: option.splits if_splits sum.splits)

lemma intact_verify_all:
  "intact X rs = map_ok (list_all (\<lambda>out. vo_status out = Verified)) (verify_all X rs)"
  by (cases "verify_all X rs")
    (auto simp: intact_def detect_def locate_tampering_def filter_empty_conv list_all_iff)

text \<open>
  What \<open>intact\<close> means.  A history with a chained block is intact exactly when sealing it again
  reproduces it; a history without one is intact exactly when every record carries the digest of
  its own canonical content.  \<open>all_verified\<close> gives the same answer.
\<close>

lemma intact_iff:
  "all_verified X rs = intact X rs
   \<and> (intact X rs = Inr True \<longleftrightarrow>
       (if any_chained rs then seal_chain X rs = Inr rs
        else list_all (\<lambda>r. case rc_integrity r of
                            None \<Rightarrow> False
                          | Some i \<Rightarrow> record_digest X r = Inr (ri_digest i)) rs))"
proof (rule conjI)
  show "all_verified X rs = intact X rs" by (simp add: all_verified_def intact_verify_all)
  show "intact X rs = Inr True \<longleftrightarrow>
       (if any_chained rs then seal_chain X rs = Inr rs
        else list_all (\<lambda>r. case rc_integrity r of
                            None \<Rightarrow> False
                          | Some i \<Rightarrow> record_digest X r = Inr (ri_digest i)) rs)"
  proof (cases "any_chained rs")
    case True
    then show ?thesis
    proof (cases "verify_chain X rs")
      case (Inl f)
      with verify_chain_failure [of X None rs f] True show ?thesis
        by (auto simp: intact_verify_all verify_all_def Let_def VerificationOutcome_new_def
            verify_chain_def seal_chain_def simp flip: verify_from_iff_sealed split: option.split)
    next
      case (Inr u)
      with True show ?thesis
        by (simp add: intact_verify_all verify_all_def verify_chain_def seal_chain_def
            flip: verify_from_iff_sealed)
    qed
  next
    case False
    show ?thesis
    proof (cases "try_map (verify_record X) rs")
      case (Inl e)
      then have "\<not> list_all (\<lambda>r. case rc_integrity r of None \<Rightarrow> False
          | Some i \<Rightarrow> record_digest X r = Inr (ri_digest i)) rs"
        using try_map_Inl by (fastforce simp: list_all_iff verify_record_def and_then_eq_Inl Let_def
            split: option.splits if_splits)
      with Inl False show ?thesis by (simp add: intact_verify_all verify_all_def)
    next
      case (Inr os)
      with False show ?thesis
        using try_map_all [OF Inr verify_record_Verified]
        by (simp add: intact_verify_all verify_all_def)
    qed
  qed
qed

text \<open>
  \<open>verify_all\<close> returns no outcome at all for a chain that verifies, and a single outcome naming
  one of its records for a chain that does not; the result is not one outcome per record.
\<close>

lemma verify_all_chained_outcomes:
  assumes "any_chained rs"
  shows "if verify_chain X rs = Inr () then verify_all X rs = Inr []
    else \<exists>out r. verify_all X rs = Inr [out] \<and> vo_status out \<noteq> Verified
          \<and> r \<in> set rs \<and> vo_record_id out = rc_record_id r"
proof (cases "verify_chain X rs")
  case (Inl f)
  with verify_chain_failure [of X None rs f] assms show ?thesis
    by (auto simp: verify_all_def verify_chain_def Let_def VerificationOutcome_new_def)
next
  case (Inr u)
  with assms show ?thesis by (simp add: verify_all_def)
qed

section \<open>Locating an alteration\<close>

text \<open>The bytes hashed for a record, given the digest its predecessor has.\<close>

definition link_input :: "IntegrityDigest option \<Rightarrow> bytes \<Rightarrow> bytes" where
  "link_input prev input = (case prev of None \<Rightarrow> [] | Some p \<Rightarrow> dg_value p) @ input"

text \<open>
  A body exchanged under its integrity block is the first thing the verification of a chain can
  object to: the records before it verify and its links hold, so all that counts is whether its
  digest recomputes.
\<close>

lemma verify_from_altered:
  assumes "verify_from X p (xs @ r # ys) = Inr ()" "rc_integrity t = rc_integrity r"
    and "canonical_record_input X t = Inr bs" "canonical_record_input X r = Inr as"
  shows "verify_from X p (xs @ t # ys) =
    (if sha256 X (link_input (chain_head p xs) bs) = sha256 X (link_input (chain_head p xs) as) then Inr ()
     else Inl (VerificationFailure_new DigestMismatch (Some (rc_record_id t))
            ''record digest does not recompute from its content''))"
  using assms(1)
proof (induction xs arbitrary: p)
  case Nil
  then obtain d where d: "chain_step X p r = Inr d" "verify_from X (Some d) ys = Inr ()"
    "rc_integrity r = Some \<lparr>ri_digest = d, ri_prev_digest = p, ri_chained = True\<rparr>"
    by (auto simp: verify_from_Cons simp del: verify_from.simps)
  moreover from d(1) assms(3,4) obtain e where "chain_step X p t = Inr e"
    "d = e \<longleftrightarrow> sha256 X (link_input p bs) = sha256 X (link_input p as)"
    by (fastforce simp: chain_step_eq_Inr link_input_def)
  ultimately show ?case using assms(2) by auto
next
  case (Cons x xs)
  then obtain d where "chain_step X p x = Inr d" "verify_from X (Some d) (xs @ r # ys) = Inr ()"
    "rc_integrity x = Some \<lparr>ri_digest = d, ri_prev_digest = p, ri_chained = True\<rparr>"
    by (auto simp: verify_from_Cons simp del: verify_from.simps)
  with Cons.IH show ?case by (simp add: chain_head_Cons)
qed

lemma altered_record_located:
  assumes "verify_chain X rs = Inr ()" "k < length rs" "rc_integrity t = rc_integrity (rs ! k)"
    and "canonical_record_input X t = Inr bs" "canonical_record_input X (rs ! k) = Inr as"
  defines "pre \<equiv> chain_head None (take k rs)"
  shows "locate_tampering X (rs[k := t]) =
    Inr (if sha256 X (link_input pre bs) = sha256 X (link_input pre as) then []
         else [VerificationOutcome_new (rc_record_id t) DigestMismatch None None
                 (Some ''record digest does not recompute from its content'')])"
proof -
  have rs: "rs = take k rs @ rs ! k # drop (Suc k) rs" and new: "rs[k := t] = take k rs @ t # drop (Suc k) rs"
    using assms(2) by (simp_all add: id_take_nth_drop upd_conv_take_nth_drop)
  have v: "verify_from X None (take k rs @ rs ! k # drop (Suc k) rs) = Inr ()"
    using assms(1) rs by (simp add: verify_chain_def)
  have "\<exists>d. rc_integrity (rs ! k) = Some d \<and> ri_chained d"
    using v by (metis (no_types, lifting) RecordIntegrity.select_convs(3) verify_from_Cons verify_from_append)
  then have "any_chained (rs[k := t])" using assms(3) by (auto simp: any_chained_def new)
  with verify_from_altered [OF v assms(3-5)] show ?thesis
    unfolding new by (simp add: verify_chain_def pre_def locate_tampering_def verify_all_def
        VerificationFailure_new_def VerificationOutcome_new_def)
qed

text \<open>
  C13: an altered record is named.  When the body of one record of a verified chain is exchanged and its
  integrity block kept, \<open>locate_tampering\<close> returns exactly one outcome, for that record and with status
  \<open>digest-mismatch\<close>, whatever the position; it returns nothing only if the old and the new content, with the
  predecessor's digest before them, have the same SHA-256 value.
\<close>

theorem altered_record_named:
  assumes "verify_chain X rs = Inr ()" "k < length rs" "rc_integrity t = rc_integrity (rs ! k)"
    and "canonical_record_input X t = Inr bs" "canonical_record_input X (rs ! k) = Inr as"
  shows "locate_tampering X (rs[k := t]) =
    Inr (if sha256 X (link_input (chain_head None (take k rs)) bs) = sha256 X (link_input (chain_head None (take k rs)) as)
         then []
         else [VerificationOutcome_new (rc_record_id t) DigestMismatch None None
                 (Some ''record digest does not recompute from its content'')])"
  by (rule altered_record_located [OF assms])

text \<open>A hash that keeps the two ends of its input, for evaluation.\<close>

definition ends_32 :: "bytes \<Rightarrow> bytes" where
  "ends_32 bs = take 16 (bs @ replicate 16 (CHR 0x00)) @ take 16 (rev bs @ replicate 16 (CHR 0x00))"

lemma ends_32_hash [simp]: "hash_bytes_of (Abs_hash256 (ends_32 bs)) = ends_32 bs"
  by (simp add: Abs_hash256_inverse ends_32_def)

lemma ends_32_inject: "Abs_hash256 (ends_32 a) = Abs_hash256 (ends_32 b) \<longleftrightarrow> ends_32 a = ends_32 b"
  using ends_32_hash by metis

lemma ends_32_differ:
  "take 16 (rev a @ replicate 16 (CHR 0x00)) \<noteq> take 16 (rev b @ replicate 16 (CHR 0x00)) \<Longrightarrow> ends_32 a \<noteq> ends_32 b"
  unfolding ends_32_def by (subst append_eq_append_conv) simp_all

definition ends_ext :: integrity_ext where
  "ends_ext = sample_ext\<lparr>sha256 := Abs_hash256 \<circ> ends_32, json_record := \<lambda>r. Inr (''{'' @ [char_of (rc_recorded_at r)] @ ''}'')\<rparr>"

lemma ends_ext_simps [simp]:
  "sha256 ends_ext b = Abs_hash256 (ends_32 b)"
  "canonical_record_input ends_ext r = Inr (''{'' @ [char_of (rc_recorded_at r)] @ ''}'')"
  by (simp_all add: ends_ext_def sample_ext_def canonical_record_input_def record_canonical_bytes_def)

theorem altered_record_named_witness:
  "\<exists>rs. seal_chain ends_ext [sample_record ''rec_a1'' ''evt_a1'' (Some 7), sample_record ''rec_a2'' ''evt_a2'' (Some 8)] = Inr rs
     \<and> locate_tampering ends_ext (rs[1 := (rs ! 1)\<lparr>rc_recorded_at := 99\<rparr>]) =
         Inr [VerificationOutcome_new ''rec_a2'' DigestMismatch None None
                (Some ''record digest does not recompute from its content'')]"
proof -
  let ?rs = "[sample_record ''rec_a1'' ''evt_a1'' (Some 7), sample_record ''rec_a2'' ''evt_a2'' (Some 8)]"
  obtain rs where rs: "seal_from ends_ext None ?rs = Inr rs"
    using seal_from_total [of ends_ext None ?rs] by auto
  then obtain a b where ab: "rs = [a, b]" "b\<lparr>rc_integrity := None\<rparr> = sample_record ''rec_a2'' ''evt_a2'' (Some 8)"
    using seal_from_bodies [OF rs] by (auto simp: sample_record_def)
  from ab(2) have b: "rc_record_id b = ''rec_a2''" "rc_recorded_at b = 1700000000"
    by (cases b; simp add: sample_record_def)+
  have v: "verify_chain ends_ext rs = Inr ()"
    using seal_from_again [OF rs] by (simp add: verify_chain_def verify_from_iff_sealed)
  have "ends_32 (link_input p (''{'' @ [char_of (99 :: int)] @ ''}'')) \<noteq> ends_32 (link_input p (''{'' @ [char_of (1700000000 :: int)] @ ''}''))"
    for p by (rule ends_32_differ) (simp add: link_input_def)
  with altered_record_named [OF v, of 1 "b\<lparr>rc_recorded_at := 99\<rparr>"] rs ab(1) b show ?thesis
    by (simp add: ends_32_inject seal_chain_def)
qed

section \<open>Manifests\<close>

lemma manifest_entries_eq_Inr:
  "manifest_entries X seen rs = Inr es \<longleftrightarrow>
     distinct (map rc_record_id rs) \<and> seen \<inter> rc_record_id ` set rs = {}
     \<and> list_all2 (\<lambda>r e. me_record_id e = rc_record_id r \<and> record_digest X r = Inr (me_digest e)) rs es"
proof (induction rs arbitrary: seen es)
  case Nil
  then show ?case by auto
next
  case (Cons r rs)
  show ?case
  proof (cases es)
    case Nil
    then show ?thesis by (auto simp: and_then_eq_Inr map_ok_eq_Inr)
  next
    case (Cons e es')
    then show ?thesis
      by (cases e) (auto simp: and_then_eq_Inr map_ok_eq_Inr Cons.IH)
  qed
qed

lemma build_manifest_eq_Inr:
  assumes "build_manifest X rs opts t = Inr m"
  obtains bs where "manifest_entries X {} rs = Inr (im_entries m)"
    "json_entries X (im_entries m) = Inr bs"
    "im_aggregate_digest m = Some (hash_bytes X bs)"
    "IntegrityManifest_validate m = Inr ()"
    "im_manifest_id m = id_derive X ManifestIdT
       [mo_software_version opts,
        (case mo_from_ledger opts of Some l \<Rightarrow> show_int l | None \<Rightarrow> ''start''),
        (case mo_to_ledger opts of Some l \<Rightarrow> show_int l | None \<Rightarrow> ''end''),
        show_nat (length rs), sha256_hex X bs]"
  using assms
  by (auto simp: build_manifest_def and_then_eq_Inr map_ok_eq_Inr aggregate_hex_def
      aggregate_input_def IntegrityManifest_new_def Let_def)

lemma records_by_id_distinct:
  assumes "distinct (map rc_record_id rs)" "r \<in> set rs"
  shows "records_by_id rs (rc_record_id r) = Some r"
  using assms unfolding records_by_id_def
  by (induction rs rule: rev_induct) (auto simp: image_iff)

lemma records_by_id_Some:
  "records_by_id rs i = Some r \<Longrightarrow> r \<in> set rs \<and> rc_record_id r = i"
  unfolding records_by_id_def by (induction rs rule: rev_induct) (auto split: if_splits)

lemma verify_entry_Verified:
  assumes "verify_entry X m e = Inr out"
  shows "vo_record_id out = me_record_id e"
    and "vo_status out = Verified \<longleftrightarrow>
      (\<exists>r. m (me_record_id e) = Some r \<and> record_digest X r = Inr (me_digest e))"
  using assms
  by (auto simp: verify_entry_def Let_def and_then_eq_Inr VerificationOutcome_new_def
      split: option.splits if_splits)

text \<open>A manifest against the records it was built from, entry by entry and in the aggregate.\<close>

lemma build_manifest_sound:
  assumes "build_manifest X rs opts t = Inr m"
  shows "IntegrityManifest_validate m = Inr ()
    \<and> from_checked ManifestIdT (im_manifest_id m) = Inr (im_manifest_id m)
    \<and> verify_manifest_aggregate X m = Inr Verified
    \<and> (\<exists>os. verify_manifest_records X m rs = Inr os
         \<and> map vo_record_id os = map rc_record_id rs
         \<and> list_all (\<lambda>out. vo_status out = Verified) os)"
proof -
  from assms obtain bs where m: "manifest_entries X {} rs = Inr (im_entries m)"
    "json_entries X (im_entries m) = Inr bs" "im_aggregate_digest m = Some (hash_bytes X bs)"
    "IntegrityManifest_validate m = Inr ()"
    and mid: "from_checked ManifestIdT (im_manifest_id m) = Inr (im_manifest_id m)"
    by (rule build_manifest_eq_Inr) (simp add: id_derive_checked)
  from m(1) have d: "distinct (map rc_record_id rs)"
    and e: "list_all2 (\<lambda>r e. me_record_id e = rc_record_id r \<and> record_digest X r = Inr (me_digest e))
              rs (im_entries m)"
    by (simp_all add: manifest_entries_eq_Inr)
  let ?out = "\<lambda>e. VerificationOutcome_new (me_record_id e) Verified (Some (dg_value (me_digest e)))
    (Some (dg_value (me_digest e))) None"
  have "verify_entry X (records_by_id rs) en = Inr (?out en)" if "en \<in> set (im_entries m)" for en
  proof -
    from list_all2_right [OF e that] obtain r where "r \<in> set rs" "me_record_id en = rc_record_id r"
      "record_digest X r = Inr (me_digest en)" by blast
    with records_by_id_distinct [OF d] show ?thesis by (simp add: verify_entry_def Let_def)
  qed
  then have "verify_manifest_records X m rs = Inr (map ?out (im_entries m))"
    unfolding verify_manifest_records_def by (rule try_map_all_Inr)
  moreover have "map me_record_id (im_entries m) = map rc_record_id rs"
    using e by (induction rule: list_all2_induct) auto
  ultimately show ?thesis
    using m mid by (simp add: VerificationOutcome_new_def comp_def list_all_iff
        verify_manifest_aggregate_def aggregate_hex_def aggregate_input_def)
qed

text \<open>
  C30: a manifest verifies against the records it was built from.  Every manifest \<open>build_manifest\<close>
  returns satisfies its own validation, carries a well-formed manifest id and a verifying aggregate
  digest, and verifying it against the same records gives one \<open>Verified\<close> outcome per record in order.
\<close>

theorem build_manifest_verifies:
  assumes "build_manifest X rs opts t = Inr m"
  shows "IntegrityManifest_validate m = Inr ()
    \<and> from_checked ManifestIdT (im_manifest_id m) = Inr (im_manifest_id m)
    \<and> verify_manifest_aggregate X m = Inr Verified
    \<and> (\<exists>os. verify_manifest_records X m rs = Inr os
         \<and> map vo_record_id os = map rc_record_id rs
         \<and> list_all (\<lambda>out. vo_status out = Verified) os)"
  by (rule build_manifest_sound [OF assms])

definition sample_manifest :: IntegrityManifest where
  "sample_manifest = projr (build_manifest sample_ext [sample_record ''rec_a1'' ''evt_a1'' (Some 7)]
     \<lparr>mo_from_ledger = None, mo_to_ledger = Some 9, mo_software_version = ''1.0.0''\<rparr> 1700000000)"

lemma sample_manifest_built:
  "build_manifest sample_ext [sample_record ''rec_a1'' ''evt_a1'' (Some 7)]
     \<lparr>mo_from_ledger = None, mo_to_ledger = Some 9, mo_software_version = ''1.0.0''\<rparr> 1700000000
   = Inr sample_manifest"
proof -
  have "json_entries sample_ext = (\<lambda>es. Inr (''['' @ concat (map me_record_id es) @ '']''))"
    by (simp add: sample_ext_def)
  then show ?thesis
    by (simp add: sample_manifest_def build_manifest_def record_digest_def aggregate_hex_def
        aggregate_input_def Let_def IntegrityManifest_validate_def IntegrityManifest_new_def
        range_inverted_def)
qed

theorem build_manifest_verifies_witness:
  "verify_manifest_aggregate sample_ext sample_manifest = Inr Verified"
  using build_manifest_verifies [OF sample_manifest_built] by simp

text \<open>
  C31: a manifest is evidence for the records it lists.  If all entries of a manifest verify against
  some other set of records, every record the manifest was built from has a counterpart there with
  the same id and the same canonical content, unless the two contents are a SHA-256 collision.
\<close>

theorem manifest_detects_changes:
  assumes "build_manifest X rs opts t = Inr m"
    and "verify_manifest_records X m rs' = Inr os"
    and "list_all (\<lambda>out. vo_status out = Verified) os"
    and "r \<in> set rs"
  shows "\<exists>r' a b. r' \<in> set rs' \<and> rc_record_id r' = rc_record_id r
    \<and> canonical_record_input X r = Inr a \<and> canonical_record_input X r' = Inr b
    \<and> (a = b \<or> a \<noteq> b \<and> sha256 X a = sha256 X b)"
proof -
  from assms(1) have es: "list_all2
      (\<lambda>r e. me_record_id e = rc_record_id r \<and> record_digest X r = Inr (me_digest e)) rs (im_entries m)"
    by (auto elim: build_manifest_eq_Inr simp: manifest_entries_eq_Inr)
  from list_all2_left [OF es assms(4)] obtain e where e: "e \<in> set (im_entries m)" "me_record_id e = rc_record_id r"
    "record_digest X r = Inr (me_digest e)" by blast
  have "list_all (\<lambda>out. vo_status out = Verified) os \<longleftrightarrow>
      list_all (\<lambda>e. \<exists>r. records_by_id rs' (me_record_id e) = Some r
        \<and> record_digest X r = Inr (me_digest e)) (im_entries m)"
    by (rule try_map_all [OF assms(2) [unfolded verify_manifest_records_def]])
      (rule verify_entry_Verified(2))
  with assms(3) have "list_all (\<lambda>e. \<exists>r. records_by_id rs' (me_record_id e) = Some r
        \<and> record_digest X r = Inr (me_digest e)) (im_entries m)" by simp
  with e obtain r' where "records_by_id rs' (rc_record_id r) = Some r'"
    "record_digest X r' = Inr (me_digest e)" by (auto simp: list_all_iff)
  with e(3) show ?thesis
    by (auto simp: record_digest_eq_Inr dest: records_by_id_Some)
qed

theorem manifest_detects_changes_witness:
  "\<exists>r' a b. r' \<in> set [sample_record ''rec_a1'' ''evt_b2'' (Some 8)]
    \<and> rc_record_id r' = rc_record_id (sample_record ''rec_a1'' ''evt_a1'' (Some 7))
    \<and> canonical_record_input sample_ext (sample_record ''rec_a1'' ''evt_a1'' (Some 7)) = Inr a
    \<and> canonical_record_input sample_ext r' = Inr b
    \<and> (a = b \<or> a \<noteq> b \<and> sha256 sample_ext a = sha256 sample_ext b)"
proof -
  let ?r' = "sample_record ''rec_a1'' ''evt_b2'' (Some 8)"
  from sample_manifest_built obtain bs where
    "manifest_entries sample_ext {} [sample_record ''rec_a1'' ''evt_a1'' (Some 7)] = Inr (im_entries sample_manifest)"
    by (rule build_manifest_eq_Inr)
  then have "im_entries sample_manifest =
      [\<lparr>me_record_id = ''rec_a1'', me_digest = hash_bytes sample_ext ''{rec_a1}''\<rparr>]"
    by (simp add: record_digest_def)
  then have "verify_manifest_records sample_ext sample_manifest [?r'] =
      Inr [VerificationOutcome_new ''rec_a1'' Verified (Some (sha256_hex sample_ext ''{rec_a1}''))
        (Some (sha256_hex sample_ext ''{rec_a1}'')) None]"
    by (simp add: verify_manifest_records_def verify_entry_def records_by_id_def record_digest_def)
  from manifest_detects_changes [OF sample_manifest_built this,
      of "sample_record ''rec_a1'' ''evt_a1'' (Some 7)"]
  show ?thesis by (simp add: VerificationOutcome_new_def)
qed

end
