(* ===== verification/Audit_Source.thy ===== *)
theory Audit_Source
  imports Audit_Event
begin

text \<open>
  \<open>crates/audit-core/src/source.rs\<close>: raw items, pages and the \<open>EventSource\<close> trait, and the error
  type of the normalizer (\<open>crates/event-normalizer/src/errors.rs\<close>).

  A trait object is a record of its methods: \<open>fetch_after\<close> maps the source's state to the result
  and the new state.  The associated error type is only ever printed, so the error is its text.
\<close>

text \<open>The label rule shared by items, checkpoints and cursors.\<close>

definition label_ok :: "nat \<Rightarrow> string \<Rightarrow> bool" where
  "label_ok bound raw \<longleftrightarrow>
     1 \<le> length raw \<and> length raw \<le> bound
     \<and> list_all (\<lambda>c. is_ascii_graphic c \<and> c \<noteq> CHR '' '' \<and> c \<noteq> CHR 0x22) raw"

datatype SourceError =
    FetchFailed string
  | InvalidPosition string
  | LimitOutOfRange nat
  | InvalidItem string

fun SourceError_to_string :: "SourceError \<Rightarrow> string" where
  "SourceError_to_string (FetchFailed d) = ''source fetch failed: '' @ d"
| "SourceError_to_string (InvalidPosition d) = ''invalid source position: '' @ d"
| "SourceError_to_string (LimitOutOfRange n) =
     ''page limit '' @ show_nat n @ '' is outside the supported range''"
| "SourceError_to_string (InvalidItem d) = ''invalid source item: '' @ d"

definition SourceError_into_core :: "SourceError \<Rightarrow> AuditError" where
  "SourceError_into_core e = SourceFailure (SourceError_to_string e)"

definition validate_label :: "string \<Rightarrow> string \<Rightarrow> nat \<Rightarrow> SourceError + unit" where
  "validate_label kind raw bound =
     (if label_ok bound raw then Inr ()
      else Inl (InvalidItem (kind @ '' label must be 1-'' @ show_nat bound
                  @ '' non-space printable ASCII chars'')))"

record RawEventItem =
  it_scheme :: string
  it_payload :: string
  it_position :: string

definition RawEventItem_new :: "string \<Rightarrow> string \<Rightarrow> string \<Rightarrow> SourceError + RawEventItem" where
  "RawEventItem_new scheme payload position =
     and_then (validate_label ''scheme'' scheme 64) (\<lambda>_.
     and_then (validate_label ''position'' position 512) (\<lambda>_.
     and_then (fail_if (length payload > 4 * 1024 * 1024)
                 (InvalidItem ''payload exceeds the 4 MiB item limit'')) (\<lambda>_.
     Inr \<lparr>it_scheme = scheme, it_payload = payload, it_position = position\<rparr>)))"

record SourcePage =
  sp_items :: "RawEventItem list"
  sp_next :: "string option"

definition SourcePage_new :: "RawEventItem list \<Rightarrow> string option \<Rightarrow> SourcePage" where
  "SourcePage_new items next = \<lparr>sp_items = items, sp_next = next\<rparr>"

definition SourcePage_end :: SourcePage where
  "SourcePage_end = SourcePage_new [] None"

definition SourcePage_has_more :: "SourcePage \<Rightarrow> bool" where
  "SourcePage_has_more p \<longleftrightarrow> sp_next p \<noteq> None"

record 's EventSource =
  source_name :: "'s \<Rightarrow> string"
  fetch_after :: "'s \<Rightarrow> string option \<Rightarrow> nat \<Rightarrow> (string + SourcePage) \<times> 's"

section \<open>Normalizer errors\<close>

datatype NormalizerError =
    UnsupportedScheme string
  | UnsupportedVersion string string string
  | MalformedPayload string string
  | ValidationFailed string string
  | ClassificationFailed string string

fun NormalizerError_into_core :: "NormalizerError \<Rightarrow> AuditError" where
  "NormalizerError_into_core (UnsupportedScheme s) =
     UnsupportedEvent (''ingestion scheme `'' @ s @ ''` is not supported'')"
| "NormalizerError_into_core (UnsupportedVersion scheme version detail) =
     UnsupportedEventVersion (scheme @ '' payload version '' @ version @ '': '' @ detail)"
| "NormalizerError_into_core (MalformedPayload scheme detail) =
     InvalidEvent (''malformed '' @ scheme @ '' payload: '' @ detail)"
| "NormalizerError_into_core (ValidationFailed scheme detail) =
     InvalidEvent (''invalid '' @ scheme @ '' payload: '' @ detail)"
| "NormalizerError_into_core (ClassificationFailed scheme detail) =
     InvalidEvent (''cannot classify '' @ scheme @ '' payload: '' @ detail)"

lemma RawEventItem_new_Inr:
  "RawEventItem_new scheme payload position = Inr item \<longleftrightarrow>
     label_ok 64 scheme \<and> label_ok 512 position \<and> length payload \<le> 4 * 1024 * 1024
     \<and> item = \<lparr>it_scheme = scheme, it_payload = payload, it_position = position\<rparr>"
  by (auto simp: RawEventItem_new_def and_then_eq_Inr validate_label_def)

end
