(* ===== verification/Audit_Indexer.thy ===== *)
theory Audit_Indexer
  imports Audit_Source Audit_Memory_Store
begin

text \<open>
  \<open>crates/event-indexer/src\<close>: checkpoints, deduplication, page ordering, the \<open>run_once\<close> cycle and
  bounded replay.

  \<open>run_once\<close> is generic over the source, the checkpoint store and the event store, as in the source;
  each is a record (or, for the event store, the one function it calls) of state-passing methods.
  The normalizer is a function from raw items to events.  The clock is the sequence of its readings:
  a run reads it once for each record it builds.
\<close>

section \<open>Cursors, checkpoints, policies\<close>

type_synonym SourceCursor = string

definition SourceCursor_new :: "string \<Rightarrow> string + SourceCursor" where
  "SourceCursor_new raw =
     (if label_ok 512 raw then Inr raw
      else Inl ''invalid source cursor: cursor must be 1-512 non-space printable ASCII chars'')"

datatype IndexerError =
    Source string
  | Normalize NormalizerError
  | Store StoreError
  | CheckpointError string
  | Ordering string
  | Position string
  | InternalError string

fun IndexerError_into_core :: "IndexerError \<Rightarrow> AuditError" where
  "IndexerError_into_core (Source d) = SourceFailure d"
| "IndexerError_into_core (Normalize e) = NormalizerError_into_core e"
| "IndexerError_into_core (Store e) = StorageFailure (StoreError_to_string e)"
| "IndexerError_into_core (CheckpointError d) = Internal d"
| "IndexerError_into_core (Ordering d) = Internal d"
| "IndexerError_into_core (Position d) = Internal d"
| "IndexerError_into_core (InternalError d) = Internal d"

definition validate_source_name :: "string \<Rightarrow> IndexerError + unit" where
  "validate_source_name name =
     (if label_ok 64 name then Inr ()
      else Inl (CheckpointError ''source name must be 1-64 non-space printable ASCII chars''))"

record Checkpoint =
  cp_source_name :: string
  cp_position :: "SourceCursor option"

definition Checkpoint_fresh :: "string \<Rightarrow> IndexerError + Checkpoint" where
  "Checkpoint_fresh name =
     map_ok (\<lambda>_. \<lparr>cp_source_name = name, cp_position = None\<rparr>) (validate_source_name name)"

definition Checkpoint_at :: "string \<Rightarrow> SourceCursor \<Rightarrow> IndexerError + Checkpoint" where
  "Checkpoint_at name position =
     map_ok (\<lambda>_. \<lparr>cp_source_name = name, cp_position = Some position\<rparr>) (validate_source_name name)"

record 'c CheckpointStore =
  load :: "'c \<Rightarrow> string \<Rightarrow> IndexerError + SourceCursor option"
  save :: "'c \<Rightarrow> Checkpoint \<Rightarrow> (IndexerError + unit) \<times> 'c"

type_synonym InMemoryCheckpointStore = "string \<rightharpoonup> SourceCursor"

definition InMemoryCheckpointStore_new :: InMemoryCheckpointStore where
  "InMemoryCheckpointStore_new = Map.empty"

definition memcp_load ::
  "InMemoryCheckpointStore \<Rightarrow> string \<Rightarrow> IndexerError + SourceCursor option" where
  "memcp_load positions name = Inr (positions name)"

definition memcp_save ::
  "InMemoryCheckpointStore \<Rightarrow> Checkpoint \<Rightarrow> (IndexerError + unit) \<times> InMemoryCheckpointStore" where
  "memcp_save positions checkpoint =
     (case cp_position checkpoint of
        Some position \<Rightarrow> (Inr (), positions(cp_source_name checkpoint \<mapsto> position))
      | None \<Rightarrow> (Inr (), positions))"

definition memcp :: "InMemoryCheckpointStore CheckpointStore" where
  "memcp = \<lparr>load = memcp_load, save = memcp_save\<rparr>"

datatype DedupPolicy = SkipDuplicates | FailOnDuplicate

datatype DedupResult = New | Skipped | Conflict

fun classify :: "InsertOutcome \<Rightarrow> DedupPolicy \<Rightarrow> DedupResult" where
  "classify Inserted _ = New"
| "classify Duplicate SkipDuplicates = Skipped"
| "classify Duplicate FailOnDuplicate = Conflict"

type_synonym DedupGuard = "EventId set"

definition DedupGuard_new :: DedupGuard where [simp]:
  "DedupGuard_new = {}"

definition DedupGuard_contains :: "DedupGuard \<Rightarrow> EventId \<Rightarrow> bool" where [simp]:
  "DedupGuard_contains guard event_id \<longleftrightarrow> event_id \<in> guard"

definition DedupGuard_note :: "DedupGuard \<Rightarrow> EventId \<Rightarrow> DedupGuard" where [simp]:
  "DedupGuard_note guard event_id = insert event_id guard"

definition DedupGuard_len :: "DedupGuard \<Rightarrow> nat" where
  "DedupGuard_len guard = card guard"

definition DedupGuard_is_empty :: "DedupGuard \<Rightarrow> bool" where
  "DedupGuard_is_empty guard \<longleftrightarrow> guard = {}"

section \<open>Page ordering\<close>

fun opt_cmp :: "'a::linorder option \<Rightarrow> 'a option \<Rightarrow> ordering" where
  "opt_cmp (Some x) (Some y) = cmp x y"
| "opt_cmp (Some _) None = Less"
| "opt_cmp None (Some _) = Greater"
| "opt_cmp None None = Equal"

definition compare_order :: "EventOrder \<Rightarrow> EventOrder \<Rightarrow> ordering" where
  "compare_order a b =
     then_with (opt_cmp (eo_ledger_sequence a) (eo_ledger_sequence b))
       (then_with (opt_cmp (eo_operation_index a) (eo_operation_index b))
          (opt_cmp (eo_event_index a) (eo_event_index b)))"

text \<open>\<open>order.windows(2).all(...)\<close>.\<close>

fun is_strictly_increasing :: "EventOrder list \<Rightarrow> bool" where
  "is_strictly_increasing (a # b # os) \<longleftrightarrow>
     compare_order a b = Less \<and> is_strictly_increasing (b # os)"
| "is_strictly_increasing _ \<longleftrightarrow> True"

text \<open>The \<open>{:?}\<close> rendering of an optional number, and \<open>str::replace\<close> for a non-empty pattern.\<close>

fun debug_opt :: "('a \<Rightarrow> string) \<Rightarrow> 'a option \<Rightarrow> string" where
  "debug_opt render None = ''None''"
| "debug_opt render (Some x) = ''Some('' @ render x @ '')''"

function str_replace :: "string \<Rightarrow> string \<Rightarrow> string \<Rightarrow> string" where
  "str_replace pat rep [] = []"
| "str_replace pat rep (c # cs) =
     (if pat \<noteq> [] \<and> take (length pat) (c # cs) = pat
      then rep @ str_replace pat rep (drop (length pat) (c # cs))
      else c # str_replace pat rep cs)"
  by pat_completeness auto
termination by (relation "measure (\<lambda>(pat, rep, s). length s)") (auto simp: neq_Nil_conv)

text \<open>The three messages of the branch in which the first placement comes first.\<close>

definition describe_precedes :: "EventOrder \<Rightarrow> EventOrder \<Rightarrow> string" where
  "describe_precedes a b =
     (if eo_ledger_sequence a \<noteq> eo_ledger_sequence b
      then ''ledger '' @ debug_opt show_int (eo_ledger_sequence a) @ '' precedes ledger ''
             @ debug_opt show_int (eo_ledger_sequence b)
      else if eo_operation_index a \<noteq> eo_operation_index b
      then ''operation '' @ debug_opt show_nat (eo_operation_index a) @ '' precedes operation ''
             @ debug_opt show_nat (eo_operation_index b)
      else ''event '' @ debug_opt show_nat (eo_event_index a) @ '' precedes event ''
             @ debug_opt show_nat (eo_event_index b))"

text \<open>The recursive call of the last branch is on placements in order, so it is this message.\<close>

fun describe_difference :: "EventOrder \<Rightarrow> EventOrder \<Rightarrow> string" where
  "describe_difference a b =
     (case compare_order a b of
        Equal \<Rightarrow> ''same placement''
      | Less \<Rightarrow> describe_precedes a b
      | Greater \<Rightarrow> str_replace ''precedes'' ''follows'' (describe_precedes b a))"

section \<open>One indexing cycle\<close>

datatype MalformedItemPolicy = AbortOnMalformed | SkipAndReport

record IngestReport =
  ir_fetched :: nat
  ir_inserted :: nat
  ir_duplicates :: nat
  ir_quarantined :: "string list"
  ir_unverified_order :: nat
  ir_has_more :: bool

definition consumed :: "IngestReport \<Rightarrow> nat" where
  "consumed report = ir_fetched report"

definition IngestReport_to_string :: "IngestReport \<Rightarrow> string" where
  "IngestReport_to_string report =
     ''fetched '' @ show_nat (ir_fetched report) @ '', inserted '' @ show_nat (ir_inserted report)
     @ '', duplicate '' @ show_nat (ir_duplicates report)
     @ '', quarantined '' @ show_nat (length (ir_quarantined report))
     @ '', unverified-order '' @ show_nat (ir_unverified_order report)"

record Indexer =
  ix_normalize :: "RawEventItem \<Rightarrow> NormalizerError + AuditEvent"
  ix_clock :: "nat \<Rightarrow> Timestamp"
  ix_dedup_policy :: DedupPolicy
  ix_malformed_policy :: MalformedItemPolicy
  ix_page_limit :: nat

definition Indexer_new ::
  "(RawEventItem \<Rightarrow> NormalizerError + AuditEvent) \<Rightarrow> (nat \<Rightarrow> Timestamp) \<Rightarrow> DedupPolicy
     \<Rightarrow> MalformedItemPolicy \<Rightarrow> nat \<Rightarrow> IndexerError + Indexer" where
  "Indexer_new normalizer clock dedup malformed page_limit =
     (if page_limit = 0 then Inl (InternalError ''page limit must be positive'')
      else Inr \<lparr>ix_normalize = normalizer, ix_clock = clock, ix_dedup_policy = dedup,
                ix_malformed_policy = malformed, ix_page_limit = page_limit\<rparr>)"

text \<open>The mutable variables of step 3.\<close>

record IngestState =
  is_report :: IngestReport
  is_guard :: DedupGuard
  is_records :: "AuditRecord list"
  is_placements :: "EventOrder list"

text \<open>The placement bookkeeping at the end of the loop body.\<close>

definition note_placement :: "EventOrder \<Rightarrow> IngestState \<Rightarrow> IngestState" where
  "note_placement placement st =
     (if eo_ledger_sequence placement \<noteq> None
      then st\<lparr>is_placements := is_placements st @ [placement]\<rparr>
      else st\<lparr>is_report := (is_report st)\<lparr>ir_unverified_order := ir_unverified_order (is_report st) + 1\<rparr>\<rparr>)"

definition ingest_item ::
  "('z) event_ext_scheme \<Rightarrow> Indexer \<Rightarrow> RawEventItem \<Rightarrow> IngestState \<Rightarrow> IndexerError + IngestState" where
  "ingest_item X ix item st =
     (case ix_normalize ix item of
        Inr event \<Rightarrow>
          (if DedupGuard_contains (is_guard st) (ev_event_id event)
           then Inr (note_placement (ev_order event)
                  (st\<lparr>is_report := (is_report st)\<lparr>ir_duplicates := ir_duplicates (is_report st) + 1\<rparr>\<rparr>))
           else
             (case from_event X event (ix_clock ix (length (is_records st))) of
                Inl e \<Rightarrow> Inl (InternalError (AuditError_to_string e))
              | Inr r \<Rightarrow>
                  Inr (note_placement (ev_order event)
                    (st\<lparr>is_guard := DedupGuard_note (is_guard st) (ev_event_id event),
                        is_records := is_records st @ [r]\<rparr>))))
      | Inl e \<Rightarrow>
          (case ix_malformed_policy ix of
             AbortOnMalformed \<Rightarrow> Inl (Normalize e)
           | SkipAndReport \<Rightarrow>
               Inr (st\<lparr>is_report := (is_report st)\<lparr>ir_quarantined :=
                       ir_quarantined (is_report st) @ [it_position item]\<rparr>\<rparr>)))"

fun ingest_items ::
  "('z) event_ext_scheme \<Rightarrow> Indexer \<Rightarrow> RawEventItem list \<Rightarrow> IngestState \<Rightarrow> IndexerError + IngestState" where
  "ingest_items X ix [] st = Inr st"
| "ingest_items X ix (item # items) st =
     and_then (ingest_item X ix item st) (\<lambda>st'. ingest_items X ix items st')"

definition initial_report :: "SourcePage \<Rightarrow> IngestReport" where
  "initial_report page =
     \<lparr>ir_fetched = length (sp_items page), ir_inserted = 0, ir_duplicates = 0, ir_quarantined = [],
      ir_unverified_order = 0, ir_has_more = SourcePage_has_more page\<rparr>"

text \<open>Step 5: append the records of the page in one batch.\<close>

definition append_page ::
  "('t \<Rightarrow> WriteBatch \<Rightarrow> (StoreError + BatchOutcome) \<times> 't) \<Rightarrow> DedupPolicy \<Rightarrow> IngestReport
     \<Rightarrow> AuditRecord list \<Rightarrow> 't \<Rightarrow> (IndexerError + IngestReport) \<times> 't" where
  "append_page insert_batch policy report records store =
     (if records = [] then (Inr report, store)
      else case WriteBatch_new records of
             Inl e \<Rightarrow> (Inl (InternalError (AuditError_to_string e)), store)
           | Inr batch \<Rightarrow>
               (case insert_batch store batch of
                  (Inl e, store') \<Rightarrow> (Inl (Store e), store')
                | (Inr outcome, store') \<Rightarrow>
                    if policy = FailOnDuplicate \<and> bo_duplicates outcome > 0
                    then (Inl (CheckpointError (''duplicate events under FailOnDuplicate policy: ''
                                 @ show_nat (bo_duplicates outcome))), store')
                    else (Inr (report\<lparr>ir_inserted := bo_inserted outcome,
                                     ir_duplicates := ir_duplicates report + bo_duplicates outcome\<rparr>),
                          store')))"

text \<open>Step 6: checkpoint the position of the last item.\<close>

definition checkpoint_page ::
  "'c CheckpointStore \<Rightarrow> string \<Rightarrow> RawEventItem list \<Rightarrow> 'c \<Rightarrow> (IndexerError + unit) \<times> 'c" where
  "checkpoint_page C name items cps =
     (if items = [] then (Inr (), cps)
      else case SourceCursor_new (it_position (last items)) of
             Inl e \<Rightarrow> (Inl (CheckpointError e), cps)
           | Inr position \<Rightarrow>
               (case Checkpoint_at name position of
                  Inl e \<Rightarrow> (Inl e, cps)
                | Inr checkpoint \<Rightarrow> save C cps checkpoint))"

text \<open>Steps 3 to 6 on the fetched page.\<close>

definition ingest_page ::
  "('z) event_ext_scheme \<Rightarrow> Indexer \<Rightarrow> 'c CheckpointStore
     \<Rightarrow> ('t \<Rightarrow> WriteBatch \<Rightarrow> (StoreError + BatchOutcome) \<times> 't) \<Rightarrow> string \<Rightarrow> SourcePage \<Rightarrow> 'c \<Rightarrow> 't
     \<Rightarrow> (IndexerError + IngestReport) \<times> 'c \<times> 't" where
  "ingest_page X ix C insert_batch name page cps store =
     (case ingest_items X ix (sp_items page)
             \<lparr>is_report = initial_report page, is_guard = DedupGuard_new, is_records = [], is_placements = []\<rparr> of
        Inl e \<Rightarrow> (Inl e, cps, store)
      | Inr st \<Rightarrow>
          if \<not> is_strictly_increasing (is_placements st)
          then (Inl (Ordering ''page events are not in strictly increasing ledger order''), cps, store)
          else
            (case append_page insert_batch (ix_dedup_policy ix) (is_report st) (is_records st) store of
               (Inl e, store') \<Rightarrow> (Inl e, cps, store')
             | (Inr report, store') \<Rightarrow>
                 (case checkpoint_page C name (sp_items page) cps of
                    (Inl e, cps') \<Rightarrow> (Inl e, cps', store')
                  | (Inr _, cps') \<Rightarrow> (Inr report, cps', store'))))"

definition run_once ::
  "('z) event_ext_scheme \<Rightarrow> Indexer \<Rightarrow> 's EventSource \<Rightarrow> 'c CheckpointStore
     \<Rightarrow> ('t \<Rightarrow> WriteBatch \<Rightarrow> (StoreError + BatchOutcome) \<times> 't) \<Rightarrow> 's \<Rightarrow> 'c \<Rightarrow> 't
     \<Rightarrow> (IndexerError + IngestReport) \<times> 's \<times> 'c \<times> 't" where
  "run_once X ix S C insert_batch source cps store =
     (case load C cps (source_name S source) of
        Inl e \<Rightarrow> (Inl e, source, cps, store)
      | Inr resumed \<Rightarrow>
          (case fetch_after S source resumed (ix_page_limit ix) of
             (Inl e, source') \<Rightarrow> (Inl (Source e), source', cps, store)
           | (Inr page, source') \<Rightarrow>
               (case ingest_page X ix C insert_batch (source_name S source') page cps store of
                  (res, cps', store') \<Rightarrow> (res, source', cps', store'))))"

section \<open>Replay\<close>

record ReplayOptions =
  ro_max_pages :: "nat option"
  ro_max_records :: "nat option"
  ro_page_limit :: nat

definition ReplayOptions_default :: ReplayOptions where
  "ReplayOptions_default = \<lparr>ro_max_pages = None, ro_max_records = None, ro_page_limit = 1000\<rparr>"

record ReplayReport =
  rp_pages :: nat
  rp_inserted :: nat
  rp_duplicates :: nat
  rp_truncated :: bool
  rp_last_position :: "string option"

definition ReplayReport_describe :: "ReplayReport \<Rightarrow> string" where
  "ReplayReport_describe report =
     ''pages '' @ show_nat (rp_pages report) @ '', inserted '' @ show_nat (rp_inserted report)
     @ '', duplicate '' @ show_nat (rp_duplicates report)
     @ '', truncated '' @ (if rp_truncated report then ''true'' else ''false'')"

text \<open>The clock of a replay: one reading of the caller's clock, returned every time.\<close>

record FixedReplayClock =
  instant :: Timestamp

definition replay_clock :: "Timestamp \<Rightarrow> FixedReplayClock" where [simp]:
  "replay_clock now = \<lparr>instant = now\<rparr>"

definition FixedReplayClock_now :: "FixedReplayClock \<Rightarrow> nat \<Rightarrow> Timestamp" where [simp]:
  "FixedReplayClock_now clock = (\<lambda>reading. instant clock)"

definition exhausted :: "nat option \<Rightarrow> nat \<Rightarrow> bool" where
  "exhausted budget n = (case budget of Some m \<Rightarrow> n \<ge> m | None \<Rightarrow> False)"

text \<open>The loop has no bound of its own: not returning is the value \<open>None\<close>.\<close>

partial_function (option) replay_loop ::
  "('z) event_ext_scheme \<Rightarrow> Indexer \<Rightarrow> 's EventSource
     \<Rightarrow> ('t \<Rightarrow> WriteBatch \<Rightarrow> (StoreError + BatchOutcome) \<times> 't) \<Rightarrow> ReplayOptions
     \<Rightarrow> 's \<Rightarrow> InMemoryCheckpointStore \<Rightarrow> 't \<Rightarrow> ReplayReport
     \<Rightarrow> ((IndexerError + ReplayReport) \<times> 's \<times> 't) option" where
  "replay_loop X ix S insert_batch options source cps target report =
     (if exhausted (ro_max_pages options) (rp_pages report)
      then Some (Inr (report\<lparr>rp_truncated := True\<rparr>), source, target)
      else
        (case run_once X ix S memcp insert_batch source cps target of
           (res, source', cps', target') \<Rightarrow>
             (case res of
                Inl e \<Rightarrow> Some (Inl e, source', target')
              | Inr page_report \<Rightarrow>
                  (case memcp_load cps' (source_name S source') of
                     Inl e \<Rightarrow> Some (Inl e, source', target')
                   | Inr last_position \<Rightarrow>
                       (let report' = report\<lparr>rp_pages := rp_pages report + 1,
                              rp_inserted := rp_inserted report + ir_inserted page_report,
                              rp_duplicates := rp_duplicates report + ir_duplicates page_report,
                              rp_last_position := last_position\<rparr>
                        in if \<not> ir_has_more page_report then Some (Inr report', source', target')
                           else if exhausted (ro_max_pages options) (rp_pages report')
                                   \<or> exhausted (ro_max_records options) (rp_inserted report')
                           then Some (Inr (report'\<lparr>rp_truncated := True\<rparr>), source', target')
                           else replay_loop X ix S insert_batch options source' cps' target' report')))))"

definition replay_into ::
  "('z) event_ext_scheme \<Rightarrow> (RawEventItem \<Rightarrow> NormalizerError + AuditEvent) \<Rightarrow> Timestamp
     \<Rightarrow> 's EventSource \<Rightarrow> ('t \<Rightarrow> WriteBatch \<Rightarrow> (StoreError + BatchOutcome) \<times> 't)
     \<Rightarrow> 's \<Rightarrow> 't \<Rightarrow> SourceCursor option \<Rightarrow> ReplayOptions
     \<Rightarrow> ((IndexerError + ReplayReport) \<times> 's \<times> 't) option" where
  "replay_into X normalizer now S insert_batch source target start_from options =
     (case (case start_from of
              None \<Rightarrow> Inr InMemoryCheckpointStore_new
            | Some start \<Rightarrow>
                and_then (Checkpoint_at (source_name S source) start) (\<lambda>cp.
                  (case memcp_save InMemoryCheckpointStore_new cp of
                     (Inl e, _) \<Rightarrow> Inl e
                   | (Inr _, cps) \<Rightarrow> Inr cps))) of
        Inl e \<Rightarrow> Some (Inl e, source, target)
      | Inr checkpoints \<Rightarrow>
          (case Indexer_new normalizer (FixedReplayClock_now (replay_clock now)) SkipDuplicates AbortOnMalformed
                  (ro_page_limit options) of
             Inl e \<Rightarrow> Some (Inl e, source, target)
           | Inr indexer \<Rightarrow>
               replay_loop X indexer S insert_batch options source checkpoints target
                 \<lparr>rp_pages = 0, rp_inserted = 0, rp_duplicates = 0, rp_truncated = False,
                  rp_last_position = start_from\<rparr>))"

section \<open>Page ordering is a strict order\<close>

definition placement_key :: "EventOrder \<Rightarrow> int option \<times> nat option \<times> nat option" where
  "placement_key p = (eo_ledger_sequence p, eo_operation_index p, eo_event_index p)"

lemma opt_cmp_unknown_last: "opt_cmp a b = cmp_unknown_last a b"
  by (cases a; cases b) simp_all

lemma comparator_placement:
  "comparator (\<lambda>x y. then_with (opt_cmp (fst x) (fst y))
     (then_with (opt_cmp (fst (snd x)) (fst (snd y))) (opt_cmp (snd (snd x)) (snd (snd y)))))"
  for x :: "'a::linorder option \<times> 'b::linorder option \<times> 'c::linorder option"
  unfolding opt_cmp_unknown_last
  by (intro comparator_then [where g = "\<lambda>x y. then_with (cmp_unknown_last (fst x) (fst y)) (cmp_unknown_last (snd x) (snd y))"]
      comparator_then comparator_unknown_last)

interpretation placement: comparator
  "\<lambda>x y :: int option \<times> nat option \<times> nat option. then_with (opt_cmp (fst x) (fst y))
     (then_with (opt_cmp (fst (snd x)) (fst (snd y))) (opt_cmp (snd (snd x)) (snd (snd y))))"
  by (rule comparator_placement)

lemma compare_order_key:
  "compare_order a b = then_with (opt_cmp (fst (placement_key a)) (fst (placement_key b)))
     (then_with (opt_cmp (fst (snd (placement_key a))) (fst (snd (placement_key b))))
        (opt_cmp (snd (snd (placement_key a))) (snd (snd (placement_key b)))))"
  by (simp add: compare_order_def placement_key_def)

lemma compare_order_trans:
  "compare_order a b = Less \<Longrightarrow> compare_order b c = Less \<Longrightarrow> compare_order a c = Less"
  unfolding compare_order_key by (rule placement.cmp_trans)

lemma compare_order_Equal: "compare_order a b = Equal \<longleftrightarrow> placement_key a = placement_key b"
  unfolding compare_order_key by (rule placement.cmp_Equal)

lemma is_strictly_increasing_iff:
  "is_strictly_increasing ps \<longleftrightarrow> sorted_wrt (\<lambda>a b. compare_order a b = Less) ps"
proof (induction ps rule: is_strictly_increasing.induct)
  case (1 a b ps)
  then show ?case by (auto intro: compare_order_trans)
qed simp_all

text \<open>
  The diagnostic text.  Placements in order are described as such; for placements out of order the
  operands are exchanged and \<open>precedes\<close> becomes \<open>follows\<close>, so the text says that the earlier ledger
  follows the later one.
\<close>

lemma str_replace_skip:
  assumes "CHR ''p'' \<notin> set u"
  shows "str_replace ''precedes'' rep (u @ w) = u @ str_replace ''precedes'' rep w"
  using assms by (induction u) auto

lemma str_replace_precedes:
  "CHR ''p'' \<notin> set u \<Longrightarrow> CHR ''p'' \<notin> set v \<Longrightarrow>
     str_replace ''precedes'' rep (u @ ''precedes'' @ v) = u @ rep @ v"
  using str_replace_skip [of v rep "[]"] by (simp add: str_replace_skip)

lemma show_nat_no_p: "CHR ''p'' \<notin> set (show_nat n)"
  using show_nat_digits [of "CHR ''p''" n] by (auto simp: ascii_defs byte_def)

lemma debug_opt_no_p:
  "CHR ''p'' \<notin> set (debug_opt show_int i)" "CHR ''p'' \<notin> set (debug_opt show_nat n)"
  by (cases i; simp add: show_int_def show_nat_no_p) (cases n; simp add: show_nat_no_p)

lemma describe_difference_swaps:
  assumes "compare_order a b = Greater"
  shows "describe_difference a b = str_replace ''precedes'' ''follows'' (describe_difference b a)"
proof -
  have "compare_order b a = Less"
    using assms unfolding compare_order_key by (simp only: placement.cmp_swap)
  with assms show ?thesis by simp
qed

lemma describe_difference_reversed:
  assumes "compare_order a b = Greater" "eo_ledger_sequence a \<noteq> eo_ledger_sequence b"
  shows "describe_difference a b = ''ledger '' @ debug_opt show_int (eo_ledger_sequence b)
    @ '' follows ledger '' @ debug_opt show_int (eo_ledger_sequence a)"
  using assms
    str_replace_precedes [of "''ledger '' @ debug_opt show_int (eo_ledger_sequence b) @ '' ''"
      "'' ledger '' @ debug_opt show_int (eo_ledger_sequence a)" "''follows''"]
    debug_opt_no_p(1)
  by (simp add: describe_precedes_def)

lemma is_strictly_increasing_distinct:
  "is_strictly_increasing ps \<Longrightarrow> distinct (map placement_key ps)"
  unfolding is_strictly_increasing_iff
  by (induction ps) (auto simp: image_iff, metis compare_order_Equal ordering.distinct(1))

section \<open>What a page contributes\<close>

text \<open>The events of the items that normalize, in page order.\<close>

definition page_events :: "Indexer \<Rightarrow> RawEventItem list \<Rightarrow> AuditEvent list" where
  "page_events ix items =
     concat (map (\<lambda>i. case ix_normalize ix i of Inl _ \<Rightarrow> [] | Inr ev \<Rightarrow> [ev]) items)"

lemma page_events_simps [simp]:
  "page_events ix [] = []"
  "page_events ix (i # items) =
     (case ix_normalize ix i of Inl _ \<Rightarrow> page_events ix items | Inr ev \<Rightarrow> ev # page_events ix items)"
  by (simp_all add: page_events_def split: sum.split)

lemma note_placement_fields [simp]:
  "is_guard (note_placement p st) = is_guard st"
  "is_records (note_placement p st) = is_records st"
  "ir_fetched (is_report (note_placement p st)) = ir_fetched (is_report st)"
  "ir_inserted (is_report (note_placement p st)) = ir_inserted (is_report st)"
  "ir_duplicates (is_report (note_placement p st)) = ir_duplicates (is_report st)"
  "ir_quarantined (is_report (note_placement p st)) = ir_quarantined (is_report st)"
  "ir_has_more (is_report (note_placement p st)) = ir_has_more (is_report st)"
  "is_placements (note_placement p st) =
     (if eo_ledger_sequence p \<noteq> None then is_placements st @ [p] else is_placements st)"
  by (auto simp: note_placement_def)

definition guard_ok :: "IngestState \<Rightarrow> bool" where
  "guard_ok st \<longleftrightarrow> is_guard st = rc_event_id ` set (is_records st)
     \<and> distinct (map rc_event_id (is_records st))"

lemma ingest_item_spec:
  assumes "ingest_item X ix item st = Inr st'" "guard_ok st"
  shows "guard_ok st'"
    and "is_guard st' = is_guard st \<union> ev_event_id ` set (page_events ix [item])"
    and "is_placements st' = is_placements st
      @ filter (\<lambda>p. eo_ledger_sequence p \<noteq> None) (map ev_order (page_events ix [item]))"
    and "ir_quarantined (is_report st') = ir_quarantined (is_report st)
      @ (if isl (ix_normalize ix item) then [it_position item] else [])"
    and "length (is_records st') + ir_duplicates (is_report st') =
      length (is_records st) + ir_duplicates (is_report st) + length (page_events ix [item])"
    and "ir_fetched (is_report st') = ir_fetched (is_report st)"
    and "ir_has_more (is_report st') = ir_has_more (is_report st)"
  using assms
  by (auto simp: ingest_item_def guard_ok_def from_event_fields
      split: sum.splits if_splits MalformedItemPolicy.splits)

lemma ingest_items_spec:
  assumes "ingest_items X ix items st = Inr st'" "guard_ok st"
  shows "guard_ok st'
    \<and> is_guard st' = is_guard st \<union> ev_event_id ` set (page_events ix items)
    \<and> is_placements st' = is_placements st
      @ filter (\<lambda>p. eo_ledger_sequence p \<noteq> None) (map ev_order (page_events ix items))
    \<and> ir_quarantined (is_report st') = ir_quarantined (is_report st)
      @ map it_position (filter (\<lambda>i. isl (ix_normalize ix i)) items)
    \<and> length (is_records st') + ir_duplicates (is_report st') =
      length (is_records st) + ir_duplicates (is_report st) + length (page_events ix items)
    \<and> ir_fetched (is_report st') = ir_fetched (is_report st)
    \<and> ir_has_more (is_report st') = ir_has_more (is_report st)"
  using assms
proof (induction items arbitrary: st)
  case (Cons i items)
  then obtain st1 where i: "ingest_item X ix i st = Inr st1" "ingest_items X ix items st1 = Inr st'"
    by (auto simp: and_then_eq_Inr)
  note s = ingest_item_spec [OF i(1) Cons.prems(2)]
  from Cons.IH [OF i(2) s(1)] s show ?case by (auto split: sum.splits)
qed simp

lemma ingest_items_inserted:
  "ingest_items X ix items st = Inr st' \<Longrightarrow> ir_inserted (is_report st') = ir_inserted (is_report st)"
  by (induction items arbitrary: st)
    (auto simp: and_then_eq_Inr ingest_item_def split: sum.splits if_splits MalformedItemPolicy.splits)

lemma page_events_length:
  "length (page_events ix items) + length (filter (\<lambda>i. isl (ix_normalize ix i)) items) = length items"
  by (induction items) (auto split: sum.split)

lemma page_events_mem:
  "i \<in> set items \<Longrightarrow> ix_normalize ix i = Inr ev \<Longrightarrow> ev \<in> set (page_events ix items)"
  by (force simp: page_events_def)

text \<open>Ingesting the same items again from the start gives the same outcome: step 3 does not look at the store.\<close>

abbreviation start_state :: "SourcePage \<Rightarrow> IngestState" where
  "start_state page \<equiv>
     \<lparr>is_report = initial_report page, is_guard = {}, is_records = [], is_placements = []\<rparr>"

lemma guard_ok_start [simp]: "guard_ok (start_state page)"
  by (simp add: guard_ok_def)

lemma append_page_empty [simp]: "append_page ins pol rep [] store = (Inr rep, store)"
  by (simp add: append_page_def)

lemma ingest_page_Inr:
  assumes "ingest_page X ix C ins name page cps store = (Inr rep, cps', store')"
  obtains st where "ingest_items X ix (sp_items page) (start_state page) = Inr st"
    "is_strictly_increasing (is_placements st)"
    "append_page ins (ix_dedup_policy ix) (is_report st) (is_records st) store = (Inr rep, store')"
    "checkpoint_page C name (sp_items page) cps = (Inr (), cps')"
  using assms by (auto simp: ingest_page_def split: sum.splits prod.splits if_splits)

lemma run_once_Inr:
  assumes "run_once X ix S C ins src cps store = (Inr rep, src', cps', store')"
  obtains resumed page where "load C cps (source_name S src) = Inr resumed"
    "fetch_after S src resumed (ix_page_limit ix) = (Inr page, src')"
    "ingest_page X ix C ins (source_name S src') page cps store = (Inr rep, cps', store')"
  using assms by (auto simp: run_once_def split: sum.splits prod.splits)

text \<open>Only the stamps of the records depend on the clock.\<close>

definition unstamped :: "AuditRecord \<Rightarrow> AuditRecord" where
  "unstamped r = r\<lparr>rc_recorded_at := 0\<rparr>"

lemma unstamped_fields [simp]:
  "rc_event_id (unstamped r) = rc_event_id r"
  "rc_record_id (unstamped r) = rc_record_id r"
  "record_wf (unstamped r) = record_wf r"
  by (simp_all add: unstamped_def rc_event_id_def record_wf_def)

lemma batch_wf_unstamped: "map unstamped rs = map unstamped rs' \<Longrightarrow> batch_wf rs = batch_wf rs'"
proof -
  have "batch_wf rs = batch_wf (map unstamped rs)" for rs
    by (auto simp: batch_wf_def comp_def)
  then show "map unstamped rs = map unstamped rs' \<Longrightarrow> batch_wf rs = batch_wf rs'" by metis
qed

definition same_but_stamps :: "IngestState \<Rightarrow> IngestState \<Rightarrow> bool" where
  "same_but_stamps st st2 \<longleftrightarrow>
     is_report st = is_report st2 \<and> is_guard st = is_guard st2
     \<and> is_placements st = is_placements st2
     \<and> map unstamped (is_records st) = map unstamped (is_records st2)"

lemma from_event_clock:
  "from_event X ev now = Inr r \<Longrightarrow> from_event X ev now2 = Inr (r\<lparr>rc_recorded_at := now2\<rparr>)"
  by (auto simp: from_event_def split: sum.splits)

lemma ingest_item_clock:
  assumes "ingest_item X ix item st = Inr st'" "same_but_stamps st st2"
  shows "\<exists>st2'. ingest_item X (ix\<lparr>ix_clock := clock2\<rparr>) item st2 = Inr st2' \<and> same_but_stamps st' st2'"
proof -
  obtain rep g rs ps rs2 where st: "st = \<lparr>is_report = rep, is_guard = g, is_records = rs, is_placements = ps\<rparr>"
    "st2 = \<lparr>is_report = rep, is_guard = g, is_records = rs2, is_placements = ps\<rparr>"
    and rs: "map unstamped rs = map unstamped rs2"
    using assms(2) by (cases st; cases st2) (simp add: same_but_stamps_def)
  show ?thesis
  proof (cases "ix_normalize ix item")
    case (Inl e)
    with assms(1) st rs show ?thesis
      by (cases "ix_malformed_policy ix") (auto simp: ingest_item_def same_but_stamps_def)
  next
    case (Inr ev)
    show ?thesis
    proof (cases "ev_event_id ev \<in> g")
      case True
      with Inr assms(1) st rs show ?thesis
        by (auto simp: ingest_item_def same_but_stamps_def note_placement_def)
    next
      case False
      with Inr assms(1) st obtain r where r: "from_event X ev (ix_clock ix (length rs)) = Inr r"
        by (auto simp: ingest_item_def split: sum.splits)
      with Inr False assms(1) st rs show ?thesis
        using from_event_clock [OF r, of "clock2 (length rs2)"]
        by (auto simp: ingest_item_def same_but_stamps_def note_placement_def unstamped_def)
    qed
  qed
qed

lemma ingest_items_clock:
  assumes "ingest_items X ix items st = Inr st'" "same_but_stamps st st2"
  shows "\<exists>st2'. ingest_items X (ix\<lparr>ix_clock := clock2\<rparr>) items st2 = Inr st2' \<and> same_but_stamps st' st2'"
  using assms
proof (induction items arbitrary: st st2)
  case (Cons i items)
  then obtain st1 where i: "ingest_item X ix i st = Inr st1" "ingest_items X ix items st1 = Inr st'"
    by (auto simp: and_then_eq_Inr)
  from ingest_item_clock [OF i(1) Cons.prems(2)] obtain st3 where
    "ingest_item X (ix\<lparr>ix_clock := clock2\<rparr>) i st2 = Inr st3" "same_but_stamps st1 st3" by blast
  with Cons.IH [OF i(2)] show ?case by simp
qed auto

section \<open>The checkpoint contract\<close>

text \<open>What \<open>run_once\<close> relies on of \<open>CheckpointStore\<close>: saving is atomic, and loading returns what was saved.\<close>

locale checkpoint_store =
  fixes C :: "'c CheckpointStore"
  assumes save_failed: "save C c k = (Inl e, c') \<Longrightarrow> c' = c"
    and save_error: "save C c k = (Inl e, c') \<Longrightarrow> \<exists>d. e = CheckpointError d"
    and load_save: "save C c k = (Inr (), c') \<Longrightarrow>
      load C c' n = (if n = cp_source_name k \<and> cp_position k \<noteq> None then Inr (cp_position k)
                     else load C c n)"
begin

lemma checkpoint_page_failed: "checkpoint_page C name items c = (Inl e, c') \<Longrightarrow> c' = c"
  by (auto simp: checkpoint_page_def dest: save_failed split: if_splits sum.splits)

lemma checkpoint_page_error: "checkpoint_page C name items c = (Inl e, c') \<Longrightarrow> \<exists>d. e = CheckpointError d"
  by (auto simp: checkpoint_page_def Checkpoint_at_def validate_source_name_def dest: save_error
      split: if_splits sum.splits)

lemma checkpoint_page_saved:
  assumes "checkpoint_page C name items c = (Inr (), c')"
  shows "load C c' n = (if n = name \<and> items \<noteq> [] then Inr (Some (it_position (last items)))
                        else load C c n)"
proof (cases "items = []")
  case False
  with assms obtain k where "save C c k = (Inr (), c')"
    "k = \<lparr>cp_source_name = name, cp_position = Some (it_position (last items))\<rparr>"
    by (auto simp: checkpoint_page_def SourceCursor_new_def Checkpoint_at_def validate_source_name_def
        split: if_splits sum.splits)
  with load_save [of c k c' n] False show ?thesis by simp
qed (use assms in \<open>simp add: checkpoint_page_def\<close>)

end

interpretation memcp: checkpoint_store memcp
  by unfold_locales (auto simp: memcp_def memcp_save_def memcp_load_def split: option.splits)

section \<open>Indexing against the two contracts\<close>

locale ingest = event_store st_insert_batch st_contains st_invar + checkpoint_store C
  for st_insert_batch :: "'t \<Rightarrow> WriteBatch \<Rightarrow> (StoreError + BatchOutcome) \<times> 't"
    and st_contains :: "'t \<Rightarrow> EventId \<Rightarrow> bool"
    and st_invar :: "'t \<Rightarrow> bool"
    and C :: "'c CheckpointStore"
begin

lemma append_page_ok:
  assumes "st_invar store" "distinct (map rc_event_id rs)"
    and "append_page st_insert_batch pol rep rs store = (Inr rep', store')"
  shows "st_invar store'"
    and "st_contains store' ev \<longleftrightarrow> st_contains store ev \<or> ev \<in> rc_event_id ` set rs"
    and "ir_inserted rep' + ir_duplicates rep' =
      (if rs = [] then ir_inserted rep else 0) + ir_duplicates rep + length rs"
    and "ir_quarantined rep' = ir_quarantined rep" "ir_fetched rep' = ir_fetched rep"
      "ir_has_more rep' = ir_has_more rep"
    and "rs \<noteq> [] \<Longrightarrow> batch_wf rs"
proof -
  have "st_invar store' \<and> (st_contains store' ev \<longleftrightarrow> st_contains store ev \<or> ev \<in> rc_event_id ` set rs)
    \<and> ir_inserted rep' + ir_duplicates rep' =
      (if rs = [] then ir_inserted rep else 0) + ir_duplicates rep + length rs
    \<and> ir_quarantined rep' = ir_quarantined rep \<and> ir_fetched rep' = ir_fetched rep
    \<and> ir_has_more rep' = ir_has_more rep \<and> (rs \<noteq> [] \<longrightarrow> batch_wf rs)"
  proof (cases "rs = []")
    case False
    with assms(3) obtain out where b: "batch_wf rs" "st_insert_batch store rs = (Inr out, store')"
      "rep' = rep\<lparr>ir_inserted := bo_inserted out, ir_duplicates := ir_duplicates rep + bo_duplicates out\<rparr>"
      by (auto simp: append_page_def WriteBatch_new_Inr split: sum.splits prod.splits if_splits)
    then show ?thesis
      using False batch_invar [OF assms(1) b(1,2)] batch_contains [OF assms(1) b(2)]
        batch_accounts [OF assms(1) b(2)] by auto
  qed (use assms in simp)
  then show "st_invar store'"
    and "st_contains store' ev \<longleftrightarrow> st_contains store ev \<or> ev \<in> rc_event_id ` set rs"
    and "ir_inserted rep' + ir_duplicates rep' =
      (if rs = [] then ir_inserted rep else 0) + ir_duplicates rep + length rs"
    and "ir_quarantined rep' = ir_quarantined rep" "ir_fetched rep' = ir_fetched rep"
      "ir_has_more rep' = ir_has_more rep"
    and "rs \<noteq> [] \<Longrightarrow> batch_wf rs" by auto
qed

lemma append_page_error:
  assumes "append_page st_insert_batch pol rep rs store = (Inl e, store')"
  shows "store' = store \<or> pol = FailOnDuplicate \<and> (\<exists>d. e = CheckpointError d)"
  using assms batch_rejected
  by (auto simp: append_page_def split: sum.splits prod.splits if_splits)

text \<open>A page that was ingested is accounted for item by item.\<close>

lemma ingest_page_no_loss:
  assumes "st_invar store"
    and "ingest_page X ix C st_insert_batch name page cps store = (Inr rep, cps', store')"
  shows "st_invar store'"
    and "st_contains store' ev \<longleftrightarrow>
      st_contains store ev \<or> ev \<in> ev_event_id ` set (page_events ix (sp_items page))"
    and "ir_fetched rep = length (sp_items page)"
    and "ir_inserted rep + ir_duplicates rep + length (ir_quarantined rep) = length (sp_items page)"
    and "ir_quarantined rep =
      map it_position (filter (\<lambda>i. isl (ix_normalize ix i)) (sp_items page))"
    and "load C cps' n = (if n = name \<and> sp_items page \<noteq> []
      then Inr (Some (it_position (last (sp_items page)))) else load C cps n)"
proof -
  from assms(2) obtain st where st:
    "ingest_items X ix (sp_items page) (start_state page) = Inr st"
    "append_page st_insert_batch (ix_dedup_policy ix) (is_report st) (is_records st) store = (Inr rep, store')"
    "checkpoint_page C name (sp_items page) cps = (Inr (), cps')" by (rule ingest_page_Inr)
  from ingest_items_spec [OF st(1) guard_ok_start] have sp: "guard_ok st"
    "is_guard st = ev_event_id ` set (page_events ix (sp_items page))"
    "ir_quarantined (is_report st) = map it_position (filter (\<lambda>i. isl (ix_normalize ix i)) (sp_items page))"
    "length (is_records st) + ir_duplicates (is_report st) = length (page_events ix (sp_items page))"
    "ir_fetched (is_report st) = length (sp_items page)"
    by (auto simp: initial_report_def)
  then have g: "rc_event_id ` set (is_records st) = ev_event_id ` set (page_events ix (sp_items page))"
    and d: "distinct (map rc_event_id (is_records st))" by (auto simp: guard_ok_def)
  note a = append_page_ok [OF assms(1) d st(2)]
  show "st_invar store'" by (rule a)
  show "st_contains store' ev \<longleftrightarrow>
      st_contains store ev \<or> ev \<in> ev_event_id ` set (page_events ix (sp_items page))"
    using a(2) g by simp
  show "ir_fetched rep = length (sp_items page)" using a(5) sp(5) by simp
  show "ir_quarantined rep = map it_position (filter (\<lambda>i. isl (ix_normalize ix i)) (sp_items page))"
    using a(4) sp(3) by simp
  have "ir_inserted (is_report st) = 0"
    using ingest_items_inserted [OF st(1)] by (simp add: initial_report_def)
  then show "ir_inserted rep + ir_duplicates rep + length (ir_quarantined rep) = length (sp_items page)"
    using a(3,4) sp(3,4) page_events_length [of ix "sp_items page"] by (auto split: if_splits)
  show "load C cps' n = (if n = name \<and> sp_items page \<noteq> []
      then Inr (Some (it_position (last (sp_items page)))) else load C cps n)"
    by (rule checkpoint_page_saved [OF st(3)])
qed

lemma ingest_page_error:
  assumes "ingest_page X ix C st_insert_batch name page cps store = (Inl e, cps', store')"
  shows "cps' = cps" and "store' = store \<or> (\<exists>d. e = CheckpointError d)"
proof -
  have "cps' = cps \<and> (store' = store \<or> (\<exists>d. e = CheckpointError d))"
    using assms
    by (auto simp: ingest_page_def dest: append_page_error checkpoint_page_failed
        checkpoint_page_error split: sum.splits prod.splits if_splits)
  then show "cps' = cps" and "store' = store \<or> (\<exists>d. e = CheckpointError d)" by auto
qed

text \<open>Whatever becomes of a page, the store keeps what it had and gains events of the page only.\<close>

lemma ingest_page_bounds:
  assumes "st_invar store" "ingest_page X ix C st_insert_batch name page cps store = (res, cps', store')"
  shows "st_invar store'" and "st_contains store ev \<Longrightarrow> st_contains store' ev"
    and "st_contains store' ev \<Longrightarrow>
      st_contains store ev \<or> ev \<in> ev_event_id ` set (page_events ix (sp_items page))"
proof -
  have "store' = store \<or> (\<exists>st out. ingest_items X ix (sp_items page) (start_state page) = Inr st
      \<and> batch_wf (is_records st) \<and> st_insert_batch store (is_records st) = (out, store'))"
    using assms(2) by (auto simp: ingest_page_def append_page_def WriteBatch_new_Inr
        split: if_splits sum.splits prod.splits)
  then have "st_invar store' \<and> (st_contains store ev \<longrightarrow> st_contains store' ev)
    \<and> (st_contains store' ev \<longrightarrow> st_contains store ev \<or> ev \<in> ev_event_id ` set (page_events ix (sp_items page)))"
  proof (elim disjE exE conjE)
    fix st out
    assume st: "ingest_items X ix (sp_items page) (start_state page) = Inr st" "batch_wf (is_records st)"
      and b: "st_insert_batch store (is_records st) = (out, store')"
    from ingest_items_spec [OF st(1) guard_ok_start]
    have "rc_event_id ` set (is_records st) = ev_event_id ` set (page_events ix (sp_items page))"
      by (auto simp: guard_ok_def)
    with b batch_rejected batch_contains [OF assms(1)] batch_invar [OF assms(1) st(2) b] show ?thesis
      by (cases out) auto
  qed (use assms(1) in simp)
  then show "st_invar store'" "st_contains store ev \<Longrightarrow> st_contains store' ev"
    "st_contains store' ev \<Longrightarrow> st_contains store ev \<or> ev \<in> ev_event_id ` set (page_events ix (sp_items page))"
    by auto
qed

text \<open>
  Ingesting the page again, from any checkpoint state and at any later time, writes nothing: the
  situation after a crash between the store write and the checkpoint.
\<close>

lemma ingest_page_again:
  assumes "st_invar store" "ix_dedup_policy ix = SkipDuplicates"
    and "ingest_page X ix C st_insert_batch name page cps store = (Inr rep, cps', store')"
    and "checkpoint_page C name (sp_items page) cps2 = (Inr (), cps2')"
  shows "\<exists>rep2. ingest_page X (ix\<lparr>ix_clock := clock2\<rparr>) C st_insert_batch name page cps2 store'
      = (Inr rep2, cps2', store') \<and> ir_inserted rep2 = 0"
proof -
  from assms(3) obtain st where st:
    "ingest_items X ix (sp_items page) (start_state page) = Inr st"
    "is_strictly_increasing (is_placements st)"
    "append_page st_insert_batch (ix_dedup_policy ix) (is_report st) (is_records st) store = (Inr rep, store')"
    by (rule ingest_page_Inr)
  from ingest_items_clock [OF st(1), of "start_state page" clock2] obtain st2 where st2:
    "ingest_items X (ix\<lparr>ix_clock := clock2\<rparr>) (sp_items page) (start_state page) = Inr st2"
    "same_but_stamps st st2" by (auto simp: same_but_stamps_def)
  from ingest_items_spec [OF st(1) guard_ok_start] have d: "distinct (map rc_event_id (is_records st))"
    by (simp add: guard_ok_def)
  have rep0: "ir_inserted (is_report st2) = 0"
    using ingest_items_inserted [OF st2(1)] by (simp add: initial_report_def)
  have "\<exists>rep2. append_page st_insert_batch SkipDuplicates (is_report st2) (is_records st2) store'
      = (Inr rep2, store') \<and> ir_inserted rep2 = 0"
  proof (cases "is_records st2 = []")
    case False
    from st2(2) have u: "map unstamped (is_records st) = map unstamped (is_records st2)"
      by (simp add: same_but_stamps_def)
    with False have ne: "is_records st \<noteq> []" by auto
    note a = append_page_ok [OF assms(1) d st(3)]
    have wf: "batch_wf (is_records st2)" using a(7) [OF ne] batch_wf_unstamped [OF u] by simp
    have "map rc_event_id (is_records st) = map rc_event_id (is_records st2)"
      using arg_cong [OF u, of "map rc_event_id"] by (simp add: comp_def)
    then have "rc_event_id ` set (is_records st2) = rc_event_id ` set (is_records st)"
      by (metis list.set_map)
    then have "\<forall>r \<in> set (is_records st2). record_wf r \<and> st_contains store' (rc_event_id r)"
      using wf a(2) by (auto simp: batch_wf_def)
    from batch_known [OF a(1) this] wf False show ?thesis
      by (simp add: append_page_def iffD2 [OF WriteBatch_new_Inr])
  qed (use rep0 in simp)
  with st(2) st2 assms(2,4) show ?thesis
    by (auto simp: ingest_page_def same_but_stamps_def)
qed

end

interpretation mem_ingest: ingest mem_insert_batch mem_contains_event mem_inv memcp
  by unfold_locales

section \<open>Properties of a cycle\<close>

lemma memcp_load [simp]: "load memcp cps n = Inr (cps n)"
  by (simp add: memcp_def memcp_load_def)

text \<open>A fixture source with a fixed first page, and a normalizer that reads the event id from the payload.\<close>

definition sample_json :: event_ext where
  "sample_json =
     \<lparr>sha256 = \<lambda>bs. Abs_hash256 (take 32 (bs @ replicate 32 (CHR 0x00))), json_strings = concat,
      json_event = \<lambda>e. Inr (ev_event_id e)\<rparr>"

definition sample_item :: "string \<Rightarrow> string \<Rightarrow> RawEventItem" where
  "sample_item position eid = \<lparr>it_scheme = ''fixture'', it_payload = eid, it_position = position\<rparr>"

definition sample_source :: "RawEventItem list \<Rightarrow> string option \<Rightarrow> unit EventSource" where
  "sample_source items next =
     \<lparr>source_name = \<lambda>_. ''fixture'',
      fetch_after = \<lambda>s after limit.
        (Inr (if after = None then SourcePage_new items next else SourcePage_end), s)\<rparr>"

definition sample_indexer :: "DedupPolicy \<Rightarrow> Indexer" where
  "sample_indexer policy =
     \<lparr>ix_normalize = \<lambda>i. Inr (sample_event (it_payload i) (Some 7)), ix_clock = \<lambda>_. 1700000000,
      ix_dedup_policy = policy, ix_malformed_policy = AbortOnMalformed, ix_page_limit = 10\<rparr>"

lemma sample_from_event:
  "\<exists>r. from_event sample_json (sample_event eid l) now = Inr r \<and> record_wf r \<and> rc_event_id r = eid"
  by (simp add: from_event_def event_canonical_bytes_def sample_json_def record_wf_def rc_event_id_def)

lemma sample_run:
  obtains rep store' where
    "run_once sample_json (sample_indexer SkipDuplicates) (sample_source [sample_item ''p1'' ''evt_a1''] None)
       memcp mem_insert_batch () Map.empty mem_new
     = (Inr rep, (), [''fixture'' \<mapsto> ''p1''], store')"
proof -
  obtain r where r: "from_event sample_json (sample_event ''evt_a1'' (Some 7)) 1700000000 = Inr r"
    "record_wf r" "rc_event_id r = ''evt_a1''" using sample_from_event by blast
  then have wf: "batch_wf [r]" by (simp add: batch_wf_def)
  obtain out s where b: "mem_insert_batch mem_new [r] = (Inr out, s)"
    using r(2) by (auto simp: mem_insert_batch_Inr)
  have "\<exists>rep. run_once sample_json (sample_indexer SkipDuplicates)
      (sample_source [sample_item ''p1'' ''evt_a1''] None) memcp mem_insert_batch () Map.empty mem_new
     = (Inr rep, (), [''fixture'' \<mapsto> ''p1''], s)"
    using r wf b
    by (simp add: run_once_def ingest_page_def sample_source_def SourcePage_new_def ingest_item_def
        sample_indexer_def sample_item_def note_placement_def append_page_def checkpoint_page_def
        SourceCursor_new_def Checkpoint_at_def validate_source_name_def label_ok_def ascii_defs byte_def
        iffD2 [OF WriteBatch_new_Inr] memcp_def memcp_save_def memcp_load_def EventOrder_default_def)
  then show thesis using that by blast
qed

text \<open>
  C2: a completed indexing cycle loses nothing.  When \<open>run_once\<close> returns a report, the store holds
  exactly the events it held before and the events of the fetched items that normalize, the
  positions of all other items are in \<open>quarantined\<close> in page order, every fetched item is counted once
  as inserted, duplicate or quarantined, and the checkpoint is the position of the last item.
\<close>

theorem run_once_no_loss:
  assumes "mem_inv store"
    and "run_once X ix S memcp mem_insert_batch src cps store = (Inr rep, src', cps', store')"
  shows "\<exists>page. fetch_after S src (cps (source_name S src)) (ix_page_limit ix) = (Inr page, src')
    \<and> mem_inv store'
    \<and> mem_contains_event store' =
        (\<lambda>e. mem_contains_event store e \<or> e \<in> ev_event_id ` set (page_events ix (sp_items page)))
    \<and> ir_fetched rep = length (sp_items page)
    \<and> ir_inserted rep + ir_duplicates rep + length (ir_quarantined rep) = ir_fetched rep
    \<and> ir_quarantined rep =
        map it_position (filter (\<lambda>i. isl (ix_normalize ix i)) (sp_items page))
    \<and> cps' = (if sp_items page = [] then cps
              else cps(source_name S src' \<mapsto> it_position (last (sp_items page))))"
proof -
  from assms(2) obtain resumed page where r: "load memcp cps (source_name S src) = Inr resumed"
    "fetch_after S src resumed (ix_page_limit ix) = (Inr page, src')"
    and p: "ingest_page X ix memcp mem_insert_batch (source_name S src') page cps store = (Inr rep, cps', store')"
    by (rule run_once_Inr)
  note n = mem_ingest.ingest_page_no_loss [OF assms(1) p]
  have "cps' = (if sp_items page = [] then cps
      else cps(source_name S src' \<mapsto> it_position (last (sp_items page))))"
  proof (rule ext)
    fix m show "cps' m = (if sp_items page = [] then cps
        else cps(source_name S src' \<mapsto> it_position (last (sp_items page)))) m"
      using n(6) [of m] by (auto split: if_splits)
  qed
  then show ?thesis using r n(1-5) by (intro exI [of _ page]) (auto simp: fun_eq_iff)
qed

theorem run_once_no_loss_witness:
  "\<exists>rep store'. run_once sample_json (sample_indexer SkipDuplicates)
       (sample_source [sample_item ''p1'' ''evt_a1''] None) memcp mem_insert_batch () Map.empty mem_new
     = (Inr rep, (), [''fixture'' \<mapsto> ''p1''], store')
   \<and> ir_fetched rep = 1 \<and> mem_contains_event store' ''evt_a1''"
proof -
  obtain rep store' where r: "run_once sample_json (sample_indexer SkipDuplicates)
       (sample_source [sample_item ''p1'' ''evt_a1''] None) memcp mem_insert_batch () Map.empty mem_new
     = (Inr rep, (), [''fixture'' \<mapsto> ''p1''], store')" by (rule sample_run)
  from run_once_no_loss [OF _ this] r show ?thesis
    by (auto simp: sample_source_def SourcePage_new_def sample_indexer_def sample_item_def)
qed

text \<open>
  A failed cycle never moves the checkpoint.  Whatever error \<open>run_once\<close> returns, the checkpoint is
  the one it started from; and the store is unchanged too, except that a checkpoint failure (which
  includes the \<open>FailOnDuplicate\<close> refusal) is reported after the batch was written.
\<close>

lemma run_once_error_safe:
  assumes "run_once X ix S memcp mem_insert_batch src cps store = (Inl e, src', cps', store')"
  shows "cps' = cps \<and> (store' = store \<or> (\<exists>d. e = CheckpointError d))"
proof (cases "fetch_after S src (cps (source_name S src)) (ix_page_limit ix)")
  case (Pair res s)
  then show ?thesis
  proof (cases res)
    case (Inl d)
    with Pair assms show ?thesis by (simp add: run_once_def)
  next
    case (Inr page)
    with Pair assms have "ingest_page X ix memcp mem_insert_batch (source_name S s) page cps store
      = (Inl e, cps', store')" by (auto simp: run_once_def split: prod.splits)
    with mem_ingest.ingest_page_error show ?thesis by blast
  qed
qed

text \<open>
  C15: indexing that skips duplicates is idempotent across a crash.  Take an indexer with the policy
  \<open>SkipDuplicates\<close>, a source whose name does not change and a consistent store.  If a cycle wrote its page but the
  checkpoint was lost, the next cycle that is served the same page, at any later time and from any
  checkpoint state, succeeds, inserts nothing, leaves the store exactly as it is, and restores the
  checkpoint.  Under \<open>FailOnDuplicate\<close> the same cycle fails instead, and the checkpoint stays lost.
\<close>

theorem run_once_rerun_idempotent:
  assumes "mem_inv store" and "ix_dedup_policy ix = SkipDuplicates"
    and "source_name S = (\<lambda>_. name)"
    and "fetch_after S src (cps name) (ix_page_limit ix) = (Inr page, src')"
    and "run_once X ix S memcp mem_insert_batch src cps store = (Inr rep, src', cps', store')"
    and "fetch_after S src2 (cps2 name) (ix_page_limit ix) = (Inr page, src2')"
  shows "\<exists>rep2. run_once X (ix\<lparr>ix_clock := clock2\<rparr>) S memcp mem_insert_batch src2 cps2 store'
      = (Inr rep2, src2',
         if sp_items page = [] then cps2 else cps2(name \<mapsto> it_position (last (sp_items page))), store')
    \<and> ir_inserted rep2 = 0"
proof -
  from assms(3-5) have p: "ingest_page X ix memcp mem_insert_batch name page cps store = (Inr rep, cps', store')"
    by (auto simp: run_once_def split: prod.splits)
  then have "checkpoint_page memcp name (sp_items page) cps = (Inr (), cps')"
    by (rule ingest_page_Inr)
  then have c: "checkpoint_page memcp name (sp_items page) cps2 = (Inr (),
      if sp_items page = [] then cps2 else cps2(name \<mapsto> it_position (last (sp_items page))))"
    by (auto simp: checkpoint_page_def Checkpoint_at_def SourceCursor_new_def memcp_def memcp_save_def
        map_ok_eq_Inr split: sum.splits if_splits)
  from mem_ingest.ingest_page_again [OF assms(1,2) p c, of clock2] assms(3,6)
  show ?thesis by (auto simp: run_once_def)
qed

theorem run_once_rerun_idempotent_witness:
  "\<exists>rep rep2 store'. run_once sample_json (sample_indexer SkipDuplicates)
       (sample_source [sample_item ''p1'' ''evt_a1''] None) memcp mem_insert_batch () Map.empty mem_new
     = (Inr rep, (), [''fixture'' \<mapsto> ''p1''], store')
   \<and> run_once sample_json ((sample_indexer SkipDuplicates)\<lparr>ix_clock := \<lambda>_. 1800000000\<rparr>)
       (sample_source [sample_item ''p1'' ''evt_a1''] None) memcp mem_insert_batch () Map.empty store'
     = (Inr rep2, (), [''fixture'' \<mapsto> ''p1''], store') \<and> ir_inserted rep2 = 0"
proof -
  let ?S = "sample_source [sample_item ''p1'' ''evt_a1''] None"
  obtain rep store' where r: "run_once sample_json (sample_indexer SkipDuplicates) ?S
      memcp mem_insert_batch () Map.empty mem_new = (Inr rep, (), [''fixture'' \<mapsto> ''p1''], store')"
    by (rule sample_run)
  have f: "fetch_after ?S () (Map.empty ''fixture'') n
      = (Inr \<lparr>sp_items = [sample_item ''p1'' ''evt_a1''], sp_next = None\<rparr>, ())" for n
    by (simp add: sample_source_def SourcePage_new_def)
  have "source_name ?S = (\<lambda>_. ''fixture'')" "ix_dedup_policy (sample_indexer SkipDuplicates) = SkipDuplicates"
    by (simp_all add: sample_source_def sample_indexer_def)
  from run_once_rerun_idempotent [OF mem_inv_new this(2,1) f r f, of "\<lambda>_. 1800000000"] r
  show ?thesis by (auto simp: sample_item_def)
qed

text \<open>
  C33: a page in which two events have the same ledger, operation and event index is refused as a
  whole, with nothing written and the checkpoint kept.  That includes one event served twice (the
  duplicate that the guard skips still contributes its placement) and two events of different
  transactions of one ledger, since \<open>compare_order\<close> ignores \<open>transaction_position\<close>.
\<close>

theorem run_once_repeated_placement_fails:
  assumes "fetch_after S src (cps (source_name S src)) (ix_page_limit ix) = (Inr page, src')"
    and "i < j" and "j < length (page_events ix (sp_items page))"
    and "placement_key (ev_order (page_events ix (sp_items page) ! i))
       = placement_key (ev_order (page_events ix (sp_items page) ! j))"
    and "eo_ledger_sequence (ev_order (page_events ix (sp_items page) ! i)) \<noteq> None"
  shows "\<exists>e. run_once X ix S memcp mem_insert_batch src cps store = (Inl e, src', cps, store)"
proof (cases "ingest_items X ix (sp_items page) (start_state page)")
  case (Inl e)
  with assms(1) show ?thesis by (simp add: run_once_def ingest_page_def)
next
  case (Inr st)
  let ?ps = "map ev_order (page_events ix (sp_items page))"
  from assms(4,5) have "eo_ledger_sequence (ev_order (page_events ix (sp_items page) ! j)) \<noteq> None"
    by (simp add: placement_key_def)
  then have "\<not> distinct (map placement_key (filter (\<lambda>p. eo_ledger_sequence p \<noteq> None) ?ps))"
    using filter_repeated [of i j ?ps "\<lambda>p. eo_ledger_sequence p \<noteq> None" placement_key] assms(2-5) by simp
  then have "\<not> is_strictly_increasing (is_placements st)"
    using ingest_items_spec [OF Inr guard_ok_start] is_strictly_increasing_distinct by force
  with assms(1) Inr show ?thesis by (simp add: run_once_def ingest_page_def)
qed

definition two_tx_indexer :: Indexer where
  "two_tx_indexer = (sample_indexer SkipDuplicates)
     \<lparr>ix_normalize := \<lambda>i. Inr ((sample_event (it_payload i) (Some 7))
        \<lparr>ev_order := \<lparr>eo_ledger_sequence = Some 7, eo_transaction_position = Some (length (it_position i)),
                     eo_operation_index = Some 0, eo_event_index = Some 0\<rparr>\<rparr>)\<rparr>"

theorem run_once_repeated_placement_fails_witness:
  "\<exists>e. run_once sample_json two_tx_indexer
       (sample_source [sample_item ''p'' ''evt_a1'', sample_item ''pp'' ''evt_a2''] None)
       memcp mem_insert_batch () Map.empty mem_new = (Inl e, (), Map.empty, mem_new)"
  using run_once_repeated_placement_fails [where i = 0 and j = 1 and S = "sample_source [sample_item ''p'' ''evt_a1'', sample_item ''pp'' ''evt_a2''] None"
      and ix = two_tx_indexer and src = "()" and cps = Map.empty
      and page = "SourcePage_new [sample_item ''p'' ''evt_a1'', sample_item ''pp'' ''evt_a2''] None"]
  by (simp add: sample_source_def sample_indexer_def two_tx_indexer_def SourcePage_new_def
      placement_key_def)

section \<open>Replay\<close>

lemma replay_loop_bounded:
  assumes "ro_max_pages opts = Some n" and "rp_pages report \<le> n"
  shows "\<exists>res src' target'. replay_loop X ix S ins opts src cps target report = Some (res, src', target')
    \<and> (case res of Inr rep \<Rightarrow> rp_pages rep \<le> n | Inl _ \<Rightarrow> True)"
  using assms(2)
proof (induction "n - rp_pages report" arbitrary: src cps target report)
  case 0
  with assms(1) show ?case by (subst replay_loop.simps) (simp add: exhausted_def)
next
  case (Suc k)
  then have lt: "\<not> exhausted (ro_max_pages opts) (rp_pages report)" using assms(1) by (simp add: exhausted_def)
  obtain res src1 cps1 target1 where r: "run_once X ix S memcp ins src cps target = (res, src1, cps1, target1)"
    by (cases "run_once X ix S memcp ins src cps target") auto
  show ?case
  proof (cases res)
    case (Inl e)
    with lt r show ?thesis by (subst replay_loop.simps) simp
  next
    case (Inr pr)
    let ?rep = "report\<lparr>rp_pages := rp_pages report + 1,
      rp_inserted := rp_inserted report + ir_inserted pr,
      rp_duplicates := rp_duplicates report + ir_duplicates pr,
      rp_last_position := cps1 (source_name S src1)\<rparr>"
    have "k = n - rp_pages ?rep" "rp_pages ?rep \<le> n" using Suc(2) by simp_all
    from Suc.hyps(1) [OF this, of src1 cps1 target1] show ?thesis
      using lt r Inr \<open>rp_pages ?rep \<le> n\<close>
      by (subst replay_loop.simps) (simp add: memcp_load_def Let_def)
  qed
qed

text \<open>
  A replay with a page budget always returns, whatever the source does, and a replay that
  succeeds has fetched at most the budgeted number of pages.
\<close>

lemma replay_page_budget_returns:
  assumes "ro_max_pages opts = Some n"
  shows "\<exists>res src' target'. replay_into X norm now S ins src target start opts = Some (res, src', target')
    \<and> (case res of Inr rep \<Rightarrow> rp_pages rep \<le> n | Inl _ \<Rightarrow> True)"
proof -
  have "\<exists>res src' target'. replay_loop X ix S ins opts src cps target
      \<lparr>rp_pages = 0, rp_inserted = 0, rp_duplicates = 0, rp_truncated = False, rp_last_position = start\<rparr>
      = Some (res, src', target') \<and> (case res of Inr rep \<Rightarrow> rp_pages rep \<le> n | Inl _ \<Rightarrow> True)" for ix cps
    by (rule replay_loop_bounded [OF assms]) simp
  then show ?thesis by (simp add: replay_into_def split: sum.split)
qed

lemma exhausted_None [simp]: "\<not> exhausted None n"
  by (simp add: exhausted_def)

lemma replay_loop_stuck_aux:
  assumes "replay_loop X ix S ins opts src cps target report = Some y"
  shows "\<not> (run_once X ix S memcp ins src cps target = (Inr pr, src, cps, target)
    \<and> ir_has_more pr \<and> ir_inserted pr = 0 \<and> ro_max_pages opts = None
    \<and> \<not> exhausted (ro_max_records opts) (rp_inserted report))"
proof (rule replay_loop.raw_induct [OF _ assms, where P = "\<lambda>X ix S ins opts src cps target report y.
        \<not> (run_once X ix S memcp ins src cps target = (Inr pr, src, cps, target)
        \<and> ir_has_more pr \<and> ir_inserted pr = 0 \<and> ro_max_pages opts = None
        \<and> \<not> exhausted (ro_max_records opts) (rp_inserted report))"], goal_cases)
  case (1 f X ix S ins opts src cps target report y)
  show ?case
  proof
    assume h: "run_once X ix S memcp ins src cps target = (Inr pr, src, cps, target)
      \<and> ir_has_more pr \<and> ir_inserted pr = 0 \<and> ro_max_pages opts = None
      \<and> \<not> exhausted (ro_max_records opts) (rp_inserted report)"
    let ?rep = "report\<lparr>rp_pages := rp_pages report + 1, rp_inserted := rp_inserted report + ir_inserted pr,
      rp_duplicates := rp_duplicates report + ir_duplicates pr, rp_last_position := cps (source_name S src)\<rparr>"
    from 1(2) h have "f X ix S ins opts src cps target ?rep = Some y"
      by (simp add: memcp_load_def Let_def)
    from 1(1) [OF this] h show False by simp
  qed
qed

lemma replay_loop_stuck:
  assumes "fetch_after S src (cps (source_name S src)) (ix_page_limit ix) = (Inr (SourcePage_new [] (Some nx)), src)"
    and "ro_max_pages opts = None"
    and "\<not> exhausted (ro_max_records opts) (rp_inserted report)"
  shows "replay_loop X ix S ins opts src cps target report = None"
proof -
  have "run_once X ix S memcp ins src cps target
      = (Inr (initial_report (SourcePage_new [] (Some nx))), src, cps, target)"
    using assms(1) by (simp add: run_once_def ingest_page_def SourcePage_new_def checkpoint_page_def)
  with assms(2,3) show ?thesis
    using replay_loop_stuck_aux [of X ix S ins opts src cps target report _
        "initial_report (SourcePage_new [] (Some nx))"]
    by (cases "replay_loop X ix S ins opts src cps target report")
      (simp_all add: initial_report_def SourcePage_has_more_def SourcePage_new_def)
qed

text \<open>
  An unbudgeted replay never returns from a source that serves an empty page and says there is
  more: \<open>run_once\<close> takes the resume position only from the last item, so the position never moves.
\<close>

lemma replay_empty_page_diverges:
  assumes "fetch_after S src start (ro_page_limit opts) = (Inr (SourcePage_new [] (Some nx)), src)"
    and "label_ok 64 (source_name S src)" and "0 < ro_page_limit opts"
    and "ro_max_pages opts = None" and "ro_max_records opts \<noteq> Some 0"
  shows "replay_into X norm now S ins src target start opts = None"
proof -
  let ?ix = "\<lparr>ix_normalize = norm, ix_clock = \<lambda>_. now, ix_dedup_policy = SkipDuplicates,
    ix_malformed_policy = AbortOnMalformed, ix_page_limit = ro_page_limit opts\<rparr>"
  have "replay_loop X ?ix S ins opts src cps target \<lparr>rp_pages = 0, rp_inserted = 0, rp_duplicates = 0,
      rp_truncated = False, rp_last_position = start\<rparr> = None" if "cps (source_name S src) = start" for cps
    by (rule replay_loop_stuck [of _ _ _ _ nx])
      (use assms that in \<open>auto simp: exhausted_def split: option.splits\<close>)
  note loop = this [of Map.empty] this [of "[source_name S src \<mapsto> the start]"]
  show ?thesis
    using loop assms(2,3)
    by (cases start) (simp_all add: replay_into_def Indexer_new_def Checkpoint_at_def
        validate_source_name_def memcp_save_def InMemoryCheckpointStore_new_def)
qed

end
