(* ===== verification/Audit_Soroban.thy ===== *)
theory Audit_Soroban
  imports Audit_Indexer
begin

text \<open>
  \<open>crates/soroban/src\<close>: the wire model of \<open>getEvents\<close>, the operator's contract registry, event
  identity, the mapping onto normalized metadata and the event source over a feed.

  The feed (an RPC client or a synthetic feed) is a state-passing function.  \<open>serde_json::to_string\<close>
  on a wire event is a function argument.
\<close>

section \<open>Wire events\<close>

datatype SorobanEventType = Contract | System

fun SorobanEventType_as_str :: "SorobanEventType \<Rightarrow> string" where
  "SorobanEventType_as_str Contract = ''contract''"
| "SorobanEventType_as_str System = ''system''"

record SorobanEvent =
  se_event_type :: SorobanEventType
  se_ledger :: int
  se_ledger_closed_at :: "string option"
  se_contract_id :: "string option"
  se_id :: string
  se_transaction_index :: "nat option"
  se_operation_index :: "nat option"
  se_in_successful_contract_call :: "bool option"
  se_topic :: "string list"
  se_value :: "string option"
  se_tx_hash :: "string option"

definition is_toid_id :: "string \<Rightarrow> bool" where
  "is_toid_id i \<longleftrightarrow>
     length i = 30 \<and> i ! 19 = CHR ''-''
     \<and> list_all is_ascii_digit (take 19 i) \<and> list_all is_ascii_digit (drop 20 i)"

definition is_64_lowercase_hex :: "string \<Rightarrow> bool" where
  "is_64_lowercase_hex raw \<longleftrightarrow>
     length raw = 64 \<and> list_all (\<lambda>c. is_ascii_hexdigit c \<and> \<not> is_ascii_uppercase c) raw"

text \<open>\<open>fold(0u64, |acc, b| acc * 10 + u64::from(b - b'0'))\<close>.\<close>

definition fold_digits :: "string \<Rightarrow> nat" where
  "fold_digits cs = foldl (\<lambda>acc c. acc * 10 + (byte c - 48)) 0 cs"

definition SorobanEvent_validate :: "SorobanEvent \<Rightarrow> string + unit" where
  "SorobanEvent_validate e =
     and_then (fail_if (\<not> is_toid_id (se_id e))
       (''event id `'' @ se_id e @ ''` is not a TOID id (19-digit TOID + `-` + 10-digit event index)'')) (\<lambda>_.
     and_then (fail_if (\<not> in_u32 (fold_digits (drop 20 (se_id e))))
       (''event index `'' @ drop 20 (se_id e) @ ''` exceeds the supported u32 range'')) (\<lambda>_.
     and_then (fail_if (se_ledger e < 1)
       (''ledger sequence '' @ show_int (se_ledger e) @ '' is not positive'')) (\<lambda>_.
     and_then (fail_if (se_topic e = [] \<or> length (se_topic e) > 4)
       (''topic carries '' @ show_nat (length (se_topic e))
          @ '' segment(s); the wire shape allows 1-4'')) (\<lambda>_.
     (case se_tx_hash e of
        Some hash \<Rightarrow>
          fail_if (\<not> is_64_lowercase_hex hash)
            (''transaction hash `'' @ hash @ ''` is not the 64-lowercase-hex getEvents shape'')
      | None \<Rightarrow> Inr ())))))"

record SorobanEventsResult =
  sr_events :: "SorobanEvent list"
  sr_cursor :: "string option"
  sr_latest_ledger :: "int option"
  sr_oldest_ledger :: "int option"
  sr_latest_ledger_close_time :: "string option"
  sr_oldest_ledger_close_time :: "string option"

section \<open>Contract registry\<close>

type_synonym ContractLabel = string

definition ContractLabel_new :: "string \<Rightarrow> AuditError + ContractLabel" where
  "ContractLabel_new raw =
     (if label_ok 64 raw then Inr raw
      else Inl (InvalidIdentifier ''contract label'' ''must be 1-64 non-space printable ASCII chars''))"

type_synonym ContractRegistry = "(string \<times> (ContractId \<times> ContractLabel) list) list"

definition ContractRegistry_new :: ContractRegistry where
  "ContractRegistry_new = []"

definition register :: "ContractRegistry \<Rightarrow> NetworkId \<Rightarrow> ContractId \<Rightarrow> ContractLabel \<Rightarrow> ContractRegistry" where
  "register reg network contract label =
     (let entries = (case map_of reg network of Some es \<Rightarrow> es | None \<Rightarrow> [])
      in bt_insert network (bt_insert contract label entries) reg)"

definition recognized :: "ContractRegistry \<Rightarrow> NetworkId \<Rightarrow> string \<Rightarrow> bool" where
  "recognized reg network contract =
     (case map_of reg network of
        Some es \<Rightarrow> list_ex (\<lambda>e. fst e = contract) es
      | None \<Rightarrow> False)"

definition registry_label :: "ContractRegistry \<Rightarrow> NetworkId \<Rightarrow> string \<Rightarrow> ContractLabel option" where
  "registry_label reg network contract =
     (case map_of reg network of
        Some es \<Rightarrow> map_option snd (find (\<lambda>e. fst e = contract) es)
      | None \<Rightarrow> None)"

definition contract_ids :: "ContractRegistry \<Rightarrow> NetworkId \<Rightarrow> string list" where
  "contract_ids reg network =
     (case map_of reg network of Some es \<Rightarrow> map fst es | None \<Rightarrow> [])"

definition admitted_on :: "ContractRegistry \<Rightarrow> NetworkId \<Rightarrow> nat" where
  "admitted_on reg network = length (contract_ids reg network)"

section \<open>Identity and mapping\<close>

definition soroban_event_id :: "('z) hash_ext_scheme \<Rightarrow> SorobanEvent \<Rightarrow> NetworkId \<Rightarrow> EventId" where
  "soroban_event_id X e network = id_derive X EventIdT [network, se_id e]"

record NormalizedParts =
  np_order :: EventOrder
  np_ledger :: LedgerReference
  np_transaction :: "TransactionReference option"

text \<open>\<open>str::parse\<close> at \<open>u64\<close>.\<close>

definition parse_u64 :: "string \<Rightarrow> nat option" where
  "parse_u64 s =
     (let body = (case s of c # cs \<Rightarrow> if c = CHR ''+'' then cs else s | [] \<Rightarrow> s)
      in case parse_digits body of
           Some n \<Rightarrow> if n < 2 ^ 64 then Some n else None
         | None \<Rightarrow> None)"

definition event_index_from_id :: "string \<Rightarrow> AuditError + nat" where
  "event_index_from_id i =
     (if \<not> is_toid_id i
      then Inl (InvalidIdentifier ''event id''
                  ''must be a TOID: 19-digit TOID + hyphen + 10-digit event index'')
      else
        (let suffix = drop 20 i
         in case parse_u64 suffix of
              None \<Rightarrow> Inl (InvalidIdentifier ''event index'' suffix)
            | Some index \<Rightarrow>
                if in_u32 index then Inr index
                else Inl (InvalidIdentifier ''event index''
                            (suffix @ '' exceeds the supported event-index range''))))"

definition days_from_civil :: "int \<Rightarrow> int \<Rightarrow> int \<Rightarrow> int" where
  "days_from_civil y0 m d =
     (let y = (if m \<le> 2 then y0 - 1 else y0);
          era = rust_div (if y \<ge> 0 then y else y - 399) 400;
          yoe = y - era * 400;
          mp = (m + 9) mod 12;
          doy = (153 * mp + 2) div 5 + d - 1;
          doe = yoe * 365 + yoe div 4 - yoe div 100 + doy
      in era * 146097 + doe - 719468)"

text \<open>The slice \<open>raw[a..b]\<close>.\<close>

definition slice :: "nat \<Rightarrow> nat \<Rightarrow> string \<Rightarrow> string" where
  "slice a b raw = take (b - a) (drop a raw)"

definition close_time_shaped :: "string \<Rightarrow> bool" where
  "close_time_shaped b \<longleftrightarrow>
     length b = 20 \<and> b ! 4 = CHR ''-'' \<and> b ! 7 = CHR ''-'' \<and> b ! 10 = CHR ''T''
     \<and> b ! 13 = CHR '':'' \<and> b ! 16 = CHR '':'' \<and> b ! 19 = CHR ''Z''
     \<and> list_all is_ascii_digit (slice 0 4 b) \<and> list_all is_ascii_digit (slice 5 7 b)
     \<and> list_all is_ascii_digit (slice 8 10 b) \<and> list_all is_ascii_digit (slice 11 13 b)
     \<and> list_all is_ascii_digit (slice 14 16 b) \<and> list_all is_ascii_digit (slice 17 19 b)"

text \<open>The \<open>unwrap\<close>s on the parsed fields never panic: \<open>close_time_fields\<close> below.\<close>

definition parse_ledger_close_time :: "string \<Rightarrow> AuditError + Timestamp" where
  "parse_ledger_close_time raw =
     (if \<not> close_time_shaped raw
      then Inl (InvalidTimestamp
             (raw @ '' is not an RFC 3339 UTC timestamp (YYYY-MM-DDTHH:MM:SSZ)''))
      else
        (let year = the (parse_i64 (slice 0 4 raw));
             month = int (the (parse_u32 (slice 5 7 raw)));
             day = int (the (parse_u32 (slice 8 10 raw)));
             hour = int (the (parse_u32 (slice 11 13 raw)));
             minute = int (the (parse_u32 (slice 14 16 raw)));
             second = int (the (parse_u32 (slice 17 19 raw)))
         in if \<not> (0 \<le> year \<and> year \<le> 9999) \<or> \<not> (1 \<le> month \<and> month \<le> 12)
               \<or> \<not> (1 \<le> day \<and> day \<le> 31) \<or> hour > 23 \<or> minute > 59 \<or> second > 59
            then Inl (InvalidTimestamp (raw @ '' is out of range''))
            else
              (let days = days_from_civil year month day;
                   secs = days * 86400 + hour * 3600 + minute * 60 + second
               in case to_rfc3339 secs of
                    Inl e \<Rightarrow> Inl (InvalidTimestamp (AuditError_to_string e))
                  | Inr rendered \<Rightarrow>
                      if rendered = raw then Inr secs
                      else Inl (InvalidTimestamp (raw @ '' is not a real UTC instant (round-trips as ''
                                  @ rendered @ '')'')))))"

definition to_normalized :: "SorobanEvent \<Rightarrow> NetworkId \<Rightarrow> AuditError + NormalizedParts" where
  "to_normalized event network =
     and_then (map_err (InvalidIdentifier ''event'') (SorobanEvent_validate event)) (\<lambda>_.
     and_then (event_index_from_id (se_id event)) (\<lambda>index.
     and_then (case se_ledger_closed_at event of
                 Some raw \<Rightarrow> map_ok Some (parse_ledger_close_time raw)
               | None \<Rightarrow> Inr None) (\<lambda>close_time.
     and_then (LedgerReference_new network (se_ledger event) close_time) (\<lambda>ledger.
     and_then (case se_tx_hash event of
                 Some raw \<Rightarrow>
                   map_ok (\<lambda>hash. Some \<lparr>txr_network = network, txr_hash = hash\<rparr>)
                     (map_err (\<lambda>_. InvalidIdentifier ''transaction hash'' raw)
                        (TransactionHash_new raw))
               | None \<Rightarrow> Inr None) (\<lambda>transaction.
     Inr \<lparr>np_order = \<lparr>eo_ledger_sequence = Some (se_ledger event),
                       eo_transaction_position = se_transaction_index event,
                       eo_operation_index = se_operation_index event,
                       eo_event_index = Some index\<rparr>,
          np_ledger = ledger, np_transaction = transaction\<rparr>)))))"

section \<open>The event source\<close>

definition MAX_PAGE_LIMIT :: nat where
  "MAX_PAGE_LIMIT = 10000"

type_synonym 'f SorobanEventFeed =
  "'f \<Rightarrow> string option \<Rightarrow> nat \<Rightarrow> (SourceError + SorobanEventsResult) \<times> 'f"

record 'f SorobanEventSource =
  ss_name :: string
  ss_network :: NetworkId
  ss_registry :: ContractRegistry
  ss_feed :: 'f
  ss_skipped :: nat

definition SorobanEventSource_new ::
  "string \<Rightarrow> NetworkId \<Rightarrow> ContractRegistry \<Rightarrow> 'f \<Rightarrow> 'f SorobanEventSource" where
  "SorobanEventSource_new name network registry feed =
     \<lparr>ss_name = name, ss_network = network, ss_registry = registry, ss_feed = feed, ss_skipped = 0\<rparr>"

text \<open>The loop over the page's events; \<open>previous\<close>, \<open>items\<close> and \<open>skipped\<close> are its variables.\<close>

fun admit_events ::
  "(SorobanEvent \<Rightarrow> string + string) \<Rightarrow> ContractRegistry \<Rightarrow> NetworkId \<Rightarrow> string option
     \<Rightarrow> SorobanEvent list \<Rightarrow> string option \<Rightarrow> RawEventItem list \<Rightarrow> nat
     \<Rightarrow> SourceError + RawEventItem list \<times> nat" where
  "admit_events json registry network after [] previous items skipped = Inr (items, skipped)"
| "admit_events json registry network after (event # events) previous items skipped =
     (case SorobanEvent_validate event of
        Inl d \<Rightarrow> Inl (InvalidItem d)
      | Inr _ \<Rightarrow>
          if (case after of Some a \<Rightarrow> se_id event \<le> a | None \<Rightarrow> False)
          then admit_events json registry network after events previous items skipped
          else if (case previous of Some p \<Rightarrow> se_id event \<le> p | None \<Rightarrow> False)
          then Inl (InvalidItem (''events out of order on one page: '' @ the previous @ '' then ''
                      @ se_id event))
          else
            (case se_contract_id event of
               None \<Rightarrow> admit_events json registry network after events (Some (se_id event)) items
                         (skipped + 1)
             | Some contract \<Rightarrow>
                 (case registry_label registry network contract of
                    None \<Rightarrow> admit_events json registry network after events (Some (se_id event)) items
                              (skipped + 1)
                  | Some label \<Rightarrow>
                      (case json event of
                         Inl d \<Rightarrow> Inl (InvalidItem (''event '' @ se_id event
                                    @ '' does not serialize: '' @ d))
                       | Inr payload \<Rightarrow>
                           (case RawEventItem_new label payload (se_id event) of
                              Inl e \<Rightarrow> Inl e
                            | Inr item \<Rightarrow>
                                admit_events json registry network after events (Some (se_id event))
                                  (items @ [item]) skipped)))))"

definition soroban_fetch_after ::
  "(SorobanEvent \<Rightarrow> string + string) \<Rightarrow> 'f SorobanEventFeed \<Rightarrow> 'f SorobanEventSource \<Rightarrow> string option
     \<Rightarrow> nat \<Rightarrow> (SourceError + SourcePage) \<times> 'f SorobanEventSource" where
  "soroban_fetch_after json fetch_page src after limit =
     (if limit = 0 \<or> limit > MAX_PAGE_LIMIT then (Inl (LimitOutOfRange limit), src)
      else if (case after of Some position \<Rightarrow> \<not> is_toid_id position | None \<Rightarrow> False)
      then (Inl (InvalidPosition (the after)), src)
      else
        (case fetch_page (ss_feed src) after limit of
           (Inl e, feed') \<Rightarrow> (Inl e, src\<lparr>ss_feed := feed'\<rparr>)
         | (Inr page, feed') \<Rightarrow>
             (case admit_events json (ss_registry src) (ss_network src) after (sr_events page) None [] 0 of
                Inl e \<Rightarrow> (Inl e, src\<lparr>ss_feed := feed'\<rparr>)
              | Inr (items, skipped) \<Rightarrow>
                  (Inr (SourcePage_new items (sr_cursor page)),
                   src\<lparr>ss_feed := feed', ss_skipped := ss_skipped src + skipped\<rparr>))))"

definition soroban_source ::
  "(SorobanEvent \<Rightarrow> string + string) \<Rightarrow> 'f SorobanEventFeed \<Rightarrow> 'f SorobanEventSource EventSource" where
  "soroban_source json fetch_page =
     \<lparr>source_name = ss_name,
      fetch_after = \<lambda>src after limit.
        (case soroban_fetch_after json fetch_page src after limit of
           (res, src') \<Rightarrow> (map_err SourceError_to_string res, src'))\<rparr>"

section \<open>TOID ids are ordered chronologically\<close>

lemma fold_digits_Cons:
  "fold_digits (c # cs) = (byte c - 48) * 10 ^ length cs + fold_digits cs"
proof -
  have "foldl (\<lambda>acc c. acc * 10 + (byte c - 48)) a cs = a * 10 ^ length cs + fold_digits cs" for a
    unfolding fold_digits_def
  proof (induction cs arbitrary: a)
    case (Cons d cs)
    show ?case
      using Cons.IH [of "a * 10 + (byte d - 48)"] Cons.IH [of "byte d - 48"]
      by (simp add: algebra_simps)
  qed simp
  from this [of "byte c - 48"] show ?thesis by (simp add: fold_digits_def)
qed

lemma fold_digits_Nil [simp]: "fold_digits [] = 0"
  by (simp add: fold_digits_def)

lemma fold_digits_less: "list_all is_ascii_digit cs \<Longrightarrow> fold_digits cs < 10 ^ length cs"
proof (induction cs)
  case (Cons c cs)
  then have "byte c - 48 \<le> 9" "fold_digits cs < 10 ^ length cs"
    by (auto simp: is_ascii_digit_def)
  from add_le_less_mono [OF mult_le_mono1 [OF this(1), of "10 ^ length cs"] this(2)]
  show ?case by (simp add: fold_digits_Cons)
qed simp

lemma less_char_byte: "c < d \<longleftrightarrow> byte c < byte d" for c d :: char
  by (simp add: less_char_def byte_def)

lemma digit_block_less:
  fixes a b m n k :: nat
  assumes "m < k" "n < k"
  shows "a * k + m < b * k + n \<longleftrightarrow> a < b \<or> a = b \<and> m < n"
proof -
  have "a * k + m < b * k + n" if "a < b"
  proof -
    have "a * k + m < (a + 1) * k" using assms(1) by simp
    also have "\<dots> \<le> b * k" using that by (intro mult_le_mono1) simp
    finally show ?thesis by simp
  qed
  moreover have "b * k + n < a * k + m" if "b < a"
  proof -
    have "b * k + n < (b + 1) * k" using assms(2) by simp
    also have "\<dots> \<le> a * k" using that by (intro mult_le_mono1) simp
    finally show ?thesis by simp
  qed
  ultimately show ?thesis by (cases a b rule: linorder_cases) auto
qed

lemma digits_less_iff:
  assumes "length as = length bs" "list_all is_ascii_digit as" "list_all is_ascii_digit bs"
  shows "as < bs \<longleftrightarrow> fold_digits as < fold_digits bs"
  using assms
proof (induction as bs rule: list_induct2)
  case (Cons a as b bs)
  then have d: "48 \<le> byte a" "48 \<le> byte b" and l: "length as = length bs"
    by (auto simp: is_ascii_digit_def)
  have f: "fold_digits as < 10 ^ length as" "fold_digits bs < 10 ^ length as"
    using fold_digits_less [of as] fold_digits_less [of bs] Cons.prems l by simp_all
  have "a < b \<longleftrightarrow> byte a - 48 < byte b - 48" "a = b \<longleftrightarrow> byte a - 48 = byte b - 48"
    using d eq_diff_iff [OF d] by (auto simp: less_char_byte)
  with Cons digit_block_less [OF f, of "byte a - 48" "byte b - 48"] l show ?case
    by (simp add: fold_digits_Cons)
qed simp

lemma digits_eq_iff:
  assumes "length as = length bs" "list_all is_ascii_digit as" "list_all is_ascii_digit bs"
  shows "as = bs \<longleftrightarrow> fold_digits as = fold_digits bs"
  using digits_less_iff [OF assms] digits_less_iff [OF assms(1) [symmetric] assms(3,2)]
  by (metis less_irrefl linorder_less_linear)

lemma append_less_append:
  fixes us vs :: string
  shows "length us = length vs \<Longrightarrow> us @ xs < vs @ ys \<longleftrightarrow> us < vs \<or> us = vs \<and> xs < ys"
  by (induction us vs rule: list_induct2) auto

lemma is_toid_split:
  assumes "is_toid_id i"
  obtains t e where "i = t @ CHR ''-'' # e" "length t = 19" "length e = 10"
    "list_all is_ascii_digit t" "list_all is_ascii_digit e" "take 19 i = t" "drop 20 i = e"
proof -
  from assms have l: "19 < length i" "length i = 30" by (auto simp: is_toid_id_def)
  from id_take_nth_drop [OF l(1)] assms have "i = take 19 i @ CHR ''-'' # drop 20 i"
    by (simp add: is_toid_id_def)
  moreover have "length (take 19 i) = 19" "length (drop 20 i) = 10" using l by simp_all
  ultimately show thesis using assms that unfolding is_toid_id_def by blast
qed

text \<open>
  Comparing TOID event ids as strings is comparing them chronologically, as the source's
  ordering relies on: on ids of the \<open>getEvents\<close> shape string order is the order of the pair of the
  TOID number and the event index, and equal pairs are equal ids.
\<close>

lemma toid_order_chronological:
  assumes "is_toid_id a" and "is_toid_id b"
  shows "(a < b \<longleftrightarrow> fold_digits (take 19 a) < fold_digits (take 19 b)
          \<or> fold_digits (take 19 a) = fold_digits (take 19 b)
            \<and> fold_digits (drop 20 a) < fold_digits (drop 20 b))
    \<and> (a = b \<longleftrightarrow> fold_digits (take 19 a) = fold_digits (take 19 b)
            \<and> fold_digits (drop 20 a) = fold_digits (drop 20 b))"
proof -
  from assms(1) obtain t e where a: "a = t @ CHR ''-'' # e" "length t = 19" "length e = 10"
    "list_all is_ascii_digit t" "list_all is_ascii_digit e" "take 19 a = t" "drop 20 a = e"
    by (rule is_toid_split)
  from assms(2) obtain u f where b: "b = u @ CHR ''-'' # f" "length u = 19" "length f = 10"
    "list_all is_ascii_digit u" "list_all is_ascii_digit f" "take 19 b = u" "drop 20 b = f"
    by (rule is_toid_split)
  have l: "length t = length u" "length e = length f" using a b by simp_all
  have "a < b \<longleftrightarrow> t < u \<or> t = u \<and> e < f"
    unfolding a(1) b(1) using append_less_append [OF l(1)] by simp
  moreover have "a = b \<longleftrightarrow> t = u \<and> e = f" unfolding a(1) b(1) using l by simp
  ultimately show ?thesis
    using digits_less_iff [OF l(1) a(4) b(4)] digits_less_iff [OF l(2) a(5) b(5)]
      digits_eq_iff [OF l(1) a(4) b(4)] digits_eq_iff [OF l(2) a(5) b(5)] a(6,7) b(6,7) by simp
qed

section \<open>Close times\<close>

lemma dec_value_zeros: "dec_value 0 (replicate n (CHR ''0'') @ s) = dec_value 0 s"
  by (induction n) (simp_all add: is_ascii_digit_def byte_def)

lemma padded_digits:
  assumes "0 \<le> i" "i < 10 ^ w" "0 < w"
  shows "length (pad_zero w (show_int i)) = w"
    and "list_all is_ascii_digit (pad_zero w (show_int i))"
    and "parse_digits (pad_zero w (show_int i)) = Some (nat i)"
proof -
  show "length (pad_zero w (show_int i)) = w"
    using length_show_int_digits [OF assms] by (rule length_pad_zero)
  show "list_all is_ascii_digit (pad_zero w (show_int i))"
    using assms(1) show_nat_digits
    by (auto simp: pad_zero_def list_all_iff show_int_def is_ascii_digit_def byte_def)
  show "parse_digits (pad_zero w (show_int i)) = Some (nat i)"
    using assms(1) by (simp add: parse_digits_def pad_zero_def dec_value_zeros show_int_def dec_value_show_nat)
qed

lemma digit_no_sign: "list_all is_ascii_digit (c # cs) \<Longrightarrow> c \<noteq> CHR ''+'' \<and> c \<noteq> CHR ''-''"
  by (auto simp: is_ascii_digit_def byte_def)

lemma parse_digit_string:
  assumes "list_all is_ascii_digit s" "parse_digits s = Some n"
  shows "in_u32 n \<Longrightarrow> parse_u32 s = Some n" "in_i64 (int n) \<Longrightarrow> parse_i64 s = Some (int n)"
    "n < 2 ^ 64 \<Longrightarrow> parse_u64 s = Some n"
proof -
  obtain c cs where "s = c # cs" using assms(2) by (cases s) (auto simp: parse_digits_def)
  with assms digit_no_sign [of c cs] show "in_u32 n \<Longrightarrow> parse_u32 s = Some n"
    "in_i64 (int n) \<Longrightarrow> parse_i64 s = Some (int n)" "n < 2 ^ 64 \<Longrightarrow> parse_u64 s = Some n"
    by (simp_all add: parse_u32_def parse_i64_def parse_u64_def)
qed

lemma dec_value_fold: "list_all is_ascii_digit cs \<Longrightarrow> dec_value a cs = Some (a * 10 ^ length cs + fold_digits cs)"
  by (induction cs arbitrary: a) (simp_all add: fold_digits_Cons algebra_simps)

lemma parse_digits_fold:
  "list_all is_ascii_digit cs \<Longrightarrow> cs \<noteq> [] \<Longrightarrow> parse_digits cs = Some (fold_digits cs)"
  by (simp add: parse_digits_def dec_value_fold)

text \<open>No \<open>unwrap\<close> in \<open>parse_ledger_close_time\<close> fails.\<close>

lemma close_time_fields:
  assumes "close_time_shaped raw"
  shows "parse_i64 (slice 0 4 raw) \<noteq> None"
    "parse_u32 (slice 5 7 raw) \<noteq> None" "parse_u32 (slice 8 10 raw) \<noteq> None"
    "parse_u32 (slice 11 13 raw) \<noteq> None" "parse_u32 (slice 14 16 raw) \<noteq> None"
    "parse_u32 (slice 17 19 raw) \<noteq> None"
proof -
  have u: "parse_u32 s \<noteq> None" "parse_i64 s \<noteq> None"
    if "list_all is_ascii_digit s" "length s = w" "0 < w" "w \<le> 4" for s w
  proof -
    have "fold_digits s < 10 ^ 4"
      using fold_digits_less [OF that(1)] power_increasing [OF that(4), of "10::nat"] that(2) by simp
    then show "parse_u32 s \<noteq> None" "parse_i64 s \<noteq> None"
      using parse_digit_string [OF that(1) parse_digits_fold [OF that(1)]] that(2,3)
      by (auto simp: in_u32_def in_i64_def)
  qed
  have l: "length (slice a b raw) = b - a" if "b \<le> 20" for a b
    using assms that by (simp add: slice_def close_time_shaped_def)
  show "parse_i64 (slice 0 4 raw) \<noteq> None"
    "parse_u32 (slice 5 7 raw) \<noteq> None" "parse_u32 (slice 8 10 raw) \<noteq> None"
    "parse_u32 (slice 11 13 raw) \<noteq> None" "parse_u32 (slice 14 16 raw) \<noteq> None"
    "parse_u32 (slice 17 19 raw) \<noteq> None"
    using assms u(2) [OF _ l, of 0 4] u(1) [OF _ l, of 5 7] u(1) [OF _ l, of 8 10]
      u(1) [OF _ l, of 11 13] u(1) [OF _ l, of 14 16] u(1) [OF _ l, of 17 19]
    by (simp_all add: close_time_shaped_def)
qed

lemma rust_div_400: "rust_div (if y \<ge> 0 then y else y - 399) 400 = y div 400"
proof (cases "y \<ge> 0")
  case True
  then show ?thesis by (cases "y = 0") (simp_all add: rust_div_def)
next
  case False
  have "(399 - y) div 400 = - (y div 400)"
    using zdiv_zminus1_eq_if [of 400 "y - 399"] by simp
  with False show ?thesis by (simp add: rust_div_def)
qed

lemma days_from_civil_day_number:
  assumes "1 \<le> m" "m \<le> 12"
  shows "days_from_civil y m d = day_number y m d"
proof -
  define y' where "y' = (if m \<le> 2 then y - 1 else y)"
  define mp where "mp = (m + 9) mod 12"
  have mp: "0 \<le> mp" "mp \<le> 11" by (simp_all add: mp_def)
  have "mp = (if m \<le> 2 then m + 9 else m - 3)" using assms unfolding mp_def by presburger
  then have "(if mp < 10 then mp + 3 else mp - 9) = m" "(if mp < 10 then y' else y' + 1) = y"
    using assms by (auto simp: y'_def split: if_splits)
  from day_number_march [OF mp, of y' d, unfolded this]
  have n: "day_number y m d = 365 * y' + leaps y' + (153 * mp + 2) div 5 + d - 719469" .
  define q r where "q = y' div 400" and "r = y' mod 400"
  have yy: "y' = r + q * 400" and r: "0 \<le> r" "r \<le> 399" by (simp_all add: q_def r_def)
  have l: "leaps y' = 97 * q + (r div 4 - r div 100)" unfolding yy using r by (rule leaps_era)
  have e: "y' - q * 400 = r" using yy by simp
  show ?thesis
    unfolding days_from_civil_def Let_def y'_def [symmetric] mp_def [symmetric] rust_div_400
      q_def [symmetric] e n l
    using yy by (simp add: algebra_simps)
qed

text \<open>A text of the RFC 3339 shape, cut at the fixed columns.\<close>

lemma rfc3339_slices:
  assumes "length y = 4" "length m = 2" "length d = 2" "length h = 2" "length mi = 2" "length s = 2"
    and "raw = y @ ''-'' @ m @ ''-'' @ d @ ''T'' @ h @ '':'' @ mi @ '':'' @ s @ ''Z''"
  shows "slice 0 4 raw = y" "slice 5 7 raw = m" "slice 8 10 raw = d"
    "slice 11 13 raw = h" "slice 14 16 raw = mi" "slice 17 19 raw = s"
    "length raw = 20" "raw ! 4 = CHR ''-''" "raw ! 7 = CHR ''-''" "raw ! 10 = CHR ''T''"
    "raw ! 13 = CHR '':''" "raw ! 16 = CHR '':''" "raw ! 19 = CHR ''Z''"
  using assms(1-6) unfolding assms(7) by (simp_all add: slice_def nth_append)

lemma parse_rendered:
  assumes "to_rfc3339 t = Inr raw"
  shows "parse_ledger_close_time raw = Inr t"
proof -
  obtain y mo d h mi s where c: "unix_to_civil t = (y, mo, d, h, mi, s)" by (cases "unix_to_civil t")
  note spec = unix_to_civil_spec [of t, unfolded c prod.case]
  have y: "0 \<le> y" "y \<le> 9999" and raw: "raw = pad_zero 4 (show_int y) @ ''-'' @ pad_zero 2 (show_int mo) @ ''-''
      @ pad_zero 2 (show_int d) @ ''T'' @ pad_zero 2 (show_int h) @ '':''
      @ pad_zero 2 (show_int mi) @ '':'' @ pad_zero 2 (show_int s) @ ''Z''"
    using assms c by (auto simp: to_rfc3339_def split: if_splits)
  have mo: "1 \<le> mo" "mo \<le> 12" and d: "1 \<le> d" "d \<le> 31"
    using spec month_length_le [of y mo] by (auto simp: valid_date_def)
  have p2: "length (pad_zero 2 (show_int i)) = 2 \<and> list_all is_ascii_digit (pad_zero 2 (show_int i))
      \<and> parse_u32 (pad_zero 2 (show_int i)) = Some (nat i)" if "0 \<le> i" "i < 100" for i
    using padded_digits [of i 2] parse_digit_string(1) [of "pad_zero 2 (show_int i)" "nat i"] that
    by (simp add: in_u32_def)
  have p4: "length (pad_zero 4 (show_int y)) = 4" "list_all is_ascii_digit (pad_zero 4 (show_int y))"
      "parse_i64 (pad_zero 4 (show_int y)) = Some y"
    using padded_digits [of y 4] parse_digit_string(2) [of "pad_zero 4 (show_int y)" "nat y"] y
    by (simp_all add: in_i64_def)
  have P: "0 \<le> mo" "mo < 100" "0 \<le> d" "d < 100" "0 \<le> h" "h < 100" "0 \<le> mi" "mi < 100" "0 \<le> s" "s < 100"
    using spec mo d by auto
  note p = p2 [OF P(1,2)] p2 [OF P(3,4)] p2 [OF P(5,6)] p2 [OF P(7,8)] p2 [OF P(9,10)]
  note sl = rfc3339_slices [OF p4(1) conjunct1 [OF p(1)] conjunct1 [OF p(2)] conjunct1 [OF p(3)]
      conjunct1 [OF p(4)] conjunct1 [OF p(5)] raw]
  have shaped: "close_time_shaped raw" unfolding close_time_shaped_def using sl p p4 by simp
  have "day_number y mo d * 86400 + h * 3600 + mi * 60 + s = t" using spec by simp
  with shaped y mo d P spec assms p p4 show ?thesis
    by (simp add: parse_ledger_close_time_def Let_def sl(1-6) days_from_civil_day_number [OF mo])
qed

text \<open>
  The close-time parser is the exact inverse of the renderer.  A text is accepted with the
  instant \<open>t\<close> if and only if it is the RFC 3339 text \<open>to_rfc3339\<close> renders for \<open>t\<close>; so every rendered
  instant parses back, and impossible dates, offsets or trailing text are refused.
\<close>

lemma parse_close_time_inverse:
  "parse_ledger_close_time raw = Inr t \<longleftrightarrow> to_rfc3339 t = Inr raw"
proof
  assume "parse_ledger_close_time raw = Inr t"
  then show "to_rfc3339 t = Inr raw"
    by (auto simp: parse_ledger_close_time_def Let_def split: if_splits sum.splits)
qed (rule parse_rendered)

section \<open>What the source admits\<close>

text \<open>What a valid event is, field by field, and what its validation therefore decides.\<close>

definition event_valid :: "SorobanEvent \<Rightarrow> bool" where
  "event_valid e \<longleftrightarrow>
     is_toid_id (se_id e) \<and> fold_digits (drop 20 (se_id e)) < 2 ^ 32 \<and> 1 \<le> se_ledger e
     \<and> length (se_topic e) \<in> {1..4} \<and> (\<forall>hash. se_tx_hash e = Some hash \<longrightarrow> is_64_lowercase_hex hash)"

lemma SorobanEvent_validate_Inr: "SorobanEvent_validate e = Inr u \<longleftrightarrow> event_valid e"
  by (auto simp: SorobanEvent_validate_def event_valid_def and_then_eq_Inr in_u32_def Suc_le_eq split: option.splits)

lemma SorobanEvent_validate_toid:
  "SorobanEvent_validate e = Inr u \<Longrightarrow> is_toid_id (se_id e) \<and> in_u32 (fold_digits (drop 20 (se_id e)))"
  by (auto simp: SorobanEvent_validate_def and_then_eq_Inr)

text \<open>A validated event always has an index: the second parse cannot disagree with the first.\<close>

lemma event_index_of_valid:
  assumes "SorobanEvent_validate e = Inr u"
  shows "event_index_from_id (se_id e) = Inr (fold_digits (drop 20 (se_id e)))"
proof -
  from assms have t: "is_toid_id (se_id e)" and i: "in_u32 (fold_digits (drop 20 (se_id e)))"
    by (auto dest: SorobanEvent_validate_toid)
  from t have d: "list_all is_ascii_digit (drop 20 (se_id e))" "drop 20 (se_id e) \<noteq> []"
    by (auto simp: is_toid_id_def)
  from i have "fold_digits (drop 20 (se_id e)) < 2 ^ 64" by (simp add: in_u32_def)
  with t i d show ?thesis
    using parse_digit_string(3) [OF d(1) parse_digits_fold [OF d]]
    by (simp add: event_index_from_id_def)
qed

definition reserved :: "string option \<Rightarrow> SorobanEvent \<Rightarrow> bool" where
  "reserved after e = (case after of Some a \<Rightarrow> se_id e \<le> a | None \<Rightarrow> False)"

text \<open>
  The label under which an event's own contract is registered on a network, and the item the event is
  served as: the label as its scheme, the event's JSON as its payload, the event's id as its position.
\<close>

definition own_label :: "ContractRegistry \<Rightarrow> NetworkId \<Rightarrow> SorobanEvent \<Rightarrow> ContractLabel option" where
  "own_label reg net e =
     (case (se_contract_id e, map_of reg net) of (Some c, Some es) \<Rightarrow> map_of es c | _ \<Rightarrow> None)"

definition served_as ::
  "(SorobanEvent \<Rightarrow> string + string) \<Rightarrow> ContractRegistry \<Rightarrow> NetworkId \<Rightarrow> SorobanEvent \<Rightarrow> RawEventItem \<Rightarrow> bool" where
  "served_as json reg net e i \<longleftrightarrow>
     own_label reg net e = Some (it_scheme i) \<and> json e = Inr (it_payload i) \<and> it_position i = se_id e"

lemma registry_label_eq:
  "registry_label reg net c = (case map_of reg net of Some es \<Rightarrow> map_of es c | None \<Rightarrow> None)"
proof -
  have "map_option snd (find (\<lambda>e. fst e = c) es) = map_of es c" for es :: "(ContractId \<times> ContractLabel) list"
    by (induction es) auto
  then show ?thesis by (simp add: registry_label_def split: option.split)
qed

lemma own_label_eq: "own_label reg net e = Option.bind (se_contract_id e) (registry_label reg net)"
  by (cases "se_contract_id e") (simp_all add: own_label_def registry_label_eq)

lemma admit_events_step:
  assumes "admit_events json reg net after (e # es) prev items sk = Inr r"
  obtains (reserved) "event_valid e" "reserved after e" "admit_events json reg net after es prev items sk = Inr r"
  | (skip) "event_valid e" "\<not> reserved after e" "case prev of Some p \<Rightarrow> p < se_id e | None \<Rightarrow> True" "own_label reg net e = None"
      "admit_events json reg net after es (Some (se_id e)) items (sk + 1) = Inr r"
  | (admit) item where "event_valid e" "\<not> reserved after e" "case prev of Some p \<Rightarrow> p < se_id e | None \<Rightarrow> True"
      "served_as json reg net e item" "label_ok 512 (it_position item)"
      "admit_events json reg net after es (Some (se_id e)) (items @ [item]) sk = Inr r"
proof (cases "SorobanEvent_validate e")
  case (Inl d)
  with assms show thesis by simp
next
  case v: (Inr u)
  note valid = v [unfolded SorobanEvent_validate_Inr]
  show thesis
  proof (cases "reserved after e")
    case True
    with v assms reserved [OF valid] show thesis by (simp add: reserved_def)
  next
    case False
    with v assms have p: "case prev of Some p \<Rightarrow> p < se_id e | None \<Rightarrow> True"
      by (auto simp: reserved_def not_le split: option.splits if_splits)
    then have np: "\<not> (case prev of Some p \<Rightarrow> se_id e \<le> p | None \<Rightarrow> False)"
      by (auto split: option.splits)
    show thesis
    proof (cases "own_label reg net e")
      case (Some label)
      then obtain c where l: "se_contract_id e = Some c" "registry_label reg net c = Some label"
        by (auto simp: own_label_eq bind_eq_Some_conv)
      with v False np assms obtain payload item where "json e = Inr payload"
        "RawEventItem_new label payload (se_id e) = Inr item"
        "admit_events json reg net after es (Some (se_id e)) (items @ [item]) sk = Inr r"
        by (auto simp: reserved_def split: sum.splits)
      with Some show thesis
        using admit [OF valid False p, of item] by (simp add: RawEventItem_new_Inr served_as_def)
    next
      case None
      with v False np assms have "admit_events json reg net after es (Some (se_id e)) items (sk + 1) = Inr r"
        by (cases "se_contract_id e") (auto simp: reserved_def own_label_eq split: option.splits)
      with skip [OF valid False p None] show thesis by blast
    qed
  qed
qed

lemma admit_events_spec:
  assumes "admit_events json reg net after es prev items sk = Inr (items', sk')"
  defines "fresh \<equiv> filter (\<lambda>e. \<not> reserved after e) es"
  shows "list_all event_valid es \<and> sorted_wrt (<) (map se_id fresh)
    \<and> (case prev of Some p \<Rightarrow> \<forall>e \<in> set fresh. p < se_id e | None \<Rightarrow> True)
    \<and> (\<exists>new. items' = items @ new \<and> list_all2 (served_as json reg net) (filter (\<lambda>e. own_label reg net e \<noteq> None) fresh) new)
    \<and> sk' = sk + length (filter (\<lambda>e. own_label reg net e = None) fresh)"
  using assms(1) unfolding fresh_def
proof (induction es arbitrary: prev items sk)
  case (Cons e es)
  from Cons.prems show ?case
  proof (cases rule: admit_events_step)
    case reserved
    with Cons.IH [OF reserved(3)] show ?thesis by (auto split: option.splits)
  next
    case skip
    from Cons.IH [OF skip(5)] skip(1-4) show ?thesis by (auto split: option.splits)
  next
    case (admit item)
    from Cons.IH [OF admit(6)] admit(1-4) show ?thesis by (auto simp: served_as_def split: option.splits)
  qed
qed (auto split: option.splits)


definition sample_soroban_event :: "string option \<Rightarrow> SorobanEvent" where
  "sample_soroban_event contract =
     \<lparr>se_event_type = Contract, se_ledger = 7, se_ledger_closed_at = None, se_contract_id = contract,
      se_id = ''0000000000000000007-0000000001'', se_transaction_index = None,
      se_operation_index = None, se_in_successful_contract_call = None, se_topic = [''AAAA''],
      se_value = None, se_tx_hash = None\<rparr>"

definition sample_feed :: "unit SorobanEventFeed" where
  "sample_feed f after limit =
     (Inr \<lparr>sr_events = [sample_soroban_event (Some ''CDUMMY'')], sr_cursor = Some ''c1'',
           sr_latest_ledger = None, sr_oldest_ledger = None, sr_latest_ledger_close_time = None,
           sr_oldest_ledger_close_time = None\<rparr>, f)"

lemma sample_soroban_valid: "SorobanEvent_validate (sample_soroban_event c) = Inr ()"
  by (simp add: SorobanEvent_validate_def sample_soroban_event_def is_toid_id_def ascii_defs byte_def
      fold_digits_def in_u32_def)


section \<open>Pages without an admitted event\<close>

text \<open>A page none of whose events is admitted: all valid, new, in order, and of unregistered contracts.\<close>

definition unadmitted_page ::
  "ContractRegistry \<Rightarrow> NetworkId \<Rightarrow> string option \<Rightarrow> SorobanEvent list \<Rightarrow> bool" where
  "unadmitted_page reg net after es \<longleftrightarrow>
     list_all (\<lambda>e. SorobanEvent_validate e = Inr () \<and> \<not> reserved after e
       \<and> (case se_contract_id e of None \<Rightarrow> True | Some c \<Rightarrow> registry_label reg net c = None)) es
     \<and> sorted_wrt (<) (map se_id es)"

lemma admit_events_unadmitted:
  "unadmitted_page reg net after es \<Longrightarrow> (\<And>p. prev = Some p \<Longrightarrow> \<forall>e \<in> set es. p < se_id e) \<Longrightarrow>
     admit_events json reg net after es prev items sk = Inr (items, sk + length es)"
proof (induction es arbitrary: prev sk)
  case (Cons e es)
  have "\<not> (case prev of Some p \<Rightarrow> se_id e \<le> p | None \<Rightarrow> False)"
    using Cons.prems(2) by (cases prev) auto
  moreover have "unadmitted_page reg net after es" "\<forall>x \<in> set es. se_id e < se_id x"
    using Cons.prems(1) by (auto simp: unadmitted_page_def)
  ultimately show ?case
    using Cons.prems(1) Cons.IH [of "Some (se_id e)" "sk + 1"]
    by (auto simp: unadmitted_page_def reserved_def split: option.splits)
qed simp

text \<open>One cycle of the indexer as a step on its three states.\<close>

definition cycle ::
  "('z) event_ext_scheme \<Rightarrow> Indexer \<Rightarrow> 's EventSource
     \<Rightarrow> 's \<times> InMemoryCheckpointStore \<times> MemoryEventStore
     \<Rightarrow> 's \<times> InMemoryCheckpointStore \<times> MemoryEventStore" where
  "cycle X ix S st = (case st of (src, cps, store) \<Rightarrow> snd (run_once X ix S memcp mem_insert_batch src cps store))"



section \<open>The mapping is total on valid events\<close>

text \<open>
  After \<open>validate\<close> the mapping can only fail on the close time: the index parses, the ledger is
  positive and the hash has the wire shape, so the later checks of the same facts never fire.
\<close>

lemma lowercase_hex_transaction_hash: "is_64_lowercase_hex raw \<Longrightarrow> TransactionHash_new raw = Inr raw"
  by (auto simp: is_64_lowercase_hex_def TransactionHash_new_def validate_ref_def REF_MAX_LEN_def
      list_all_iff ascii_defs)

lemma to_normalized_eq_Inr:
  assumes "SorobanEvent_validate e = Inr ()"
    and "case se_ledger_closed_at e of None \<Rightarrow> ct = None
         | Some raw \<Rightarrow> \<exists>t. parse_ledger_close_time raw = Inr t \<and> ct = Some t"
  shows "\<exists>parts. to_normalized e network = Inr parts
    \<and> eo_event_index (np_order parts) = Some (fold_digits (drop 20 (se_id e)))
    \<and> eo_ledger_sequence (np_order parts) = Some (se_ledger e)
    \<and> lr_close_time (np_ledger parts) = ct
    \<and> map_option txr_hash (np_transaction parts) = se_tx_hash e"
proof -
  from assms(1) have v: "1 \<le> se_ledger e" "case se_tx_hash e of Some h \<Rightarrow> is_64_lowercase_hex h | None \<Rightarrow> True"
    by (auto simp: SorobanEvent_validate_def and_then_eq_Inr split: option.splits)
  then have "LedgerReference_new network (se_ledger e) ct
      = Inr \<lparr>lr_network = network, lr_sequence = se_ledger e, lr_close_time = ct\<rparr>"
    by (simp add: LedgerReference_new_def)
  with assms v event_index_of_valid [OF assms(1)] show ?thesis
    by (cases "se_ledger_closed_at e"; cases "se_tx_hash e")
      (auto simp: to_normalized_def lowercase_hex_transaction_hash)
qed

end
