(* ===== verification/Audit_Access.thy ===== *)
theory Audit_Access
  imports Audit_Event
begin

text \<open>
  \<open>crates/audit-core/src/authorization.rs\<close>: auditor roles, the actions they request, access scopes,
  the decision an authorizer reaches and the access-log entry it leaves.  The order on roles is the
  derived \<open>Ord\<close> of the enum.
\<close>

datatype AuditorRole =
  ReadOnlyReviewer | Auditor | SeniorAuditor | Investigator | ComplianceOfficer | Administrator

fun AuditorRole_as_str :: "AuditorRole \<Rightarrow> string" where
  "AuditorRole_as_str ReadOnlyReviewer = ''read-only-reviewer''"
| "AuditorRole_as_str Auditor = ''auditor''"
| "AuditorRole_as_str SeniorAuditor = ''senior-auditor''"
| "AuditorRole_as_str Investigator = ''investigator''"
| "AuditorRole_as_str ComplianceOfficer = ''compliance-officer''"
| "AuditorRole_as_str Administrator = ''administrator''"

fun authority :: "AuditorRole \<Rightarrow> nat" where
  "authority ReadOnlyReviewer = 0"
| "authority Auditor = 1"
| "authority SeniorAuditor = 2"
| "authority Investigator = 3"
| "authority ComplianceOfficer = 4"
| "authority Administrator = 5"

lemma authority_inject [simp]: "authority a = authority b \<longleftrightarrow> a = b"
  by (cases a; cases b) simp_all

instantiation AuditorRole :: linorder
begin

definition less_eq_AuditorRole :: "AuditorRole \<Rightarrow> AuditorRole \<Rightarrow> bool" where
  "less_eq_AuditorRole a b \<longleftrightarrow> authority a \<le> authority b"

definition less_AuditorRole :: "AuditorRole \<Rightarrow> AuditorRole \<Rightarrow> bool" where
  "less_AuditorRole a b \<longleftrightarrow> authority a < authority b"

instance
  by standard (auto simp: less_eq_AuditorRole_def less_AuditorRole_def)

end

record AuditorIdentity =
  ai_auditor_id :: AuditorId
  ai_role :: AuditorRole

datatype AccessAction =
    ReadRecord | Query | InspectTransaction | InspectPolicy | InspectDenied
  | CreateInvestigation | ViewInvestigation | GenerateEvidence | GenerateReport
  | ExportRecords | RequestProtectedData | VerifyIntegrity

fun AccessAction_as_str :: "AccessAction \<Rightarrow> string" where
  "AccessAction_as_str ReadRecord = ''read-record''"
| "AccessAction_as_str Query = ''query''"
| "AccessAction_as_str InspectTransaction = ''inspect-transaction''"
| "AccessAction_as_str InspectPolicy = ''inspect-policy''"
| "AccessAction_as_str InspectDenied = ''inspect-denied''"
| "AccessAction_as_str CreateInvestigation = ''create-investigation''"
| "AccessAction_as_str ViewInvestigation = ''view-investigation''"
| "AccessAction_as_str GenerateEvidence = ''generate-evidence''"
| "AccessAction_as_str GenerateReport = ''generate-report''"
| "AccessAction_as_str ExportRecords = ''export-records''"
| "AccessAction_as_str RequestProtectedData = ''request-protected-data''"
| "AccessAction_as_str VerifyIntegrity = ''verify-integrity''"

lemma AccessAction_as_str_inject [simp]: "AccessAction_as_str a = AccessAction_as_str b \<longleftrightarrow> a = b"
  by (cases a; cases b) simp_all

datatype AccessResult = Granted | Denied | OutOfScope

fun AccessResult_as_str :: "AccessResult \<Rightarrow> string" where
  "AccessResult_as_str Granted = ''granted''"
| "AccessResult_as_str AccessResult.Denied = ''denied''"
| "AccessResult_as_str OutOfScope = ''out-of-scope''"

datatype AccessScope =
    All
  | Network NetworkId
  | Token TokenReference
  | Contract ContractReference
  | AccountClass string
  | Investigation CaseId
  | TimeRange TimeRange
  | EventKind EventKind
  | Classification DataClassification

fun describe :: "AccessScope \<Rightarrow> string" where
  "describe All = ''all''"
| "describe (Network n) = ''network:'' @ n"
| "describe (Token t) = ''token:'' @ TokenReference_display t"
| "describe (Contract c) = ''contract:'' @ ContractReference_to_string c"
| "describe (AccountClass c) = ''account-class:'' @ c"
| "describe (Investigation c) = ''case:'' @ c"
| "describe (TimeRange r) =
     (case (tr_start r, tr_end r) of
        (Some a, Some b) \<Rightarrow> ''time:'' @ show_int a @ ''..'' @ show_int b
      | (Some a, None) \<Rightarrow> ''time:'' @ show_int a @ ''..''
      | (None, Some b) \<Rightarrow> ''time:..'' @ show_int b
      | (None, None) \<Rightarrow> ''time:all'')"
| "describe (EventKind k) = ''kind:'' @ EventKind_as_str k"
| "describe (Classification c) = ''classification:'' @ DataClassification_as_str c"

record AuthorizationDecision =
  ad_allowed :: bool
  ad_action :: AccessAction
  ad_scope :: string
  ad_reason :: "string option"
  ad_decided_by :: "AuditorId option"
  ad_decided_at :: Timestamp

definition AuthorizationDecision_new ::
  "bool \<Rightarrow> AccessAction \<Rightarrow> string \<Rightarrow> AuditorId option \<Rightarrow> Timestamp \<Rightarrow> AuthorizationDecision" where
  "AuthorizationDecision_new allowed action scope decided_by decided_at =
     \<lparr>ad_allowed = allowed, ad_action = action, ad_scope = scope, ad_reason = None,
      ad_decided_by = decided_by, ad_decided_at = decided_at\<rparr>"

definition with_reason :: "AuthorizationDecision \<Rightarrow> string \<Rightarrow> AuthorizationDecision" where
  "with_reason d reason = d\<lparr>ad_reason := Some reason\<rparr>"

record AuditAccessEntry =
  ae_entry_id :: AccessEntryId
  ae_auditor :: AuditorId
  ae_action :: AccessAction
  ae_scope :: string
  ae_target :: "string option"
  ae_result :: AccessResult
  ae_accessed_at :: Timestamp
  ae_classification :: "DataClassification option"

definition AuditAccessEntry_new ::
  "AccessEntryId \<Rightarrow> AuditorId \<Rightarrow> AccessAction \<Rightarrow> string \<Rightarrow> string option \<Rightarrow> AccessResult \<Rightarrow> Timestamp
     \<Rightarrow> AuditAccessEntry" where
  "AuditAccessEntry_new entry_id auditor action scope target result accessed_at =
     \<lparr>ae_entry_id = entry_id, ae_auditor = auditor, ae_action = action, ae_scope = scope,
      ae_target = target, ae_result = result, ae_accessed_at = accessed_at,
      ae_classification = None\<rparr>"

definition with_classification :: "AuditAccessEntry \<Rightarrow> DataClassification \<Rightarrow> AuditAccessEntry" where
  "with_classification e classification = e\<lparr>ae_classification := Some classification\<rparr>"

definition validate_scope_label :: "string \<Rightarrow> AuditError + unit" where
  "validate_scope_label label =
     (if 1 \<le> length label \<and> length label \<le> 256
         \<and> list_all (\<lambda>c. is_ascii_graphic c \<or> c = CHR '' '') label
      then Inr ()
      else Inl (InvalidIdentifier ''scope label'' ''must be 1-256 printable ASCII chars''))"

end
