(* ===== verification/Audit_Case.thy ===== *)
theory Audit_Case
  imports Audit_Event "HOL-Library.Sublist"
begin

text \<open>
  \<open>crates/audit-core/src/investigation.rs\<close>: investigation cases.  A method on \<open>&mut self\<close> returns its
  result together with the case as the method left it, also when it fails.
\<close>

section \<open>Statuses\<close>

datatype CaseStatus = Open | Investigating | Escalated | Resolved | Closed

fun CaseStatus_as_str :: "CaseStatus \<Rightarrow> string" where
  "CaseStatus_as_str Open = ''open''"
| "CaseStatus_as_str Investigating = ''investigating''"
| "CaseStatus_as_str Escalated = ''escalated''"
| "CaseStatus_as_str Resolved = ''resolved''"
| "CaseStatus_as_str Closed = ''closed''"

fun can_transition :: "CaseStatus \<Rightarrow> CaseStatus \<Rightarrow> bool" where
  "can_transition Open Investigating = True"
| "can_transition Open Escalated = True"
| "can_transition Investigating Escalated = True"
| "can_transition Investigating Resolved = True"
| "can_transition Escalated Investigating = True"
| "can_transition Escalated Resolved = True"
| "can_transition Resolved Closed = True"
| "can_transition Resolved Open = True"
| "can_transition Closed Open = True"
| "can_transition _ _ = False"

definition is_terminal :: "CaseStatus \<Rightarrow> bool" where
  "is_terminal s \<longleftrightarrow> s = Closed"

datatype Priority = Low | Medium | High | Critical

section \<open>Timeline, findings, notes\<close>

datatype TimelineEntryKind =
    TransactionObserved | PolicyDecision | EnforcementDecision | AccountFrozen | Denial
  | AuthorizationChange | AuditorAccess | EvidenceGenerated | FindingAdded | StatusChanged
  | NoteAdded

fun TimelineEntryKind_as_str :: "TimelineEntryKind \<Rightarrow> string" where
  "TimelineEntryKind_as_str TransactionObserved = ''transaction-observed''"
| "TimelineEntryKind_as_str PolicyDecision = ''policy-decision''"
| "TimelineEntryKind_as_str EnforcementDecision = ''enforcement-decision''"
| "TimelineEntryKind_as_str TimelineEntryKind.AccountFrozen = ''account-frozen''"
| "TimelineEntryKind_as_str Denial = ''denial''"
| "TimelineEntryKind_as_str AuthorizationChange = ''authorization-change''"
| "TimelineEntryKind_as_str AuditorAccess = ''auditor-access''"
| "TimelineEntryKind_as_str TimelineEntryKind.EvidenceGenerated = ''evidence-generated''"
| "TimelineEntryKind_as_str FindingAdded = ''finding-added''"
| "TimelineEntryKind_as_str StatusChanged = ''status-changed''"
| "TimelineEntryKind_as_str NoteAdded = ''note-added''"

record TimelineEntry =
  te_at :: Timestamp
  te_kind :: TimelineEntryKind
  te_actor :: "AuditorId option"
  te_record :: "RecordId option"
  te_provenance :: string
  te_detail :: "string option"

definition TimelineEntry_new :: "Timestamp \<Rightarrow> TimelineEntryKind \<Rightarrow> string \<Rightarrow> AuditError + TimelineEntry" where
  "TimelineEntry_new at kind provenance =
     (if provenance = [] \<or> length provenance > 64
      then Inl (InvalidIdentifier ''timeline provenance'' ''must be 1-64 chars'')
      else Inr \<lparr>te_at = at, te_kind = kind, te_actor = None, te_record = None,
                te_provenance = provenance, te_detail = None\<rparr>)"

definition with_actor :: "AuditorId \<Rightarrow> TimelineEntry \<Rightarrow> TimelineEntry" where
  "with_actor actor e = e\<lparr>te_actor := Some actor\<rparr>"

definition with_record :: "RecordId \<Rightarrow> TimelineEntry \<Rightarrow> TimelineEntry" where
  "with_record r e = e\<lparr>te_record := Some r\<rparr>"

definition with_detail :: "string \<Rightarrow> TimelineEntry \<Rightarrow> TimelineEntry" where
  "with_detail detail e = e\<lparr>te_detail := Some detail\<rparr>"

datatype FindingKind = PolicyVerdict | EnforcementVerdict | Anomaly | Pattern | Integrity

datatype Severity = Info | Low | Medium | High | Critical

fun Severity_as_str :: "Severity \<Rightarrow> string" where
  "Severity_as_str Info = ''info''"
| "Severity_as_str Severity.Low = ''low''"
| "Severity_as_str Severity.Medium = ''medium''"
| "Severity_as_str Severity.High = ''high''"
| "Severity_as_str Severity.Critical = ''critical''"

record Finding =
  fi_finding_id :: FindingId
  fi_kind :: FindingKind
  fi_severity :: Severity
  fi_summary :: string
  fi_related_records :: "RecordId list"
  fi_created_at :: Timestamp
  fi_created_by :: AuditorId

definition Finding_new ::
  "FindingId \<Rightarrow> FindingKind \<Rightarrow> Severity \<Rightarrow> string \<Rightarrow> Timestamp \<Rightarrow> AuditorId \<Rightarrow> AuditError + Finding" where
  "Finding_new finding_id kind severity summary created_at created_by =
     (if summary = [] \<or> length summary > 512
      then Inl (AuditError.ValidationFailure ''finding summary must be 1-512 chars'')
      else Inr \<lparr>fi_finding_id = finding_id, fi_kind = kind, fi_severity = severity,
                fi_summary = summary, fi_related_records = [], fi_created_at = created_at,
                fi_created_by = created_by\<rparr>)"

definition with_related_records :: "Finding \<Rightarrow> RecordId list \<Rightarrow> Finding" where
  "with_related_records f records = f\<lparr>fi_related_records := records\<rparr>"

record Note =
  nt_note_id :: NoteId
  nt_author :: AuditorId
  nt_body :: string
  nt_created_at :: Timestamp

definition Note_new :: "NoteId \<Rightarrow> AuditorId \<Rightarrow> string \<Rightarrow> Timestamp \<Rightarrow> AuditError + Note" where
  "Note_new note_id author body created_at =
     (if body = [] \<or> length body > 4096
      then Inl (AuditError.ValidationFailure ''note body must be 1-4096 chars'')
      else Inr \<lparr>nt_note_id = note_id, nt_author = author, nt_body = body,
                nt_created_at = created_at\<rparr>)"

record RelatedReferences =
  rr_records :: "RecordId list"
  rr_transactions :: "TransactionReference list"
  rr_accounts :: "AccountReference list"
  rr_tokens :: "TokenReference list"
  rr_policies :: "PolicyReference list"

definition RelatedReferences_empty :: RelatedReferences where
  "RelatedReferences_empty =
     \<lparr>rr_records = [], rr_transactions = [], rr_accounts = [], rr_tokens = [], rr_policies = []\<rparr>"

definition add_record :: "RelatedReferences \<Rightarrow> RecordId \<Rightarrow> RelatedReferences" where
  "add_record rr r = rr\<lparr>rr_records := rr_records rr @ [r]\<rparr>"

definition add_transaction :: "RelatedReferences \<Rightarrow> TransactionReference \<Rightarrow> RelatedReferences" where
  "add_transaction rr tx = rr\<lparr>rr_transactions := rr_transactions rr @ [tx]\<rparr>"

definition RelatedReferences_is_empty :: "RelatedReferences \<Rightarrow> bool" where
  "RelatedReferences_is_empty rr \<longleftrightarrow>
     rr_records rr = [] \<and> rr_transactions rr = [] \<and> rr_accounts rr = [] \<and> rr_tokens rr = []
     \<and> rr_policies rr = []"

section \<open>Cases\<close>

record InvestigationCase =
  ic_case_id :: CaseId
  ic_title :: string
  ic_status :: CaseStatus
  ic_priority :: Priority
  ic_created_at :: Timestamp
  ic_created_by :: AuditorId
  ic_assigned_to :: "AuditorId option"
  ic_related :: RelatedReferences
  ic_timeline :: "TimelineEntry list"
  ic_findings :: "Finding list"
  ic_notes :: "Note list"
  ic_closed_at :: "Timestamp option"
  ic_closed_reason :: "string option"

definition case_open ::
  "CaseId \<Rightarrow> string \<Rightarrow> Priority \<Rightarrow> Timestamp \<Rightarrow> AuditorId \<Rightarrow> AuditError + InvestigationCase" where
  "case_open case_id title priority created_at created_by =
     (if title = [] \<or> length title > 200
      then Inl (AuditError.ValidationFailure ''case title must be 1-200 chars'')
      else Inr \<lparr>ic_case_id = case_id, ic_title = title, ic_status = Open, ic_priority = priority,
                ic_created_at = created_at, ic_created_by = created_by, ic_assigned_to = None,
                ic_related = RelatedReferences_empty, ic_timeline = [], ic_findings = [],
                ic_notes = [], ic_closed_at = None, ic_closed_reason = None\<rparr>)"

definition push_timeline :: "InvestigationCase \<Rightarrow> TimelineEntry \<Rightarrow> InvestigationCase" where
  "push_timeline c e = c\<lparr>ic_timeline := ic_timeline c @ [e]\<rparr>"

definition case_assign ::
  "InvestigationCase \<Rightarrow> AuditorId \<Rightarrow> Timestamp \<Rightarrow> (AuditError + unit) \<times> InvestigationCase" where
  "case_assign c investigator at =
     (let c1 = c\<lparr>ic_assigned_to := Some investigator\<rparr>
      in case TimelineEntry_new at StatusChanged ''auditor-action'' of
           Inl e \<Rightarrow> (Inl e, c1)
         | Inr t \<Rightarrow> (Inr (), push_timeline c1 (with_detail ''case assigned'' (with_actor investigator t))))"

definition case_change_status ::
  "InvestigationCase \<Rightarrow> CaseStatus \<Rightarrow> Timestamp \<Rightarrow> AuditorId \<Rightarrow> string option
     \<Rightarrow> (AuditError + unit) \<times> InvestigationCase" where
  "case_change_status c to at by reason =
     (if \<not> can_transition (ic_status c) to
      then (Inl (AuditError.ValidationFailure (''cannot transition case from ''
                   @ CaseStatus_as_str (ic_status c) @ '' to '' @ CaseStatus_as_str to)), c)
      else case TimelineEntry_new at StatusChanged ''auditor-action'' of
             Inl e \<Rightarrow> (Inl e, c)
           | Inr t \<Rightarrow>
               let arrow = CaseStatus_as_str (ic_status c) @ '' -> '' @ CaseStatus_as_str to;
                   entry = with_detail arrow (with_actor by t);
                   entry = (case reason of
                              None \<Rightarrow> entry
                            | Some r \<Rightarrow> with_detail (arrow @ '' ('' @ r @ '')'') entry);
                   c1 = (push_timeline c entry)\<lparr>ic_status := to\<rparr>
               in (Inr (), if to = Closed then c1\<lparr>ic_closed_at := Some at, ic_closed_reason := reason\<rparr>
                           else c1))"

definition case_add_related_record ::
  "InvestigationCase \<Rightarrow> RecordId \<Rightarrow> TimelineEntryKind \<Rightarrow> Timestamp
     \<Rightarrow> (AuditError + unit) \<times> InvestigationCase" where
  "case_add_related_record c r kind at =
     (let c1 = c\<lparr>ic_related := add_record (ic_related c) r\<rparr>
      in case TimelineEntry_new at kind ''audit-record'' of
           Inl e \<Rightarrow> (Inl e, c1)
         | Inr t \<Rightarrow> (Inr (), push_timeline c1 (with_record r t)))"

definition case_add_finding ::
  "InvestigationCase \<Rightarrow> Finding \<Rightarrow> Timestamp \<Rightarrow> (AuditError + unit) \<times> InvestigationCase" where
  "case_add_finding c finding at =
     (case TimelineEntry_new at FindingAdded ''auditor-action'' of
        Inl e \<Rightarrow> (Inl e, c)
      | Inr t \<Rightarrow>
          let c1 = push_timeline c (with_actor (fi_created_by finding) t)
          in (Inr (), c1\<lparr>ic_findings := ic_findings c1 @ [finding]\<rparr>))"

definition case_add_note :: "InvestigationCase \<Rightarrow> Note \<Rightarrow> (AuditError + unit) \<times> InvestigationCase" where
  "case_add_note c note =
     (case TimelineEntry_new (nt_created_at note) NoteAdded ''auditor-action'' of
        Inl e \<Rightarrow> (Inl e, c)
      | Inr t \<Rightarrow>
          let c1 = push_timeline c (with_actor (nt_author note) t)
          in (Inr (), c1\<lparr>ic_notes := ic_notes c1 @ [note]\<rparr>))"

definition needs_actor :: "TimelineEntryKind \<Rightarrow> bool" where
  "needs_actor k \<longleftrightarrow> k = FindingAdded \<or> k = StatusChanged \<or> k = NoteAdded"

fun validate_timeline :: "TimelineEntry list \<Rightarrow> AuditError + unit" where
  "validate_timeline [] = Inr ()"
| "validate_timeline (e # es) =
     (if te_actor e = None \<and> needs_actor (te_kind e)
      then Inl (AuditError.ValidationFailure ''auditor-action timeline entries must carry an actor'')
      else validate_timeline es)"

definition case_validate :: "InvestigationCase \<Rightarrow> AuditError + unit" where
  "case_validate c =
     (if ic_status c = Closed
      then if ic_closed_at c = None
           then Inl (AuditError.ValidationFailure ''closed cases must record closed_at'')
           else validate_timeline (ic_timeline c)
      else if ic_closed_at c \<noteq> None \<or> ic_closed_reason c \<noteq> None
      then Inl (AuditError.ValidationFailure ''only closed cases may carry closure fields'')
      else validate_timeline (ic_timeline c))"

section \<open>Lemmas\<close>

lemma TimelineEntry_new_action [simp]:
  "TimelineEntry_new at k ''auditor-action'' = Inr \<lparr>te_at = at, te_kind = k, te_actor = None,
     te_record = None, te_provenance = ''auditor-action'', te_detail = None\<rparr>"
  "TimelineEntry_new at k ''audit-record'' = Inr \<lparr>te_at = at, te_kind = k, te_actor = None,
     te_record = None, te_provenance = ''audit-record'', te_detail = None\<rparr>"
  by (simp_all add: TimelineEntry_new_def)

definition closure_ok :: "InvestigationCase \<Rightarrow> bool" where
  "closure_ok c \<longleftrightarrow>
     (if ic_status c = Closed then ic_closed_at c \<noteq> None
      else ic_closed_at c = None \<and> ic_closed_reason c = None)"

definition entry_ok :: "TimelineEntry \<Rightarrow> bool" where
  "entry_ok e \<longleftrightarrow> (needs_actor (te_kind e) \<longrightarrow> te_actor e \<noteq> None)"

lemma validate_timeline_Inr: "validate_timeline es = Inr () \<longleftrightarrow> list_all entry_ok es"
  by (induction es) (auto simp: entry_ok_def)

lemma case_validate_Inr: "case_validate c = Inr () \<longleftrightarrow> closure_ok c \<and> list_all entry_ok (ic_timeline c)"
  by (auto simp: case_validate_def closure_ok_def validate_timeline_Inr)

lemma case_validate_cases: "case_validate c = Inr u \<Longrightarrow> closure_ok c \<and> list_all entry_ok (ic_timeline c)"
  using case_validate_Inr by simp

text \<open>The one change an operation makes to a case it succeeds on.\<close>

inductive case_move :: "InvestigationCase \<Rightarrow> InvestigationCase \<Rightarrow> bool" where
  assigned: "case_assign c a at = (Inr (), c') \<Longrightarrow> ic_status c \<noteq> Closed \<Longrightarrow> case_move c c'"
| moved: "case_change_status c to at by reason = (Inr (), c') \<Longrightarrow> case_validate c' = Inr () \<Longrightarrow>
    (to = Closed \<longrightarrow> reason \<noteq> None) \<Longrightarrow> case_move c c'"
| linked: "case_add_related_record c r k at = (Inr (), c') \<Longrightarrow> ic_status c \<noteq> Closed \<Longrightarrow> case_move c c'"
| found: "case_add_finding c f at = (Inr (), c') \<Longrightarrow> ic_status c \<noteq> Closed \<Longrightarrow> case_move c c'"
| noted: "case_add_note c n = (Inr (), c') \<Longrightarrow> ic_status c \<noteq> Closed \<Longrightarrow> case_move c c'"

lemmas case_op_defs = case_assign_def case_change_status_def case_add_related_record_def
  case_add_finding_def case_add_note_def push_timeline_def Let_def

text \<open>Who a case is, and that its history only grows.\<close>

definition extends :: "InvestigationCase \<Rightarrow> InvestigationCase \<Rightarrow> bool" where
  "extends c c' \<longleftrightarrow>
     ic_case_id c' = ic_case_id c \<and> ic_title c' = ic_title c \<and> ic_priority c' = ic_priority c
     \<and> ic_created_at c' = ic_created_at c \<and> ic_created_by c' = ic_created_by c
     \<and> prefix (ic_timeline c) (ic_timeline c') \<and> prefix (ic_findings c) (ic_findings c')
     \<and> prefix (ic_notes c) (ic_notes c')
     \<and> prefix (rr_records (ic_related c)) (rr_records (ic_related c'))"

lemma extends_refl: "extends c c"
  by (simp add: extends_def)

lemma extends_trans: "extends a b \<Longrightarrow> extends b c \<Longrightarrow> extends a c"
  unfolding extends_def by (auto intro: prefix_order.trans)

lemma case_move_extends:
  "case_move c c' \<Longrightarrow> extends c c' \<and> length (ic_timeline c') = Suc (length (ic_timeline c))"
  by (induction rule: case_move.induct)
     (auto simp: case_op_defs extends_def add_record_def split: if_splits)

text \<open>What holds of every stored case: consistent closure fields, and a reason once closed.\<close>

definition case_inv :: "InvestigationCase \<Rightarrow> bool" where
  "case_inv c \<longleftrightarrow>
     closure_ok c \<and> (ic_status c = Closed \<longrightarrow> ic_closed_reason c \<noteq> None)
     \<and> ic_title c \<noteq> [] \<and> length (ic_title c) \<le> 200"

lemma case_open_inv: "case_open i title p at by = Inr c \<Longrightarrow>
    case_inv c \<and> ic_case_id c = i \<and> ic_timeline c = [] \<and> ic_status c = Open"
  by (auto simp: case_open_def case_inv_def closure_ok_def split: if_splits)

lemma case_move_inv:
  assumes "case_move c c'" "case_inv c"
  shows "case_inv c' \<and> ic_status c \<noteq> Closed"
  using assms
proof (induction rule: case_move.induct)
  case (moved c to at actor reason c')
  have cv: "closure_ok c'" using moved(2) case_validate_Inr by blast
  have to: "can_transition (ic_status c) to" and st: "ic_status c' = to"
    and reason: "to = Closed \<Longrightarrow> ic_closed_reason c' = reason"
    and at: "to \<noteq> Closed \<Longrightarrow> ic_closed_at c' = ic_closed_at c"
    and title: "ic_title c' = ic_title c"
    using moved(1) by (auto simp: case_op_defs split: if_splits)
  have "ic_status c \<noteq> Closed"
  proof
    assume closed: "ic_status c = Closed"
    with to have "to = Open" by (cases to) auto
    with cv st at moved.prems closed show False by (auto simp: case_inv_def closure_ok_def)
  qed
  with cv st reason title moved(3) moved.prems show ?case
    by (auto simp: case_inv_def)
qed (auto simp: case_op_defs case_inv_def closure_ok_def)

text \<open>Reopening a closed case always leaves closure fields behind, which \<open>validate\<close> refuses.\<close>

lemma reopen_invalid:
  assumes "ic_status c = Closed" "closure_ok c"
  shows "\<exists>c'. case_change_status c Open at by reason = (Inr (), c')
    \<and> case_validate c' = Inl (AuditError.ValidationFailure ''only closed cases may carry closure fields'')"
  using assms by (simp add: case_op_defs case_validate_def closure_ok_def)

lemma case_change_status_timeline:
  "case_change_status c to at by reason = (Inr (), c') \<Longrightarrow> prefix (ic_timeline c) (ic_timeline c')"
  by (auto simp: case_op_defs split: if_splits)

end
