(* ===== verification/Audit_Artifacts.thy ===== *)
theory Audit_Artifacts
  imports Audit_Integrity
begin

text \<open>
  \<open>crates/audit-core/src/evidence.rs\<close> and \<open>report.rs\<close>: evidence artifacts, reports and their
  queries.  \<open>serde_json\<close> on the two artifact types extends the parameter record.  The derived
  orders on \<open>DecisionResult\<close> and \<open>EventKind\<close> are those of the summary's \<open>BTreeMap\<close>s.
\<close>

section \<open>Evidence\<close>

definition EVIDENCE_SCHEMA_VERSION :: nat where
  "EVIDENCE_SCHEMA_VERSION = 1"

datatype EvidenceKind =
    TransactionEvidence | ComplianceDecisionEvidence | EnforcementEvidence
  | InvestigationEvidence | HistoricalActivityEvidence | IntegrityEvidence

fun EvidenceKind_as_str :: "EvidenceKind \<Rightarrow> string" where
  "EvidenceKind_as_str TransactionEvidence = ''transaction-evidence''"
| "EvidenceKind_as_str ComplianceDecisionEvidence = ''compliance-decision-evidence''"
| "EvidenceKind_as_str EnforcementEvidence = ''enforcement-evidence''"
| "EvidenceKind_as_str InvestigationEvidence = ''investigation-evidence''"
| "EvidenceKind_as_str HistoricalActivityEvidence = ''historical-activity-evidence''"
| "EvidenceKind_as_str IntegrityEvidence = ''integrity-evidence''"

record EvidenceProvenance =
  vp_source_records :: "RecordId list"
  vp_source_events :: "EventId list"
  vp_parser_version :: VersionLabel
  vp_generator_version :: VersionLabel

definition EvidenceProvenance_new ::
  "RecordId list \<Rightarrow> EventId list \<Rightarrow> VersionLabel \<Rightarrow> VersionLabel \<Rightarrow> AuditError + EvidenceProvenance" where
  "EvidenceProvenance_new source_records source_events parser_version generator_version =
     (if source_records = [] \<and> source_events = []
      then Inl (MalformedEvidence ''evidence provenance must name at least one source record or event'')
      else Inr \<lparr>vp_source_records = source_records, vp_source_events = source_events,
                vp_parser_version = parser_version, vp_generator_version = generator_version\<rparr>)"

record EvidenceArtifact =
  ea_evidence_id :: EvidenceId
  ea_kind :: EvidenceKind
  ea_provenance :: EvidenceProvenance
  ea_generated_at :: Timestamp
  ea_generated_by :: "AuditorId option"
  ea_schema_version :: nat
  ea_digest :: "IntegrityDigest option"
  ea_manifest_id :: "ManifestId option"

definition EvidenceArtifact_new ::
  "EvidenceId \<Rightarrow> EvidenceKind \<Rightarrow> EvidenceProvenance \<Rightarrow> Timestamp \<Rightarrow> AuditorId option
     \<Rightarrow> EvidenceArtifact" where
  "EvidenceArtifact_new evidence_id kind provenance generated_at generated_by =
     \<lparr>ea_evidence_id = evidence_id, ea_kind = kind, ea_provenance = provenance,
      ea_generated_at = generated_at, ea_generated_by = generated_by,
      ea_schema_version = EVIDENCE_SCHEMA_VERSION, ea_digest = None, ea_manifest_id = None\<rparr>"

definition EvidenceArtifact_with_digest :: "EvidenceArtifact \<Rightarrow> IntegrityDigest \<Rightarrow> EvidenceArtifact" where
  "EvidenceArtifact_with_digest a digest = a\<lparr>ea_digest := Some digest\<rparr>"

definition EvidenceArtifact_with_manifest :: "EvidenceArtifact \<Rightarrow> ManifestId \<Rightarrow> EvidenceArtifact" where
  "EvidenceArtifact_with_manifest a manifest_id = a\<lparr>ea_manifest_id := Some manifest_id\<rparr>"

definition EvidenceArtifact_validate :: "EvidenceArtifact \<Rightarrow> AuditError + unit" where
  "EvidenceArtifact_validate a =
     (if ea_schema_version a \<noteq> EVIDENCE_SCHEMA_VERSION
      then Inl (UnsupportedSchema (''evidence schema version '' @ show_nat (ea_schema_version a)
                  @ '' is not supported (expected '' @ show_nat EVIDENCE_SCHEMA_VERSION @ '')''))
      else Inr ())"

section \<open>Reports\<close>

definition REPORT_SCHEMA_VERSION :: nat where
  "REPORT_SCHEMA_VERSION = 1"

datatype ReportKind =
    ComplianceActivity | ApprovedTransactions | DeniedTransactions | FlaggedTransactions
  | EnforcementActivity | AccountActivity | TokenActivity | Investigations | Incidents
  | EvidenceSummary | IntegrityVerification

fun ReportKind_as_str :: "ReportKind \<Rightarrow> string" where
  "ReportKind_as_str ComplianceActivity = ''compliance-activity''"
| "ReportKind_as_str ApprovedTransactions = ''approved-transactions''"
| "ReportKind_as_str DeniedTransactions = ''denied-transactions''"
| "ReportKind_as_str FlaggedTransactions = ''flagged-transactions''"
| "ReportKind_as_str EnforcementActivity = ''enforcement-activity''"
| "ReportKind_as_str AccountActivity = ''account-activity''"
| "ReportKind_as_str TokenActivity = ''token-activity''"
| "ReportKind_as_str Investigations = ''investigations''"
| "ReportKind_as_str Incidents = ''incidents''"
| "ReportKind_as_str EvidenceSummary = ''evidence-summary''"
| "ReportKind_as_str IntegrityVerification = ''integrity-verification''"

record ReportQuery =
  rq_time_range :: "TimeRange option"
  rq_network :: "string option"
  rq_tokens :: "TokenReference list"
  rq_event_kinds :: "EventKind list"
  rq_outcome :: "DecisionResult option"
  rq_account :: "AccountId option"
  rq_classification_ceiling :: "DataClassification option"

definition ReportQuery_all :: ReportQuery where
  "ReportQuery_all = \<lparr>rq_time_range = None, rq_network = None, rq_tokens = [], rq_event_kinds = [],
     rq_outcome = None, rq_account = None, rq_classification_ceiling = None\<rparr>"

definition ReportQuery_with_outcome :: "DecisionResult \<Rightarrow> ReportQuery" where
  "ReportQuery_with_outcome outcome = ReportQuery_all\<lparr>rq_outcome := Some outcome\<rparr>"

record GeneratorVersions =
  gv_report_schema :: nat
  gv_parser_version :: VersionLabel
  gv_generator_version :: VersionLabel

text \<open>The derived \<open>Ord\<close> of \<open>DecisionResult\<close> and \<open>EventKind\<close>: declaration order.\<close>

fun DecisionResult_rank :: "DecisionResult \<Rightarrow> nat" where
  "DecisionResult_rank Allowed = 0"
| "DecisionResult_rank DecisionResult.Denied = 1"
| "DecisionResult_rank Flagged = 2"

lemma DecisionResult_rank_inject [simp]: "DecisionResult_rank a = DecisionResult_rank b \<longleftrightarrow> a = b"
  by (cases a; cases b) simp_all

instantiation DecisionResult :: linorder
begin

definition less_eq_DecisionResult :: "DecisionResult \<Rightarrow> DecisionResult \<Rightarrow> bool" where
  "less_eq_DecisionResult a b \<longleftrightarrow> DecisionResult_rank a \<le> DecisionResult_rank b"

definition less_DecisionResult :: "DecisionResult \<Rightarrow> DecisionResult \<Rightarrow> bool" where
  "less_DecisionResult a b \<longleftrightarrow> DecisionResult_rank a < DecisionResult_rank b"

instance
  by standard (auto simp: less_eq_DecisionResult_def less_DecisionResult_def)

end

fun EventKind_rank :: "EventKind \<Rightarrow> nat" where
  "EventKind_rank TransferAuthorized = 0"
| "EventKind_rank TransferDenied = 1"
| "EventKind_rank TransferFlagged = 2"
| "EventKind_rank AccountFrozen = 3"
| "EventKind_rank AccountUnfrozen = 4"
| "EventKind_rank TokenBound = 5"
| "EventKind_rank TokenUnbound = 6"
| "EventKind_rank ConfigurationChanged = 7"
| "EventKind_rank EnforcementInitialized = 8"
| "EventKind_rank ComplianceDecision = 9"
| "EventKind_rank PolicyVersionChanged = 10"
| "EventKind_rank AuthorizationChanged = 11"
| "EventKind_rank AuditAccess = 12"
| "EventKind_rank InvestigationOpened = 13"
| "EventKind_rank InvestigationUpdated = 14"
| "EventKind_rank InvestigationClosed = 15"
| "EventKind_rank EvidenceGenerated = 16"
| "EventKind_rank ReportGenerated = 17"
| "EventKind_rank RecordCorrected = 18"

lemma EventKind_rank_inject [simp]: "EventKind_rank a = EventKind_rank b \<longleftrightarrow> a = b"
  by (cases a; cases b) simp_all

instantiation EventKind :: linorder
begin

definition less_eq_EventKind :: "EventKind \<Rightarrow> EventKind \<Rightarrow> bool" where
  "less_eq_EventKind a b \<longleftrightarrow> EventKind_rank a \<le> EventKind_rank b"

definition less_EventKind :: "EventKind \<Rightarrow> EventKind \<Rightarrow> bool" where
  "less_EventKind a b \<longleftrightarrow> EventKind_rank a < EventKind_rank b"

instance
  by standard (auto simp: less_eq_EventKind_def less_EventKind_def)

end

record ReportSummary =
  su_total_records :: nat
  su_by_outcome :: "(DecisionResult \<times> nat) list"
  su_by_kind :: "(EventKind \<times> nat) list"
  su_by_reason :: "(string \<times> nat) list"

definition ReportSummary_default :: ReportSummary where
  "ReportSummary_default =
     \<lparr>su_total_records = 0, su_by_outcome = [], su_by_kind = [], su_by_reason = []\<rparr>"

record Report =
  rp_report_id :: ReportId
  rp_kind :: ReportKind
  rp_generated_at :: Timestamp
  rp_generated_by :: "AuditorId option"
  rp_schema_version :: nat
  rp_query :: ReportQuery
  rp_versions :: GeneratorVersions
  rp_record_refs :: "TransactionReference list"
  rp_summary :: ReportSummary
  rp_digest :: "IntegrityDigest option"

definition Report_new ::
  "ReportId \<Rightarrow> ReportKind \<Rightarrow> Timestamp \<Rightarrow> ReportQuery \<Rightarrow> GeneratorVersions \<Rightarrow> Report" where
  "Report_new report_id kind generated_at query versions =
     \<lparr>rp_report_id = report_id, rp_kind = kind, rp_generated_at = generated_at,
      rp_generated_by = None, rp_schema_version = REPORT_SCHEMA_VERSION, rp_query = query,
      rp_versions = versions, rp_record_refs = [], rp_summary = ReportSummary_default,
      rp_digest = None\<rparr>"

definition with_generated_by :: "Report \<Rightarrow> AuditorId \<Rightarrow> Report" where
  "with_generated_by r auditor = r\<lparr>rp_generated_by := Some auditor\<rparr>"

definition with_rows :: "Report \<Rightarrow> TransactionReference list \<Rightarrow> Report" where
  "with_rows r rows = r\<lparr>rp_record_refs := rows\<rparr>"

definition with_summary :: "Report \<Rightarrow> ReportSummary \<Rightarrow> Report" where
  "with_summary r summary = r\<lparr>rp_summary := summary\<rparr>"

definition Report_with_digest :: "Report \<Rightarrow> IntegrityDigest \<Rightarrow> Report" where
  "Report_with_digest r digest = r\<lparr>rp_digest := Some digest\<rparr>"

definition Report_validate :: "Report \<Rightarrow> AuditError + unit" where
  "Report_validate r =
     (if rp_schema_version r \<noteq> REPORT_SCHEMA_VERSION
      then Inl (UnsupportedSchema (''report schema version '' @ show_nat (rp_schema_version r)
                  @ '' is not supported (expected '' @ show_nat REPORT_SCHEMA_VERSION @ '')''))
      else if gv_report_schema (rp_versions r) \<noteq> REPORT_SCHEMA_VERSION
      then Inl (UnsupportedSchema ''report versions disagree with the report schema'')
      else Inr ())"

record ReportRequest =
  rt_report_id :: "ReportId option"
  rt_kind :: ReportKind
  rt_query :: ReportQuery
  rt_requested_by :: AuditorId
  rt_requested_at :: Timestamp

definition ReportRequest_new ::
  "ReportKind \<Rightarrow> ReportQuery \<Rightarrow> AuditorId \<Rightarrow> Timestamp \<Rightarrow> ReportRequest" where
  "ReportRequest_new kind query requested_by requested_at =
     \<lparr>rt_report_id = None, rt_kind = kind, rt_query = query, rt_requested_by = requested_by,
      rt_requested_at = requested_at\<rparr>"

section \<open>Canonical bytes\<close>

record artifact_ext = integrity_ext +
  json_evidence :: "EvidenceArtifact \<Rightarrow> string + bytes"
  json_report :: "Report \<Rightarrow> string + bytes"

definition evidence_canonical_bytes ::
  "('z) artifact_ext_scheme \<Rightarrow> EvidenceArtifact \<Rightarrow> AuditError + bytes" where
  "evidence_canonical_bytes X a =
     map_err SerializationFailure (json_evidence X (a\<lparr>ea_digest := None, ea_manifest_id := None\<rparr>))"

definition report_canonical_bytes :: "('z) artifact_ext_scheme \<Rightarrow> Report \<Rightarrow> AuditError + bytes" where
  "report_canonical_bytes X r =
     map_err SerializationFailure (json_report X (r\<lparr>rp_digest := None\<rparr>))"

end
