(* ===== verification/Audit_Events.thy ===== *)
theory Audit_Events
  imports Audit_Access Audit_Case Audit_Artifacts Audit_Memory_Store
begin

text \<open>
  \<open>crates/audit-events\<close>: the semantic payloads (transfers, freezes, decisions, policy rotations,
  authorization changes, access entries, evidence, report and case lifecycle steps, corrections) and
  their projection onto the event envelope, with the deterministic event identities.

  The \<open>map_err\<close> closures that wrap a core error as \<open>InvalidFieldValue\<close> are \<open>invalid_field\<close>;
  \<open>event.details.insert\<close> is \<open>set_detail\<close>.
\<close>

section \<open>Errors\<close>

datatype EventError =
    UnsupportedEventType string
  | UnsupportedEventVersion string
  | MalformedPayload string
  | MissingField string
  | InvalidFieldValue string string
  | AmbiguousOrder string
  | NotDerivable string

fun EventError_to_string :: "EventError \<Rightarrow> string" where
  "EventError_to_string (UnsupportedEventType d) = ''unsupported event type: '' @ d"
| "EventError_to_string (EventError.UnsupportedEventVersion d) = ''unsupported event version: '' @ d"
| "EventError_to_string (MalformedPayload d) = ''malformed event payload: '' @ d"
| "EventError_to_string (MissingField d) = ''missing field: '' @ d"
| "EventError_to_string (InvalidFieldValue field detail) = ''invalid value for '' @ field @ '': '' @ detail"
| "EventError_to_string (AmbiguousOrder d) = ''ambiguous ordering: '' @ d"
| "EventError_to_string (NotDerivable d) = ''not derivable: '' @ d"

fun EventError_into_core :: "EventError \<Rightarrow> AuditError" where
  "EventError_into_core (UnsupportedEventType d) = UnsupportedEvent d"
| "EventError_into_core (EventError.UnsupportedEventVersion d) = AuditError.UnsupportedEventVersion d"
| "EventError_into_core (MalformedPayload d) = InvalidEvent d"
| "EventError_into_core (MissingField d) = InvalidEvent d"
| "EventError_into_core (AmbiguousOrder d) = InvalidEvent d"
| "EventError_into_core (InvalidFieldValue field detail) =
     InvalidEvent (''invalid value for '' @ field @ '': '' @ detail)"
| "EventError_into_core (NotDerivable d) = InvalidEvent d"

definition invalid_field :: "string \<Rightarrow> AuditError + 'a \<Rightarrow> EventError + 'a" where
  "invalid_field field r = map_err (\<lambda>e. InvalidFieldValue field (AuditError_to_string e)) r"

lemma invalid_field_eq_Inr [simp]: "invalid_field field r = Inr x \<longleftrightarrow> r = Inr x"
  by (simp add: invalid_field_def)

definition set_detail :: "string \<Rightarrow> string \<Rightarrow> AuditEvent \<Rightarrow> AuditEvent" where
  "set_detail k v e = e\<lparr>ev_details := bt_insert k v (ev_details e)\<rparr>"

definition set_detail_opt :: "string \<Rightarrow> string option \<Rightarrow> AuditEvent \<Rightarrow> AuditEvent" where
  "set_detail_opt k v e = (case v of None \<Rightarrow> e | Some x \<Rightarrow> set_detail k x e)"

section \<open>Transactions\<close>

datatype TxStatus = Succeeded | Failed | Unknown

fun TxStatus_as_str :: "TxStatus \<Rightarrow> string" where
  "TxStatus_as_str Succeeded = ''succeeded''"
| "TxStatus_as_str Failed = ''failed''"
| "TxStatus_as_str TxStatus.Unknown = ''unknown''"

record TransactionContext =
  tc_network :: NetworkId
  tc_hash :: string
  tc_ledger_sequence :: "int option"
  tc_close_time :: "Timestamp option"
  tc_status :: TxStatus

definition to_reference :: "TransactionContext \<Rightarrow> EventError + TransactionReference" where
  "to_reference tx =
     invalid_field ''transaction.hash''
       (map_ok (\<lambda>hash. \<lparr>txr_network = tc_network tx, txr_hash = hash\<rparr>) (TransactionHash_new (tc_hash tx)))"

definition ledger_reference :: "TransactionContext \<Rightarrow> EventError + LedgerReference option" where
  "ledger_reference tx =
     (case tc_ledger_sequence tx of
        Some seq \<Rightarrow>
          invalid_field ''ledger.sequence''
            (map_ok Some (LedgerReference_new (tc_network tx) seq (tc_close_time tx)))
      | None \<Rightarrow> Inr None)"

type_synonym OperationPosition = nat

definition operation_reference ::
  "TransactionReference \<Rightarrow> OperationPosition \<Rightarrow> string option \<Rightarrow> AuditError + OperationReference" where
  "operation_reference tx position op_type = OperationReference_new tx position op_type"

section \<open>Identities and base envelopes\<close>

definition derive_event_id :: "('z) hash_ext_scheme \<Rightarrow> string list \<Rightarrow> EventId" where
  "derive_event_id X parts = id_derive X EventIdT parts"

definition onchain_event_id ::
  "('z) hash_ext_scheme \<Rightarrow> string \<Rightarrow> string option \<Rightarrow> nat option \<Rightarrow> nat option \<Rightarrow> EventKind
     \<Rightarrow> EventError + EventId" where
  "onchain_event_id X network tx_hash op_index event_index kind =
     (case tx_hash of
        None \<Rightarrow> Inl (NotDerivable ''an on-chain event identity requires a transaction hash'')
      | Some tx \<Rightarrow>
          Inr (derive_event_id X
                ([network, tx]
                 @ (case op_index of None \<Rightarrow> [] | Some op \<Rightarrow> [''op:'' @ show_nat op])
                 @ (case event_index of None \<Rightarrow> [] | Some idx \<Rightarrow> [''ev:'' @ show_nat idx])
                 @ [EventKind_as_str kind])))"

definition derived_event_id :: "('z) hash_ext_scheme \<Rightarrow> string \<Rightarrow> string \<Rightarrow> string list \<Rightarrow> EventId" where
  "derived_event_id X network method source_refs =
     derive_event_id X ([network, ''derived:'' @ method] @ source_refs)"

record EventSlot =
  sl_operation :: "nat option"
  sl_event :: "nat option"

definition EventSlot_default :: EventSlot where
  "EventSlot_default = \<lparr>sl_operation = None, sl_event = None\<rparr>"

definition tx_order :: "TransactionContext \<Rightarrow> EventSlot \<Rightarrow> EventOrder" where
  "tx_order tx slot =
     \<lparr>eo_ledger_sequence = tc_ledger_sequence tx, eo_transaction_position = None,
      eo_operation_index = sl_operation slot, eo_event_index = sl_event slot\<rparr>"

definition observed_audit_event_base ::
  "('z) hash_ext_scheme \<Rightarrow> EventKind \<Rightarrow> NetworkId \<Rightarrow> string \<Rightarrow> VersionLabel \<Rightarrow> TransactionContext \<Rightarrow> EventSlot
     \<Rightarrow> EventError + AuditEvent" where
  "observed_audit_event_base X kind network source parser tx slot =
     and_then (to_reference tx) (\<lambda>tx_ref.
     and_then (onchain_event_id X network (Some (tc_hash tx)) (sl_operation slot) (sl_event slot) kind) (\<lambda>event_id.
     and_then (ledger_reference tx) (\<lambda>ledger.
     and_then (invalid_field ''provenance'' (EventProvenance_new OnChain source parser)) (\<lambda>provenance.
     Inr ((AuditEvent_new event_id kind network provenance)
            \<lparr>ev_transaction := Some tx_ref, ev_ledger := ledger,
             ev_observed_at := tc_close_time tx, ev_order := tx_order tx slot\<rparr>)))))"

record DerivationSource =
  ds_method :: string
  ds_note :: string
  ds_source_refs :: "string list"
  ds_tx :: "TransactionContext option"
  ds_source_events :: "EventId list"

definition derived_audit_event_base ::
  "('z) hash_ext_scheme \<Rightarrow> EventKind \<Rightarrow> NetworkId \<Rightarrow> string \<Rightarrow> VersionLabel \<Rightarrow> DerivationSource \<Rightarrow> EventSlot
     \<Rightarrow> EventError + AuditEvent" where
  "derived_audit_event_base X kind network source parser d slot =
     (let event_id = derived_event_id X network (ds_method d) (ds_source_refs d) in
     and_then (invalid_field ''derivation'' (DerivationInfo_new (ds_method d) (ds_source_events d) (ds_note d))) (\<lambda>info.
     and_then (invalid_field ''provenance'' (EventProvenance_new Derived source parser)) (\<lambda>p.
     let event = AuditEvent_new event_id kind network (with_derivation p info) in
     case ds_tx d of
       None \<Rightarrow> Inr event
     | Some tx \<Rightarrow>
         and_then (to_reference tx) (\<lambda>tx_ref.
         and_then (ledger_reference tx) (\<lambda>ledger.
         Inr (event\<lparr>ev_transaction := Some tx_ref, ev_ledger := ledger,
                    ev_observed_at := tc_close_time tx, ev_order := tx_order tx slot\<rparr>))))))"

text \<open>The \<open>if let Some(raw)\<close> blocks that validate and attach an optional reference.\<close>

definition attach ::
  "('r \<Rightarrow> AuditEvent \<Rightarrow> AuditEvent) \<Rightarrow> string \<Rightarrow> (string \<Rightarrow> AuditError + 'r) \<Rightarrow> string option \<Rightarrow> AuditEvent
     \<Rightarrow> EventError + AuditEvent" where
  "attach upd field parse raw event =
     (case raw of
        None \<Rightarrow> Inr event
      | Some s \<Rightarrow> map_ok (\<lambda>r. upd r event) (invalid_field field (parse s)))"

definition token_of :: "NetworkId \<Rightarrow> string \<Rightarrow> AuditError + TokenReference" where
  "token_of network raw = map_ok (for_contract network) (ContractId_new raw)"

definition account_of :: "NetworkId \<Rightarrow> string \<Rightarrow> AuditError + AccountReference" where
  "account_of network raw =
     map_ok (\<lambda>a. \<lparr>acr_network = network, acr_account = a\<rparr>) (AccountId_new raw)"

definition set_token :: "TokenReference \<Rightarrow> AuditEvent \<Rightarrow> AuditEvent" where
  "set_token t e = e\<lparr>ev_token := Some t\<rparr>"

definition set_actor :: "AccountReference \<Rightarrow> AuditEvent \<Rightarrow> AuditEvent" where
  "set_actor a e = e\<lparr>ev_actor := Some a\<rparr>"

definition set_subject :: "AccountReference \<Rightarrow> AuditEvent \<Rightarrow> AuditEvent" where
  "set_subject a e = e\<lparr>ev_subject := Some a\<rparr>"

section \<open>Authorization changes and access entries\<close>

datatype ChangeKind = Granted | Revoked

fun ChangeKind_as_str :: "ChangeKind \<Rightarrow> string" where
  "ChangeKind_as_str ChangeKind.Granted = ''granted''"
| "ChangeKind_as_str Revoked = ''revoked''"

record AuthorizationChange =
  ac_network :: NetworkId
  ac_source :: string
  ac_parser :: VersionLabel
  ac_subject :: AuditorId
  ac_actor :: "AuditorId option"
  ac_change :: ChangeKind
  ac_role :: AuditorRole
  ac_scope :: string

definition authorization_change_event ::
  "('z) hash_ext_scheme \<Rightarrow> AuthorizationChange \<Rightarrow> EventSlot \<Rightarrow> EventError + AuditEvent" where
  "authorization_change_event X c slot =
     (let source_refs = [ac_subject c, ac_scope c]
            @ (case ac_actor c of None \<Rightarrow> [] | Some actor \<Rightarrow> [actor]) in
      map_ok (\<lambda>event.
          set_detail_opt ''actor'' (ac_actor c)
          (set_detail ''subject'' (ac_subject c)
          (set_detail ''scope'' (ac_scope c)
          (set_detail ''role'' (AuditorRole_as_str (ac_role c))
          (set_detail ''change'' (ChangeKind_as_str (ac_change c)) event)))))
        (derived_audit_event_base X AuthorizationChanged (ac_network c) (ac_source c) (ac_parser c)
           \<lparr>ds_method = ''authorization-change-recorded'',
            ds_note = ''authorization grant or revocation recorded for the audit trail'',
            ds_source_refs = source_refs, ds_tx = None, ds_source_events = []\<rparr> slot))"

definition access_recorded_event ::
  "('z) hash_ext_scheme \<Rightarrow> AuditAccessEntry \<Rightarrow> NetworkId \<Rightarrow> string \<Rightarrow> VersionLabel \<Rightarrow> EventSlot
     \<Rightarrow> EventError + AuditEvent" where
  "access_recorded_event X entry network source parser slot =
     (let source_refs = [ae_auditor entry, AccessAction_as_str (ae_action entry), ae_scope entry] in
      map_ok (\<lambda>event.
          set_detail_opt ''classification''
            (map_option DataClassification_as_str (ae_classification entry))
          (set_detail ''accessed_at'' (show_int (ae_accessed_at entry))
          (set_detail ''auditor'' (ae_auditor entry)
          (set_detail_opt ''target'' (ae_target entry)
          (set_detail ''result'' (AccessResult_as_str (ae_result entry))
          (set_detail ''scope'' (ae_scope entry)
          (set_detail ''action'' (AccessAction_as_str (ae_action entry))
          (set_detail ''entry'' (ae_entry_id entry) event))))))))
        (derived_audit_event_base X AuditAccess network source parser
           \<lparr>ds_method = ''audit-access-log'',
            ds_note = ''auditor access to audit data recorded (the audit trail auditing itself)'',
            ds_source_refs = source_refs, ds_tx = None, ds_source_events = []\<rparr> slot))"

section \<open>Records of the audit system's own outputs\<close>

record EvidenceGenerated =
  eg_network :: NetworkId
  eg_source :: string
  eg_parser :: VersionLabel
  eg_evidence :: EvidenceId
  eg_kind :: EvidenceKind
  eg_record_count :: nat
  eg_generated_by :: AuditorId

definition evidence_generated_event ::
  "('z) hash_ext_scheme \<Rightarrow> EvidenceGenerated \<Rightarrow> EventSlot \<Rightarrow> EventError + AuditEvent" where
  "evidence_generated_event X g slot =
     map_ok (\<lambda>event.
         set_detail ''by'' (eg_generated_by g)
         (set_detail ''record_count'' (show_nat (eg_record_count g))
         (set_detail ''kind'' (EvidenceKind_as_str (eg_kind g))
         (set_detail ''evidence'' (eg_evidence g) event))))
       (derived_audit_event_base X EventKind.EvidenceGenerated (eg_network g) (eg_source g) (eg_parser g)
          \<lparr>ds_method = ''evidence-generation-recorded'',
           ds_note = ''evidence artifact generation recorded for the audit trail'',
           ds_source_refs = [eg_evidence g, EvidenceKind_as_str (eg_kind g), eg_generated_by g],
           ds_tx = None, ds_source_events = []\<rparr> slot)"

record ReportGenerated =
  rg_network :: NetworkId
  rg_source :: string
  rg_parser :: VersionLabel
  rg_report :: ReportId
  rg_kind :: string
  rg_record_count :: nat
  rg_generated_by :: AuditorId

definition report_generated_event ::
  "('z) hash_ext_scheme \<Rightarrow> ReportGenerated \<Rightarrow> EventSlot \<Rightarrow> EventError + AuditEvent" where
  "report_generated_event X g slot =
     map_ok (\<lambda>event.
         set_detail ''by'' (rg_generated_by g)
         (set_detail ''record_count'' (show_nat (rg_record_count g))
         (set_detail ''kind'' (rg_kind g)
         (set_detail ''report'' (rg_report g) event))))
       (derived_audit_event_base X EventKind.ReportGenerated (rg_network g) (rg_source g) (rg_parser g)
          \<lparr>ds_method = ''report-generation-recorded'',
           ds_note = ''report generation recorded for the audit trail'',
           ds_source_refs = [rg_report g, rg_kind g], ds_tx = None, ds_source_events = []\<rparr> slot)"

record RecordCorrected =
  rx_network :: NetworkId
  rx_source :: string
  rx_parser :: VersionLabel
  rx_supersedes :: RecordId
  rx_reason :: string
  rx_corrected_by :: AuditorId

definition record_corrected_event ::
  "('z) hash_ext_scheme \<Rightarrow> RecordCorrected \<Rightarrow> EventSlot \<Rightarrow> EventError + AuditEvent" where
  "record_corrected_event X c slot =
     map_ok (\<lambda>event.
         set_detail ''by'' (rx_corrected_by c)
         (set_detail ''reason'' (rx_reason c)
         (set_detail ''supersedes'' (rx_supersedes c) event)))
       (derived_audit_event_base X EventKind.RecordCorrected (rx_network c) (rx_source c) (rx_parser c)
          \<lparr>ds_method = ''record-correction'',
           ds_note = ''correction appended; the original record is preserved unmodified'',
           ds_source_refs = [rx_supersedes c], ds_tx = None, ds_source_events = []\<rparr> slot)"

section \<open>Classification of details\<close>

fun declared :: "EventKind \<Rightarrow> (string \<times> DataClassification) list" where
  "declared EventKind.ReportGenerated =
     [(''report'', Operational), (''kind'', Public), (''records'', Operational), (''digest'', Public)]"
| "declared EventKind.EvidenceGenerated =
     [(''evidence'', Operational), (''kind'', Public), (''records'', Operational),
      (''manifest'', Operational), (''digest'', Public)]"
| "declared InvestigationOpened =
     [(''case'', Operational), (''actor'', Operational), (''status'', Operational),
      (''summary'', Confidential)]"
| "declared InvestigationUpdated =
     [(''case'', Operational), (''actor'', Operational), (''status'', Operational),
      (''summary'', Confidential)]"
| "declared InvestigationClosed =
     [(''case'', Operational), (''actor'', Operational), (''status'', Operational),
      (''summary'', Confidential)]"
| "declared _ = []"

definition detail_policy :: "AuditEvent \<Rightarrow> FieldClassifications" where
  "detail_policy event =
     fold (\<lambda>(key, classification) policy.
             if map_of (ev_details event) key \<noteq> None then bt_insert key classification policy else policy)
       (declared (ev_kind event)) []"

section \<open>Compliance\<close>

record ComplianceConfigChanged =
  cc_policy :: "string option"
  cc_sac_passthrough :: bool

definition bool_to_string :: "bool \<Rightarrow> string" where
  "bool_to_string b = (if b then ''true'' else ''false'')"

definition config_changed_event ::
  "('z) hash_ext_scheme \<Rightarrow> ComplianceConfigChanged \<Rightarrow> NetworkId \<Rightarrow> string \<Rightarrow> VersionLabel \<Rightarrow> TransactionContext
     \<Rightarrow> EventSlot \<Rightarrow> EventError + AuditEvent" where
  "config_changed_event X c network source parser tx slot =
     and_then (observed_audit_event_base X ConfigurationChanged network source parser tx slot) (\<lambda>event.
       attach (set_detail ''policy_contract'') ''policy'' ContractId_new (cc_policy c)
         (set_detail ''sac_passthrough'' (bool_to_string (cc_sac_passthrough c)) event))"

record ComplianceDecision =
  cd_token :: "string option"
  cd_account :: "string option"
  cd_decision :: DecisionResult
  cd_reason :: "ReasonCode option"

definition compliance_decision_refs :: "ComplianceDecision \<Rightarrow> string list" where
  "compliance_decision_refs c =
     (case cd_token c of None \<Rightarrow> [] | Some token \<Rightarrow> [''token:'' @ token])
     @ (case cd_account c of None \<Rightarrow> [] | Some account \<Rightarrow> [''account:'' @ account])
     @ [''decision:'' @ DecisionResult_as_str (cd_decision c)]
     @ (case cd_reason c of None \<Rightarrow> [] | Some r \<Rightarrow> [''reason:'' @ r])"

definition compliance_decision_event ::
  "('z) hash_ext_scheme \<Rightarrow> ComplianceDecision \<Rightarrow> NetworkId \<Rightarrow> string \<Rightarrow> VersionLabel
     \<Rightarrow> TransactionContext option \<Rightarrow> EventSlot \<Rightarrow> EventError + AuditEvent" where
  "compliance_decision_event X c network source parser tx slot =
     and_then
       (derived_audit_event_base X EventKind.ComplianceDecision network source parser
          \<lparr>ds_method = ''observed-decision'',
           ds_note = ''compliance decision recorded from an authorized observer'',
           ds_source_refs = compliance_decision_refs c, ds_tx = tx, ds_source_events = []\<rparr> slot) (\<lambda>event.
     and_then
       (attach set_token ''token'' (token_of network) (cd_token c)
          (event\<lparr>ev_outcome := Some (cd_decision c), ev_reason := cd_reason c\<rparr>)) (\<lambda>event.
     attach set_subject ''account'' (account_of network) (cd_account c) event))"

section \<open>Evidence, report and case lifecycle\<close>

record EvidenceLifecycle =
  el_network :: NetworkId
  el_source :: string
  el_parser :: VersionLabel
  el_evidence :: EvidenceId
  el_kind :: EvidenceKind
  el_record_count :: nat
  el_manifest :: "ManifestId option"
  el_digest :: "IntegrityDigest option"

definition evidence_lifecycle_event ::
  "('z) hash_ext_scheme \<Rightarrow> EvidenceLifecycle \<Rightarrow> EventSlot \<Rightarrow> EventError + AuditEvent" where
  "evidence_lifecycle_event X l slot =
     map_ok (\<lambda>event.
         set_detail_opt ''digest'' (map_option dg_value (el_digest l))
         (set_detail_opt ''manifest'' (el_manifest l)
         (set_detail ''records'' (show_nat (el_record_count l))
         (set_detail ''kind'' (EvidenceKind_as_str (el_kind l))
         (set_detail ''evidence'' (el_evidence l) event)))))
       (derived_audit_event_base X EventKind.EvidenceGenerated (el_network l) (el_source l) (el_parser l)
          \<lparr>ds_method = ''evidence-generation'',
           ds_note = ''evidence artifact generation recorded by the evidence service'',
           ds_source_refs = [el_evidence l, EvidenceKind_as_str (el_kind l), show_nat (el_record_count l)],
           ds_tx = None, ds_source_events = []\<rparr> slot)"

record ReportLifecycle =
  rl_network :: NetworkId
  rl_source :: string
  rl_parser :: VersionLabel
  rl_report :: ReportId
  rl_kind :: ReportKind
  rl_record_count :: nat
  rl_digest :: "IntegrityDigest option"

definition report_lifecycle_event ::
  "('z) hash_ext_scheme \<Rightarrow> ReportLifecycle \<Rightarrow> EventSlot \<Rightarrow> EventError + AuditEvent" where
  "report_lifecycle_event X l slot =
     map_ok (\<lambda>event.
         set_detail_opt ''digest'' (map_option dg_value (rl_digest l))
         (set_detail ''records'' (show_nat (rl_record_count l))
         (set_detail ''kind'' (ReportKind_as_str (rl_kind l))
         (set_detail ''report'' (rl_report l) event))))
       (derived_audit_event_base X EventKind.ReportGenerated (rl_network l) (rl_source l) (rl_parser l)
          \<lparr>ds_method = ''report-generation'',
           ds_note = ''report generation recorded by the reporting service'',
           ds_source_refs = [rl_report l, ReportKind_as_str (rl_kind l), show_nat (rl_record_count l)],
           ds_tx = None, ds_source_events = []\<rparr> slot)"

datatype LifecycleKind = Opened | Updated | Closed

fun LifecycleKind_event_kind :: "LifecycleKind \<Rightarrow> EventKind" where
  "LifecycleKind_event_kind Opened = InvestigationOpened"
| "LifecycleKind_event_kind Updated = InvestigationUpdated"
| "LifecycleKind_event_kind LifecycleKind.Closed = InvestigationClosed"

record InvestigationLifecycle =
  il_network :: NetworkId
  il_source :: string
  il_parser :: VersionLabel
  il_case :: CaseId
  il_actor :: AuditorId
  il_kind :: LifecycleKind
  il_sequence :: nat
  il_status :: CaseStatus
  il_summary :: "string option"

definition investigation_lifecycle_event ::
  "('z) hash_ext_scheme \<Rightarrow> InvestigationLifecycle \<Rightarrow> EventSlot \<Rightarrow> EventError + AuditEvent" where
  "investigation_lifecycle_event X l slot =
     map_ok (\<lambda>event.
         set_detail_opt ''summary'' (il_summary l)
         (set_detail ''status'' (CaseStatus_as_str (il_status l))
         (set_detail ''actor'' (il_actor l)
         (set_detail ''case'' (il_case l) event))))
       (derived_audit_event_base X (LifecycleKind_event_kind (il_kind l)) (il_network l) (il_source l)
          (il_parser l)
          \<lparr>ds_method = ''investigation-lifecycle'',
           ds_note = ''case lifecycle step recorded by the investigation service'',
           ds_source_refs = [il_case l, il_actor l, ''step:'' @ show_nat (il_sequence l)],
           ds_tx = None, ds_source_events = []\<rparr> slot)"

section \<open>Freezes, policy rotations, sanctions, transfers\<close>

record FreezeTransition =
  fz_kind :: EventKind
  fz_token :: string
  fz_account :: string

definition FreezeTransition_new :: "EventKind \<Rightarrow> string \<Rightarrow> string \<Rightarrow> EventError + FreezeTransition" where
  "FreezeTransition_new kind token account =
     (if \<not> (kind = EventKind.AccountFrozen \<or> kind = AccountUnfrozen)
      then Inl (InvalidFieldValue ''kind''
                  (''`'' @ EventKind_as_str kind @ ''` is not a freeze-transition kind''))
      else Inr \<lparr>fz_kind = kind, fz_token = token, fz_account = account\<rparr>)"

definition freeze_event ::
  "('z) hash_ext_scheme \<Rightarrow> FreezeTransition \<Rightarrow> NetworkId \<Rightarrow> string \<Rightarrow> VersionLabel \<Rightarrow> TransactionContext
     \<Rightarrow> EventSlot \<Rightarrow> EventError + AuditEvent" where
  "freeze_event X f network source parser tx slot =
     and_then (invalid_field ''token'' (token_of network (fz_token f))) (\<lambda>token.
     and_then (invalid_field ''account'' (account_of network (fz_account f))) (\<lambda>account.
     map_ok (\<lambda>event. set_subject account (set_token token event))
       (observed_audit_event_base X (fz_kind f) network source parser tx slot)))"

record PolicyVersionChange =
  pv_network :: NetworkId
  pv_source :: string
  pv_parser :: VersionLabel
  pv_policy :: string
  pv_from_version :: "string option"
  pv_to_version :: string
  pv_digest :: "string option"

definition validate_digest :: "string \<Rightarrow> bool" where
  "validate_digest digest \<longleftrightarrow>
     length digest = 64 \<and> list_all (\<lambda>c. is_ascii_hexdigit c \<and> \<not> is_ascii_uppercase c) digest"

definition policy_version_event ::
  "('z) hash_ext_scheme \<Rightarrow> PolicyVersionChange \<Rightarrow> EventSlot \<Rightarrow> EventError + AuditEvent" where
  "policy_version_event X p slot =
     map_ok (\<lambda>event.
         set_detail_opt ''digest''
           (case pv_digest p of None \<Rightarrow> None | Some d \<Rightarrow> if validate_digest d then Some d else None)
         (set_detail ''to_version'' (pv_to_version p)
         (set_detail_opt ''from_version'' (pv_from_version p)
         (set_detail ''policy'' (pv_policy p) event))))
       (derived_audit_event_base X PolicyVersionChanged (pv_network p) (pv_source p) (pv_parser p)
          \<lparr>ds_method = ''policy-version-observed'',
           ds_note = ''policy version rotation observed and recorded for historical correlation'',
           ds_source_refs =
             [pv_policy p, case pv_from_version p of None \<Rightarrow> ''?'' | Some f \<Rightarrow> f, pv_to_version p],
           ds_tx = None, ds_source_events = []\<rparr> slot)"

record SanctionsFlag =
  sf_token :: "string option"
  sf_account :: string
  sf_rule :: string

definition sanctions_refs :: "SanctionsFlag \<Rightarrow> string list" where
  "sanctions_refs f =
     [''account:'' @ sf_account f, ''rule:'' @ sf_rule f]
     @ (case sf_token f of None \<Rightarrow> [] | Some token \<Rightarrow> [''token:'' @ token])"

definition sanctions_event ::
  "('z) hash_ext_scheme \<Rightarrow> SanctionsFlag \<Rightarrow> NetworkId \<Rightarrow> string \<Rightarrow> VersionLabel \<Rightarrow> TransactionContext option
     \<Rightarrow> EventSlot \<Rightarrow> EventError + AuditEvent" where
  "sanctions_event X f network source parser tx slot =
     and_then
       (derived_audit_event_base X TransferFlagged network source parser
          \<lparr>ds_method = ''sanctions-screening-result'',
           ds_note = ''sanctions screening flagged the account; recorded for investigation'',
           ds_source_refs = sanctions_refs f, ds_tx = tx, ds_source_events = []\<rparr> slot) (\<lambda>event.
     and_then (attach set_subject ''account'' (account_of network) (Some (sf_account f)) event) (\<lambda>event.
     attach set_token ''token'' (token_of network) (sf_token f)
       (set_detail ''rule'' (sf_rule f) (set_detail ''flag'' ''sanctions'' event))))"

record TransferOutcome =
  to_token :: string
  to_from :: "string option"
  to_to :: "string option"
  to_outcome :: DecisionResult
  to_reason :: "ReasonCode option"
  to_hook :: "EnforcementResultReference option"

fun TransferOutcome_kind :: "DecisionResult \<Rightarrow> EventKind" where
  "TransferOutcome_kind Allowed = TransferAuthorized"
| "TransferOutcome_kind DecisionResult.Denied = TransferDenied"
| "TransferOutcome_kind Flagged = TransferFlagged"

definition transfer_refs :: "TransferOutcome \<Rightarrow> string \<Rightarrow> OperationPosition \<Rightarrow> string list" where
  "transfer_refs t tx_hash operation =
     [''tx:'' @ tx_hash, ''op:'' @ show_nat operation, ''token:'' @ to_token t]
     @ (case to_from t of None \<Rightarrow> [] | Some from \<Rightarrow> [''from:'' @ from])
     @ (case to_to t of None \<Rightarrow> [] | Some to \<Rightarrow> [''to:'' @ to])
     @ [''outcome:'' @ DecisionResult_as_str (to_outcome t)]"

definition transfer_event ::
  "('z) hash_ext_scheme \<Rightarrow> TransferOutcome \<Rightarrow> NetworkId \<Rightarrow> string \<Rightarrow> VersionLabel \<Rightarrow> TransactionContext
     \<Rightarrow> OperationPosition \<Rightarrow> EventSlot \<Rightarrow> EventError + AuditEvent" where
  "transfer_event X t network source parser tx operation slot =
     (if to_token t = [] then Inl (MissingField ''token'')
      else
      and_then
        (derived_audit_event_base X (TransferOutcome_kind (to_outcome t)) network source parser
           \<lparr>ds_method = ''transaction-outcome-analysis'',
            ds_note = ''transfer outcome reconstructed from the recorded transaction and enforcement decision'',
            ds_source_refs = transfer_refs t (tc_hash tx) operation, ds_tx = Some tx,
            ds_source_events = []\<rparr> slot) (\<lambda>event.
      and_then
        (case ev_transaction event of
           None \<Rightarrow> Inl (MissingField ''transaction'') | Some r \<Rightarrow> Inr r) (\<lambda>tx_ref.
      and_then
        (invalid_field ''operation'' (operation_reference tx_ref operation (Some ''transfer''))) (\<lambda>op.
      and_then
        (attach set_token ''token'' (token_of network) (Some (to_token t))
           (event\<lparr>ev_outcome := Some (to_outcome t), ev_reason := to_reason t,
                  ev_enforcement := to_hook t, ev_operation := Some op\<rparr>)) (\<lambda>event.
      and_then (attach set_actor ''from'' (account_of network) (to_from t) event) (\<lambda>event.
      attach set_subject ''to'' (account_of network) (to_to t) event))))))"

section \<open>Well-formed projections\<close>

text \<open>
  The events a payload of this crate projects onto, on a network and for a transaction: one rule
  per payload type.
\<close>

inductive payload_event ::
  "('z) hash_ext_scheme \<Rightarrow> NetworkId \<Rightarrow> TransactionContext option \<Rightarrow> AuditEvent \<Rightarrow> bool" for X where
  "authorization_change_event X c slot = Inr e \<Longrightarrow> payload_event X (ac_network c) None e"
| "access_recorded_event X entry network source parser slot = Inr e \<Longrightarrow> payload_event X network None e"
| "evidence_generated_event X g slot = Inr e \<Longrightarrow> payload_event X (eg_network g) None e"
| "report_generated_event X rg slot = Inr e \<Longrightarrow> payload_event X (rg_network rg) None e"
| "record_corrected_event X rx slot = Inr e \<Longrightarrow> payload_event X (rx_network rx) None e"
| "config_changed_event X cc network source parser tx slot = Inr e
     \<Longrightarrow> payload_event X network (Some tx) e"
| "compliance_decision_event X cd network source parser otx slot = Inr e
     \<Longrightarrow> payload_event X network otx e"
| "evidence_lifecycle_event X el slot = Inr e \<Longrightarrow> payload_event X (el_network el) None e"
| "report_lifecycle_event X rl slot = Inr e \<Longrightarrow> payload_event X (rl_network rl) None e"
| "investigation_lifecycle_event X il slot = Inr e \<Longrightarrow> payload_event X (il_network il) None e"
| "freeze_event X fz network source parser tx slot = Inr e \<Longrightarrow> payload_event X network (Some tx) e"
| "policy_version_event X pv slot = Inr e \<Longrightarrow> payload_event X (pv_network pv) None e"
| "sanctions_event X sf network source parser otx slot = Inr e \<Longrightarrow> payload_event X network otx e"
| "transfer_event X t network source parser tx operation slot = Inr e
     \<Longrightarrow> payload_event X network (Some tx) e"

definition tx_on :: "NetworkId \<Rightarrow> TransactionContext option \<Rightarrow> bool" where
  "tx_on network tx \<longleftrightarrow> (case tx of None \<Rightarrow> True | Some t \<Rightarrow> tc_network t = network)"

text \<open>What every step of a projection keeps of the envelope.\<close>

definition envelope :: "NetworkId \<Rightarrow> TransactionContext option \<Rightarrow> AuditEvent \<Rightarrow> bool" where
  "envelope network tx e \<longleftrightarrow>
     ev_network e = network \<and> (event_wf e \<longleftrightarrow> tx_on network tx) \<and> bt_ok (ev_details e)
     \<and> from_checked EventIdT (ev_event_id e) = Inr (ev_event_id e)"

lemma envelope_set_detail: "envelope network tx e \<Longrightarrow> envelope network tx (set_detail k v e)"
  by (auto simp: envelope_def set_detail_def event_wf_def)

lemma envelope_set_detail_opt: "envelope network tx e \<Longrightarrow> envelope network tx (set_detail_opt k v e)"
  by (simp add: set_detail_opt_def envelope_set_detail split: option.split)

lemma set_detail_simps [simp]:
  "ev_event_id (set_detail k v e) = ev_event_id e" "ev_kind (set_detail k v e) = ev_kind e"
  "ev_network (set_detail k v e) = ev_network e" "ev_token (set_detail k v e) = ev_token e"
  "ev_actor (set_detail k v e) = ev_actor e" "ev_subject (set_detail k v e) = ev_subject e"
  "ev_details (set_detail k v e) = bt_insert k v (ev_details e)"
  by (simp_all add: set_detail_def)

lemma set_detail_opt_simps [simp]:
  "ev_event_id (set_detail_opt k v e) = ev_event_id e" "ev_kind (set_detail_opt k v e) = ev_kind e"
  by (simp_all add: set_detail_opt_def split: option.split)

lemma to_reference_network: "to_reference tx = Inr r \<Longrightarrow> txr_network r = tc_network tx"
  by (auto simp: to_reference_def map_ok_eq_Inr)

lemma ledger_reference_network: "ledger_reference tx = Inr (Some l) \<Longrightarrow> lr_network l = tc_network tx"
  by (auto simp: ledger_reference_def map_ok_eq_Inr LedgerReference_new_def
      split: option.splits if_splits)

lemma EventProvenance_new_Inr:
  "EventProvenance_new origin source parser = Inr p \<Longrightarrow> ep_origin p = origin \<and> ep_derivation p = None"
  by (auto simp: EventProvenance_new_def split: if_splits)

text \<open>The references a base envelope leaves unset.\<close>

definition bare :: "AuditEvent \<Rightarrow> bool" where
  "bare e \<longleftrightarrow> ev_token e = None \<and> ev_actor e = None \<and> ev_subject e = None \<and> ev_operation e = None"

lemma event_wf_base:
  assumes "ep_origin p = Derived \<longrightarrow> ep_derivation p \<noteq> None"
  shows "event_wf ((AuditEvent_new i kind network p)\<lparr>ev_transaction := t, ev_ledger := l,
           ev_observed_at := at, ev_order := order\<rparr>)
     \<longleftrightarrow> (\<forall>l'. l = Some l' \<longrightarrow> lr_network l' = network) \<and> (\<forall>t'. t = Some t' \<longrightarrow> txr_network t' = network)"
  using assms by (auto simp: event_wf_def AuditEvent_new_def)

lemma event_wf_new:
  "ep_origin p = Derived \<longrightarrow> ep_derivation p \<noteq> None \<Longrightarrow> event_wf (AuditEvent_new i kind network p)"
  by (simp add: event_wf_def AuditEvent_new_def)

lemma derived_base:
  assumes "derived_audit_event_base X kind network source parser d slot = Inr e"
  shows "envelope network (ds_tx d) e" "bare e" "ev_kind e = kind"
    "ev_event_id e = derived_event_id X network (ds_method d) (ds_source_refs d)"
proof -
  let ?i = "derived_event_id X network (ds_method d) (ds_source_refs d)"
  from assms obtain info p where p: "EventProvenance_new Derived source parser = Inr p"
    and e: "(case ds_tx d of
       None \<Rightarrow> Inr (AuditEvent_new ?i kind network (with_derivation p info))
     | Some tx \<Rightarrow>
         and_then (to_reference tx) (\<lambda>tx_ref.
         and_then (ledger_reference tx) (\<lambda>ledger.
         Inr ((AuditEvent_new ?i kind network (with_derivation p info))
                \<lparr>ev_transaction := Some tx_ref, ev_ledger := ledger,
                 ev_observed_at := tc_close_time tx, ev_order := tx_order tx slot\<rparr>)))) = Inr e"
    by (auto simp: derived_audit_event_base_def Let_def and_then_eq_Inr)
  have i: "from_checked EventIdT ?i = Inr ?i"
    by (simp add: derived_event_id_def derive_event_id_def id_derive_checked)
  have "envelope network (ds_tx d) e \<and> bare e \<and> ev_kind e = kind \<and> ev_event_id e = ?i"
  proof (cases "ds_tx d")
    case None
    with e i show ?thesis
      by (auto simp: envelope_def tx_on_def bare_def event_wf_new with_derivation_def)
         (simp_all add: AuditEvent_new_def)
  next
    case (Some tx)
    with e obtain r l where r: "to_reference tx = Inr r" and l: "ledger_reference tx = Inr l"
      and e: "e = (AuditEvent_new ?i kind network (with_derivation p info))
                \<lparr>ev_transaction := Some r, ev_ledger := l,
                 ev_observed_at := tc_close_time tx, ev_order := tx_order tx slot\<rparr>"
      by (auto simp: and_then_eq_Inr)
    have "event_wf e \<longleftrightarrow> tc_network tx = network"
      using to_reference_network [OF r] ledger_reference_network [of tx] l
      unfolding e by (subst event_wf_base) (auto simp: with_derivation_def)
    with i Some show ?thesis
      by (auto simp: envelope_def tx_on_def bare_def e AuditEvent_new_def)
  qed
  then show "envelope network (ds_tx d) e" "bare e" "ev_kind e = kind" "ev_event_id e = ?i"
    by blast+
qed

lemma observed_base:
  assumes "observed_audit_event_base X kind network source parser tx slot = Inr e"
  shows "envelope network (Some tx) e" "bare e" "ev_kind e = kind"
proof -
  from assms obtain r i l p where r: "to_reference tx = Inr r" and l: "ledger_reference tx = Inr l"
    and i: "onchain_event_id X network (Some (tc_hash tx)) (sl_operation slot) (sl_event slot) kind = Inr i"
    and p: "EventProvenance_new OnChain source parser = Inr p"
    and e: "e = (AuditEvent_new i kind network p)\<lparr>ev_transaction := Some r, ev_ledger := l,
             ev_observed_at := tc_close_time tx, ev_order := tx_order tx slot\<rparr>"
    by (auto simp: observed_audit_event_base_def and_then_eq_Inr)
  have "from_checked EventIdT i = Inr i"
    using i by (auto simp: onchain_event_id_def derive_event_id_def id_derive_checked)
  moreover have "event_wf e \<longleftrightarrow> tc_network tx = network"
    using to_reference_network [OF r] ledger_reference_network [of tx] l EventProvenance_new_Inr [OF p]
    unfolding e by (subst event_wf_base) auto
  ultimately show "envelope network (Some tx) e" "bare e" "ev_kind e = kind"
    by (auto simp: envelope_def tx_on_def bare_def e AuditEvent_new_def)
qed

text \<open>Attaching a reference built on the event's own network.\<close>

lemma event_wf_set_ref:
  "ev_token e = None \<Longrightarrow> event_wf (set_token t e) \<longleftrightarrow> event_wf e \<and> tok_network t = ev_network e"
  "ev_actor e = None \<Longrightarrow> event_wf (set_actor a e) \<longleftrightarrow> event_wf e \<and> acr_network a = ev_network e"
  "ev_subject e = None \<Longrightarrow> event_wf (set_subject a e) \<longleftrightarrow> event_wf e \<and> acr_network a = ev_network e"
  unfolding event_wf_def set_token_def set_actor_def set_subject_def by (simp_all, argo+)

lemma token_of_network: "token_of network raw = Inr t \<Longrightarrow> tok_network t = network"
  by (auto simp: token_of_def map_ok_eq_Inr for_contract_def)

lemma account_of_network: "account_of network raw = Inr a \<Longrightarrow> acr_network a = network"
  by (auto simp: account_of_def map_ok_eq_Inr)

lemma set_ref_simps [simp]:
  "ev_actor (set_token t e) = ev_actor e" "ev_subject (set_token t e) = ev_subject e"
  "ev_subject (set_actor a e) = ev_subject e" "ev_token (set_subject a e) = ev_token e"
  "ev_event_id (set_token t e) = ev_event_id e" "ev_event_id (set_actor a e) = ev_event_id e"
  "ev_event_id (set_subject a e) = ev_event_id e" "ev_network (set_token t e) = ev_network e"
  "ev_network (set_actor a e) = ev_network e" "ev_network (set_subject a e) = ev_network e"
  "ev_details (set_token t e) = ev_details e" "ev_details (set_actor a e) = ev_details e"
  "ev_details (set_subject a e) = ev_details e"
  by (simp_all add: set_token_def set_actor_def set_subject_def)

lemma envelope_set_token:
  "envelope network tx e \<Longrightarrow> ev_token e = None \<Longrightarrow> token_of network raw = Inr t
     \<Longrightarrow> envelope network tx (set_token t e)"
  by (simp add: envelope_def event_wf_set_ref token_of_network)

lemma envelope_set_actor:
  "envelope network tx e \<Longrightarrow> ev_actor e = None \<Longrightarrow> account_of network raw = Inr a
     \<Longrightarrow> envelope network tx (set_actor a e)"
  by (simp add: envelope_def event_wf_set_ref account_of_network)

lemma envelope_set_subject:
  "envelope network tx e \<Longrightarrow> ev_subject e = None \<Longrightarrow> account_of network raw = Inr a
     \<Longrightarrow> envelope network tx (set_subject a e)"
  by (simp add: envelope_def event_wf_set_ref account_of_network)

lemma attach_eq_Inr:
  "attach upd field parse raw e = Inr e' \<longleftrightarrow>
     (raw = None \<and> e' = e) \<or> (\<exists>s r. raw = Some s \<and> parse s = Inr r \<and> e' = upd r e)"
  by (auto simp: attach_def map_ok_eq_Inr split: option.splits)

lemma envelope_fields:
  "envelope network tx (e\<lparr>ev_outcome := out, ev_reason := reason\<rparr>) \<longleftrightarrow> envelope network tx e"
  "envelope network tx (e\<lparr>ev_enforcement := hook\<rparr>) \<longleftrightarrow> envelope network tx e"
  by (auto simp: envelope_def event_wf_def)

lemmas payload_defs = authorization_change_event_def access_recorded_event_def
  evidence_generated_event_def report_generated_event_def record_corrected_event_def
  evidence_lifecycle_event_def report_lifecycle_event_def investigation_lifecycle_event_def
  policy_version_event_def

lemma derived_base_envelope:
  assumes "derived_audit_event_base X kind network source parser
      \<lparr>ds_method = m, ds_note = n, ds_source_refs = refs, ds_tx = tx, ds_source_events = es\<rparr> slot = Inr e"
  shows "envelope network tx e \<and> bare e"
  using derived_base [OF assms] by simp

lemma observed_base_envelope:
  "observed_audit_event_base X kind network source parser tx slot = Inr e
     \<Longrightarrow> envelope network (Some tx) e \<and> bare e"
  by (simp add: observed_base)

lemma transfer_envelope:
  assumes "transfer_event X t network source parser tx operation slot = Inr e"
  shows "envelope network (Some tx) e"
proof -
  from assms obtain e0 tr op where base: "envelope network (Some tx) e0" "bare e0"
    and tr: "ev_transaction e0 = Some tr" and op: "operation_reference tr operation (Some ''transfer'') = Inr op"
    and e: "and_then
        (attach set_token ''token'' (token_of network) (Some (to_token t))
           (e0\<lparr>ev_outcome := Some (to_outcome t), ev_reason := to_reason t,
                  ev_enforcement := to_hook t, ev_operation := Some op\<rparr>)) (\<lambda>event.
      and_then (attach set_actor ''from'' (account_of network) (to_from t) event) (\<lambda>event.
      attach set_subject ''to'' (account_of network) (to_to t) event)) = Inr e"
    unfolding transfer_event_def
    by (fastforce simp: and_then_eq_Inr dest!: derived_base_envelope split: if_splits option.splits)
  let ?e1 = "e0\<lparr>ev_outcome := Some (to_outcome t), ev_reason := to_reason t,
                  ev_enforcement := to_hook t, ev_operation := Some op\<rparr>"
  have "opr_transaction op = tr"
    using op by (auto simp: operation_reference_def OperationReference_new_def split: if_splits)
  then have "envelope network (Some tx) ?e1"
    using base tr by (auto simp: envelope_def event_wf_def bare_def)
  moreover have "ev_token ?e1 = None" "ev_actor ?e1 = None" "ev_subject ?e1 = None"
    using base(2) by (simp_all add: bare_def)
  ultimately show ?thesis
    using e by (auto simp: and_then_eq_Inr attach_eq_Inr intro!: envelope_set_token envelope_set_actor
        envelope_set_subject)
qed

lemma compliance_decision_envelope:
  assumes "compliance_decision_event X c network source parser tx slot = Inr e"
  shows "envelope network tx e"
proof -
  from assms obtain e0 where base: "envelope network tx e0" "bare e0"
    and e: "and_then (attach set_token ''token'' (token_of network) (cd_token c)
          (e0\<lparr>ev_outcome := Some (cd_decision c), ev_reason := cd_reason c\<rparr>)) (\<lambda>event.
     attach set_subject ''account'' (account_of network) (cd_account c) event) = Inr e"
    by (auto simp: compliance_decision_event_def and_then_eq_Inr dest!: derived_base_envelope)
  then show ?thesis
    by (auto simp: and_then_eq_Inr attach_eq_Inr bare_def envelope_fields
        intro!: envelope_set_token envelope_set_subject)
qed

lemma sanctions_envelope:
  assumes "sanctions_event X f network source parser tx slot = Inr e"
  shows "envelope network tx e"
proof -
  from assms obtain e0 where base: "envelope network tx e0" "bare e0"
    and e: "and_then (attach set_subject ''account'' (account_of network) (Some (sf_account f)) e0) (\<lambda>event.
     attach set_token ''token'' (token_of network) (sf_token f)
       (set_detail ''rule'' (sf_rule f) (set_detail ''flag'' ''sanctions'' event))) = Inr e"
    by (auto simp: sanctions_event_def and_then_eq_Inr dest!: derived_base_envelope)
  then show ?thesis
    by (auto simp: and_then_eq_Inr attach_eq_Inr bare_def
        intro!: envelope_set_token envelope_set_subject envelope_set_detail)
qed

lemma freeze_envelope:
  "freeze_event X f network source parser tx slot = Inr e \<Longrightarrow> envelope network (Some tx) e"
  by (auto simp: freeze_event_def and_then_eq_Inr map_ok_eq_Inr bare_def dest!: observed_base_envelope
      intro!: envelope_set_token envelope_set_subject)

lemma config_changed_envelope:
  "config_changed_event X c network source parser tx slot = Inr e \<Longrightarrow> envelope network (Some tx) e"
  by (auto simp: config_changed_event_def and_then_eq_Inr attach_eq_Inr dest!: observed_base_envelope
      intro!: envelope_set_detail)

lemma payload_envelope: "payload_event X network tx e \<Longrightarrow> envelope network tx e"
  by (induction rule: payload_event.induct)
     (auto simp: payload_defs Let_def map_ok_eq_Inr
        intro: transfer_envelope compliance_decision_envelope sanctions_envelope freeze_envelope
          config_changed_envelope
        intro!: envelope_set_detail envelope_set_detail_opt dest!: derived_base_envelope)

text \<open>
  C29: every payload of the crate projects onto a valid envelope.  Whatever its fields, a projection
  that succeeds yields an event on the payload's network with a well-formed derived event id and
  ordered details, and \<open>AuditEvent::validate\<close> accepts it exactly when the transaction it was observed
  in, if any, is on that network.
\<close>

theorem payload_events_valid:
  assumes "payload_event X network tx e"
  shows "ev_network e = network \<and> bt_ok (ev_details e)
    \<and> from_checked EventIdT (ev_event_id e) = Inr (ev_event_id e)
    \<and> (AuditEvent_validate e = Inr () \<longleftrightarrow> tx_on network tx)"
  using payload_envelope [OF assms] by (simp add: envelope_def AuditEvent_validate_Inr)

text \<open>A projection and its hypotheses at work: a transfer observed on the test network.\<close>

definition sample_tx :: "NetworkId \<Rightarrow> string \<Rightarrow> TransactionContext" where
  "sample_tx network hash = \<lparr>tc_network = network, tc_hash = hash, tc_ledger_sequence = Some 7,
     tc_close_time = Some 100, tc_status = Succeeded\<rparr>"

definition sample_decision :: ComplianceDecision where
  "sample_decision = \<lparr>cd_token = Some ''CTOKEN'', cd_account = Some ''GALICE'',
     cd_decision = DecisionResult.Denied, cd_reason = None\<rparr>"

lemma sample_decision_event:
  "\<exists>e. compliance_decision_event X sample_decision ''testnet'' ''indexer'' ''1.0''
     (Some (sample_tx ''testnet'' [h])) EventSlot_default = Inr e"
  if "is_ascii_graphic h"
  using that
  by (simp add: compliance_decision_event_def derived_audit_event_base_def DerivationInfo_new_def
      EventProvenance_new_def sample_decision_def sample_tx_def to_reference_def ledger_reference_def
      invalid_field_def TransactionHash_new_def validate_ref_def LedgerReference_new_def attach_def
      token_of_def account_of_def ContractId_new_def AccountId_new_def REF_MAX_LEN_def
      ascii_defs byte_def)

theorem payload_events_valid_witness:
  "\<exists>e. compliance_decision_event sample_ext sample_decision ''testnet'' ''indexer'' ''1.0''
     (Some (sample_tx ''testnet'' ''a'')) EventSlot_default = Inr e
     \<and> AuditEvent_validate e = Inr () \<and> ev_network e = ''testnet''"
proof -
  obtain e where e: "compliance_decision_event sample_ext sample_decision ''testnet'' ''indexer'' ''1.0''
     (Some (sample_tx ''testnet'' ''a'')) EventSlot_default = Inr e"
    using sample_decision_event [of "CHR ''a''"] by (auto simp: ascii_defs byte_def)
  have "tx_on ''testnet'' (Some (sample_tx ''testnet'' ''a''))"
    by (simp add: tx_on_def sample_tx_def)
  with e payload_events_valid [OF payload_event.intros(7) [OF e]] show ?thesis
    by auto
qed

section \<open>Identities\<close>

text \<open>
  Two part lists collide when their encodings differ and the truncated digests of the encodings
  agree.  The encoding is that of \<open>serde_json\<close>, which is injective on string lists.
\<close>

definition id_collision :: "('z) hash_ext_scheme \<Rightarrow> string list \<Rightarrow> string list \<Rightarrow> bool" where
  "id_collision X p q \<longleftrightarrow>
     json_strings X p \<noteq> json_strings X q
     \<and> take BODY_HEX_LEN (sha256_hex X (json_strings X p))
       = take BODY_HEX_LEN (sha256_hex X (json_strings X q))"

lemma id_derive_eq:
  assumes "inj (json_strings X)"
  shows "id_derive X t p = id_derive X t q \<longleftrightarrow> p = q \<or> id_collision X p q"
proof -
  have "json_strings X p = json_strings X q \<longleftrightarrow> p = q"
    using assms by (auto dest: injD)
  then show ?thesis
    by (auto simp: id_derive_def derive_def derive_bytes_def id_collision_def)
qed

lemma show_nat_inject [simp]: "show_nat a = show_nat b \<longleftrightarrow> a = b"
  using parse_digits_show_nat by (metis option.inject)

lemma compliance_decision_id:
  "compliance_decision_event X c network source parser tx slot = Inr e
     \<Longrightarrow> ev_event_id e = derived_event_id X network ''observed-decision'' (compliance_decision_refs c)"
  by (auto simp: compliance_decision_event_def and_then_eq_Inr attach_eq_Inr dest!: derived_base(4))

lemma compliance_decision_refs_inject [simp]:
  "compliance_decision_refs c = compliance_decision_refs d \<longleftrightarrow> c = d"
proof
  assume eq: "compliance_decision_refs c = compliance_decision_refs d"
  have "DecisionResult_as_str a = DecisionResult_as_str b \<Longrightarrow> a = b" for a b
    by (cases a; cases b) simp_all
  with eq show "c = d"
    by (cases c; cases d) (auto simp: compliance_decision_refs_def split: option.splits)
qed simp

text \<open>
  What identifies a compliance decision.  Two recorded decisions get the same event id exactly
  when they are on one network and agree on token, account, decision and reason, up to a collision
  of the truncated SHA-256; the transaction, the slot, the source and the time play no part.
\<close>

lemma compliance_decision_identity:
  assumes "inj (json_strings X)"
    and "compliance_decision_event X c network source parser tx slot = Inr e"
    and "compliance_decision_event X d network' source' parser' tx' slot' = Inr f"
  shows "ev_event_id e = ev_event_id f \<longleftrightarrow>
     (network, c) = (network', d)
     \<or> id_collision X (network # ''derived:observed-decision'' # compliance_decision_refs c)
                      (network' # ''derived:observed-decision'' # compliance_decision_refs d)"
  using assms(2,3) [THEN compliance_decision_id]
  by (simp add: derived_event_id_def derive_event_id_def id_derive_eq [OF assms(1)])

text \<open>An injective encoder for the witnesses: a marker before every character and at every end.\<close>

fun encode_string :: "string \<Rightarrow> bytes" where
  "encode_string [] = [CHR 0x00]"
| "encode_string (c # s) = CHR 0x01 # c # encode_string s"

lemma encode_string_append: "encode_string s @ x = encode_string t @ y \<Longrightarrow> s = t \<and> x = y"
proof (induction s arbitrary: t)
  case Nil
  then show ?case by (cases t) auto
next
  case (Cons c s)
  then show ?case by (cases t) auto
qed

fun encode_strings :: "string list \<Rightarrow> bytes" where
  "encode_strings [] = []"
| "encode_strings (s # ss) = encode_string s @ encode_strings ss"

lemma inj_encode_strings: "inj encode_strings"
proof (rule injI)
  have nn: "encode_string s \<noteq> []" for s by (cases s) simp_all
  fix p q
  show "encode_strings p = encode_strings q \<Longrightarrow> p = q"
  proof (induction p arbitrary: q)
    case Nil
    then show ?case using nn by (cases q) auto
  next
    case (Cons s p)
    then obtain t q' where q: "q = t # q'" using nn by (cases q) auto
    with Cons.prems have "s = t \<and> encode_strings p = encode_strings q'"
      by (intro encode_string_append) simp
    with Cons.IH q show ?case by blast
  qed
qed

definition inj_ext :: integrity_ext where
  "inj_ext = sample_ext\<lparr>json_strings := encode_strings\<rparr>"

lemma sample_decision_events:
  "\<exists>e. compliance_decision_event X sample_decision ''testnet'' ''indexer'' ''1.0''
     (Some (sample_tx ''testnet'' ''a'')) EventSlot_default = Inr e"
  "\<exists>e. compliance_decision_event X sample_decision ''testnet'' ''indexer'' ''1.0''
     (Some (sample_tx ''testnet'' ''b'')) EventSlot_default = Inr e"
  by (rule sample_decision_event; simp add: ascii_defs byte_def)+

section \<open>Details and their classification\<close>

lemma map_of_fold_insert:
  assumes "bt_ok m" "distinct (map fst ds)"
  shows "map_of (fold (\<lambda>(k, c) m. if P k then bt_insert k c m else m) ds m) k
     = (if P k \<and> map_of ds k \<noteq> None then map_of ds k else map_of m k)"
    and "bt_ok (fold (\<lambda>(k, c) m. if P k then bt_insert k c m else m) ds m)"
  using assms
proof (induction ds arbitrary: m)
  case (Cons d ds)
  {
    case 1
    obtain a b where d: "d = (a, b)" by (cases d)
    with 1 have "map_of ds a = None" by (simp add: map_of_eq_None_iff)
    with 1 d show ?case
      using Cons.IH(1) [of m] Cons.IH(1) [of "bt_insert a b m"]
      by (cases "P a"; cases "map_of ds k") (auto simp: map_of_bt_insert)
  next
    case 2
    with Cons.IH(2) [of "if P (fst d) then bt_insert (fst d) (snd d) m else m"] show ?case
      by (cases d) auto
  }
qed simp_all

lemma distinct_declared: "distinct (map fst (declared k))"
  by (cases k) simp_all

lemma detail_policy_lookup:
  "map_of (detail_policy e) k =
     (if map_of (ev_details e) k \<noteq> None then map_of (declared (ev_kind e)) k else None)"
  using map_of_fold_insert(1) [of "[]" "declared (ev_kind e)" "\<lambda>k. map_of (ev_details e) k \<noteq> None" k,
      OF bt_ok_Nil distinct_declared]
  by (simp add: detail_policy_def)

lemma detail_policy_ok: "bt_ok (detail_policy e)"
  using map_of_fold_insert(2) [of "[]" "declared (ev_kind e)", OF bt_ok_Nil distinct_declared]
  by (simp add: detail_policy_def)

section \<open>Recording a derived event\<close>

text \<open>
  What the services rely on when they record an event of their own: one insertion into an event
  store.  A rejected record leaves the store alone, an accepted one is present afterwards, and a
  record of a known event changes nothing.
\<close>

locale event_sink =
  fixes st_insert :: "'s \<Rightarrow> AuditRecord \<Rightarrow> (StoreError + InsertOutcome) \<times> 's"
    and st_contains :: "'s \<Rightarrow> EventId \<Rightarrow> bool"
  assumes insert_rejected: "st_insert s r = (Inl e, s') \<Longrightarrow> s' = s"
    and insert_contains: "st_insert s r = (Inr out, s') \<Longrightarrow>
          st_contains s' ev \<longleftrightarrow> st_contains s ev \<or> ev = rc_event_id r"
    and insert_known: "record_wf r \<Longrightarrow> st_contains s (rc_event_id r) \<Longrightarrow>
          st_insert s r = (Inr Duplicate, s)"
    and insert_fresh: "record_wf r \<Longrightarrow> \<not> st_contains s (rc_event_id r) \<Longrightarrow>
          \<exists>s'. st_insert s r = (Inr Inserted, s')"
begin

lemma insert_accepts: "record_wf r \<Longrightarrow> \<exists>out s'. st_insert s r = (Inr out, s') \<and> st_contains s' (rc_event_id r)"
  using insert_known insert_fresh insert_contains by metis

lemma insert_twice:
  assumes "record_wf r" "record_wf r'" "rc_event_id r = rc_event_id r'"
  shows "st_insert (snd (st_insert s r)) r' = (Inr Duplicate, snd (st_insert s r))"
  using insert_accepts [OF assms(1), of s] insert_known [OF assms(2)] assms(3) by auto

lemma insert_monotone: "st_insert s r = (res, s') \<Longrightarrow> st_contains s ev \<Longrightarrow> st_contains s' ev"
  by (cases res) (auto dest: insert_rejected insert_contains)

end

interpretation mem_sink: event_sink mem_insert mem_contains_event
proof
  fix s s' :: MemoryEventStore and r e out ev
  show "mem_insert s r = (Inl e, s') \<Longrightarrow> s' = s"
    by (auto simp: mem_insert_def split: sum.splits if_splits)
  show "mem_insert s r = (Inr out, s') \<Longrightarrow> mem_contains_event s' ev = (mem_contains_event s ev \<or> ev = rc_event_id r)"
    by (auto simp: mem_insert_def mem_contains_event_def split: sum.splits if_splits)
  show "record_wf r \<Longrightarrow> mem_contains_event s (rc_event_id r) \<Longrightarrow> mem_insert s r = (Inr Duplicate, s)"
    by (auto simp: mem_insert_def mem_contains_event_def)
  show "record_wf r \<Longrightarrow> \<not> mem_contains_event s (rc_event_id r) \<Longrightarrow> \<exists>s'. mem_insert s r = (Inr Inserted, s')"
    by (auto simp: mem_insert_def mem_contains_event_def)
qed

lemma from_event_classified_wf:
  "from_event_classified X e cl now = Inr r \<Longrightarrow> ev_kind e \<noteq> EventKind.RecordCorrected
     \<Longrightarrow> record_wf r \<and> rc_event_id r = ev_event_id e \<and> rc_event r = e"
  by (auto simp: from_event_classified_def from_event_def record_wf_def rc_event_id_def split: sum.splits)

lemma from_event_wf:
  "from_event X e now = Inr r \<Longrightarrow> ev_kind e \<noteq> EventKind.RecordCorrected \<Longrightarrow> record_wf r \<and> rc_event_id r = ev_event_id e"
  by (auto simp: from_event_def record_wf_def rc_event_id_def split: sum.splits)


section \<open>The audit store of a service\<close>

text \<open>The methods of the \<open>EventStore\<close> trait the services call.\<close>

record 's AuditStore =
  as_insert :: "'s \<Rightarrow> AuditRecord \<Rightarrow> (StoreError + InsertOutcome) \<times> 's"
  as_get :: "'s \<Rightarrow> RecordId \<Rightarrow> StoreError + AuditRecord"
  as_query :: "'s \<Rightarrow> AuditQuery \<Rightarrow> PageRequest \<Rightarrow> (StoreError + AuditRecord Page) option"

definition mem_audit :: "MemoryEventStore AuditStore" where
  "mem_audit = \<lparr>as_insert = mem_insert, as_get = mem_get, as_query = mem_query\<rparr>"

text \<open>The clock readings of a service call: the authorizer's, the service's, the record's.\<close>

record clock_reads =
  at_authorize :: Timestamp
  at_now :: Timestamp
  at_record :: Timestamp

text \<open>The audit store of a service, as the sink of its own events.\<close>

locale audit_sink = event_sink "as_insert A" au_contains
  for A :: "'s AuditStore" and au_contains :: "'s \<Rightarrow> EventId \<Rightarrow> bool"
begin

lemma insert_with_policy:
  assumes "from_event_classified X e Confidential now = Inr r" "ev_kind e \<noteq> EventKind.RecordCorrected"
  shows "\<exists>out s'. as_insert A s (r\<lparr>rc_redactions := detail_policy (rc_event r)\<rparr>) = (Inr out, s')
    \<and> (\<forall>ev. au_contains s' ev \<longleftrightarrow> au_contains s ev \<or> ev = ev_event_id e)"
proof -
  let ?r = "r\<lparr>rc_redactions := detail_policy (rc_event r)\<rparr>"
  have wf: "record_wf ?r" "rc_event_id ?r = ev_event_id e"
    using from_event_classified_wf [OF assms] by (auto simp: record_wf_def rc_event_id_def)
  obtain out s' where "as_insert A s ?r = (Inr out, s')"
    using insert_accepts [OF wf(1), of s] by blast
  with wf(2) insert_contains [of s ?r out s'] show ?thesis by auto
qed

end

interpretation mem_audit: audit_sink mem_audit mem_contains_event
  by (simp add: audit_sink_def mem_audit_def mem_sink.event_sink_axioms)

end
