(* ===== verification/Audit_Authorization.thy ===== *)
theory Audit_Authorization
  imports Audit_Events
begin

text \<open>
  \<open>crates/authorization\<close>: the role matrix, permission sets, scope containment, credentials, the
  registry of grants, the authorizer and the access log.

  The clock is the \<open>now\<close> argument of the operations that read it.  The event store an access log
  writes to is the argument \<open>ins\<close>, its \<open>insert\<close> method.
\<close>

section \<open>Errors and roles\<close>

datatype AuthorizationError =
    UnknownAuditor string
  | InvalidCredential string
  | CredentialExpired string int
  | EmptyGrant string
  | InvalidScope string
  | UnloggableScope string
  | AccessLogFailure string
  | Internal string

fun AuthorizationError_to_string :: "AuthorizationError \<Rightarrow> string" where
  "AuthorizationError_to_string (UnknownAuditor a) = ''auditor '' @ a @ '' has no grants registered''"
| "AuthorizationError_to_string (InvalidCredential a) = ''credential for auditor '' @ a @ '' is not valid''"
| "AuthorizationError_to_string (CredentialExpired a t) =
     ''credential for auditor '' @ a @ '' expired at '' @ show_int t"
| "AuthorizationError_to_string (EmptyGrant a) = ''grant for auditor '' @ a @ '' has no scopes''"
| "AuthorizationError_to_string (InvalidScope d) = ''invalid scope: '' @ d"
| "AuthorizationError_to_string (UnloggableScope d) = ''scope label rejected: '' @ d"
| "AuthorizationError_to_string (AccessLogFailure d) = ''access entry could not be recorded: '' @ d"
| "AuthorizationError_to_string (AuthorizationError.Internal d) = ''internal authorization error: '' @ d"

fun actions_for_role :: "AuditorRole \<Rightarrow> AccessAction list" where
  "actions_for_role ReadOnlyReviewer =
     [ReadRecord, Query, InspectTransaction, InspectPolicy, VerifyIntegrity]"
| "actions_for_role Auditor =
     [ReadRecord, Query, InspectTransaction, InspectPolicy, InspectDenied, ViewInvestigation,
      VerifyIntegrity]"
| "actions_for_role SeniorAuditor =
     [ReadRecord, Query, InspectTransaction, InspectPolicy, InspectDenied, ViewInvestigation,
      GenerateEvidence, GenerateReport, ExportRecords, VerifyIntegrity]"
| "actions_for_role Investigator =
     [ReadRecord, Query, InspectTransaction, InspectPolicy, InspectDenied, CreateInvestigation,
      ViewInvestigation, GenerateEvidence, VerifyIntegrity]"
| "actions_for_role ComplianceOfficer =
     [ReadRecord, Query, InspectTransaction, InspectPolicy, InspectDenied, ViewInvestigation,
      GenerateEvidence, GenerateReport, ExportRecords, RequestProtectedData, VerifyIntegrity]"
| "actions_for_role Administrator =
     [ReadRecord, Query, InspectTransaction, InspectPolicy, InspectDenied, CreateInvestigation,
      ViewInvestigation, GenerateEvidence, GenerateReport, ExportRecords, RequestProtectedData,
      VerifyIntegrity]"

definition role_allows :: "AuditorRole \<Rightarrow> AccessAction \<Rightarrow> bool" where
  "role_allows role action \<longleftrightarrow> action \<in> set (actions_for_role role)"

section \<open>Permission sets\<close>

record PermissionSet =
  ps_role :: AuditorRole
  ps_additions :: "AccessAction list"
  ps_removals :: "AccessAction list"

definition from_role :: "AuditorRole \<Rightarrow> PermissionSet" where
  "from_role role = \<lparr>ps_role = role, ps_additions = [], ps_removals = []\<rparr>"

definition permission_allow :: "PermissionSet \<Rightarrow> AccessAction \<Rightarrow> PermissionSet" where
  "permission_allow p action =
     (let p1 = p\<lparr>ps_removals := filter (\<lambda>a. a \<noteq> action) (ps_removals p)\<rparr>
      in if action \<notin> set (ps_additions p1) then p1\<lparr>ps_additions := ps_additions p1 @ [action]\<rparr> else p1)"

definition permission_deny :: "PermissionSet \<Rightarrow> AccessAction \<Rightarrow> PermissionSet" where
  "permission_deny p action =
     (let p1 = p\<lparr>ps_additions := filter (\<lambda>a. a \<noteq> action) (ps_additions p)\<rparr>
      in if role_allows (ps_role p1) action \<and> action \<notin> set (ps_removals p1)
         then p1\<lparr>ps_removals := ps_removals p1 @ [action]\<rparr> else p1)"

definition permission_allows :: "PermissionSet \<Rightarrow> AccessAction \<Rightarrow> bool" where
  "permission_allows p action \<longleftrightarrow>
     (if action \<in> set (ps_removals p) then False
      else action \<in> set (ps_additions p) \<or> action \<in> set (actions_for_role (ps_role p)))"

definition effective :: "PermissionSet \<Rightarrow> AccessAction list" where
  "effective p =
     sort_key AccessAction_as_str
       (fold (\<lambda>action acc. filter (\<lambda>a. a \<noteq> action) acc) (ps_removals p)
         (fold (\<lambda>action acc. if action \<notin> set acc then acc @ [action] else acc) (ps_additions p)
           (actions_for_role (ps_role p))))"

datatype PermissionReason = GrantedByRole | GrantedByOverride | ExplicitlyDenied | NotGranted

definition explain :: "PermissionSet \<Rightarrow> AccessAction \<Rightarrow> PermissionReason" where
  "explain p action =
     (if action \<in> set (ps_removals p) then ExplicitlyDenied
      else if action \<in> set (ps_additions p) then GrantedByOverride
      else if role_allows (ps_role p) action then GrantedByRole
      else NotGranted)"

text \<open>The derived \<open>Debug\<close> of an action: its variant name.\<close>

fun AccessAction_debug :: "AccessAction \<Rightarrow> string" where
  "AccessAction_debug ReadRecord = ''ReadRecord''"
| "AccessAction_debug Query = ''Query''"
| "AccessAction_debug InspectTransaction = ''InspectTransaction''"
| "AccessAction_debug InspectPolicy = ''InspectPolicy''"
| "AccessAction_debug InspectDenied = ''InspectDenied''"
| "AccessAction_debug CreateInvestigation = ''CreateInvestigation''"
| "AccessAction_debug ViewInvestigation = ''ViewInvestigation''"
| "AccessAction_debug GenerateEvidence = ''GenerateEvidence''"
| "AccessAction_debug GenerateReport = ''GenerateReport''"
| "AccessAction_debug ExportRecords = ''ExportRecords''"
| "AccessAction_debug RequestProtectedData = ''RequestProtectedData''"
| "AccessAction_debug VerifyIntegrity = ''VerifyIntegrity''"

definition permission_validate :: "PermissionSet \<Rightarrow> AuthorizationError + unit" where
  "permission_validate p =
     (case find (role_allows (ps_role p)) (ps_additions p) of
        Some action \<Rightarrow>
          Inl (AuthorizationError.Internal (''action '' @ AccessAction_debug action
                 @ '' is already granted by role '' @ AuditorRole_as_str (ps_role p)))
      | None \<Rightarrow>
          (case find (\<lambda>a. \<not> role_allows (ps_role p) a) (ps_removals p) of
             Some action \<Rightarrow>
               Inl (AuthorizationError.Internal (''action '' @ AccessAction_debug action
                      @ '' is not granted by role '' @ AuditorRole_as_str (ps_role p)
                      @ '' and cannot be removed''))
           | None \<Rightarrow> Inr ()))"

section \<open>Scopes\<close>

definition range_contains :: "TimeRange \<Rightarrow> TimeRange \<Rightarrow> bool" where
  "range_contains granted requested \<longleftrightarrow>
     (case (tr_start granted, tr_start requested) of
        (Some g, Some r) \<Rightarrow> g \<le> r
      | (None, _) \<Rightarrow> True
      | (Some _, None) \<Rightarrow> False)
     \<and> (case (tr_end granted, tr_end requested) of
        (Some g, Some r) \<Rightarrow> g \<ge> r
      | (None, _) \<Rightarrow> True
      | (Some _, None) \<Rightarrow> False)"

definition classification_covers :: "DataClassification \<Rightarrow> DataClassification \<Rightarrow> bool" where
  "classification_covers granted requested \<longleftrightarrow> granted \<ge> requested"

fun scope_contains :: "AccessScope \<Rightarrow> AccessScope \<Rightarrow> bool" where
  "scope_contains All requested = True"
| "scope_contains (Network n) requested = (case requested of Network r \<Rightarrow> r = n | _ \<Rightarrow> False)"
| "scope_contains (Token t) requested = (case requested of Token r \<Rightarrow> r = t | _ \<Rightarrow> False)"
| "scope_contains (Contract c) requested = (case requested of Contract r \<Rightarrow> r = c | _ \<Rightarrow> False)"
| "scope_contains (AccountClass c) requested = (case requested of AccountClass r \<Rightarrow> r = c | _ \<Rightarrow> False)"
| "scope_contains (Investigation c) requested = (case requested of Investigation r \<Rightarrow> r = c | _ \<Rightarrow> False)"
| "scope_contains (TimeRange grant) requested =
     (case requested of TimeRange req \<Rightarrow> range_contains grant req | _ \<Rightarrow> False)"
| "scope_contains (EventKind k) requested = (case requested of EventKind r \<Rightarrow> r = k | _ \<Rightarrow> False)"
| "scope_contains (Classification c) requested =
     (case requested of Classification r \<Rightarrow> classification_covers c r | _ \<Rightarrow> False)"

definition any_contains :: "AccessScope list \<Rightarrow> AccessScope \<Rightarrow> bool" where
  "any_contains granted requested \<longleftrightarrow> list_ex (\<lambda>s. scope_contains s requested) granted"

definition scope_for_classification :: "DataClassification \<Rightarrow> AccessScope" where
  "scope_for_classification classification = Classification classification"

definition covers_classification :: "AccessScope list \<Rightarrow> DataClassification \<Rightarrow> bool" where
  "covers_classification granted classification \<longleftrightarrow>
     any_contains granted (scope_for_classification classification)"

section \<open>Credentials\<close>

record Credential =
  cr_auditor :: AuditorId
  cr_material :: string
  cr_expires_at :: Timestamp
  cr_revoked :: bool

definition Credential_new :: "AuditorId \<Rightarrow> string \<Rightarrow> Timestamp \<Rightarrow> Credential" where
  "Credential_new auditor material expires_at =
     \<lparr>cr_auditor = auditor, cr_material = material, cr_expires_at = expires_at, cr_revoked = False\<rparr>"

definition Credential_revoke :: "Credential \<Rightarrow> Credential" where
  "Credential_revoke c = c\<lparr>cr_revoked := True\<rparr>"

definition Credential_reference :: "('z) hash_ext_scheme \<Rightarrow> Credential \<Rightarrow> string" where
  "Credential_reference X c = sha256_hex X (cr_material c)"

definition expired_at :: "Credential \<Rightarrow> Timestamp \<Rightarrow> bool" where
  "expired_at c now \<longleftrightarrow> is_at_or_after now (cr_expires_at c)"

definition is_valid_at :: "Credential \<Rightarrow> Timestamp \<Rightarrow> bool" where
  "is_valid_at c now \<longleftrightarrow> \<not> cr_revoked c \<and> \<not> expired_at c now"

definition Credential_verify :: "Credential \<Rightarrow> AuditorId \<Rightarrow> Timestamp \<Rightarrow> AuthorizationError + unit" where
  "Credential_verify c claiming now =
     (if cr_auditor c \<noteq> claiming then Inl (InvalidCredential (cr_auditor c))
      else if cr_revoked c then Inl (InvalidCredential (cr_auditor c))
      else if expired_at c now then Inl (CredentialExpired (cr_auditor c) (cr_expires_at c))
      else Inr ())"

datatype CredentialStatus = Valid | Absent | Mismatch | Revoked | Expired

section \<open>Registry\<close>

record Grant =
  gr_auditor :: AuditorId
  gr_role :: AuditorRole
  gr_scopes :: "AccessScope list"
  gr_credential :: "Credential option"

definition Grant_new :: "AuditorId \<Rightarrow> AuditorRole \<Rightarrow> Grant" where
  "Grant_new auditor role = \<lparr>gr_auditor = auditor, gr_role = role, gr_scopes = [], gr_credential = None\<rparr>"

definition with_scope :: "Grant \<Rightarrow> AccessScope \<Rightarrow> Grant" where
  "with_scope g scope =
     (if scope \<notin> set (gr_scopes g) then g\<lparr>gr_scopes := gr_scopes g @ [scope]\<rparr> else g)"

definition with_credential :: "Grant \<Rightarrow> Credential \<Rightarrow> Grant" where
  "with_credential g c = g\<lparr>gr_credential := Some c\<rparr>"

definition permissions :: "Grant \<Rightarrow> PermissionSet" where
  "permissions g = from_role (gr_role g)"

type_synonym Registry = "(AuditorId \<times> Grant) list"

definition Registry_new :: Registry where
  "Registry_new = []"

definition Registry_register :: "Registry \<Rightarrow> Grant \<Rightarrow> (AuthorizationError + unit) \<times> Registry" where
  "Registry_register reg grant =
     (if gr_scopes grant = [] then (Inl (EmptyGrant (gr_auditor grant)), reg)
      else case permission_validate (permissions grant) of
             Inl e \<Rightarrow> (Inl e, reg)
           | Inr _ \<Rightarrow> (Inr (), bt_insert (gr_auditor grant) grant reg))"

definition Registry_revoke :: "Registry \<Rightarrow> AuditorId \<Rightarrow> bool \<times> Registry" where
  "Registry_revoke reg auditor =
     (map_of reg auditor \<noteq> None, filter (\<lambda>(k, _). k \<noteq> auditor) reg)"

definition Registry_grant :: "Registry \<Rightarrow> AuditorId \<Rightarrow> AuthorizationError + Grant" where
  "Registry_grant reg auditor =
     (case map_of reg auditor of Some g \<Rightarrow> Inr g | None \<Rightarrow> Inl (UnknownAuditor auditor))"

text \<open>\<open>grant_mut\<close> hands out a mutable grant; \<open>f\<close> is what the caller does to it.\<close>

definition Registry_grant_mut ::
  "Registry \<Rightarrow> AuditorId \<Rightarrow> (Grant \<Rightarrow> Grant) \<Rightarrow> (AuthorizationError + unit) \<times> Registry" where
  "Registry_grant_mut reg auditor f =
     (case map_of reg auditor of
        Some g \<Rightarrow> (Inr (), map (\<lambda>(k, v). (k, if k = auditor then f v else v)) reg)
      | None \<Rightarrow> (Inl (UnknownAuditor auditor), reg))"

definition Registry_contains :: "Registry \<Rightarrow> AuditorId \<Rightarrow> bool" where
  "Registry_contains reg auditor \<longleftrightarrow> map_of reg auditor \<noteq> None"

definition Registry_len :: "Registry \<Rightarrow> nat" where
  "Registry_len reg = length reg"

section \<open>The authorizer\<close>

definition GRANTED :: string where "GRANTED = ''GRANTED''"
definition CREDENTIAL_INVALID :: string where "CREDENTIAL_INVALID = ''CREDENTIAL_INVALID''"
definition CREDENTIAL_EXPIRED :: string where "CREDENTIAL_EXPIRED = ''CREDENTIAL_EXPIRED''"
definition ACTION_DENIED :: string where "ACTION_DENIED = ''ACTION_DENIED''"
definition SCOPE_OUT_OF_BOUNDS :: string where "SCOPE_OUT_OF_BOUNDS = ''SCOPE_OUT_OF_BOUNDS''"
definition UNKNOWN_AUDITOR :: string where "UNKNOWN_AUDITOR = ''UNKNOWN_AUDITOR''"

lemmas reason_defs = GRANTED_def CREDENTIAL_INVALID_def CREDENTIAL_EXPIRED_def ACTION_DENIED_def
  SCOPE_OUT_OF_BOUNDS_def UNKNOWN_AUDITOR_def

record CredentialCheck =
  ck_present :: bool
  ck_status :: CredentialStatus

definition decision ::
  "bool \<Rightarrow> AccessAction \<Rightarrow> string \<Rightarrow> AuditorId option \<Rightarrow> Timestamp \<Rightarrow> string \<Rightarrow> AuthorizationDecision" where
  "decision allowed action scope decided_by decided_at reason =
     with_reason (AuthorizationDecision_new allowed action scope decided_by decided_at) reason"

definition credential_check :: "Grant \<Rightarrow> AuditorId \<Rightarrow> Timestamp \<Rightarrow> CredentialCheck" where
  "credential_check grant auditor now =
     (case gr_credential grant of
        Some cred \<Rightarrow>
          \<lparr>ck_present = True,
           ck_status = (case Credential_verify cred auditor now of
                          Inr _ \<Rightarrow> Valid
                        | Inl (CredentialExpired _ _) \<Rightarrow> Expired
                        | Inl _ \<Rightarrow> Mismatch)\<rparr>
      | None \<Rightarrow> \<lparr>ck_present = False, ck_status = Absent\<rparr>)"

definition authorize ::
  "Registry \<Rightarrow> Timestamp \<Rightarrow> AuditorId \<Rightarrow> AccessAction \<Rightarrow> AccessScope
     \<Rightarrow> AuthorizationError + AuthorizationDecision" where
  "authorize registry now auditor action requested_scope =
     (let scope_label = describe requested_scope in
      case Registry_grant registry auditor of
        Inl (UnknownAuditor _) \<Rightarrow>
          Inr (decision False action scope_label (Some auditor) now UNKNOWN_AUDITOR)
      | Inl e \<Rightarrow> Inl e
      | Inr grant \<Rightarrow>
          let check = credential_check grant auditor now in
          if ck_status check \<noteq> Valid
          then let reason = (case ck_status check of
                               Expired \<Rightarrow> CREDENTIAL_EXPIRED
                             | _ \<Rightarrow> CREDENTIAL_INVALID)
               in Inr (decision False action scope_label (Some auditor) now reason)
          else if \<not> permission_allows (permissions grant) action
          then Inr (decision False action scope_label (Some auditor) now ACTION_DENIED)
          else if \<not> any_contains (gr_scopes grant) requested_scope
          then Inr (decision False action scope_label (Some auditor) now SCOPE_OUT_OF_BOUNDS)
          else Inr (decision True action scope_label (Some auditor) now GRANTED))"

definition credential_status ::
  "Registry \<Rightarrow> Timestamp \<Rightarrow> AuditorId \<Rightarrow> AuthorizationError + CredentialCheck" where
  "credential_status registry now auditor =
     map_ok (\<lambda>grant. credential_check grant auditor now) (Registry_grant registry auditor)"

definition entry_for_decision ::
  "('z) hash_ext_scheme \<Rightarrow> AuthorizationDecision \<Rightarrow> string option \<Rightarrow> AuthorizationError + AuditAccessEntry" where
  "entry_for_decision X d target =
     (case ad_decided_by d of
        None \<Rightarrow> Inl (AuthorizationError.Internal ''decision lacks attribution'')
      | Some auditor \<Rightarrow>
          let entry_id = id_derive X AccessEntryIdT
                [auditor, AccessAction_as_str (ad_action d), ad_scope d, show_int (ad_decided_at d)];
              result = (if ad_allowed d then AccessResult.Granted
                        else if ad_reason d = Some SCOPE_OUT_OF_BOUNDS then OutOfScope
                        else AccessResult.Denied)
          in Inr (AuditAccessEntry_new entry_id auditor (ad_action d) (ad_scope d) target result
                    (ad_decided_at d)))"

section \<open>The access log\<close>

record StoreAccessLog =
  sal_network :: NetworkId
  sal_source :: string
  sal_parser :: VersionLabel

definition record_into ::
  "('z) event_ext_scheme \<Rightarrow> ('s \<Rightarrow> AuditRecord \<Rightarrow> (StoreError + InsertOutcome) \<times> 's)
     \<Rightarrow> StoreAccessLog \<Rightarrow> Timestamp \<Rightarrow> AuditAccessEntry \<Rightarrow> 's \<Rightarrow> (AuthorizationError + unit) \<times> 's" where
  "record_into X ins log now entry store =
     (case access_recorded_event X entry (sal_network log) (sal_source log) (sal_parser log)
             EventSlot_default of
        Inl e \<Rightarrow> (Inl (AccessLogFailure (EventError_to_string e)), store)
      | Inr event \<Rightarrow>
          (case from_event_classified X event Confidential now of
             Inl e \<Rightarrow> (Inl (AccessLogFailure (AuditError_to_string e)), store)
           | Inr r \<Rightarrow>
               (case ins store r of
                  (Inr _, store') \<Rightarrow> (Inr (), store')
                | (Inl e, store') \<Rightarrow> (Inl (AccessLogFailure (StoreError_to_string e)), store'))))"

text \<open>The two implementations of the \<open>AccessLog\<close> trait, as functions of the log's state.\<close>

definition AccessLogWithStore_record ::
  "('z) event_ext_scheme \<Rightarrow> ('s \<Rightarrow> AuditRecord \<Rightarrow> (StoreError + InsertOutcome) \<times> 's)
     \<Rightarrow> StoreAccessLog \<Rightarrow> Timestamp \<Rightarrow> AuditAccessEntry \<Rightarrow> 's \<Rightarrow> (AuthorizationError + unit) \<times> 's" where
  "AccessLogWithStore_record X ins log now entry store = record_into X ins log now entry store"

definition NoopAccessLog_record :: "AuditAccessEntry \<Rightarrow> 's \<Rightarrow> (AuthorizationError + unit) \<times> 's" where
  "NoopAccessLog_record entry s = (Inr (), s)"

section \<open>Permission sets are consistent\<close>

lemma fold_add_new:
  "set (fold (\<lambda>x acc. if x \<notin> set acc then acc @ [x] else acc) xs acc) = set acc \<union> set xs"
  "distinct acc \<Longrightarrow> distinct (fold (\<lambda>x acc. if x \<notin> set acc then acc @ [x] else acc) xs acc)"
  by (induction xs arbitrary: acc) auto

lemma fold_remove:
  "fold (\<lambda>x acc. filter (\<lambda>a. a \<noteq> x) acc) xs acc = filter (\<lambda>a. a \<notin> set xs) acc"
  by (induction xs arbitrary: acc) (auto intro: filter_cong)

lemma distinct_actions_for_role: "distinct (actions_for_role role)"
  by (cases role) simp_all

lemma effective_iff_allows: "a \<in> set (effective p) \<longleftrightarrow> permission_allows p a"
  by (auto simp: effective_def fold_add_new fold_remove permission_allows_def)

lemma effective_sorted: "sorted (map AccessAction_as_str (effective p))" "distinct (effective p)"
  by (simp_all add: effective_def fold_remove fold_add_new distinct_actions_for_role)

lemma explain_iff_allows:
  "permission_allows p a \<longleftrightarrow> explain p a = GrantedByRole \<or> explain p a = GrantedByOverride"
  by (simp add: permission_allows_def explain_def role_allows_def)

text \<open>The sets that can be built: a role's baseline and any overrides after it.\<close>

inductive built_permissions :: "PermissionSet \<Rightarrow> bool" where
  base: "built_permissions (from_role role)"
| allow: "built_permissions p \<Longrightarrow> built_permissions (permission_allow p a)"
| deny: "built_permissions p \<Longrightarrow> built_permissions (permission_deny p a)"

definition permissions_inv :: "PermissionSet \<Rightarrow> bool" where
  "permissions_inv p \<longleftrightarrow>
     distinct (ps_additions p) \<and> distinct (ps_removals p)
     \<and> set (ps_additions p) \<inter> set (ps_removals p) = {}
     \<and> set (ps_removals p) \<subseteq> set (actions_for_role (ps_role p))"

lemma built_permissions_inv: "built_permissions p \<Longrightarrow> permissions_inv p"
  by (induction rule: built_permissions.induct)
     (auto simp: permissions_inv_def from_role_def permission_allow_def permission_deny_def
        role_allows_def Let_def)

text \<open>
  Permission sets mean what their operations say.  For every set built from a role by allowing
  and denying actions, allowing adds exactly one action and denying removes exactly one, the listed
  effective actions are the allowed ones, once each in label order, an explanation names a grant
  exactly for them, and overrides never contradict each other or remove what the role does not
  grant.
\<close>

lemma permission_sets_consistent:
  assumes "built_permissions p"
  shows "permissions_inv p
    \<and> (permission_allows (permission_allow p a) b \<longleftrightarrow> b = a \<or> permission_allows p b)
    \<and> (permission_allows (permission_deny p a) b \<longleftrightarrow> b \<noteq> a \<and> permission_allows p b)
    \<and> (b \<in> set (effective p) \<longleftrightarrow> permission_allows p b)
    \<and> distinct (effective p) \<and> sorted (map AccessAction_as_str (effective p))
    \<and> (permission_allows p b \<longleftrightarrow> explain p b \<in> {GrantedByRole, GrantedByOverride})"
proof (intro conjI)
  have inv: "permissions_inv p" by (rule built_permissions_inv [OF assms])
  then show "permissions_inv p" .
  show "permission_allows (permission_allow p a) b \<longleftrightarrow> b = a \<or> permission_allows p b"
    by (auto simp: permission_allows_def permission_allow_def Let_def)
  show "permission_allows (permission_deny p a) b \<longleftrightarrow> b \<noteq> a \<and> permission_allows p b"
    using inv by (auto simp: permission_allows_def permission_deny_def role_allows_def permissions_inv_def Let_def)
  show "b \<in> set (effective p) \<longleftrightarrow> permission_allows p b" by (rule effective_iff_allows)
  show "distinct (effective p)" "sorted (map AccessAction_as_str (effective p))"
    by (rule effective_sorted)+
  show "permission_allows p b \<longleftrightarrow> explain p b \<in> {GrantedByRole, GrantedByOverride}"
    by (simp add: explain_iff_allows)
qed

section \<open>Scope containment\<close>

text \<open>One end of a range: a bound that covers every instant of the request covers its bound.\<close>

lemma range_contains_start:
  assumes ordered: "\<And>a b. rs = Some a \<Longrightarrow> re = Some b \<Longrightarrow> a \<le> b"
    and sub: "\<And>t. TimeRange_contains \<lparr>tr_start = rs, tr_end = re\<rparr> t \<Longrightarrow> (a :: int) \<le> t"
  shows "\<exists>b. rs = Some b \<and> a \<le> b"
proof (cases rs)
  case None
  define t where "t = min (a - 1) (case re of None \<Rightarrow> a | Some b \<Rightarrow> b)"
  have "TimeRange_contains \<lparr>tr_start = rs, tr_end = re\<rparr> t"
    by (auto simp: TimeRange_contains_def None t_def split: option.split)
  from sub [OF this] show ?thesis by (simp add: t_def)
next
  case (Some b)
  then have "TimeRange_contains \<lparr>tr_start = rs, tr_end = re\<rparr> b"
    using ordered by (auto simp: TimeRange_contains_def split: option.split)
  from sub [OF this] Some show ?thesis by blast
qed

lemma range_contains_end:
  assumes ordered: "\<And>a b. rs = Some a \<Longrightarrow> re = Some b \<Longrightarrow> a \<le> b"
    and sub: "\<And>t. TimeRange_contains \<lparr>tr_start = rs, tr_end = re\<rparr> t \<Longrightarrow> t \<le> (a :: int)"
  shows "\<exists>b. re = Some b \<and> b \<le> a"
proof (cases re)
  case None
  define t where "t = max (a + 1) (case rs of None \<Rightarrow> a | Some b \<Rightarrow> b)"
  have "TimeRange_contains \<lparr>tr_start = rs, tr_end = re\<rparr> t"
    by (auto simp: TimeRange_contains_def None t_def split: option.split)
  from sub [OF this] show ?thesis by (simp add: t_def)
next
  case (Some b)
  then have "TimeRange_contains \<lparr>tr_start = rs, tr_end = re\<rparr> b"
    using ordered by (auto simp: TimeRange_contains_def split: option.split)
  from sub [OF this] Some show ?thesis by blast
qed

lemma range_contains_iff:
  assumes ordered: "\<And>a b. tr_start r = Some a \<Longrightarrow> tr_end r = Some b \<Longrightarrow> a \<le> b"
  shows "range_contains g r \<longleftrightarrow> (\<forall>t. TimeRange_contains r t \<longrightarrow> TimeRange_contains g t)"
proof
  assume "range_contains g r"
  then show "\<forall>t. TimeRange_contains r t \<longrightarrow> TimeRange_contains g t"
    by (auto simp: range_contains_def TimeRange_contains_def split: option.splits)
next
  assume sub: "\<forall>t. TimeRange_contains r t \<longrightarrow> TimeRange_contains g t"
  obtain rs re where r: "r = \<lparr>tr_start = rs, tr_end = re\<rparr>" by (cases r) auto
  have "\<exists>b. rs = Some b \<and> a \<le> b" if "tr_start g = Some a" for a
    using ordered sub that
    by (intro range_contains_start [of rs re]) (auto simp: r TimeRange_contains_def)
  moreover have "\<exists>b. re = Some b \<and> b \<le> a" if "tr_end g = Some a" for a
    using ordered sub that
    by (intro range_contains_end [of rs re]) (auto simp: r TimeRange_contains_def)
  ultimately show "range_contains g r"
    by (auto simp: range_contains_def r split: option.splits)
qed

lemma range_contains_refl: "range_contains r r"
  by (simp add: range_contains_def split: option.splits)

lemma range_contains_trans: "range_contains a b \<Longrightarrow> range_contains b c \<Longrightarrow> range_contains a c"
  by (auto simp: range_contains_def split: option.splits)

lemma scope_contains_refl: "scope_contains s s"
  by (cases s) (simp_all add: range_contains_refl classification_covers_def)

lemma scope_contains_trans:
  assumes "scope_contains a b" "scope_contains b c"
  shows "scope_contains a c"
  using assms
  by (cases a; cases b) (auto simp: classification_covers_def split: AccessScope.splits intro: range_contains_trans)

text \<open>
  Scope containment is a sound preorder.  Every scope contains itself, containment composes,
  only \<open>all\<close> contains \<open>all\<close>, and between time ranges it is exactly inclusion of the instants, for any
  requested range the constructor accepts.
\<close>

lemma scope_containment:
  "scope_contains s s
   \<and> (scope_contains a b \<and> scope_contains b c \<longrightarrow> scope_contains a c)
   \<and> (scope_contains a All \<longleftrightarrow> a = All)
   \<and> (TimeRange_new start stop = Inr r \<longrightarrow>
       (scope_contains (TimeRange g) (TimeRange r)
          \<longleftrightarrow> {t. TimeRange_contains r t} \<subseteq> {t. TimeRange_contains g t}))"
proof (intro conjI impI)
  assume "TimeRange_new start stop = Inr r"
  then have "\<And>x y. tr_start r = Some x \<Longrightarrow> tr_end r = Some y \<Longrightarrow> x \<le> y"
    by (auto simp: TimeRange_new_def split: option.splits if_splits)
  from range_contains_iff [of r g, OF this]
  show "scope_contains (TimeRange g) (TimeRange r)
          \<longleftrightarrow> {t. TimeRange_contains r t} \<subseteq> {t. TimeRange_contains g t}"
    by auto
next
  show "scope_contains a All \<longleftrightarrow> a = All" by (cases a) simp_all
qed (auto intro: scope_contains_refl scope_contains_trans)

section \<open>What the authorizer decides\<close>

lemma permission_validate_base [simp]: "permission_validate (from_role role) = Inr ()"
  by (simp add: permission_validate_def from_role_def)

lemma Registry_register_eq:
  "Registry_register reg g =
     (if gr_scopes g = [] then (Inl (EmptyGrant (gr_auditor g)), reg)
      else (Inr (), bt_insert (gr_auditor g) g reg))"
  by (simp add: Registry_register_def permissions_def)

text \<open>The registry a sequence of registrations and revocations leaves.\<close>

inductive registry_reach :: "Registry \<Rightarrow> bool" where
  new: "registry_reach Registry_new"
| register: "registry_reach reg \<Longrightarrow> registry_reach (snd (Registry_register reg g))"
| revoke: "registry_reach reg \<Longrightarrow> registry_reach (snd (Registry_revoke reg a))"

definition registry_inv :: "Registry \<Rightarrow> bool" where
  "registry_inv reg \<longleftrightarrow> bt_ok reg \<and> (\<forall>(a, g) \<in> set reg. gr_auditor g = a \<and> gr_scopes g \<noteq> [])"

lemma registry_inv_insert:
  "registry_inv reg \<Longrightarrow> gr_scopes g \<noteq> [] \<Longrightarrow> registry_inv (bt_insert (gr_auditor g) g reg)"
  using set_bt_insert_subset [of "gr_auditor g" g reg] by (auto simp: registry_inv_def)

lemma registry_reach_inv: "registry_reach reg \<Longrightarrow> registry_inv reg"
  by (induction rule: registry_reach.induct)
     (auto simp: registry_inv_insert Registry_register_eq Registry_revoke_def,
      auto simp: registry_inv_def Registry_new_def bt_ok_filter)

lemma permissions_allows [simp]: "permission_allows (permissions g) a \<longleftrightarrow> role_allows (gr_role g) a"
  by (simp add: permission_allows_def permissions_def from_role_def role_allows_def)

lemma credential_check_valid:
  "ck_status (credential_check g auditor now) = Valid \<longleftrightarrow>
     (\<exists>c. gr_credential g = Some c \<and> cr_auditor c = auditor \<and> is_valid_at c now)"
  by (auto simp: credential_check_def Credential_verify_def is_valid_at_def
      split: option.splits)

lemma credential_check_expired:
  "ck_status (credential_check g auditor now) = Expired \<longleftrightarrow>
     (\<exists>c. gr_credential g = Some c \<and> cr_auditor c = auditor \<and> \<not> cr_revoked c \<and> cr_expires_at c \<le> now)"
  by (auto simp: credential_check_def Credential_verify_def expired_at_def is_at_or_after_def
      split: option.splits)

text \<open>The policy of the crate, from a grant: a live credential of one's own, the role, the scopes.\<close>

definition grant_covers :: "Grant \<Rightarrow> AccessScope \<Rightarrow> bool" where
  "grant_covers g scope \<longleftrightarrow> (\<exists>s \<in> set (gr_scopes g). scope_contains s scope)"

definition denial_reason :: "Registry \<Rightarrow> Timestamp \<Rightarrow> AuditorId \<Rightarrow> AccessAction \<Rightarrow> string" where
  "denial_reason reg now auditor action =
     (case map_of reg auditor of
        None \<Rightarrow> UNKNOWN_AUDITOR
      | Some g \<Rightarrow>
          (case gr_credential g of
             None \<Rightarrow> CREDENTIAL_INVALID
           | Some c \<Rightarrow>
               if cr_auditor c \<noteq> auditor \<or> cr_revoked c then CREDENTIAL_INVALID
               else if cr_expires_at c \<le> now then CREDENTIAL_EXPIRED
               else if \<not> role_allows (gr_role g) action then ACTION_DENIED
               else SCOPE_OUT_OF_BOUNDS))"

lemma authorize_unknown:
  "map_of reg auditor = None \<Longrightarrow>
     authorize reg now auditor action scope = Inr (decision False action (describe scope) (Some auditor) now UNKNOWN_AUDITOR)"
  by (simp add: authorize_def Registry_grant_def)

lemma authorize_known:
  assumes "map_of reg auditor = Some g"
  shows "authorize reg now auditor action scope =
     Inr (decision
       (ck_status (credential_check g auditor now) = Valid \<and> role_allows (gr_role g) action \<and> grant_covers g scope)
       action (describe scope) (Some auditor) now
       (if ck_status (credential_check g auditor now) = Valid \<and> role_allows (gr_role g) action \<and> grant_covers g scope
        then GRANTED else denial_reason reg now auditor action))"
proof (cases "gr_credential g")
  case None
  then have "credential_check g auditor now = \<lparr>ck_present = False, ck_status = Absent\<rparr>"
    by (simp add: credential_check_def)
  with assms None show ?thesis
    by (simp add: authorize_def Registry_grant_def denial_reason_def)
next
  case (Some c)
  have "any_contains (gr_scopes g) scope \<longleftrightarrow> grant_covers g scope"
    by (simp add: any_contains_def grant_covers_def list_ex_iff)
  with assms Some show ?thesis
    by (simp add: authorize_def Registry_grant_def denial_reason_def credential_check_def
        Credential_verify_def expired_at_def is_at_or_after_def)
qed

text \<open>
  C16: what the authorizer decides.  It always answers.  The request is allowed exactly when the
  auditor is registered and the grant holds a credential issued to that auditor, neither revoked nor
  expired at the time of the request, a role whose matrix row has the action, and a scope containing
  the requested one; otherwise the reason names the first of these checks that fails.  The decision
  carries the request's action, scope label, auditor and time.
\<close>

theorem authorize_decides:
  "\<exists>d. authorize reg now auditor action scope = Inr d
    \<and> (ad_allowed d \<longleftrightarrow>
        (\<exists>g c. map_of reg auditor = Some g \<and> gr_credential g = Some c \<and> cr_auditor c = auditor
           \<and> \<not> cr_revoked c \<and> now < cr_expires_at c \<and> role_allows (gr_role g) action
           \<and> (\<exists>s \<in> set (gr_scopes g). scope_contains s scope)))
    \<and> ad_reason d = Some (if ad_allowed d then GRANTED else denial_reason reg now auditor action)
    \<and> ad_action d = action \<and> ad_scope d = describe scope \<and> ad_decided_by d = Some auditor
    \<and> ad_decided_at d = now"
proof (cases "map_of reg auditor")
  case None
  then show ?thesis
    by (simp add: authorize_unknown decision_def with_reason_def AuthorizationDecision_new_def
        denial_reason_def)
next
  case (Some g)
  then show ?thesis
    by (simp add: authorize_known decision_def with_reason_def AuthorizationDecision_new_def
        credential_check_valid grant_covers_def is_valid_at_def expired_at_def is_at_or_after_def not_le)
      blast
qed

text \<open>Revoked auditors are unknown from then on; registration replaces the auditor's grant.\<close>

lemma registry_lookup:
  assumes "registry_inv reg"
  shows "map_of (snd (Registry_revoke reg a)) b = (if b = a then None else map_of reg b)"
    and "gr_scopes g \<noteq> [] \<Longrightarrow>
      map_of (snd (Registry_register reg g)) b = (if b = gr_auditor g then Some g else map_of reg b)"
proof -
  show "map_of (snd (Registry_revoke reg a)) b = (if b = a then None else map_of reg b)"
    by (induction reg) (auto simp: Registry_revoke_def)
  show "gr_scopes g \<noteq> [] \<Longrightarrow>
      map_of (snd (Registry_register reg g)) b = (if b = gr_auditor g then Some g else map_of reg b)"
    using assms by (simp add: Registry_register_eq registry_inv_def map_of_bt_insert)
qed

text \<open>The matrix is not cumulative in the order of roles: the investigator misses senior powers.\<close>

lemma role_matrix_order:
  "SeniorAuditor < Investigator"
  "role_allows SeniorAuditor GenerateReport" "\<not> role_allows Investigator GenerateReport"
  "role_allows Investigator CreateInvestigation" "\<not> role_allows ComplianceOfficer CreateInvestigation"
  by (simp_all add: role_allows_def less_AuditorRole_def)

lemma role_allows_Administrator: "role_allows Administrator a"
  by (cases a) (simp_all add: role_allows_def)

section \<open>The access log\<close>

lemma access_recorded_event_id:
  assumes "access_recorded_event X entry network source parser slot = Inr e"
  shows "ev_kind e = AuditAccess \<and> ev_event_id e = derived_event_id X network ''audit-access-log''
      [ae_auditor entry, AccessAction_as_str (ae_action entry), ae_scope entry]"
proof -
  from assms obtain e0 where
    base: "derived_audit_event_base X AuditAccess network source parser
       \<lparr>ds_method = ''audit-access-log'',
        ds_note = ''auditor access to audit data recorded (the audit trail auditing itself)'',
        ds_source_refs = [ae_auditor entry, AccessAction_as_str (ae_action entry), ae_scope entry],
        ds_tx = None, ds_source_events = []\<rparr> slot = Inr e0"
    and e: "ev_kind e = ev_kind e0" "ev_event_id e = ev_event_id e0"
    by (auto simp: access_recorded_event_def Let_def map_ok_eq_Inr)
  show ?thesis using derived_base(3,4) [OF base] e by simp
qed

text \<open>The event an entry is recorded under.\<close>

definition access_event_id :: "('z) hash_ext_scheme \<Rightarrow> StoreAccessLog \<Rightarrow> AuditAccessEntry \<Rightarrow> EventId" where
  "access_event_id X log entry = derived_event_id X (sal_network log) ''audit-access-log''
      [ae_auditor entry, AccessAction_as_str (ae_action entry), ae_scope entry]"

context event_sink
begin

lemma record_into_Inr:
  assumes "record_into X st_insert log now entry s = (Inr (), s')"
  shows "\<exists>e r out. access_recorded_event X entry (sal_network log) (sal_source log) (sal_parser log)
           EventSlot_default = Inr e
         \<and> from_event_classified X e Confidential now = Inr r \<and> record_wf r \<and> rc_event r = e
         \<and> rc_event_id r = access_event_id X log entry \<and> st_insert s r = (Inr out, s')"
proof -
  from assms obtain e r out where
    e: "access_recorded_event X entry (sal_network log) (sal_source log) (sal_parser log) EventSlot_default = Inr e"
    and r: "from_event_classified X e Confidential now = Inr r" and out: "st_insert s r = (Inr out, s')"
    by (auto simp: record_into_def split: sum.splits prod.splits)
  have "ev_kind e \<noteq> EventKind.RecordCorrected" using access_recorded_event_id [OF e] by simp
  with from_event_classified_wf [OF r] access_recorded_event_id [OF e] e r out show ?thesis
    by (auto simp: access_event_id_def)
qed

lemma record_into_Inl: "record_into X st_insert log now entry s = (Inl err, s') \<Longrightarrow> s' = s"
  by (auto simp: record_into_def dest: insert_rejected split: sum.splits prod.splits)

lemma record_into_contains:
  assumes "record_into X st_insert log now entry s = (Inr (), s')"
  shows "st_contains s' ev \<longleftrightarrow> st_contains s ev \<or> ev = access_event_id X log entry"
  using record_into_Inr [OF assms] insert_contains by metis

lemma record_into_repeat:
  assumes "record_into X st_insert log now a s = (Inr (), s1)"
    and "access_event_id X log a = access_event_id X log b"
    and "record_into X st_insert log now' b s1 = (res, s2)"
  shows "s2 = s1"
proof (cases res)
  case (Inl e)
  with assms(3) show ?thesis by (auto dest: record_into_Inl)
next
  case (Inr u)
  with assms(3) obtain r out where r: "record_wf r" "rc_event_id r = access_event_id X log b"
    "st_insert s1 r = (Inr out, s2)"
    using record_into_Inr [of X log now' b s1 s2] by auto
  with record_into_contains [OF assms(1), of "rc_event_id r"] assms(2) insert_known [OF r(1), of s1]
  show ?thesis by simp
qed

end

text \<open>
  C35: an access-log entry is recorded under its auditor, action and scope only.  A successful record
  adds exactly that event to the store and nothing else; from then on every further access of the
  same auditor, action and scope leaves the store as it is, although its time, target and result
  differ and the log reports success.
\<close>

theorem access_log_repeat_lost:
  assumes "record_into X mem_insert log now a s = (Inr (), s1)"
    and "record_into X mem_insert log now' b s1 = (Inr (), s2)"
    and "ae_auditor a = ae_auditor b" "ae_action a = ae_action b" "ae_scope a = ae_scope b"
  shows "(mem_contains_event s1 ev \<longleftrightarrow> mem_contains_event s ev \<or> ev = access_event_id X log a) \<and> s2 = s1"
  using mem_sink.record_into_contains [OF assms(1)] mem_sink.record_into_repeat [OF assms(1) _ assms(2)] assms(3-5)
  by (simp add: access_event_id_def)

definition sample_log :: StoreAccessLog where
  "sample_log = \<lparr>sal_network = ''testnet'', sal_source = ''authz'', sal_parser = ''1.0''\<rparr>"

definition sample_entry :: "string \<Rightarrow> AccessResult \<Rightarrow> Timestamp \<Rightarrow> AuditAccessEntry" where
  "sample_entry target result at =
     AuditAccessEntry_new ''acc_1'' ''aud_a1'' ReadRecord ''all'' (Some target) result at"

lemma json_event_sample: "\<exists>bs. json_event sample_ext e = Inr bs"
  by (simp add: sample_ext_def)

lemma sample_entry_recorded:
  assumes "\<And>e. \<exists>bs. json_event X e = Inr bs"
  shows "\<exists>s'. record_into X mem_insert sample_log now (sample_entry t res at) s = (Inr (), s')"
proof -
  obtain e where e: "access_recorded_event X (sample_entry t res at) ''testnet'' ''authz'' ''1.0''
      EventSlot_default = Inr e"
    by (simp add: access_recorded_event_def derived_audit_event_base_def DerivationInfo_new_def
        EventProvenance_new_def invalid_field_def ascii_defs byte_def)
  have "AuditEvent_validate e = Inr ()"
    using payload_envelope [OF payload_event.intros(2) [OF e]]
    by (simp add: envelope_def tx_on_def AuditEvent_validate_Inr)
  moreover obtain bs where "json_event X e = Inr bs" using assms by blast
  ultimately obtain r where r: "from_event_classified X e Confidential now = Inr r"
    by (simp add: from_event_classified_def from_event_def event_canonical_bytes_def)
  have "record_wf r"
    using from_event_classified_wf [OF r] access_recorded_event_id [OF e] by simp
  with mem_sink.insert_accepts obtain out s' where "mem_insert s r = (Inr out, s')" by blast
  with e r show ?thesis by (simp add: record_into_def sample_log_def)
qed

theorem access_log_repeat_lost_witness:
  "\<exists>s1 s2. record_into sample_ext mem_insert sample_log 1 (sample_entry ''rec_1'' AccessResult.Granted 1) mem_new = (Inr (), s1)
    \<and> record_into sample_ext mem_insert sample_log 2 (sample_entry ''rec_2'' AccessResult.Denied 2) s1 = (Inr (), s2)
    \<and> s2 = s1"
proof -
  obtain s1 where s1: "record_into sample_ext mem_insert sample_log 1
      (sample_entry ''rec_1'' AccessResult.Granted 1) mem_new = (Inr (), s1)"
    using sample_entry_recorded [OF json_event_sample] by blast
  obtain s2 where s2: "record_into sample_ext mem_insert sample_log 2
      (sample_entry ''rec_2'' AccessResult.Denied 2) s1 = (Inr (), s2)"
    using sample_entry_recorded [OF json_event_sample] by blast
  show ?thesis
    using s1 s2 access_log_repeat_lost [OF s1 s2]
    by (simp add: sample_entry_def AuditAccessEntry_new_def)
qed

end
