(* ===== verification/Audit_Investigation.thy ===== *)
theory Audit_Investigation
  imports Audit_Authorization
begin

text \<open>
  \<open>crates/investigation\<close>: the case store, lifecycle events and the case service.

  The \<open>CaseStore\<close> trait is the record \<open>CaseStore\<close> of its methods over a state \<open>'c\<close>, the audit
  \<open>EventStore\<close> the record \<open>AuditStore\<close> over a state \<open>'s\<close>.  A service operation returns its result
  and both states.  The readings of the clocks during an operation are the fields of \<open>clock_reads\<close>.
\<close>

section \<open>Errors and the case store\<close>

datatype InvestigationError =
    CaseNotFound string
  | CaseAlreadyExists string
  | InvalidTransition string
  | ClosedCase string
  | NotAuthorized string string
  | MissingRecord string
  | Store string
  | LifecycleRecord string
  | InvalidContent string
  | Internal string

fun InvestigationError_to_string :: "InvestigationError \<Rightarrow> string" where
  "InvestigationError_to_string (CaseNotFound c) = ''case '' @ c @ '' not found''"
| "InvestigationError_to_string (CaseAlreadyExists c) = ''case '' @ c @ '' already exists''"
| "InvestigationError_to_string (InvalidTransition d) = ''invalid status transition: '' @ d"
| "InvestigationError_to_string (ClosedCase c) = ''case '' @ c @ '' is closed and cannot be modified''"
| "InvestigationError_to_string (NotAuthorized a d) = ''actor '' @ a @ '' is not authorized: '' @ d"
| "InvestigationError_to_string (MissingRecord r) = ''audit record '' @ r @ '' does not exist''"
| "InvestigationError_to_string (Store d) = ''case store failure: '' @ d"
| "InvestigationError_to_string (LifecycleRecord d) = ''lifecycle event could not be recorded: '' @ d"
| "InvestigationError_to_string (InvalidContent d) = ''invalid case content: '' @ d"
| "InvestigationError_to_string (InvestigationError.Internal d) = ''internal investigation error: '' @ d"

record 'c CaseStore =
  cs_create :: "'c \<Rightarrow> InvestigationCase \<Rightarrow> (InvestigationError + unit) \<times> 'c"
  cs_update :: "'c \<Rightarrow> InvestigationCase \<Rightarrow> (InvestigationError + unit) \<times> 'c"
  cs_get :: "'c \<Rightarrow> CaseId \<Rightarrow> InvestigationError + InvestigationCase"
  cs_contains :: "'c \<Rightarrow> CaseId \<Rightarrow> bool"
  cs_all :: "'c \<Rightarrow> InvestigationCase list"
  cs_by_status :: "'c \<Rightarrow> CaseStatus \<Rightarrow> InvestigationCase list"
  cs_by_assignee :: "'c \<Rightarrow> AuditorId \<Rightarrow> InvestigationCase list"
  cs_len :: "'c \<Rightarrow> nat"

type_synonym InMemoryCaseStore = "(CaseId \<times> InvestigationCase) list"

definition InMemoryCaseStore_new :: InMemoryCaseStore where
  "InMemoryCaseStore_new = []"

definition memcase_create ::
  "InMemoryCaseStore \<Rightarrow> InvestigationCase \<Rightarrow> (InvestigationError + unit) \<times> InMemoryCaseStore" where
  "memcase_create cases c =
     (if map_of cases (ic_case_id c) \<noteq> None then (Inl (CaseAlreadyExists (ic_case_id c)), cases)
      else (Inr (), bt_insert (ic_case_id c) c cases))"

definition memcase_update ::
  "InMemoryCaseStore \<Rightarrow> InvestigationCase \<Rightarrow> (InvestigationError + unit) \<times> InMemoryCaseStore" where
  "memcase_update cases c =
     (if map_of cases (ic_case_id c) = None then (Inl (CaseNotFound (ic_case_id c)), cases)
      else (Inr (), bt_insert (ic_case_id c) c cases))"

definition memcase_get :: "InMemoryCaseStore \<Rightarrow> CaseId \<Rightarrow> InvestigationError + InvestigationCase" where
  "memcase_get cases case_id =
     (case map_of cases case_id of Some c \<Rightarrow> Inr c | None \<Rightarrow> Inl (CaseNotFound case_id))"

definition memcase :: "InMemoryCaseStore CaseStore" where
  "memcase =
     \<lparr>cs_create = memcase_create,
      cs_update = memcase_update,
      cs_get = memcase_get,
      cs_contains = \<lambda>cases case_id. map_of cases case_id \<noteq> None,
      cs_all = \<lambda>cases. map snd cases,
      cs_by_status = \<lambda>cases status. filter (\<lambda>c. ic_status c = status) (map snd cases),
      cs_by_assignee = \<lambda>cases auditor. filter (\<lambda>c. ic_assigned_to c = Some auditor) (map snd cases),
      cs_len = \<lambda>cases. length cases\<rparr>"

section \<open>Lifecycle events\<close>

record LifecycleStep =
  ls_network :: NetworkId
  ls_case :: string
  ls_actor :: string
  ls_kind :: LifecycleKind
  ls_sequence :: nat
  ls_status :: CaseStatus
  ls_summary :: "string option"

definition parse_case :: "string \<Rightarrow> InvestigationError + CaseId" where
  "parse_case raw =
     map_err (\<lambda>e. InvestigationError.Internal (''invalid case id '' @ raw @ '': '' @ AuditError_to_string e))
       (from_checked CaseIdT raw)"

definition parse_actor :: "string \<Rightarrow> InvestigationError + AuditorId" where
  "parse_actor raw =
     map_err (\<lambda>e. InvestigationError.Internal (''invalid actor id '' @ raw @ '': '' @ AuditError_to_string e))
       (from_checked AuditorIdT raw)"

definition step_to_event ::
  "('z) hash_ext_scheme \<Rightarrow> LifecycleStep \<Rightarrow> string \<Rightarrow> VersionLabel \<Rightarrow> InvestigationError + AuditEvent" where
  "step_to_event X step source parser =
     and_then (parse_case (ls_case step)) (\<lambda>case_id.
     and_then (parse_actor (ls_actor step)) (\<lambda>actor.
     map_err (\<lambda>e. LifecycleRecord (EventError_to_string e))
       (investigation_lifecycle_event X
          \<lparr>il_network = ls_network step, il_source = source, il_parser = parser, il_case = case_id,
           il_actor = actor, il_kind = ls_kind step, il_sequence = ls_sequence step,
           il_status = ls_status step, il_summary = ls_summary step\<rparr> EventSlot_default)))"

definition record_step ::
  "('z) event_ext_scheme \<Rightarrow> 's AuditStore \<Rightarrow> LifecycleStep \<Rightarrow> string \<Rightarrow> VersionLabel \<Rightarrow> Timestamp \<Rightarrow> 's
     \<Rightarrow> (InvestigationError + unit) \<times> 's" where
  "record_step X A step source parser now store =
     (case step_to_event X step source parser of
        Inl e \<Rightarrow> (Inl e, store)
      | Inr event \<Rightarrow>
          (case from_event_classified X event Confidential now of
             Inl e \<Rightarrow> (Inl (LifecycleRecord (AuditError_to_string e)), store)
           | Inr r \<Rightarrow>
               (case as_insert A store (r\<lparr>rc_redactions := detail_policy (rc_event r)\<rparr>) of
                  (Inr _, store') \<Rightarrow> (Inr (), store')
                | (Inl e, store') \<Rightarrow> (Inl (LifecycleRecord (StoreError_to_string e)), store'))))"

section \<open>The case service\<close>

record CaseService =
  sv_network :: NetworkId
  sv_source :: string
  sv_parser :: VersionLabel
  sv_registry :: Registry

type_synonym ('c, 's) service_result = "(InvestigationError + InvestigationCase) \<times> 'c \<times> 's"

definition svc_require ::
  "CaseService \<Rightarrow> Timestamp \<Rightarrow> AuditorId \<Rightarrow> AccessAction \<Rightarrow> string \<Rightarrow> InvestigationError + unit" where
  "svc_require sv now actor action what =
     (case authorize (sv_registry sv) now actor action (Network (sv_network sv)) of
        Inl e \<Rightarrow> Inl (InvestigationError.Internal (''authorizer failure: '' @ AuthorizationError_to_string e))
      | Inr d \<Rightarrow>
          if ad_allowed d then Inr ()
          else let why = (case ad_reason d of Some r \<Rightarrow> r | None \<Rightarrow> ACTION_DENIED)
               in Inl (NotAuthorized actor (''cannot '' @ what @ '': '' @ why)))"

definition svc_require_role :: "CaseService \<Rightarrow> AuditorId \<Rightarrow> string \<Rightarrow> InvestigationError + unit" where
  "svc_require_role sv actor what =
     (case Registry_grant (sv_registry sv) actor of
        Inl _ \<Rightarrow> Inl (NotAuthorized actor (''cannot '' @ what @ '': unknown auditor''))
      | Inr g \<Rightarrow>
          if gr_role g = Administrator then Inr ()
          else Inl (NotAuthorized actor (''cannot '' @ what @ '': requires administrator'')))"

definition svc_get_open :: "'c CaseStore \<Rightarrow> 'c \<Rightarrow> CaseId \<Rightarrow> InvestigationError + InvestigationCase" where
  "svc_get_open C cases case_id =
     and_then (cs_get C cases case_id) (\<lambda>c.
       if is_terminal (ic_status c) then Inl (ClosedCase case_id) else Inr c)"

text \<open>\<open>case.timeline().len() as u32\<close>.\<close>

definition step_sequence :: "InvestigationCase \<Rightarrow> nat" where
  "step_sequence c = length (ic_timeline c) mod 2 ^ 32"

definition svc_commit ::
  "('z) event_ext_scheme \<Rightarrow> 'c CaseStore \<Rightarrow> 's AuditStore \<Rightarrow> CaseService \<Rightarrow> clock_reads \<Rightarrow> 'c \<Rightarrow> 's
     \<Rightarrow> AuditorId \<Rightarrow> InvestigationCase \<Rightarrow> string option \<Rightarrow> ('c, 's) service_result" where
  "svc_commit X C A sv t cases audit actor c summary =
     (let kind = (if ic_status c = CaseStatus.Closed then LifecycleKind.Closed else Updated);
          step = \<lparr>ls_network = sv_network sv, ls_case = ic_case_id c, ls_actor = actor, ls_kind = kind,
                  ls_sequence = step_sequence c, ls_status = ic_status c, ls_summary = summary\<rparr>
      in case cs_update C cases c of
           (Inl e, cases') \<Rightarrow> (Inl e, cases', audit)
         | (Inr _, cases') \<Rightarrow>
             (case record_step X A step (sv_source sv) (sv_parser sv) (at_record t) audit of
                (Inl e, audit') \<Rightarrow> (Inl e, cases', audit')
              | (Inr _, audit') \<Rightarrow> (Inr c, cases', audit')))"

definition svc_assign ::
  "('z) event_ext_scheme \<Rightarrow> 'c CaseStore \<Rightarrow> 's AuditStore \<Rightarrow> CaseService \<Rightarrow> clock_reads \<Rightarrow> 'c \<Rightarrow> 's
     \<Rightarrow> AuditorId \<Rightarrow> CaseId \<Rightarrow> AuditorId \<Rightarrow> ('c, 's) service_result" where
  "svc_assign X C A sv t cases audit actor case_id investigator =
     (case svc_require sv (at_authorize t) actor CreateInvestigation ''assign a case'' of
        Inl e \<Rightarrow> (Inl e, cases, audit)
      | Inr _ \<Rightarrow>
          (case svc_get_open C cases case_id of
             Inl e \<Rightarrow> (Inl e, cases, audit)
           | Inr c \<Rightarrow>
               (case case_assign c investigator (at_now t) of
                  (Inl e, _) \<Rightarrow> (Inl (InvestigationError.Internal (AuditError_to_string e)), cases, audit)
                | (Inr _, c') \<Rightarrow> svc_commit X C A sv t cases audit actor c' None)))"

definition svc_transition ::
  "('z) event_ext_scheme \<Rightarrow> 'c CaseStore \<Rightarrow> 's AuditStore \<Rightarrow> CaseService \<Rightarrow> clock_reads \<Rightarrow> 'c \<Rightarrow> 's
     \<Rightarrow> AuditorId \<Rightarrow> CaseId \<Rightarrow> CaseStatus \<Rightarrow> string option \<Rightarrow> ('c, 's) service_result" where
  "svc_transition X C A sv t cases audit actor case_id to reason =
     (case cs_get C cases case_id of
        Inl e \<Rightarrow> (Inl e, cases, audit)
      | Inr c \<Rightarrow>
          if to = CaseStatus.Closed \<and> reason = None
          then (Inl (InvalidContent ''closing a case requires a recorded reason''), cases, audit)
          else
          case (if ic_status c = CaseStatus.Closed
                then if to = Open then svc_require_role sv actor ''reopen a closed case''
                     else Inl (ClosedCase case_id)
                else svc_require sv (at_authorize t) actor CreateInvestigation ''update a case'') of
            Inl e \<Rightarrow> (Inl e, cases, audit)
          | Inr _ \<Rightarrow>
              (case case_change_status c to (at_now t) actor reason of
                 (Inl e, _) \<Rightarrow>
                   (Inl (InvalidTransition (''case '' @ case_id @ '': '' @ AuditError_to_string e)), cases, audit)
               | (Inr _, c') \<Rightarrow>
                   (case case_validate c' of
                      Inl e \<Rightarrow> (Inl (InvestigationError.Internal (AuditError_to_string e)), cases, audit)
                    | Inr _ \<Rightarrow> svc_commit X C A sv t cases audit actor c' None)))"

definition svc_open_case ::
  "('z) event_ext_scheme \<Rightarrow> 'c CaseStore \<Rightarrow> 's AuditStore \<Rightarrow> CaseService \<Rightarrow> clock_reads \<Rightarrow> 'c \<Rightarrow> 's
     \<Rightarrow> AuditorId \<Rightarrow> string \<Rightarrow> Priority \<Rightarrow> string \<Rightarrow> ('c, 's) service_result" where
  "svc_open_case X C A sv t cases audit actor title priority case_key =
     (case svc_require sv (at_authorize t) actor CreateInvestigation ''open an investigation case'' of
        Inl e \<Rightarrow> (Inl e, cases, audit)
      | Inr _ \<Rightarrow>
          let case_id = id_derive X CaseIdT [sv_network sv, case_key] in
          (case case_open case_id title priority (at_now t) actor of
             Inl e \<Rightarrow> (Inl (InvalidContent (AuditError_to_string e)), cases, audit)
           | Inr c \<Rightarrow>
               (case cs_create C cases c of
                  (Inl e, cases') \<Rightarrow> (Inl e, cases', audit)
                | (Inr _, cases') \<Rightarrow>
                    (case record_step X A
                            \<lparr>ls_network = sv_network sv, ls_case = case_id, ls_actor = actor,
                             ls_kind = Opened, ls_sequence = 0, ls_status = Open, ls_summary = Some title\<rparr>
                            (sv_source sv) (sv_parser sv) (at_record t) audit of
                       (Inl e, audit') \<Rightarrow> (Inl e, cases', audit')
                     | (Inr _, audit') \<Rightarrow> (Inr c, cases', audit')))))"

definition svc_link_record ::
  "('z) event_ext_scheme \<Rightarrow> 'c CaseStore \<Rightarrow> 's AuditStore \<Rightarrow> CaseService \<Rightarrow> clock_reads \<Rightarrow> 'c \<Rightarrow> 's
     \<Rightarrow> AuditorId \<Rightarrow> CaseId \<Rightarrow> RecordId \<Rightarrow> TimelineEntryKind \<Rightarrow> ('c, 's) service_result" where
  "svc_link_record X C A sv t cases audit actor case_id record_id kind =
     (case svc_require sv (at_authorize t) actor CreateInvestigation ''link a record to a case'' of
        Inl e \<Rightarrow> (Inl e, cases, audit)
      | Inr _ \<Rightarrow>
          (case svc_get_open C cases case_id of
             Inl e \<Rightarrow> (Inl e, cases, audit)
           | Inr c \<Rightarrow>
               (case as_get A audit record_id of
                  Inl _ \<Rightarrow> (Inl (MissingRecord record_id), cases, audit)
                | Inr _ \<Rightarrow>
                    (case case_add_related_record c record_id kind (at_now t) of
                       (Inl e, _) \<Rightarrow> (Inl (InvestigationError.Internal (AuditError_to_string e)), cases, audit)
                     | (Inr _, c') \<Rightarrow> svc_commit X C A sv t cases audit actor c' None))))"

record NewFinding =
  nf_kind :: FindingKind
  nf_severity :: Severity
  nf_summary :: string
  nf_related_records :: "RecordId list"

definition NewFinding_new :: "FindingKind \<Rightarrow> Severity \<Rightarrow> string \<Rightarrow> NewFinding" where
  "NewFinding_new kind severity summary =
     \<lparr>nf_kind = kind, nf_severity = severity, nf_summary = summary, nf_related_records = []\<rparr>"

definition with_records :: "NewFinding \<Rightarrow> RecordId list \<Rightarrow> NewFinding" where
  "with_records f records = f\<lparr>nf_related_records := records\<rparr>"

definition svc_add_finding ::
  "('z) event_ext_scheme \<Rightarrow> 'c CaseStore \<Rightarrow> 's AuditStore \<Rightarrow> CaseService \<Rightarrow> clock_reads \<Rightarrow> 'c \<Rightarrow> 's
     \<Rightarrow> AuditorId \<Rightarrow> CaseId \<Rightarrow> NewFinding \<Rightarrow> ('c, 's) service_result" where
  "svc_add_finding X C A sv t cases audit actor case_id finding =
     (case svc_require sv (at_authorize t) actor CreateInvestigation ''add a finding'' of
        Inl e \<Rightarrow> (Inl e, cases, audit)
      | Inr _ \<Rightarrow>
          (case svc_get_open C cases case_id of
             Inl e \<Rightarrow> (Inl e, cases, audit)
           | Inr c \<Rightarrow>
               let finding_id = id_derive X FindingIdT
                     [case_id, ''finding:'' @ show_nat (length (ic_timeline c))] in
               (case Finding_new finding_id (nf_kind finding) (nf_severity finding) (nf_summary finding)
                       (at_now t) actor of
                  Inl e \<Rightarrow> (Inl (InvalidContent (AuditError_to_string e)), cases, audit)
                | Inr f \<Rightarrow>
                    (case case_add_finding c (with_related_records f (nf_related_records finding)) (at_now t) of
                       (Inl e, _) \<Rightarrow> (Inl (InvestigationError.Internal (AuditError_to_string e)), cases, audit)
                     | (Inr _, c') \<Rightarrow>
                         svc_commit X C A sv t cases audit actor c' (Some (nf_summary finding))))))"

definition svc_add_note ::
  "('z) event_ext_scheme \<Rightarrow> 'c CaseStore \<Rightarrow> 's AuditStore \<Rightarrow> CaseService \<Rightarrow> clock_reads \<Rightarrow> 'c \<Rightarrow> 's
     \<Rightarrow> AuditorId \<Rightarrow> CaseId \<Rightarrow> string \<Rightarrow> ('c, 's) service_result" where
  "svc_add_note X C A sv t cases audit actor case_id body =
     (case svc_require sv (at_authorize t) actor CreateInvestigation ''add a note'' of
        Inl e \<Rightarrow> (Inl e, cases, audit)
      | Inr _ \<Rightarrow>
          (case svc_get_open C cases case_id of
             Inl e \<Rightarrow> (Inl e, cases, audit)
           | Inr c \<Rightarrow>
               let note_id = id_derive X NoteIdT [case_id, ''note:'' @ show_nat (length (ic_timeline c))] in
               (case Note_new note_id actor body (at_now t) of
                  Inl e \<Rightarrow> (Inl (InvalidContent (AuditError_to_string e)), cases, audit)
                | Inr note \<Rightarrow>
                    (case case_add_note c note of
                       (Inl e, _) \<Rightarrow> (Inl (InvestigationError.Internal (AuditError_to_string e)), cases, audit)
                     | (Inr _, c') \<Rightarrow> svc_commit X C A sv t cases audit actor c' None))))"

definition svc_get_case :: "'c CaseStore \<Rightarrow> 'c \<Rightarrow> CaseId \<Rightarrow> InvestigationError + InvestigationCase" where
  "svc_get_case C cases case_id = cs_get C cases case_id"

section \<open>The case store contract\<close>

text \<open>What the service relies on: reads return the last write of a case, and refused writes change nothing.\<close>

locale case_store =
  fixes C :: "'c CaseStore" and cs_invar :: "'c \<Rightarrow> bool"
  assumes create_known: "cs_get C s (ic_case_id c) = Inr c0 \<Longrightarrow>
        cs_create C s c = (Inl (CaseAlreadyExists (ic_case_id c)), s)"
    and create_fresh: "cs_invar s \<Longrightarrow> cs_get C s (ic_case_id c) = Inl e \<Longrightarrow>
        \<exists>s'. cs_create C s c = (Inr (), s') \<and> cs_invar s'
          \<and> (\<forall>i. cs_get C s' i = (if i = ic_case_id c then Inr c else cs_get C s i))"
    and update_known: "cs_invar s \<Longrightarrow> cs_get C s (ic_case_id c) = Inr c0 \<Longrightarrow>
        \<exists>s'. cs_update C s c = (Inr (), s') \<and> cs_invar s'
          \<and> (\<forall>i. cs_get C s' i = (if i = ic_case_id c then Inr c else cs_get C s i))"

interpretation memcase: case_store memcase bt_ok
proof
  fix s :: InMemoryCaseStore and c c0 e
  show "cs_get memcase s (ic_case_id c) = Inr c0 \<Longrightarrow>
      cs_create memcase s c = (Inl (CaseAlreadyExists (ic_case_id c)), s)"
    by (auto simp: memcase_def memcase_get_def memcase_create_def split: option.splits)
  show "bt_ok s \<Longrightarrow> cs_get memcase s (ic_case_id c) = Inl e \<Longrightarrow>
      \<exists>s'. cs_create memcase s c = (Inr (), s') \<and> bt_ok s'
        \<and> (\<forall>i. cs_get memcase s' i = (if i = ic_case_id c then Inr c else cs_get memcase s i))"
    by (auto simp: memcase_def memcase_get_def memcase_create_def map_of_bt_insert split: option.splits)
  show "bt_ok s \<Longrightarrow> cs_get memcase s (ic_case_id c) = Inr c0 \<Longrightarrow>
      \<exists>s'. cs_update memcase s c = (Inr (), s') \<and> bt_ok s'
        \<and> (\<forall>i. cs_get memcase s' i = (if i = ic_case_id c then Inr c else cs_get memcase s i))"
    by (auto simp: memcase_def memcase_get_def memcase_update_def map_of_bt_insert split: option.splits)
qed

section \<open>The service as a step relation\<close>

text \<open>
  One call of the service on the two stores, by an actor, with its result: any operation, any
  arguments, any readings of the clocks.
\<close>

inductive svc_step ::
  "('z) event_ext_scheme \<Rightarrow> 'c CaseStore \<Rightarrow> 's AuditStore \<Rightarrow> CaseService \<Rightarrow> 'c \<times> 's \<Rightarrow> AuditorId
     \<Rightarrow> InvestigationError + InvestigationCase \<Rightarrow> 'c \<times> 's \<Rightarrow> bool"
  for X C A sv where
  opened: "svc_open_case X C A sv t cases audit actor title priority key = (res, cases', audit') \<Longrightarrow>
     svc_step X C A sv (cases, audit) actor res (cases', audit')"
| assigned: "svc_assign X C A sv t cases audit actor i investigator = (res, cases', audit') \<Longrightarrow>
     svc_step X C A sv (cases, audit) actor res (cases', audit')"
| moved: "svc_transition X C A sv t cases audit actor i to reason = (res, cases', audit') \<Longrightarrow>
     svc_step X C A sv (cases, audit) actor res (cases', audit')"
| linked: "svc_link_record X C A sv t cases audit actor i r k = (res, cases', audit') \<Longrightarrow>
     svc_step X C A sv (cases, audit) actor res (cases', audit')"
| found: "svc_add_finding X C A sv t cases audit actor i f = (res, cases', audit') \<Longrightarrow>
     svc_step X C A sv (cases, audit) actor res (cases', audit')"
| noted: "svc_add_note X C A sv t cases audit actor i body = (res, cases', audit') \<Longrightarrow>
     svc_step X C A sv (cases, audit) actor res (cases', audit')"

inductive svc_reach ::
  "('z) event_ext_scheme \<Rightarrow> 'c CaseStore \<Rightarrow> 's AuditStore \<Rightarrow> CaseService \<Rightarrow> 'c \<times> 's \<Rightarrow> 'c \<times> 's \<Rightarrow> bool"
  for X C A sv where
  refl: "svc_reach X C A sv st st"
| step: "svc_reach X C A sv st st' \<Longrightarrow> svc_step X C A sv st' actor res st'' \<Longrightarrow> svc_reach X C A sv st st''"

text \<open>A step either changes nothing, creates a case, or commits one move of a stored case.\<close>

definition opens :: "('z) event_ext_scheme \<Rightarrow> 'c CaseStore \<Rightarrow> 's AuditStore \<Rightarrow> CaseService \<Rightarrow> clock_reads \<Rightarrow> 'c \<Rightarrow> 's
     \<Rightarrow> AuditorId \<Rightarrow> string \<Rightarrow> InvestigationCase \<Rightarrow> ('c, 's) service_result" where
  "opens X C A sv t cases audit actor title c =
     (case cs_create C cases c of
        (Inl e, cases') \<Rightarrow> (Inl e, cases', audit)
      | (Inr _, cases') \<Rightarrow>
          (case record_step X A
                  \<lparr>ls_network = sv_network sv, ls_case = ic_case_id c, ls_actor = actor,
                   ls_kind = Opened, ls_sequence = 0, ls_status = Open, ls_summary = Some title\<rparr>
                  (sv_source sv) (sv_parser sv) (at_record t) audit of
             (Inl e, audit') \<Rightarrow> (Inl e, cases', audit')
           | (Inr _, audit') \<Rightarrow> (Inr c, cases', audit')))"

lemma svc_open_case_cases:
  "(\<exists>e. svc_open_case X C A sv t cases audit actor title p key = (Inl e, cases, audit))
   \<or> (\<exists>c i at. case_open i title p at actor = Inr c
        \<and> svc_open_case X C A sv t cases audit actor title p key = opens X C A sv t cases audit actor title c)"
proof (cases "svc_require sv (at_authorize t) actor CreateInvestigation ''open an investigation case''")
  case (Inr u)
  let ?i = "id_derive X CaseIdT [sv_network sv, key]"
  show ?thesis
  proof (cases "case_open ?i title p (at_now t) actor")
    fix c
    assume c: "case_open ?i title p (at_now t) actor = Inr c"
    then have "ic_case_id c = ?i" using case_open_inv by blast
    with Inr c have "svc_open_case X C A sv t cases audit actor title p key
        = opens X C A sv t cases audit actor title c"
      by (simp add: svc_open_case_def opens_def split: prod.split sum.split)
    with c show ?thesis by blast
  qed (simp add: svc_open_case_def Inr)
qed (simp add: svc_open_case_def)

lemma svc_get_open_Inr:
  "svc_get_open C cases i = Inr c \<longleftrightarrow> cs_get C cases i = Inr c \<and> ic_status c \<noteq> CaseStatus.Closed"
  by (auto simp: svc_get_open_def and_then_eq_Inr is_terminal_def)

text \<open>The shape shared by the operations on a stored case.\<close>

definition commits ::
  "('z) event_ext_scheme \<Rightarrow> 'c CaseStore \<Rightarrow> 's AuditStore \<Rightarrow> CaseService \<Rightarrow> 'c \<Rightarrow> 's \<Rightarrow> AuditorId \<Rightarrow> CaseId
     \<Rightarrow> ('c, 's) service_result \<Rightarrow> bool" where
  "commits X C A sv cases audit actor i result \<longleftrightarrow>
     (\<exists>e. result = (Inl e, cases, audit))
     \<or> (\<exists>c c' t summary. cs_get C cases i = Inr c \<and> case_move c c'
          \<and> result = svc_commit X C A sv t cases audit actor c' summary)"

lemma commits_error [simp]: "commits X C A sv cases audit actor i (Inl e, cases, audit)"
  by (simp add: commits_def)

lemma commitsI:
  "cs_get C cases i = Inr c \<Longrightarrow> case_move c c' \<Longrightarrow>
     commits X C A sv cases audit actor i (svc_commit X C A sv t cases audit actor c' summary)"
  by (auto simp: commits_def)

lemma svc_assign_commits:
  "commits X C A sv cases audit actor i (svc_assign X C A sv t cases audit actor i a)"
  by (auto simp: svc_assign_def svc_get_open_Inr intro: commitsI case_move.assigned split: sum.split prod.split)

lemma svc_link_record_commits:
  "commits X C A sv cases audit actor i (svc_link_record X C A sv t cases audit actor i r k)"
  by (auto simp: svc_link_record_def svc_get_open_Inr intro: commitsI case_move.linked split: sum.split prod.split)

lemma svc_add_finding_commits:
  "commits X C A sv cases audit actor i (svc_add_finding X C A sv t cases audit actor i f)"
  by (auto simp: svc_add_finding_def svc_get_open_Inr Let_def intro: commitsI case_move.found split: sum.split prod.split)

lemma svc_add_note_commits:
  "commits X C A sv cases audit actor i (svc_add_note X C A sv t cases audit actor i body)"
  by (auto simp: svc_add_note_def svc_get_open_Inr Let_def intro: commitsI case_move.noted split: sum.split prod.split)

lemma svc_transition_commits:
  "commits X C A sv cases audit actor i (svc_transition X C A sv t cases audit actor i to reason)"
proof (cases "cs_get C cases i")
  case (Inr c)
  then show ?thesis
    by (auto simp: svc_transition_def intro!: commitsI case_move.moved split: sum.split prod.split if_split)
qed (simp add: svc_transition_def)

lemma svc_step_cases:
  assumes "svc_step X C A sv (cases, audit) actor res (cases', audit')"
  obtains (unchanged) e where "res = Inl e" "cases' = cases" "audit' = audit"
  | (created) c i title p at t where "case_open i title p at actor = Inr c"
      "opens X C A sv t cases audit actor title c = (res, cases', audit')"
  | (committed) i c c' t summary where "cs_get C cases i = Inr c" "case_move c c'"
      "svc_commit X C A sv t cases audit actor c' summary = (res, cases', audit')"
  using assms
proof (cases rule: svc_step.cases)
  case (opened t title priority key)
  then show ?thesis
    using svc_open_case_cases [of X C A sv t cases audit actor title priority key] unchanged created
    by auto
next
  case (assigned t i investigator)
  then show ?thesis
    using svc_assign_commits [of X C A sv cases audit actor i t investigator] unchanged committed
    by (auto simp: commits_def)
next
  case (moved t i to reason)
  then show ?thesis
    using svc_transition_commits [of X C A sv cases audit actor i t to reason] unchanged committed
    by (auto simp: commits_def)
next
  case (linked t i r k)
  then show ?thesis
    using svc_link_record_commits [of X C A sv cases audit actor i t r k] unchanged committed
    by (auto simp: commits_def)
next
  case (found t i f)
  then show ?thesis
    using svc_add_finding_commits [of X C A sv cases audit actor i t f] unchanged committed
    by (auto simp: commits_def)
next
  case (noted t i body)
  then show ?thesis
    using svc_add_note_commits [of X C A sv cases audit actor i t body] unchanged committed
    by (auto simp: commits_def)
qed

section \<open>Recording a step\<close>

text \<open>The event a lifecycle step is recorded under.\<close>

definition lifecycle_id :: "('z) hash_ext_scheme \<Rightarrow> NetworkId \<Rightarrow> CaseId \<Rightarrow> AuditorId \<Rightarrow> nat \<Rightarrow> EventId" where
  "lifecycle_id X network i actor n =
     derived_event_id X network ''investigation-lifecycle'' [i, actor, ''step:'' @ show_nat n]"

lemma lifecycle_event_id:
  assumes "investigation_lifecycle_event X l slot = Inr e"
  shows "ev_kind e = LifecycleKind_event_kind (il_kind l)
    \<and> ev_event_id e = lifecycle_id X (il_network l) (il_case l) (il_actor l) (il_sequence l)"
proof -
  from assms obtain e0 where
    base: "derived_audit_event_base X (LifecycleKind_event_kind (il_kind l)) (il_network l) (il_source l)
       (il_parser l)
       \<lparr>ds_method = ''investigation-lifecycle'',
        ds_note = ''case lifecycle step recorded by the investigation service'',
        ds_source_refs = [il_case l, il_actor l, ''step:'' @ show_nat (il_sequence l)],
        ds_tx = None, ds_source_events = []\<rparr> slot = Inr e0"
    and e: "ev_kind e = ev_kind e0" "ev_event_id e = ev_event_id e0"
    by (auto simp: investigation_lifecycle_event_def map_ok_eq_Inr)
  show ?thesis using derived_base(3,4) [OF base] e by (simp add: lifecycle_id_def)
qed

lemma step_to_event_id:
  assumes "step_to_event X step source parser = Inr e"
  shows "ev_kind e \<noteq> EventKind.RecordCorrected
    \<and> ev_event_id e = lifecycle_id X (ls_network step) (ls_case step) (ls_actor step) (ls_sequence step)"
proof -
  from assms obtain l where l: "investigation_lifecycle_event X l EventSlot_default = Inr e"
    and eq: "il_network l = ls_network step" "il_case l = ls_case step" "il_actor l = ls_actor step"
      "il_sequence l = ls_sequence step"
    by (auto simp: step_to_event_def and_then_eq_Inr parse_case_def parse_actor_def dest!: from_checked_id)
  have "LifecycleKind_event_kind k \<noteq> EventKind.RecordCorrected" for k by (cases k) simp_all
  with lifecycle_event_id [OF l] eq show ?thesis by simp
qed

context audit_sink
begin

lemma record_step_cases:
  obtains (failed) e where "record_step X A step source parser now s = (Inl e, s)"
  | (recorded) s' where "record_step X A step source parser now s = (Inr (), s')"
      "\<And>ev. au_contains s' ev \<longleftrightarrow> au_contains s ev
         \<or> ev = lifecycle_id X (ls_network step) (ls_case step) (ls_actor step) (ls_sequence step)"
proof (cases "step_to_event X step source parser")
  case (Inl e)
  then show ?thesis by (intro failed) (simp add: record_step_def)
next
  case (Inr e)
  note id = step_to_event_id [OF Inr]
  show ?thesis
  proof (cases "from_event_classified X e Confidential now")
    case (Inl err)
    with Inr show ?thesis by (intro failed) (simp add: record_step_def)
  next
    fix r
    assume r: "from_event_classified X e Confidential now = Inr r"
    with insert_with_policy [OF r conjunct1 [OF id], of s] obtain out s' where
      "as_insert A s (r\<lparr>rc_redactions := detail_policy (rc_event r)\<rparr>) = (Inr out, s')"
      "\<And>ev. au_contains s' ev \<longleftrightarrow> au_contains s ev \<or> ev = ev_event_id e"
      by blast
    with Inr r id show ?thesis
      by (intro recorded [of s']) (simp_all add: record_step_def)
  qed
qed

end

section \<open>What a step does\<close>

text \<open>How a written case relates to what was stored: newly opened, or one move further.\<close>

definition succeeds :: "'c CaseStore \<Rightarrow> 'c \<Rightarrow> AuditorId \<Rightarrow> InvestigationCase \<Rightarrow> bool" where
  "succeeds C cases actor c \<longleftrightarrow>
     (\<exists>e i title p at. cs_get C cases (ic_case_id c) = Inl e \<and> case_open i title p at actor = Inr c)
     \<or> (\<exists>c0. cs_get C cases (ic_case_id c) = Inr c0 \<and> case_move c0 c)"

text \<open>The outcome of a write: an error that left the audit store alone, or exactly one event recorded.\<close>

definition step_recorded ::
  "('z) hash_ext_scheme \<Rightarrow> ('s \<Rightarrow> EventId \<Rightarrow> bool) \<Rightarrow> NetworkId \<Rightarrow> AuditorId \<Rightarrow> InvestigationCase
     \<Rightarrow> InvestigationError + InvestigationCase \<Rightarrow> 's \<Rightarrow> 's \<Rightarrow> bool" where
  "step_recorded X contains network actor c res audit audit' \<longleftrightarrow>
     (\<exists>e. res = Inl e \<and> audit' = audit)
     \<or> (res = Inr c \<and> (\<forall>ev. contains audit' ev \<longleftrightarrow> contains audit ev
          \<or> ev = lifecycle_id X network (ic_case_id c) actor (step_sequence c)))"

definition stored_ok :: "'c CaseStore \<Rightarrow> ('c \<Rightarrow> bool) \<Rightarrow> 'c \<Rightarrow> bool" where
  "stored_ok C cs_invar cases \<longleftrightarrow>
     cs_invar cases \<and> (\<forall>i c. cs_get C cases i = Inr c \<longrightarrow> ic_case_id c = i \<and> case_inv c)"

locale case_service = case_store C cs_invar + audit_sink A au_contains
  for C :: "'c CaseStore" and cs_invar and A :: "'s AuditStore" and au_contains
begin

lemma opens_effect:
  assumes "case_open i title p at actor = Inr c" "cs_invar cases"
    and "opens X C A sv t cases audit actor title c = (res, cases', audit')"
  shows "(\<exists>e. res = Inl e \<and> cases' = cases \<and> audit' = audit)
    \<or> (succeeds C cases actor c \<and> cs_invar cases'
       \<and> (\<forall>j. cs_get C cases' j = (if j = ic_case_id c then Inr c else cs_get C cases j))
       \<and> step_recorded X au_contains (sv_network sv) actor c res audit audit')"
proof (cases "cs_get C cases (ic_case_id c)")
  case (Inr c0)
  with assms(3) create_known [OF Inr] show ?thesis by (auto simp: opens_def)
next
  case (Inl e)
  have "step_sequence c = 0"
    using case_open_inv [OF assms(1)] by (simp add: step_sequence_def)
  obtain s' where s': "cs_create C cases c = (Inr (), s')" "cs_invar s'"
    "\<And>j. cs_get C s' j = (if j = ic_case_id c then Inr c else cs_get C cases j)"
    using create_fresh [OF assms(2) Inl] by blast
  from assms(1) Inl have succ: "succeeds C cases actor c" by (auto simp: succeeds_def)
  let ?step = "\<lparr>ls_network = sv_network sv, ls_case = ic_case_id c, ls_actor = actor,
                ls_kind = Opened, ls_sequence = 0, ls_status = Open, ls_summary = Some title\<rparr>"
  show ?thesis
  proof (cases rule: record_step_cases [of X ?step "sv_source sv" "sv_parser sv" "at_record t" audit])
    case (failed e)
    with assms(3) s' succ show ?thesis by (auto simp: opens_def step_recorded_def)
  next
    case (recorded a)
    with assms(3) s' succ \<open>step_sequence c = 0\<close> show ?thesis
      by (auto simp: opens_def step_recorded_def)
  qed
qed

lemma commit_effect:
  assumes "cs_get C cases (ic_case_id c) = Inr c0" "case_move c0 c" "cs_invar cases"
    and "svc_commit X C A sv t cases audit actor c summary = (res, cases', audit')"
  shows "succeeds C cases actor c \<and> cs_invar cases'
       \<and> (\<forall>j. cs_get C cases' j = (if j = ic_case_id c then Inr c else cs_get C cases j))
       \<and> step_recorded X au_contains (sv_network sv) actor c res audit audit'"
proof -
  obtain s' where s': "cs_update C cases c = (Inr (), s')" "cs_invar s'"
    "\<And>j. cs_get C s' j = (if j = ic_case_id c then Inr c else cs_get C cases j)"
    using update_known [OF assms(3,1)] by blast
  from assms(1,2) have succ: "succeeds C cases actor c" by (auto simp: succeeds_def)
  let ?step = "\<lparr>ls_network = sv_network sv, ls_case = ic_case_id c, ls_actor = actor,
     ls_kind = (if ic_status c = CaseStatus.Closed then LifecycleKind.Closed else Updated),
     ls_sequence = step_sequence c, ls_status = ic_status c, ls_summary = summary\<rparr>"
  show ?thesis
  proof (cases rule: record_step_cases [of X ?step "sv_source sv" "sv_parser sv" "at_record t" audit])
    case (failed e)
    with assms(4) s' succ show ?thesis by (auto simp: svc_commit_def Let_def step_recorded_def)
  next
    case (recorded a)
    with assms(4) s' succ show ?thesis by (auto simp: svc_commit_def Let_def step_recorded_def)
  qed
qed

text \<open>Every step is one of: no change at all, or one case written and its event recorded or refused.\<close>

lemma step_effect:
  assumes "stored_ok C cs_invar cases" "svc_step X C A sv (cases, audit) actor res (cases', audit')"
  shows "(\<exists>e. res = Inl e \<and> cases' = cases \<and> audit' = audit)
    \<or> (\<exists>c. succeeds C cases actor c \<and> cs_invar cases'
         \<and> (\<forall>j. cs_get C cases' j = (if j = ic_case_id c then Inr c else cs_get C cases j))
         \<and> step_recorded X au_contains (sv_network sv) actor c res audit audit')"
  using assms(2)
proof (cases rule: svc_step_cases)
  case unchanged
  then show ?thesis by blast
next
  case (created c i title p at t)
  with opens_effect [of i title p at actor c cases X sv t audit res cases' audit'] assms(1)
  show ?thesis by (auto simp: stored_ok_def)
next
  case (committed i c c' t summary)
  then have "ic_case_id c = i" using assms(1) by (simp add: stored_ok_def)
  then have "ic_case_id c' = i" using case_move_extends [OF committed(2)] by (simp add: extends_def)
  with committed assms(1) show ?thesis
    by (intro disjI2 exI [of _ c'] commit_effect [where t = t and summary = summary])
       (auto simp: stored_ok_def)
qed

lemma succeeds_inv:
  assumes "stored_ok C cs_invar cases" "succeeds C cases actor c"
  shows "case_inv c"
  using assms case_open_inv case_move_inv by (auto simp: succeeds_def stored_ok_def)

lemma step_stored_ok:
  assumes "stored_ok C cs_invar cases" "svc_step X C A sv (cases, audit) actor res (cases', audit')"
  shows "stored_ok C cs_invar cases'"
  using step_effect [OF assms]
proof (elim disjE exE conjE)
  fix c
  assume "succeeds C cases actor c" "cs_invar cases'"
    and get: "\<forall>j. cs_get C cases' j = (if j = ic_case_id c then Inr c else cs_get C cases j)"
  moreover have "ic_case_id d = i \<and> case_inv d" if "cs_get C cases' i = Inr d" for i d
    using that get assms(1) succeeds_inv [OF assms(1) \<open>succeeds C cases actor c\<close>]
    by (cases "i = ic_case_id c") (auto simp: stored_ok_def)
  ultimately show ?thesis unfolding stored_ok_def by blast
qed (use assms(1) in simp)

lemma step_extends:
  assumes "stored_ok C cs_invar cases" "svc_step X C A sv (cases, audit) actor res (cases', audit')"
    and "cs_get C cases i = Inr c"
  shows "\<exists>c'. cs_get C cases' i = Inr c' \<and> extends c c'
    \<and> (ic_status c = CaseStatus.Closed \<longrightarrow> c' = c)"
  using step_effect [OF assms(1,2)]
proof (elim disjE exE conjE)
  fix c'
  assume succ: "succeeds C cases actor c'"
    and get: "\<forall>j. cs_get C cases' j = (if j = ic_case_id c' then Inr c' else cs_get C cases j)"
  show ?thesis
  proof (cases "i = ic_case_id c'")
    case True
    with succ assms(3) have mv: "case_move c c'" by (auto simp: succeeds_def)
    have "case_inv c" using assms(1,3) by (simp add: stored_ok_def)
    with mv True get show ?thesis using case_move_extends case_move_inv by auto
  next
    case False
    with get assms(3) show ?thesis by (auto simp: extends_refl)
  qed
qed (use assms(3) extends_refl in auto)

lemma reach_extends:
  assumes "svc_reach X C A sv st st'" "stored_ok C cs_invar (fst st)"
  shows "stored_ok C cs_invar (fst st')
    \<and> (\<forall>i c. cs_get C (fst st) i = Inr c \<longrightarrow> (\<exists>c'. cs_get C (fst st') i = Inr c' \<and> extends c c'
         \<and> (ic_status c = CaseStatus.Closed \<longrightarrow> c' = c)))"
  using assms
proof (induction rule: svc_reach.induct)
  case (refl st)
  then show ?case by (auto simp: extends_refl)
next
  case (step st st' actor res st'')
  obtain cs au cs' au' where st: "st' = (cs, au)" "st'' = (cs', au')" by (cases st', cases st'') auto
  with step have ok: "stored_ok C cs_invar cs" and one: "svc_step X C A sv (cs, au) actor res (cs', au')"
    by simp_all
  have "\<exists>c''. cs_get C cs' i = Inr c'' \<and> extends c c'' \<and> (ic_status c = CaseStatus.Closed \<longrightarrow> c'' = c)"
    if c: "cs_get C (fst st) i = Inr c" for i c
  proof -
    obtain c' where c': "cs_get C cs i = Inr c'" "extends c c'" "ic_status c = CaseStatus.Closed \<longrightarrow> c' = c"
      using step.IH [OF step.prems] c st(1) by auto
    then show ?thesis using step_extends [OF ok one c'(1)] extends_trans by blast
  qed
  then show ?case using step_stored_ok [OF ok one] st(2) by simp
qed

end

interpretation mem_service: case_service memcase bt_ok mem_audit mem_contains_event ..


section \<open>The trail of lifecycle events\<close>

text \<open>The runs in which no write was left without its event.\<close>

inductive svc_trail ::
  "('z) event_ext_scheme \<Rightarrow> 'c CaseStore \<Rightarrow> 's AuditStore \<Rightarrow> CaseService \<Rightarrow> 'c \<times> 's \<Rightarrow> 'c \<times> 's \<Rightarrow> bool"
  for X C A sv where
  refl: "svc_trail X C A sv st st"
| step: "svc_trail X C A sv st st' \<Longrightarrow> svc_step X C A sv st' actor res st'' \<Longrightarrow>
     (\<exists>c. res = Inr c) \<or> st'' = st' \<Longrightarrow> svc_trail X C A sv st st''"

text \<open>Every step of every stored case has its event.\<close>

definition trail_ok ::
  "'c CaseStore \<Rightarrow> ('s \<Rightarrow> EventId \<Rightarrow> bool) \<Rightarrow> ('z) hash_ext_scheme \<Rightarrow> CaseService \<Rightarrow> 'c \<Rightarrow> 's \<Rightarrow> bool" where
  "trail_ok C contains X sv cases audit \<longleftrightarrow>
     (\<forall>i c k. cs_get C cases i = Inr c \<longrightarrow> k \<le> length (ic_timeline c) \<longrightarrow>
        (\<exists>actor. contains audit (lifecycle_id X (sv_network sv) i actor (k mod 2 ^ 32))))"

context case_service
begin

lemma step_trail:
  assumes "stored_ok C cs_invar cases" "trail_ok C au_contains X sv cases audit"
    and "svc_step X C A sv (cases, audit) actor (Inr c) (cases', audit')"
  shows "trail_ok C au_contains X sv cases' audit'"
proof -
  from step_effect [OF assms(1,3)] have succ: "succeeds C cases actor c"
    and get: "\<And>j. cs_get C cases' j = (if j = ic_case_id c then Inr c else cs_get C cases j)"
    and ev: "\<And>ev. au_contains audit' ev \<longleftrightarrow> au_contains audit ev
          \<or> ev = lifecycle_id X (sv_network sv) (ic_case_id c) actor (step_sequence c)"
    by (auto simp: step_recorded_def)
  have "\<exists>a. au_contains audit' (lifecycle_id X (sv_network sv) i a (k mod 2 ^ 32))"
    if d: "cs_get C cases' i = Inr d" and k: "k \<le> length (ic_timeline d)" for i d k
  proof (cases "i = ic_case_id c \<and> k = length (ic_timeline c)")
    case True
    then show ?thesis unfolding ev step_sequence_def by blast
  next
    case False
    have "\<exists>d0. cs_get C cases i = Inr d0 \<and> k \<le> length (ic_timeline d0)"
    proof (cases "i = ic_case_id c")
      case True
      with d get have "d = c" by simp
      with succ False True k obtain c0 where "cs_get C cases i = Inr c0" "case_move c0 c"
        by (auto simp: succeeds_def dest!: case_open_inv)
      with False True k \<open>d = c\<close> case_move_extends [of c0 c] show ?thesis by auto
    next
      case False
      with d get k show ?thesis by auto
    qed
    with assms(2) ev show ?thesis unfolding trail_ok_def by blast
  qed
  then show ?thesis unfolding trail_ok_def by blast
qed

lemma trail_complete:
  assumes "svc_trail X C A sv st st'" "stored_ok C cs_invar (fst st)" "trail_ok C au_contains X sv (fst st) (snd st)"
  shows "stored_ok C cs_invar (fst st') \<and> trail_ok C au_contains X sv (fst st') (snd st')"
  using assms
proof (induction rule: svc_trail.induct)
  case (step st st' actor res st'')
  obtain cs au cs' au' where st: "st' = (cs, au)" "st'' = (cs', au')" by (cases st', cases st'') auto
  with step have ok: "stored_ok C cs_invar cs" "trail_ok C au_contains X sv cs au"
    and one: "svc_step X C A sv (cs, au) actor res (cs', au')" by simp_all
  from step.hyps(3) show ?case
  proof
    assume "\<exists>c. res = Inr c"
    with step_trail [OF ok] step_stored_ok [OF ok(1) one] one st show ?thesis by auto
  qed (use ok st in simp)
qed simp

lemma step_audit_monotone:
  assumes "stored_ok C cs_invar cases" "svc_step X C A sv (cases, audit) actor res (cases', audit')"
    and "au_contains audit ev"
  shows "au_contains audit' ev"
  using step_effect [OF assms(1,2)] assms(3) by (auto simp: step_recorded_def)

end

lemma cs_get_memcase [simp]: "cs_get memcase = memcase_get"
  by (simp add: memcase_def)

lemma stored_ok_new [simp]: "stored_ok memcase bt_ok InMemoryCaseStore_new"
  by (simp add: stored_ok_def InMemoryCaseStore_new_def memcase_get_def)

section \<open>Properties of the service over the in-memory stores\<close>

text \<open>
  C25: every case the service ever stores is consistent.  From an empty case store, after any sequence
  of calls by anyone with any arguments, whichever of them fail, a stored case is stored under its
  own id, has a title of 1 to 200 bytes, and carries a closing time and a closing reason exactly
  when its status is closed.
\<close>

theorem cases_reachable_consistent:
  assumes "svc_reach X memcase mem_audit sv (InMemoryCaseStore_new, audit0) (cases, audit)"
    and "memcase_get cases i = Inr c"
  shows "ic_case_id c = i \<and> 1 \<le> length (ic_title c) \<and> length (ic_title c) \<le> 200
    \<and> (ic_closed_at c \<noteq> None \<longleftrightarrow> ic_status c = CaseStatus.Closed)
    \<and> (ic_closed_reason c \<noteq> None \<longleftrightarrow> ic_status c = CaseStatus.Closed)"
proof -
  have get: "cs_get memcase cases i = Inr c" using assms(2) by simp
  have "stored_ok memcase bt_ok cases"
    using mem_service.reach_extends [OF assms(1)] by simp
  with get have "ic_case_id c = i \<and> case_inv c" unfolding stored_ok_def by blast
  then show ?thesis
    by (auto simp: case_inv_def closure_ok_def Suc_le_eq split: if_splits)
qed

text \<open>
  C24: case histories only grow.  Whatever calls follow on a consistent case store, a stored case stays stored with its id, title,
  priority, creator and creation time; and its timeline, findings, notes and linked records are extended
  at the end and never rewritten.  In the code a closed case moreover never changes again.  That is stronger than
  the documentation, by which closing is terminal unless an administrator reopens the case
  (\<open>docs/investigation.md\<close>, and \<open>can_transition\<close> has the move from closed to open): the reopening is
  offered, and fails whenever it is called, so no sequence of calls brings a closed case back.
\<close>

theorem case_history_append_only:
  assumes "stored_ok memcase bt_ok cases" "memcase_get cases i = Inr c"
    and "svc_reach X memcase mem_audit sv (cases, audit) (cases', audit')"
  shows "\<exists>c'. memcase_get cases' i = Inr c' \<and> extends c c'
    \<and> (ic_status c = CaseStatus.Closed \<longrightarrow> c' = c)"
  using mem_service.reach_extends [OF assms(3)] assms(1,2) by simp

text \<open>
  C36: the administrator's reopening of a closed case always fails.  \<open>can_transition\<close> allows closed to
  open and \<open>transition\<close> admits an administrator for it, but \<open>change_status\<close> keeps the closing time, so
  the case does not validate: the call ends in an internal error and changes nothing.
\<close>

theorem reopen_closed_fails:
  assumes "memcase_get cases i = Inr c" "ic_status c = CaseStatus.Closed" "case_validate c = Inr ()"
    and "map_of (sv_registry sv) actor = Some g" "gr_role g = Administrator"
  shows "can_transition (ic_status c) Open
    \<and> svc_transition X memcase A sv t cases audit actor i Open reason =
       (Inl (InvestigationError.Internal
          ''validation failure: only closed cases may carry closure fields''), cases, audit)"
proof -
  obtain c' where "case_change_status c Open (at_now t) actor reason = (Inr (), c')"
    "case_validate c' = Inl (AuditError.ValidationFailure ''only closed cases may carry closure fields'')"
    using reopen_invalid [OF assms(2)] case_validate_cases [OF assms(3)] by blast
  with assms show ?thesis
    by (simp add: svc_transition_def svc_require_role_def Registry_grant_def)
qed

text \<open>
  C22: the audit trail of a case is complete.  From empty stores, over any sequence of calls in which
  no write ended without its event, the audit store holds a lifecycle event for every step of every
  stored case: the opening and each entry of its timeline.
\<close>

theorem lifecycle_trail_complete:
  assumes "svc_trail X memcase mem_audit sv (InMemoryCaseStore_new, audit0) (cases, audit)"
    and "memcase_get cases i = Inr c" "k \<le> length (ic_timeline c)"
  shows "\<exists>actor. mem_contains_event audit (lifecycle_id X (sv_network sv) i actor (k mod 2 ^ 32))"
proof -
  have "trail_ok memcase mem_contains_event X sv InMemoryCaseStore_new audit0"
    by (simp add: trail_ok_def InMemoryCaseStore_new_def memcase_get_def)
  with mem_service.trail_complete [OF assms(1)] have "trail_ok memcase mem_contains_event X sv cases audit" by simp
  with assms(2,3) show ?thesis by (auto simp: trail_ok_def)
qed

section \<open>Cases blocked by a linked entry\<close>

lemma prefix_bad: "prefix es es' \<Longrightarrow> \<not> list_all entry_ok es \<Longrightarrow> \<not> list_all entry_ok es'"
  by (auto simp: prefix_def)

lemma svc_transition_bad:
  assumes "cs_get C cases i = Inr c" "\<not> list_all entry_ok (ic_timeline c)"
  shows "\<exists>e. svc_transition X C A sv t cases audit actor i to reason = (Inl e, cases, audit)"
proof -
  have "case_validate c' \<noteq> Inr u" if "case_change_status c to (at_now t) actor reason = (Inr (), c')" for c' u
    using prefix_bad [OF case_change_status_timeline [OF that] assms(2)] case_validate_cases by blast
  with assms(1) show ?thesis
    by (auto simp: svc_transition_def split: sum.split prod.split)
qed

lemma svc_link_record_Inr:
  assumes "svc_link_record X C A sv t cases audit actor i r k = (Inr c', cases', audit')"
  shows "\<exists>c. cs_get C cases i = Inr c \<and> ic_status c \<noteq> CaseStatus.Closed
    \<and> case_add_related_record c r k (at_now t) = (Inr (), c')"
  using assms
  by (auto simp: svc_link_record_def svc_commit_def svc_get_open_Inr Let_def split: sum.splits prod.splits)

lemma linked_entry_bad:
  "case_add_related_record c r k at = (Inr (), c') \<Longrightarrow> needs_actor k \<Longrightarrow>
     \<not> list_all entry_ok (ic_timeline c') \<and> ic_case_id c' = ic_case_id c"
  by (auto simp: case_op_defs entry_ok_def with_record_def)

text \<open>
  Linking a record under an auditor-action entry kind blocks the case for good.  \<open>link_record\<close>
  takes the kind from its caller and enters it without an actor, and does not validate; once it has
  succeeded with the kind of a status change, finding or note, every later transition of the case,
  by anyone, after any further calls, fails and changes nothing, so the case can never be closed.
\<close>

lemma linked_action_entry_blocks_case:
  assumes "stored_ok memcase bt_ok cases" "needs_actor k"
    and "svc_link_record X memcase mem_audit sv t cases audit actor i r k = (Inr c, cases1, audit1)"
    and "svc_reach X memcase mem_audit sv (cases1, audit1) (cases2, audit2)"
  shows "\<exists>e. svc_transition X memcase mem_audit sv t' cases2 audit2 actor' i to reason
    = (Inl e, cases2, audit2)"
proof -
  have step: "svc_step X memcase mem_audit sv (cases, audit) actor (Inr c) (cases1, audit1)"
    by (rule svc_step.linked [OF assms(3)])
  obtain c0 where c0: "memcase_get cases i = Inr c0" "case_add_related_record c0 r k (at_now t) = (Inr (), c)"
    using svc_link_record_Inr [OF assms(3)] by auto
  with assms(1) have "ic_case_id c0 = i" unfolding stored_ok_def cs_get_memcase by blast
  with linked_entry_bad [OF c0(2) assms(2)] have bad: "\<not> list_all entry_ok (ic_timeline c)" "ic_case_id c = i"
    by simp_all
  have get1: "cs_get memcase cases1 i = Inr c"
    using mem_service.step_effect [OF assms(1) step] bad(2) by (auto simp: step_recorded_def)
  obtain c2 where "cs_get memcase cases2 i = Inr c2" "extends c c2"
    using mem_service.reach_extends [OF assms(4)] mem_service.step_stored_ok [OF assms(1) step] get1
    by auto
  with bad(1) show ?thesis
    by (intro svc_transition_bad [of memcase cases2 i c2]) (auto simp: extends_def dest: prefix_bad)
qed

section \<open>A sample run\<close>

definition sample_grant :: Grant where
  "sample_grant = \<lparr>gr_auditor = ''aud_a1'', gr_role = Administrator, gr_scopes = [All],
     gr_credential = Some (Credential_new ''aud_a1'' ''secret'' 100)\<rparr>"

definition sample_service :: CaseService where
  "sample_service = \<lparr>sv_network = ''testnet'', sv_source = ''cases'', sv_parser = ''1.0'',
     sv_registry = [(''aud_a1'', sample_grant)]\<rparr>"

lemma sample_service_simps [simp]:
  "sv_network sample_service = ''testnet''" "sv_source sample_service = ''cases''"
  "sv_parser sample_service = ''1.0''"
  by (simp_all add: sample_service_def)

definition sample_clock :: clock_reads where
  "sample_clock = \<lparr>at_authorize = 1, at_now = 1, at_record = 1\<rparr>"

definition sample_case :: "CaseStatus \<Rightarrow> InvestigationCase" where
  "sample_case st = \<lparr>ic_case_id = id_derive sample_ext CaseIdT [''testnet'', ''k''], ic_title = ''T'',
     ic_status = st, ic_priority = Priority.Low, ic_created_at = 1, ic_created_by = ''aud_a1'',
     ic_assigned_to = None, ic_related = RelatedReferences_empty, ic_timeline = [], ic_findings = [],
     ic_notes = [], ic_closed_at = (if st = CaseStatus.Closed then Some 1 else None),
     ic_closed_reason = (if st = CaseStatus.Closed then Some ''done'' else None)\<rparr>"

definition sample_cases :: "CaseStatus \<Rightarrow> InMemoryCaseStore" where
  "sample_cases st = [(ic_case_id (sample_case st), sample_case st)]"

lemma sample_require: "svc_require sample_service 1 ''aud_a1'' CreateInvestigation what = Inr ()"
proof -
  have "ck_status (credential_check sample_grant ''aud_a1'' 1) = Valid"
    by (simp add: credential_check_valid sample_grant_def Credential_new_def is_valid_at_def
        expired_at_def is_at_or_after_def)
  then show ?thesis
    by (simp add: svc_require_def sample_service_def authorize_known role_allows_Administrator
        grant_covers_def decision_def with_reason_def AuthorizationDecision_new_def)
      (simp add: sample_grant_def role_allows_Administrator)
qed

lemma sample_step:
  assumes "ls_case step = id_derive sample_ext CaseIdT parts" "ls_actor step = ''aud_a1''"
  shows "\<exists>s'. record_step sample_ext mem_audit step ''cases'' ''1.0'' now s = (Inr (), s')"
proof -
  let ?l = "\<lparr>il_network = ls_network step, il_source = ''cases'', il_parser = ''1.0'',
     il_case = ls_case step, il_actor = ''aud_a1'', il_kind = ls_kind step,
     il_sequence = ls_sequence step, il_status = ls_status step, il_summary = ls_summary step\<rparr>"
  have "from_checked AuditorIdT ''aud_a1'' = Inr ''aud_a1''"
    by (simp add: from_checked_eq_Inr ascii_defs byte_def)
  moreover obtain e where e: "investigation_lifecycle_event sample_ext ?l EventSlot_default = Inr e"
    by (simp add: investigation_lifecycle_event_def derived_audit_event_base_def DerivationInfo_new_def
        EventProvenance_new_def invalid_field_def ascii_defs byte_def)
  ultimately have st: "step_to_event sample_ext step ''cases'' ''1.0'' = Inr e"
    by (simp add: step_to_event_def parse_case_def parse_actor_def assms id_derive_checked)
  have "AuditEvent_validate e = Inr ()"
    using payload_envelope [OF payload_event.intros(10) [OF e]]
    by (simp add: envelope_def tx_on_def AuditEvent_validate_Inr)
  then obtain r where r: "from_event_classified sample_ext e Confidential now = Inr r"
    by (simp add: from_event_classified_def from_event_def event_canonical_bytes_def sample_ext_def)
  obtain out s' where "as_insert mem_audit s (r\<lparr>rc_redactions := detail_policy (rc_event r)\<rparr>) = (Inr out, s')"
    using mem_audit.insert_with_policy [OF r conjunct1 [OF step_to_event_id [OF st]]] by blast
  with st r show ?thesis by (simp add: record_step_def)
qed

lemma sample_open:
  "\<exists>audit. svc_open_case sample_ext memcase mem_audit sample_service sample_clock InMemoryCaseStore_new mem_new
     ''aud_a1'' ''T'' Priority.Low ''k'' = (Inr (sample_case Open), sample_cases Open, audit)"
proof -
  let ?i = "id_derive sample_ext CaseIdT [''testnet'', ''k'']"
  have c: "case_open ?i ''T'' Priority.Low 1 ''aud_a1'' = Inr (sample_case Open)"
    by (simp add: case_open_def sample_case_def)
  have "cs_create memcase InMemoryCaseStore_new (sample_case Open) = (Inr (), sample_cases Open)"
    by (simp add: memcase_def memcase_create_def InMemoryCaseStore_new_def sample_cases_def)
  moreover obtain audit where "record_step sample_ext mem_audit
      \<lparr>ls_network = ''testnet'', ls_case = ?i, ls_actor = ''aud_a1'', ls_kind = Opened,
       ls_sequence = 0, ls_status = Open, ls_summary = Some ''T''\<rparr> ''cases'' ''1.0'' 1 mem_new = (Inr (), audit)"
    using sample_step [of "\<lparr>ls_network = ''testnet'', ls_case = ?i, ls_actor = ''aud_a1'', ls_kind = Opened,
       ls_sequence = 0, ls_status = Open, ls_summary = Some ''T''\<rparr>" "[''testnet'', ''k'']" 1 mem_new] by auto
  ultimately show ?thesis
    using c sample_require by (simp add: svc_open_case_def sample_clock_def)
qed

lemma sample_get [simp]: "memcase_get (sample_cases st) (ic_case_id (sample_case st)) = Inr (sample_case st)"
  by (simp add: memcase_get_def sample_cases_def)

lemma sample_stored_ok: "stored_ok memcase bt_ok (sample_cases st)"
  by (auto simp: stored_ok_def sample_cases_def memcase_get_def bt_ok_Cons case_inv_def closure_ok_def
      sample_case_def split: option.splits if_splits)

theorem cases_reachable_consistent_witness:
  "\<exists>audit. svc_reach sample_ext memcase mem_audit sample_service (InMemoryCaseStore_new, mem_new) (sample_cases Open, audit)
    \<and> ic_closed_at (sample_case Open) = None"
proof -
  obtain audit where "svc_open_case sample_ext memcase mem_audit sample_service sample_clock InMemoryCaseStore_new
      mem_new ''aud_a1'' ''T'' Priority.Low ''k'' = (Inr (sample_case Open), sample_cases Open, audit)"
    using sample_open by blast
  then have reach: "svc_reach sample_ext memcase mem_audit sample_service (InMemoryCaseStore_new, mem_new)
      (sample_cases Open, audit)"
    by (intro svc_reach.step [OF svc_reach.refl] svc_step.opened)
  show ?thesis
    using cases_reachable_consistent [OF reach sample_get] reach by (auto simp: sample_case_def)
qed

theorem reopen_closed_fails_witness:
  "svc_transition sample_ext memcase mem_audit sample_service sample_clock (sample_cases CaseStatus.Closed) mem_new
     ''aud_a1'' (ic_case_id (sample_case CaseStatus.Closed)) Open (Some ''appeal'')
   = (Inl (InvestigationError.Internal ''validation failure: only closed cases may carry closure fields''),
      sample_cases CaseStatus.Closed, mem_new)"
proof -
  have c: "ic_status (sample_case CaseStatus.Closed) = CaseStatus.Closed" "case_validate (sample_case CaseStatus.Closed) = Inr ()"
    by (simp_all add: sample_case_def case_validate_def)
  have g: "map_of (sv_registry sample_service) ''aud_a1'' = Some sample_grant" "gr_role sample_grant = Administrator"
    by (simp_all add: sample_service_def sample_grant_def)
  show ?thesis
    by (rule conjunct2 [OF reopen_closed_fails [OF sample_get c g]])
qed

theorem lifecycle_trail_complete_witness:
  "\<exists>audit. svc_trail sample_ext memcase mem_audit sample_service (InMemoryCaseStore_new, mem_new) (sample_cases Open, audit)
    \<and> (\<exists>actor. mem_contains_event audit
         (lifecycle_id sample_ext ''testnet'' (ic_case_id (sample_case Open)) actor 0))"
proof -
  obtain audit where "svc_open_case sample_ext memcase mem_audit sample_service sample_clock InMemoryCaseStore_new
      mem_new ''aud_a1'' ''T'' Priority.Low ''k'' = (Inr (sample_case Open), sample_cases Open, audit)"
    using sample_open by blast
  then have trail: "svc_trail sample_ext memcase mem_audit sample_service (InMemoryCaseStore_new, mem_new)
      (sample_cases Open, audit)"
    by (intro svc_trail.step [OF svc_trail.refl] svc_step.opened) auto
  then show ?thesis
    using lifecycle_trail_complete [OF trail sample_get, of 0] by (auto simp: sample_service_def)
qed

lemma sample_link:
  "\<exists>c cases audit. svc_link_record sample_ext memcase mem_audit sample_service sample_clock (sample_cases Open)
     (mem_commit mem_new (sample_record ''rec_1'' ''evt_1'' None)) ''aud_a1'' (ic_case_id (sample_case Open)) ''rec_1'' NoteAdded
   = (Inr c, cases, audit)
   \<and> memcase_get cases (ic_case_id (sample_case Open)) = Inr c \<and> rr_records (ic_related c) = [''rec_1'']"
proof -
  let ?s = "mem_commit mem_new (sample_record ''rec_1'' ''evt_1'' None)"
  obtain c' where c': "case_add_related_record (sample_case Open) ''rec_1'' NoteAdded 1 = (Inr (), c')"
    "ic_case_id c' = ic_case_id (sample_case Open)" "rr_records (ic_related c') = [''rec_1'']"
    by (simp add: case_op_defs) (simp add: sample_case_def add_record_def RelatedReferences_empty_def)
  have "svc_get_open memcase (sample_cases Open) (ic_case_id (sample_case Open)) = Inr (sample_case Open)"
    by (simp add: svc_get_open_Inr) (simp add: sample_case_def)
  moreover obtain r where "as_get mem_audit ?s ''rec_1'' = Inr r"
    by (simp add: mem_audit_def mem_get_def mem_new_def sample_record_def)
  moreover have "cs_update memcase (sample_cases Open) c' = (Inr (), [(ic_case_id c', c')])"
    using c'(2) by (simp add: memcase_def memcase_update_def sample_cases_def)
  moreover obtain audit where "record_step sample_ext mem_audit
      \<lparr>ls_network = sv_network sample_service, ls_case = ic_case_id c', ls_actor = ''aud_a1'',
       ls_kind = (if ic_status c' = CaseStatus.Closed then LifecycleKind.Closed else Updated),
       ls_sequence = step_sequence c', ls_status = ic_status c', ls_summary = None\<rparr> ''cases'' ''1.0'' 1 ?s = (Inr (), audit)"
    using sample_step [of "\<lparr>ls_network = sv_network sample_service, ls_case = ic_case_id c', ls_actor = ''aud_a1'',
       ls_kind = (if ic_status c' = CaseStatus.Closed then LifecycleKind.Closed else Updated),
       ls_sequence = step_sequence c', ls_status = ic_status c', ls_summary = None\<rparr>" "[''testnet'', ''k'']" 1 ?s] c'(2)
    by (auto simp: sample_case_def)
  ultimately show ?thesis
    using c' sample_require
    by (simp add: memcase_get_def svc_link_record_def svc_commit_def sample_clock_def)
qed

text \<open>A link to a stored record makes an open case longer; an attempt to reopen a closed one leaves it as it is.\<close>

theorem case_history_append_only_witness:
  "(\<exists>cases audit c. svc_reach sample_ext memcase mem_audit sample_service
       (sample_cases Open, mem_commit mem_new (sample_record ''rec_1'' ''evt_1'' None)) (cases, audit)
     \<and> memcase_get cases (ic_case_id (sample_case Open)) = Inr c
     \<and> extends (sample_case Open) c \<and> rr_records (ic_related c) = [''rec_1''] \<and> c \<noteq> sample_case Open)
   \<and> (\<exists>res cases audit. svc_transition sample_ext memcase mem_audit sample_service sample_clock
         (sample_cases CaseStatus.Closed) mem_new ''aud_a1'' (ic_case_id (sample_case CaseStatus.Closed)) Open
         (Some ''appeal'') = (res, cases, audit)
     \<and> memcase_get cases (ic_case_id (sample_case CaseStatus.Closed)) = Inr (sample_case CaseStatus.Closed))"
proof (intro conjI)
  from sample_link obtain c cases audit where
    "svc_link_record sample_ext memcase mem_audit sample_service sample_clock (sample_cases Open)
       (mem_commit mem_new (sample_record ''rec_1'' ''evt_1'' None)) ''aud_a1'' (ic_case_id (sample_case Open)) ''rec_1'' NoteAdded
     = (Inr c, cases, audit)"
    and c: "memcase_get cases (ic_case_id (sample_case Open)) = Inr c" "rr_records (ic_related c) = [''rec_1'']"
    by blast
  then have reach: "svc_reach sample_ext memcase mem_audit sample_service
      (sample_cases Open, mem_commit mem_new (sample_record ''rec_1'' ''evt_1'' None)) (cases, audit)"
    by (intro svc_reach.step [OF svc_reach.refl] svc_step.linked)
  have "c \<noteq> sample_case Open" using c(2) by (auto simp: sample_case_def RelatedReferences_empty_def)
  with case_history_append_only [OF sample_stored_ok sample_get reach] c reach
  show "\<exists>cases audit c. svc_reach sample_ext memcase mem_audit sample_service
       (sample_cases Open, mem_commit mem_new (sample_record ''rec_1'' ''evt_1'' None)) (cases, audit)
     \<and> memcase_get cases (ic_case_id (sample_case Open)) = Inr c
     \<and> extends (sample_case Open) c \<and> rr_records (ic_related c) = [''rec_1''] \<and> c \<noteq> sample_case Open"
    by auto
next
  obtain res cases audit where t: "svc_transition sample_ext memcase mem_audit sample_service sample_clock
      (sample_cases CaseStatus.Closed) mem_new ''aud_a1'' (ic_case_id (sample_case CaseStatus.Closed)) Open
      (Some ''appeal'') = (res, cases, audit)" by (rule prod_cases3)
  then have reach: "svc_reach sample_ext memcase mem_audit sample_service (sample_cases CaseStatus.Closed, mem_new) (cases, audit)"
    by (intro svc_reach.step [OF svc_reach.refl] svc_step.moved)
  have "ic_status (sample_case CaseStatus.Closed) = CaseStatus.Closed" by (simp add: sample_case_def)
  with case_history_append_only [OF sample_stored_ok sample_get reach] t
  show "\<exists>res cases audit. svc_transition sample_ext memcase mem_audit sample_service sample_clock
         (sample_cases CaseStatus.Closed) mem_new ''aud_a1'' (ic_case_id (sample_case CaseStatus.Closed)) Open
         (Some ''appeal'') = (res, cases, audit)
     \<and> memcase_get cases (ic_case_id (sample_case CaseStatus.Closed)) = Inr (sample_case CaseStatus.Closed)"
    by auto
qed

end
