(* ===== verification/Audit_Reporting.thy ===== *)
theory Audit_Reporting
  imports Audit_Authorization
begin

text \<open>
  \<open>crates/reporting\<close>: the query mapping, the paged scan, the filters and summary, and the report
  service.

  \<open>canonical_json_string\<close> on the query (used for the report id) extends the parameter record.  The
  scan follows the store's cursors in a loop whose end depends on the store: it is a partial
  function, and \<open>None\<close> is a loop that does not end or a panic of the store.
\<close>

section \<open>Errors, events, queries\<close>

datatype ReportingError =
    NotAuthorized string string
  | InvalidRequest string
  | UnsupportedKind ReportKind
  | Store string
  | Integrity string
  | EventRecord string
  | Internal string

fun ReportingError_to_string :: "ReportingError \<Rightarrow> string" where
  "ReportingError_to_string (NotAuthorized a d) = ''auditor '' @ a @ '' is not authorized: '' @ d"
| "ReportingError_to_string (InvalidRequest d) = ''invalid report request: '' @ d"
| "ReportingError_to_string (UnsupportedKind k) =
     ''report kind '' @ ReportKind_as_str k @ '' is not supported by this generator''"
| "ReportingError_to_string (ReportingError.Store d) = ''audit store failure: '' @ d"
| "ReportingError_to_string (ReportingError.Integrity d) = ''integrity failure: '' @ d"
| "ReportingError_to_string (EventRecord d) = ''recording the report event failed: '' @ d"
| "ReportingError_to_string (ReportingError.Internal d) = ''internal reporting error: '' @ d"

record report_ext = artifact_ext +
  json_query :: "ReportQuery \<Rightarrow> string + string"

definition record_report ::
  "('z) event_ext_scheme \<Rightarrow> 's AuditStore \<Rightarrow> ReportLifecycle \<Rightarrow> Timestamp \<Rightarrow> 's
     \<Rightarrow> (ReportingError + unit) \<times> 's" where
  "record_report X A lifecycle now store =
     (case report_lifecycle_event X lifecycle EventSlot_default of
        Inl e \<Rightarrow> (Inl (EventRecord (EventError_to_string e)), store)
      | Inr event \<Rightarrow>
          (case from_event_classified X event Confidential now of
             Inl e \<Rightarrow> (Inl (EventRecord (AuditError_to_string e)), store)
           | Inr r \<Rightarrow>
               (case as_insert A store (r\<lparr>rc_redactions := detail_policy (rc_event r)\<rparr>) of
                  (Inr _, store') \<Rightarrow> (Inr (), store')
                | (Inl e, store') \<Rightarrow> (Inl (EventRecord (StoreError_to_string e)), store'))))"

definition to_audit_query :: "ReportQuery \<Rightarrow> AuditError + AuditQuery" where
  "to_audit_query query =
     and_then
       (case rq_time_range query of
          None \<Rightarrow> Inr ()
        | Some r \<Rightarrow>
            (case (tr_start r, tr_end r) of
               (Some a, Some b) \<Rightarrow>
                 fail_if (a > b) (InvalidQuery ''report query time range starts after it ends'')
             | _ \<Rightarrow> Inr ())) (\<lambda>_.
     and_then
       (case rq_network query of
          None \<Rightarrow> Inr None
        | Some n \<Rightarrow> map_ok Some (NetworkId_new n)) (\<lambda>network.
     AuditQuery_build (AuditQuery_builder
       \<lparr>q_network := network,
        q_token := (if length (rq_tokens query) = 1 then Some (hd (rq_tokens query)) else None),
        q_account := rq_account query,
        q_decision := rq_outcome query,
        q_event_kinds := rq_event_kinds query,
        q_time_range := rq_time_range query\<rparr>)))"

section \<open>Filters and summaries\<close>

definition passes_filters :: "AuditRecord \<Rightarrow> ReportRequest \<Rightarrow> bool" where
  "passes_filters r request =
     (let query = rt_query request in
      if rq_tokens query \<noteq> []
         \<and> (case ev_token (rc_event r) of None \<Rightarrow> True | Some token \<Rightarrow> token \<notin> set (rq_tokens query))
      then False
      else case rq_classification_ceiling query of
             Some ceiling \<Rightarrow> \<not> is_at_least (rc_classification r) ceiling
           | None \<Rightarrow> True)"

text \<open>\<open>*map.entry(k).or_default() += 1\<close>.\<close>

definition count_up :: "'k::linorder \<Rightarrow> ('k \<times> nat) list \<Rightarrow> ('k \<times> nat) list" where
  "count_up k m = bt_insert k ((case map_of m k of None \<Rightarrow> 0 | Some n \<Rightarrow> n) + 1) m"

definition tally :: "AuditRecord \<Rightarrow> ReportSummary \<Rightarrow> ReportSummary" where
  "tally r s =
     (let event = rc_event r in
      s\<lparr>su_by_outcome := (case ev_outcome event of None \<Rightarrow> su_by_outcome s | Some out \<Rightarrow> count_up out (su_by_outcome s)),
        su_by_kind := count_up (ev_kind event) (su_by_kind s),
        su_by_reason := (case ev_reason event of None \<Rightarrow> su_by_reason s | Some r \<Rightarrow> count_up r (su_by_reason s))\<rparr>)"

definition summarize :: "AuditRecord list \<Rightarrow> ReportSummary" where
  "summarize records = (fold tally records ReportSummary_default)\<lparr>su_total_records := length records\<rparr>"

section \<open>The report service\<close>

record ReportService =
  rs_network :: NetworkId
  rs_source :: string
  rs_parser :: VersionLabel
  rs_generator_version :: VersionLabel
  rs_registry :: Registry
  rs_page_size :: nat

definition ReportService_new ::
  "NetworkId \<Rightarrow> string \<Rightarrow> VersionLabel \<Rightarrow> VersionLabel \<Rightarrow> Registry \<Rightarrow> ReportService" where
  "ReportService_new network source parser generator_version registry =
     \<lparr>rs_network = network, rs_source = source, rs_parser = parser,
      rs_generator_version = generator_version, rs_registry = registry, rs_page_size = 100\<rparr>"

definition report_require :: "ReportService \<Rightarrow> Timestamp \<Rightarrow> AuditorId \<Rightarrow> ReportingError + unit" where
  "report_require sv now actor =
     (case authorize (rs_registry sv) now actor GenerateReport (Network (rs_network sv)) of
        Inl e \<Rightarrow> Inl (ReportingError.Internal (''authorizer failure: '' @ AuthorizationError_to_string e))
      | Inr d \<Rightarrow>
          if ad_allowed d then Inr ()
          else let why = (case ad_reason d of Some r \<Rightarrow> r | None \<Rightarrow> ACTION_DENIED)
               in Inl (NotAuthorized actor (''cannot generate reports: '' @ why)))"

definition validate_request :: "ReportRequest \<Rightarrow> ReportingError + unit" where
  "validate_request request =
     (if rt_kind request \<notin> set [ComplianceActivity, ApprovedTransactions, DeniedTransactions,
            FlaggedTransactions, EnforcementActivity, AccountActivity, TokenActivity, Investigations,
            Incidents, EvidenceSummary, IntegrityVerification]
      then Inl (UnsupportedKind (rt_kind request))
      else case rq_classification_ceiling (rt_query request) of
             Some ceiling \<Rightarrow>
               if ceiling = Public \<or> ceiling = Operational
               then Inl (InvalidRequest (''classification ceiling '' @ DataClassification_as_str ceiling
                           @ '' would not protect anything''))
               else Inr ()
           | None \<Rightarrow> Inr ())"

partial_function (option) scan_from ::
  "'s AuditStore \<Rightarrow> nat \<Rightarrow> 's \<Rightarrow> AuditQuery \<Rightarrow> AuditRecord list \<Rightarrow> Cursor option
     \<Rightarrow> (ReportingError + AuditRecord list) option" where
  "scan_from A page_size audit query acc cursor =
     (case PageRequest_with_cursor page_size cursor of
        Inl e \<Rightarrow> Some (Inl (InvalidRequest (AuditError_to_string e)))
      | Inr request \<Rightarrow>
          Option.bind (as_query A audit query request) (\<lambda>res.
            case res of
              Inl e \<Rightarrow> Some (Inl (ReportingError.Store (StoreError_to_string e)))
            | Inr page \<Rightarrow>
                (case pg_next_cursor page of
                   None \<Rightarrow> Some (Inr (acc @ pg_items page))
                 | Some c \<Rightarrow> scan_from A page_size audit query (acc @ pg_items page) (Some c))))"

definition report_scan ::
  "'s AuditStore \<Rightarrow> ReportService \<Rightarrow> 's \<Rightarrow> AuditQuery \<Rightarrow> (ReportingError + AuditRecord list) option" where
  "report_scan A sv audit query = scan_from A (rs_page_size sv) audit query [] None"

definition derive_report_id :: "('z) report_ext_scheme \<Rightarrow> ReportService \<Rightarrow> ReportRequest \<Rightarrow> ReportId" where
  "derive_report_id X sv request =
     (let canonical_query = (case json_query X (rt_query request) of Inr s \<Rightarrow> s | Inl _ \<Rightarrow> ''unqueryable'')
      in id_derive X ReportIdT [rs_network sv, ReportKind_as_str (rt_kind request), canonical_query])"

definition build_report ::
  "('z) report_ext_scheme \<Rightarrow> ReportService \<Rightarrow> Timestamp \<Rightarrow> ReportRequest \<Rightarrow> AuditRecord list
     \<Rightarrow> ReportingError + Report" where
  "build_report X sv now request records =
     (let covered = filter (\<lambda>r. passes_filters r request) records;
          rows = List.map_filter (\<lambda>r. ev_transaction (rc_event r)) covered;
          versions = \<lparr>gv_report_schema = REPORT_SCHEMA_VERSION, gv_parser_version = rs_parser sv,
                      gv_generator_version = rs_generator_version sv\<rparr>;
          report = with_summary (with_rows (with_generated_by
                     (Report_new (derive_report_id X sv request) (rt_kind request) now (rt_query request) versions)
                     (rt_requested_by request)) rows) (summarize covered)
      in and_then (map_err (\<lambda>e. ReportingError.Internal (AuditError_to_string e)) (report_canonical_bytes X report)) (\<lambda>bs.
         let report = Report_with_digest report (hash_bytes X bs)
         in and_then (map_err (\<lambda>e. ReportingError.Internal (AuditError_to_string e)) (Report_validate report)) (\<lambda>_.
            Inr report)))"

definition report_generate ::
  "('z) report_ext_scheme \<Rightarrow> 's AuditStore \<Rightarrow> ReportService \<Rightarrow> clock_reads \<Rightarrow> 's \<Rightarrow> ReportRequest
     \<Rightarrow> ((ReportingError + Report) \<times> 's) option" where
  "report_generate X A sv t audit request =
     (case report_require sv (at_authorize t) (rt_requested_by request) of
        Inl e \<Rightarrow> Some (Inl e, audit)
      | Inr _ \<Rightarrow>
      (case validate_request request of
         Inl e \<Rightarrow> Some (Inl e, audit)
       | Inr _ \<Rightarrow>
       (case to_audit_query (rt_query request) of
          Inl e \<Rightarrow> Some (Inl (InvalidRequest (AuditError_to_string e)), audit)
        | Inr q \<Rightarrow>
            Option.bind (report_scan A sv audit q) (\<lambda>scanned.
            case scanned of
              Inl e \<Rightarrow> Some (Inl e, audit)
            | Inr records \<Rightarrow>
                (case build_report X sv (at_now t) request records of
                   Inl e \<Rightarrow> Some (Inl e, audit)
                 | Inr report \<Rightarrow>
                     (case record_report X A
                             \<lparr>rl_network = rs_network sv, rl_source = rs_source sv, rl_parser = rs_parser sv,
                              rl_report = derive_report_id X sv request, rl_kind = rt_kind request,
                              rl_record_count = su_total_records (rp_summary report),
                              rl_digest = rp_digest report\<rparr> (at_record t) audit of
                        (Inl e, audit') \<Rightarrow> Some (Inl e, audit')
                      | (Inr _, audit') \<Rightarrow> Some (Inr report, audit')))))))"

section \<open>The scan returns\<close>

text \<open>Following the cursors by hand, page after page, is what the loop computes.\<close>

lemma scan_from_drain:
  assumes "drain n s q limit c = Some rs" "1 \<le> limit" "limit \<le> MAX_PAGE_SIZE"
  shows "scan_from mem_audit limit s q acc c = Some (Inr (acc @ rs))"
  using assms
proof (induction n arbitrary: c rs acc)
  case (Suc n)
  from Suc.prems(1) obtain page where page: "mem_query s q \<lparr>pr_limit = limit, pr_cursor = c\<rparr> = Some (Inr page)"
    by (auto split: option.splits sum.splits)
  have req: "PageRequest_with_cursor limit c = Inr \<lparr>pr_limit = limit, pr_cursor = c\<rparr>"
    using Suc.prems by (simp add: PageRequest_with_cursor_def)
  show ?case
  proof (cases "pg_next_cursor page")
    case None
    with Suc.prems(1) page req show ?thesis
      by (subst scan_from.simps) (simp add: mem_audit_def)
  next
    case (Some c')
    with Suc.prems(1) page obtain rs' where rs': "drain n s q limit (Some c') = Some rs'" "rs = pg_items page @ rs'"
      by auto
    with Suc.IH [OF rs'(1) Suc.prems(2,3)] Some page req show ?thesis
      by (subst scan_from.simps) (simp add: mem_audit_def)
  qed
qed simp

lemma report_scan_complete:
  assumes "mem_inv s" "mem_keys_ok s" "1 \<le> rs_page_size sv" "rs_page_size sv \<le> MAX_PAGE_SIZE"
  shows "report_scan mem_audit sv s q = Some (Inr (mem_matched s q))"
proof -
  have "drain (Suc (length (mem_matched s q))) s q (rs_page_size sv) None = Some (mem_matched s q)"
    using drain_drop [OF assms(1,2), of "rs_page_size sv" 0 q None None "Suc (length (mem_matched s q))"] assms(3)
    by (simp add: boundary_def page_rest_def del: drain.simps)
  from scan_from_drain [OF this assms(3,4)] show ?thesis by (simp add: report_scan_def)
qed

section \<open>What the summary counts\<close>

lemma count_up_lookup:
  assumes "bt_ok m"
  shows "bt_ok (count_up k m)"
    "(case map_of (count_up k m) j of None \<Rightarrow> 0 | Some n \<Rightarrow> n)
       = (case map_of m j of None \<Rightarrow> 0 | Some n \<Rightarrow> n) + (if j = k then 1 else 0)"
  using assms by (simp_all add: count_up_def map_of_bt_insert)

definition counts :: "('k::linorder \<times> nat) list \<Rightarrow> 'k \<Rightarrow> nat" where
  "counts m k = (case map_of m k of None \<Rightarrow> 0 | Some n \<Rightarrow> n)"

lemma counts_count_up: "bt_ok m \<Longrightarrow> counts (count_up k m) j = counts m j + (if j = k then 1 else 0)"
  unfolding counts_def by (rule count_up_lookup)

definition summary_ok :: "ReportSummary \<Rightarrow> bool" where
  "summary_ok s \<longleftrightarrow> bt_ok (su_by_outcome s) \<and> bt_ok (su_by_kind s) \<and> bt_ok (su_by_reason s)"

lemma summary_ok_tally: "summary_ok s \<Longrightarrow> summary_ok (tally r s)"
  by (simp add: summary_ok_def tally_def Let_def count_up_lookup(1) split: option.split)

lemma tally_counts:
  assumes "summary_ok s"
  shows "counts (su_by_outcome (tally r s)) out = counts (su_by_outcome s) out + (if ev_outcome (rc_event r) = Some out then 1 else 0)"
    "counts (su_by_kind (tally r s)) k = counts (su_by_kind s) k + (if ev_kind (rc_event r) = k then 1 else 0)"
    "counts (su_by_reason (tally r s)) x = counts (su_by_reason s) x + (if ev_reason (rc_event r) = Some x then 1 else 0)"
  using assms by (auto simp: summary_ok_def tally_def Let_def counts_count_up split: option.split)

lemma fold_tally:
  assumes "summary_ok s"
  shows "summary_ok (fold tally rs s)"
    "counts (su_by_outcome (fold tally rs s)) out = counts (su_by_outcome s) out + length (filter (\<lambda>r. ev_outcome (rc_event r) = Some out) rs)"
    "counts (su_by_kind (fold tally rs s)) k = counts (su_by_kind s) k + length (filter (\<lambda>r. ev_kind (rc_event r) = k) rs)"
    "counts (su_by_reason (fold tally rs s)) x = counts (su_by_reason s) x + length (filter (\<lambda>r. ev_reason (rc_event r) = Some x) rs)"
  using assms
proof (induction rs arbitrary: s)
  case (Cons r rs)
  {
    case 1
    then show ?case using Cons.IH(1) summary_ok_tally by simp
  next
    case 2
    then show ?case using Cons.IH(2) [OF summary_ok_tally] by (simp add: tally_counts)
  next
    case 3
    then show ?case using Cons.IH(3) [OF summary_ok_tally] by (simp add: tally_counts)
  next
    case 4
    then show ?case using Cons.IH(4) [OF summary_ok_tally] by (simp add: tally_counts)
  }
qed simp_all

lemma summarize_counts:
  "counts (su_by_outcome (summarize rs)) out = length (filter (\<lambda>r. ev_outcome (rc_event r) = Some out) rs)"
  "counts (su_by_kind (summarize rs)) k = length (filter (\<lambda>r. ev_kind (rc_event r) = k) rs)"
  "counts (su_by_reason (summarize rs)) x = length (filter (\<lambda>r. ev_reason (rc_event r) = Some x) rs)"
  "su_total_records (summarize rs) = length rs"
proof -
  have "summary_ok ReportSummary_default" by (simp add: summary_ok_def ReportSummary_default_def)
  from fold_tally(2-4) [OF this]
  show "counts (su_by_outcome (summarize rs)) out = length (filter (\<lambda>r. ev_outcome (rc_event r) = Some out) rs)"
    "counts (su_by_kind (summarize rs)) k = length (filter (\<lambda>r. ev_kind (rc_event r) = k) rs)"
    "counts (su_by_reason (summarize rs)) x = length (filter (\<lambda>r. ev_reason (rc_event r) = Some x) rs)"
    "su_total_records (summarize rs) = length rs"
    by (simp_all add: summarize_def) (simp_all add: ReportSummary_default_def counts_def)
qed


section \<open>What a report covers\<close>

text \<open>The request's filters, as the query type documents them.\<close>

definition covers :: "ReportQuery \<Rightarrow> AuditRecord \<Rightarrow> bool" where
  "covers query r \<longleftrightarrow>
     (let event = rc_event r in
      (\<forall>n. rq_network query = Some n \<longrightarrow> ev_network event = n)
      \<and> (rq_tokens query = [] \<or> (\<exists>token \<in> set (rq_tokens query). ev_token event = Some token))
      \<and> (\<forall>a. rq_account query = Some a \<longrightarrow>
           map_option acr_account (ev_actor event) = Some a \<or> map_option acr_account (ev_subject event) = Some a)
      \<and> (\<forall>out. rq_outcome query = Some out \<longrightarrow>
           ev_outcome event = Some out \<or> map_option pdr_result (ev_decision event) = Some out)
      \<and> (rq_event_kinds query = [] \<or> ev_kind event \<in> set (rq_event_kinds query))
      \<and> (\<forall>rng. rq_time_range query = Some rng \<longrightarrow>
           TimeRange_contains rng (case ev_observed_at event of Some t \<Rightarrow> t | None \<Rightarrow> rc_recorded_at r))
      \<and> (\<forall>c. rq_classification_ceiling query = Some c \<longrightarrow> rc_classification r < c))"

lemma AuditQuery_build_Inr: "AuditQuery_build b = Inr q \<Longrightarrow> q = b"
  by (simp add: AuditQuery_build_def split: option.splits if_splits)

lemma to_audit_query_fields:
  assumes "to_audit_query query = Inr q"
  shows "q = \<lparr>q_network = rq_network query,
     q_token = (if length (rq_tokens query) = 1 then Some (hd (rq_tokens query)) else None),
     q_account = rq_account query, q_transaction = None, q_policy = None, q_decision = rq_outcome query,
     q_event_kinds = rq_event_kinds query, q_time_range = rq_time_range query, q_sort = Ascending\<rparr>"
proof -
  have net: "network = rq_network query"
    if "(case rq_network query of None \<Rightarrow> Inr None | Some n \<Rightarrow> map_ok Some (NetworkId_new n)) = Inr network" for network
    using that by (auto simp: map_ok_eq_Inr NetworkId_new_def split: option.splits if_splits)
  from assms obtain network where network:
      "(case rq_network query of None \<Rightarrow> Inr None | Some n \<Rightarrow> map_ok Some (NetworkId_new n)) = Inr network"
    and q: "AuditQuery_build (AuditQuery_builder
       \<lparr>q_network := network,
        q_token := (if length (rq_tokens query) = 1 then Some (hd (rq_tokens query)) else None),
        q_account := rq_account query, q_decision := rq_outcome query,
        q_event_kinds := rq_event_kinds query, q_time_range := rq_time_range query\<rparr>) = Inr q"
    unfolding to_audit_query_def by (simp only: and_then_eq_Inr) blast
  show ?thesis
    using AuditQuery_build_Inr [OF q] net [OF network] by (simp add: AuditQuery_builder_def)
qed

lemma passes_filters_iff:
  "passes_filters r request \<longleftrightarrow>
     (rq_tokens (rt_query request) = [] \<or> (\<exists>token \<in> set (rq_tokens (rt_query request)). ev_token (rc_event r) = Some token))
     \<and> (\<forall>c. rq_classification_ceiling (rt_query request) = Some c \<longrightarrow> rc_classification r < c)"
  by (auto simp: passes_filters_def Let_def is_at_least_def not_le split: option.splits)

lemma case_option_False: "(case opt of None \<Rightarrow> False | Some x \<Rightarrow> P x) \<longleftrightarrow> (\<exists>x. opt = Some x \<and> P x)"
  by (cases opt) simp_all

lemma matches_iff:
  "matches q r \<longleftrightarrow>
     (\<forall>n. q_network q = Some n \<longrightarrow> ev_network (rc_event r) = n)
     \<and> (\<forall>t. q_token q = Some t \<longrightarrow> ev_token (rc_event r) = Some t)
     \<and> (\<forall>a. q_account q = Some a \<longrightarrow>
          map_option acr_account (ev_actor (rc_event r)) = Some a
          \<or> map_option acr_account (ev_subject (rc_event r)) = Some a)
     \<and> (\<forall>h. q_transaction q = Some h \<longrightarrow> (\<exists>t. ev_transaction (rc_event r) = Some t \<and> txr_hash t = h))
     \<and> (\<forall>p. q_policy q = Some p \<longrightarrow> (\<exists>d. ev_decision (rc_event r) = Some d \<and> pol_policy (pdr_policy d) = p))
     \<and> (\<forall>d. q_decision q = Some d \<longrightarrow>
          ev_outcome (rc_event r) = Some d \<or> (\<exists>pd. ev_decision (rc_event r) = Some pd \<and> pdr_result pd = d))
     \<and> (q_event_kinds q = [] \<or> ev_kind (rc_event r) \<in> set (q_event_kinds q))
     \<and> (\<forall>rng. q_time_range q = Some rng \<longrightarrow>
          TimeRange_contains rng (case ev_observed_at (rc_event r) of Some t \<Rightarrow> t | None \<Rightarrow> rc_recorded_at r))"
  unfolding matches_def Let_def case_option_False by auto

lemma covered_iff:
  assumes "to_audit_query (rt_query request) = Inr q"
  shows "matches q r \<and> passes_filters r request \<longleftrightarrow> covers (rt_query request) r"
proof -
  let ?Q = "rt_query request"
  let ?any = "\<exists>token \<in> set (rq_tokens ?Q). ev_token (rc_event r) = Some token"
  have one: "(rq_tokens ?Q = [] \<or> ?any) \<Longrightarrow> q_token q = Some t \<Longrightarrow> ev_token (rc_event r) = Some t" for t
    unfolding to_audit_query_fields [OF assms] by (cases "rq_tokens ?Q") (auto split: if_splits)
  have q: "q_network q = rq_network ?Q" "q_account q = rq_account ?Q" "q_transaction q = None"
    "q_policy q = None" "q_decision q = rq_outcome ?Q" "q_event_kinds q = rq_event_kinds ?Q"
    "q_time_range q = rq_time_range ?Q"
    unfolding to_audit_query_fields [OF assms] by simp_all
  have pd: "map_option pdr_result d = Some out \<longleftrightarrow> (\<exists>pd. d = Some pd \<and> pdr_result pd = out)" for d out
    by (cases d) simp_all
  show ?thesis
    unfolding passes_filters_iff covers_def matches_iff Let_def q pd using one by blast
qed

lemma build_report_fields:
  assumes "build_report X sv now request records = Inr report"
  shows "rp_record_refs report = List.map_filter (\<lambda>r. ev_transaction (rc_event r)) (filter (\<lambda>r. passes_filters r request) records)"
    "rp_summary report = summarize (filter (\<lambda>r. passes_filters r request) records)"
    "rp_query report = rt_query request" "rp_generated_by report = Some (rt_requested_by request)"
    "\<exists>bs. report_canonical_bytes X report = Inr bs \<and> rp_digest report = Some (hash_bytes X bs)"
  using assms
  by (auto simp: build_report_def Let_def and_then_eq_Inr with_summary_def with_rows_def
      with_generated_by_def Report_new_def Report_with_digest_def report_canonical_bytes_def)

lemma record_report_cases:
  obtains e where "record_report X mem_audit l now s = (Inl e, s)"
  | s' where "record_report X mem_audit l now s = (Inr (), s')"
proof (cases "report_lifecycle_event X l EventSlot_default")
  case (Inr e)
  have kind: "ev_kind e \<noteq> EventKind.RecordCorrected"
    using Inr by (auto simp: report_lifecycle_event_def map_ok_eq_Inr dest!: derived_base(3))
  show ?thesis
  proof (cases "from_event_classified X e Confidential now")
    fix r
    assume r: "from_event_classified X e Confidential now = Inr r"
    with mem_audit.insert_with_policy [OF r kind, of s] Inr that show ?thesis
      by (auto simp: record_report_def)
  qed (use Inr that in \<open>auto simp: record_report_def\<close>)
qed (use that in \<open>auto simp: record_report_def\<close>)

lemma report_generate_eq:
  assumes "mem_inv s" "mem_keys_ok s" "1 \<le> rs_page_size sv" "rs_page_size sv \<le> MAX_PAGE_SIZE"
  shows "\<exists>res s'. report_generate X mem_audit sv t s request = Some (res, s')
    \<and> (\<forall>report. res = Inr report \<longrightarrow>
         (\<exists>q. to_audit_query (rt_query request) = Inr q
            \<and> build_report X sv (at_now t) request (mem_matched s q) = Inr report))"
proof (cases "report_require sv (at_authorize t) (rt_requested_by request)")
  case Inl
  then show ?thesis by (simp add: report_generate_def)
next
  case ok: Inr
  show ?thesis
  proof (cases "validate_request request")
    case Inl
    with ok show ?thesis by (simp add: report_generate_def)
  next
    case valid: Inr
    show ?thesis
    proof (cases "to_audit_query (rt_query request)")
      case Inl
      with ok valid show ?thesis by (simp add: report_generate_def)
    next
      case (Inr q)
      then show ?thesis
      proof (cases "build_report X sv (at_now t) request (mem_matched s q)")
        fix report
        assume "build_report X sv (at_now t) request (mem_matched s q) = Inr report"
        with ok valid Inr report_scan_complete [OF assms] show ?thesis
          by (cases rule: record_report_cases [of X "\<lparr>rl_network = rs_network sv, rl_source = rs_source sv,
                rl_parser = rs_parser sv, rl_report = derive_report_id X sv request, rl_kind = rt_kind request,
                rl_record_count = su_total_records (rp_summary report), rl_digest = rp_digest report\<rparr>" "at_record t" s])
             (simp_all add: report_generate_def)
      qed (use ok valid Inr report_scan_complete [OF assms] in \<open>simp add: report_generate_def\<close>)
    qed
  qed
qed

text \<open>
  C27: a report says exactly what the store holds.  Over a consistent in-memory store, generating a
  report always returns, whatever the request.  If it succeeds, the report's rows are the transaction
  references, and its total, outcome, kind and reason counts the numbers, of exactly those records of
  the history that meet every filter of the request, none of them at or above the classification
  ceiling; and its digest is the hash of its own canonical bytes.
\<close>

theorem report_covers_history:
  assumes "mem_inv s" "mem_keys_ok s" "1 \<le> rs_page_size sv" "rs_page_size sv \<le> MAX_PAGE_SIZE"
    and "cov = filter (covers (rt_query request)) (map snd (ms_records s))"
  shows "\<exists>res s'. report_generate X mem_audit sv t s request = Some (res, s')
    \<and> (\<forall>report. res = Inr report \<longrightarrow>
         rp_record_refs report = List.map_filter (\<lambda>r. ev_transaction (rc_event r)) cov
         \<and> su_total_records (rp_summary report) = length cov
         \<and> counts (su_by_outcome (rp_summary report)) out = length (filter (\<lambda>r. ev_outcome (rc_event r) = Some out) cov)
         \<and> counts (su_by_kind (rp_summary report)) k = length (filter (\<lambda>r. ev_kind (rc_event r) = k) cov)
         \<and> counts (su_by_reason (rp_summary report)) x = length (filter (\<lambda>r. ev_reason (rc_event r) = Some x) cov)
         \<and> (\<exists>bs. report_canonical_bytes X report = Inr bs \<and> rp_digest report = Some (hash_bytes X bs)))"
proof -
  obtain res s' where gen: "report_generate X mem_audit sv t s request = Some (res, s')"
    and res: "\<And>report. res = Inr report \<Longrightarrow> \<exists>q. to_audit_query (rt_query request) = Inr q
            \<and> build_report X sv (at_now t) request (mem_matched s q) = Inr report"
    using report_generate_eq [OF assms(1-4)] by blast
  have cov: "filter (\<lambda>r. passes_filters r request) (mem_matched s q) = cov"
    if "to_audit_query (rt_query request) = Inr q" for q
  proof -
    have "q_sort q = Ascending" using to_audit_query_fields [OF that] by simp
    then show ?thesis
      using covered_iff [OF that] by (simp add: assms(5) mem_matched_def conj_commute)
  qed
  show ?thesis
  proof (intro exI [of _ res] exI [of _ s'] conjI allI impI)
    show "report_generate X mem_audit sv t s request = Some (res, s')" by (rule gen)
    fix report
    assume "res = Inr report"
    then obtain q where q: "to_audit_query (rt_query request) = Inr q"
      "build_report X sv (at_now t) request (mem_matched s q) = Inr report" using res by blast
    note fields = build_report_fields [OF q(2), unfolded cov [OF q(1)]]
    show "rp_record_refs report = List.map_filter (\<lambda>r. ev_transaction (rc_event r)) cov"
      "su_total_records (rp_summary report) = length cov"
      "counts (su_by_outcome (rp_summary report)) out = length (filter (\<lambda>r. ev_outcome (rc_event r) = Some out) cov)"
      "counts (su_by_kind (rp_summary report)) k = length (filter (\<lambda>r. ev_kind (rc_event r) = k) cov)"
      "counts (su_by_reason (rp_summary report)) x = length (filter (\<lambda>r. ev_reason (rc_event r) = Some x) cov)"
      by (simp_all only: fields summarize_counts)
    show "\<exists>bs. report_canonical_bytes X report = Inr bs \<and> rp_digest report = Some (hash_bytes X bs)"
      by (rule fields(5))
  qed
qed

text \<open>A report over the sample store, by an administrator.\<close>

definition report_sample_ext :: report_ext where
  "report_sample_ext =
     \<lparr>sha256 = sha256 sample_ext, json_strings = json_strings sample_ext, json_event = json_event sample_ext,
      json_record = json_record sample_ext, json_entries = json_entries sample_ext,
      json_evidence = \<lambda>_. Inr ''{}'', json_report = \<lambda>_. Inr ''{}'', json_query = \<lambda>_. Inr ''{}''\<rparr>"

definition sample_report_service :: ReportService where
  "sample_report_service = ReportService_new ''testnet'' ''reports'' ''1.0'' ''1.0''
     [(''aud_a1'', \<lparr>gr_auditor = ''aud_a1'', gr_role = Administrator, gr_scopes = [All],
         gr_credential = Some (Credential_new ''aud_a1'' ''secret'' 100)\<rparr>)]"

definition sample_request :: ReportRequest where
  "sample_request = ReportRequest_new ComplianceActivity ReportQuery_all ''aud_a1'' 1"

lemma sample_report_scan:
  "report_scan mem_audit sample_report_service sample_store q = Some (Inr (mem_matched sample_store q))"
  by (rule report_scan_complete [OF sample_store_ok])
     (simp_all add: sample_report_service_def ReportService_new_def MAX_PAGE_SIZE_def)

lemma sample_report_recorded:
  "rl_network l = ''testnet'' \<Longrightarrow> rl_source l = ''reports'' \<Longrightarrow> rl_parser l = ''1.0'' \<Longrightarrow>
     \<exists>s'. record_report report_sample_ext mem_audit l now s = (Inr (), s')"
proof -
  assume l: "rl_network l = ''testnet''" "rl_source l = ''reports''" "rl_parser l = ''1.0''"
  obtain e where e: "report_lifecycle_event report_sample_ext l EventSlot_default = Inr e"
    by (simp add: report_lifecycle_event_def derived_audit_event_base_def DerivationInfo_new_def
        EventProvenance_new_def invalid_field_def ascii_defs byte_def l)
  have "AuditEvent_validate e = Inr ()"
    using payload_envelope [OF payload_event.intros(9) [OF e]]
    by (simp add: envelope_def tx_on_def AuditEvent_validate_Inr)
  then obtain r where r: "from_event_classified report_sample_ext e Confidential now = Inr r"
    by (simp add: from_event_classified_def from_event_def event_canonical_bytes_def report_sample_ext_def sample_ext_def)
  have kind: "ev_kind e \<noteq> EventKind.RecordCorrected"
    using e by (auto simp: report_lifecycle_event_def map_ok_eq_Inr dest!: derived_base(3))
  show ?thesis
    using mem_audit.insert_with_policy [OF r kind, of s] e r by (auto simp: record_report_def)
qed

lemma sample_generated:
  assumes "rt_requested_by request = ''aud_a1''" "validate_request request = Inr ()" "to_audit_query (rt_query request) = Inr q"
  shows "\<exists>report s'. report_generate report_sample_ext mem_audit sample_report_service
     \<lparr>at_authorize = 1, at_now = 1, at_record = 1\<rparr> sample_store request = Some (Inr report, s')"
proof -
  obtain report where report: "build_report report_sample_ext sample_report_service 1 request (mem_matched sample_store q) = Inr report"
    by (simp add: build_report_def Let_def report_canonical_bytes_def report_sample_ext_def Report_validate_def
        Report_with_digest_def with_summary_def with_rows_def with_generated_by_def Report_new_def)
  have "report_require sample_report_service 1 (rt_requested_by request) = Inr ()"
    by (simp add: report_require_def sample_report_service_def ReportService_new_def assms(1)
        authorize_known role_allows_Administrator grant_covers_def credential_check_valid
        Credential_new_def is_valid_at_def expired_at_def is_at_or_after_def decision_def with_reason_def
        AuthorizationDecision_new_def)
  moreover have "\<exists>s'. record_report report_sample_ext mem_audit
      \<lparr>rl_network = rs_network sample_report_service, rl_source = rs_source sample_report_service,
       rl_parser = rs_parser sample_report_service, rl_report = derive_report_id report_sample_ext sample_report_service request,
       rl_kind = rt_kind request, rl_record_count = su_total_records (rp_summary report),
       rl_digest = rp_digest report\<rparr> 1 sample_store = (Inr (), s')"
    by (rule sample_report_recorded) (simp_all add: sample_report_service_def ReportService_new_def)
  ultimately show ?thesis
    using assms(2,3) report sample_report_scan by (auto simp: report_generate_def)
qed

lemma sample_report_generated:
  "\<exists>report s'. report_generate report_sample_ext mem_audit sample_report_service
     \<lparr>at_authorize = 1, at_now = 1, at_record = 1\<rparr> sample_store sample_request = Some (Inr report, s')"
  by (rule sample_generated)
     (simp_all add: sample_request_def ReportRequest_new_def ReportQuery_all_def validate_request_def to_audit_query_def
      AuditQuery_build_def AuditQuery_builder_def)

lemma sample_page_size: "1 \<le> rs_page_size sample_report_service" "rs_page_size sample_report_service \<le> MAX_PAGE_SIZE"
  by (simp_all add: sample_report_service_def ReportService_new_def MAX_PAGE_SIZE_def)

theorem report_covers_history_witness:
  "\<exists>report s'. report_generate report_sample_ext mem_audit sample_report_service
     \<lparr>at_authorize = 1, at_now = 1, at_record = 1\<rparr> sample_store sample_request = Some (Inr report, s')
    \<and> su_total_records (rp_summary report) = length (filter (covers ReportQuery_all) (map snd (ms_records sample_store)))"
proof -
  from report_covers_history [OF sample_store_ok sample_page_size refl, where request = sample_request and X = report_sample_ext
      and t = "\<lparr>at_authorize = 1, at_now = 1, at_record = 1\<rparr>"] sample_report_generated
  show ?thesis by (auto simp: sample_request_def ReportRequest_new_def)
qed

section \<open>Generating the same report again\<close>

text \<open>The lifecycle step a generation records, and the record it becomes.\<close>

definition generation_step :: "('z) report_ext_scheme \<Rightarrow> ReportService \<Rightarrow> ReportRequest \<Rightarrow> Report \<Rightarrow> ReportLifecycle" where
  "generation_step X sv request report =
     \<lparr>rl_network = rs_network sv, rl_source = rs_source sv, rl_parser = rs_parser sv,
      rl_report = derive_report_id X sv request, rl_kind = rt_kind request,
      rl_record_count = su_total_records (rp_summary report), rl_digest = rp_digest report\<rparr>"

definition generation_record ::
  "('z) event_ext_scheme \<Rightarrow> ReportLifecycle \<Rightarrow> Timestamp \<Rightarrow> ReportingError + AuditRecord" where
  "generation_record X l now =
     and_then (map_err (\<lambda>e. EventRecord (EventError_to_string e)) (report_lifecycle_event X l EventSlot_default)) (\<lambda>event.
     map_ok (\<lambda>r. r\<lparr>rc_redactions := detail_policy (rc_event r)\<rparr>)
       (map_err (\<lambda>e. EventRecord (AuditError_to_string e)) (from_event_classified X event Confidential now)))"

lemma report_event_fields:
  assumes "report_lifecycle_event X l slot = Inr e"
  shows "ev_kind e = EventKind.ReportGenerated" "ev_network e = rl_network l" "ev_outcome e = None" "ev_decision e = None"
    "ev_order e = EventOrder_default" "ev_token e = None" "ev_actor e = None" "ev_subject e = None" "ev_observed_at e = None"
  using assms
  by (auto simp: report_lifecycle_event_def derived_audit_event_base_def map_ok_eq_Inr and_then_eq_Inr Let_def AuditEvent_new_def
      set_detail_def set_detail_opt_def split: option.splits)

lemma generation_record_fields:
  assumes "generation_record X l now = Inr r"
  shows "record_wf r" "rc_recorded_at r = now" "rc_classification r = Confidential"
    "from_checked RecordIdT (rc_record_id r) = Inr (rc_record_id r)" "length (rc_record_id r) = 36"
    "report_lifecycle_event X l EventSlot_default = Inr (rc_event r)"
proof -
  from assms obtain e r' where e: "report_lifecycle_event X l EventSlot_default = Inr e"
    "from_event_classified X e Confidential now = Inr r'" "r = r'\<lparr>rc_redactions := detail_policy (rc_event r')\<rparr>"
    by (auto simp: generation_record_def and_then_eq_Inr map_ok_eq_Inr)
  have "ev_kind e \<noteq> EventKind.RecordCorrected" using report_event_fields(1) [OF e(1)] by simp
  note wf = from_event_classified_wf [OF e(2) this]
  obtain bs where r': "rc_record_id r' = id_derive_bytes X RecordIdT bs" "rc_recorded_at r' = now" "rc_classification r' = Confidential"
    using e(2) by (auto simp: from_event_classified_def from_event_def split: sum.splits)
  show "record_wf r" using wf by (auto simp: e(3) record_wf_def)
  show "report_lifecycle_event X l EventSlot_default = Inr (rc_event r)" using wf e(1) by (simp add: e(3))
  show "rc_recorded_at r = now" "rc_classification r = Confidential"
    "from_checked RecordIdT (rc_record_id r) = Inr (rc_record_id r)" "length (rc_record_id r) = 36"
    using r' by (simp_all add: e(3) id_derive_bytes_checked length_id_derive_bytes)
qed

lemma record_report_eq:
  "record_report X mem_audit l now s =
     (case generation_record X l now of Inl e \<Rightarrow> (Inl e, s) | Inr r \<Rightarrow> (Inr (), snd (mem_insert s r)))"
proof (cases "generation_record X l now")
  case (Inl e)
  then show ?thesis
    by (auto simp: record_report_def generation_record_def and_then_eq_Inl split: sum.splits)
next
  case (Inr r)
  from generation_record_fields(1) [OF Inr] obtain out s' where "mem_insert s r = (Inr out, s')"
    by (cases "mem_contains_event s (rc_event_id r)") (auto simp: mem_insert_wf)
  with Inr show ?thesis
    by (auto simp: record_report_def generation_record_def and_then_eq_Inr map_ok_eq_Inr mem_audit_def)
qed

lemma report_generate_success:
  assumes "mem_inv s" "mem_keys_ok s" "1 \<le> rs_page_size sv" "rs_page_size sv \<le> MAX_PAGE_SIZE"
  shows "report_generate X mem_audit sv t s request = Some (Inr report, s') \<longleftrightarrow>
    report_require sv (at_authorize t) (rt_requested_by request) = Inr () \<and> validate_request request = Inr ()
    \<and> (\<exists>q. to_audit_query (rt_query request) = Inr q \<and> build_report X sv (at_now t) request (mem_matched s q) = Inr report)
    \<and> (\<exists>r. generation_record X (generation_step X sv request report) (at_record t) = Inr r \<and> s' = snd (mem_insert s r))"
  using report_scan_complete [OF assms]
  by (auto simp: report_generate_def record_report_eq generation_step_def split: sum.split)

text \<open>The queries that cover the record of their own report's generation.\<close>

definition counts_itself :: "ReportQuery \<Rightarrow> NetworkId \<Rightarrow> Timestamp \<Rightarrow> bool" where
  "counts_itself query network now \<longleftrightarrow>
     (rq_network query = None \<or> rq_network query = Some network) \<and> rq_tokens query = [] \<and> rq_account query = None
     \<and> rq_outcome query = None \<and> (rq_event_kinds query = [] \<or> EventKind.ReportGenerated \<in> set (rq_event_kinds query))
     \<and> (\<forall>rng. rq_time_range query = Some rng \<longrightarrow> TimeRange_contains rng now)
     \<and> (\<forall>c. rq_classification_ceiling query = Some c \<longrightarrow> Confidential < c)"

lemma covers_generation:
  assumes "generation_record X l now = Inr r"
  shows "covers query r \<longleftrightarrow> counts_itself query (rl_network l) now"
  using report_event_fields [OF generation_record_fields(6) [OF assms]] generation_record_fields(2,3) [OF assms]
  by (cases "rq_network query") (auto simp: covers_def counts_itself_def Let_def)

lemma covered_history:
  assumes "to_audit_query (rt_query request) = Inr q"
  shows "filter (\<lambda>r. passes_filters r request) (mem_matched s q) = filter (covers (rt_query request)) (map snd (ms_records s))"
  using covered_iff [OF assms] to_audit_query_fields [OF assms] by (simp add: mem_matched_def conj_commute)

lemma build_report_covered:
  "filter (\<lambda>r. passes_filters r request) rs = filter (\<lambda>r. passes_filters r request) rs' \<Longrightarrow>
     build_report X sv now request rs = build_report X sv now request rs'"
  by (simp add: build_report_def)

lemma filter_commit:
  assumes "mem_inv s" "ms_by_record s (rc_record_id r) = None"
  obtains as bs where "filter P (map snd (ms_records s)) = as @ bs"
    "filter P (map snd (ms_records (mem_commit s r))) = as @ (if P r then [r] else []) @ bs"
proof -
  have "\<exists>as bs. m = as @ bs \<and> bt_insert k r m = as @ (k, r) # bs" if "k \<notin> fst ` set m" for k and m :: "(PositionKey \<times> AuditRecord) list"
    using that by (induction m) (auto simp: Cons_eq_append_conv)
  from this [OF fresh_key [OF assms]] obtain as bs where "ms_records s = as @ bs"
    "ms_records (mem_commit s r) = as @ (PositionKey_of r, r) # bs" by auto
  then show ?thesis using that [of "filter P (map snd as)" "filter P (map snd bs)"] by simp
qed

lemma mem_keys_ok_commit:
  assumes "mem_keys_ok s" "key_ok (PositionKey_of r)" "length (rc_record_id r) \<le> 64"
  shows "mem_keys_ok (mem_commit s r)"
  using assms set_bt_insert_subset [of "PositionKey_of r" r "ms_records s"] by (auto simp: mem_keys_ok_def)

lemma report_generate_again:
  assumes "mem_inv s" "mem_keys_ok s" "1 \<le> rs_page_size sv" "rs_page_size sv \<le> MAX_PAGE_SIZE" "in_i64 (at_record t)"
    and "report_generate X mem_audit sv t s request = Some (Inr report, s')"
    and "\<And>r. generation_record X (generation_step X sv request report) (at_record t) = Inr r \<Longrightarrow>
           \<not> mem_contains_event s (rc_event_id r) \<Longrightarrow> ms_by_record s (rc_record_id r) = None"
  shows "if counts_itself (rt_query request) (rs_network sv) (at_record t) \<and> s' \<noteq> s
    then \<forall>report2 s2. report_generate X mem_audit sv t s' request = Some (Inr report2, s2) \<longrightarrow>
           su_total_records (rp_summary report2) = Suc (su_total_records (rp_summary report)) \<and> report2 \<noteq> report
    else report_generate X mem_audit sv t s' request = Some (Inr report, s')"
proof -
  from assms(6) obtain q r where q: "to_audit_query (rt_query request) = Inr q"
    and ok: "report_require sv (at_authorize t) (rt_requested_by request) = Inr ()" "validate_request request = Inr ()"
    and b: "build_report X sv (at_now t) request (mem_matched s q) = Inr report"
    and r: "generation_record X (generation_step X sv request report) (at_record t) = Inr r" "s' = snd (mem_insert s r)"
    by (auto simp: report_generate_success [OF assms(1-4)])
  note f = generation_record_fields [OF r(1)]
  show ?thesis
  proof (cases "mem_contains_event s (rc_event_id r)")
    case True
    with r(2) f(1) have "s' = s" by (simp add: mem_insert_wf)
    with assms(6) show ?thesis by simp
  next
    case False
    with r(2) f(1) have s': "s' = mem_commit s r" by (simp add: mem_insert_wf)
    have fresh: "ms_by_record s (rc_record_id r) = None" using assms(7) [OF r(1) False] .
    have "key_ok (PositionKey_of r)"
      using report_event_fields(5) [OF f(6)] f(2,4) assms(5)
      by (simp add: key_ok_def PositionKey_of_def EventOrder_default_def)
    then have inv: "mem_inv s'" "mem_keys_ok s'"
      using mem_inv_commit [OF assms(1) f(1)] mem_keys_ok_commit [OF assms(2)] f(5) by (simp_all add: s')
    have again: "snd (mem_insert s' r) = s'" using f(1) by (simp add: s' mem_insert_wf)
    let ?P = "covers (rt_query request)"
    obtain as bs where cov: "filter ?P (map snd (ms_records s)) = as @ bs"
      "filter ?P (map snd (ms_records s')) = as @ (if ?P r then [r] else []) @ bs"
      using filter_commit [OF assms(1) fresh] unfolding s' by metis
    have P: "?P r \<longleftrightarrow> counts_itself (rt_query request) (rs_network sv) (at_record t)"
      using covers_generation [OF r(1)] by (simp add: generation_step_def)
    note filt = covered_history [OF q]
    show ?thesis
    proof (cases "?P r")
      case False
      have "build_report X sv (at_now t) request (mem_matched s' q) = Inr report"
        using b build_report_covered [of request "mem_matched s' q" "mem_matched s q" X sv "at_now t"] filt cov False by simp
      then have "report_generate X mem_audit sv t s' request = Some (Inr report, s')"
        unfolding report_generate_success [OF inv assms(3,4)] using ok q r(1) again by auto
      with P False show ?thesis by simp
    next
      case True
      have "su_total_records (rp_summary report2) = Suc (su_total_records (rp_summary report))"
        if "report_generate X mem_audit sv t s' request = Some (Inr report2, s2)" for report2 s2
      proof -
        from that q have b2: "build_report X sv (at_now t) request (mem_matched s' q) = Inr report2"
          by (auto simp: report_generate_success [OF inv assms(3,4)])
        show ?thesis
          using build_report_fields(2) [OF b] build_report_fields(2) [OF b2] cov True
          by (simp add: filt summarize_counts(4))
      qed
      moreover have "s' \<noteq> s" using False s' mem_contains_commit by metis
      ultimately show ?thesis using P True by auto
    qed
  qed
qed


definition sample_denied_request :: ReportRequest where
  "sample_denied_request = ReportRequest_new DeniedTransactions (ReportQuery_with_outcome DecisionResult.Denied) ''aud_a1'' 1"


end
