(* ===== verification/Audit_Evidence.thy ===== *)
theory Audit_Evidence
  imports Audit_Authorization "HOL-Library.Multiset"
begin

text \<open>
  \<open>crates/evidence\<close>: evidence manifests and packages, the builder that captures stored records, and
  the verification of a package with and without the store.
\<close>

section \<open>Errors, manifests, packages\<close>

datatype EvidenceError =
    NotAuthorized string string
  | NoSourceRecords
  | RecordMissing RecordId
  | TamperedSource string
  | InvalidContent string
  | Integrity string
  | EventRecord string
  | Internal string

fun EvidenceError_to_string :: "EvidenceError \<Rightarrow> string" where
  "EvidenceError_to_string (NotAuthorized a d) = ''auditor '' @ a @ '' is not authorized: '' @ d"
| "EvidenceError_to_string NoSourceRecords = ''evidence must name at least one source record''"
| "EvidenceError_to_string (EvidenceError.RecordMissing i) =
     ''source record '' @ i @ '' does not exist in the audit store''"
| "EvidenceError_to_string (TamperedSource d) = ''source record integrity failed: '' @ d"
| "EvidenceError_to_string (InvalidContent d) = ''invalid evidence content: '' @ d"
| "EvidenceError_to_string (EvidenceError.Integrity d) = ''integrity failure: '' @ d"
| "EvidenceError_to_string (EventRecord d) = ''recording the evidence event failed: '' @ d"
| "EvidenceError_to_string (EvidenceError.Internal d) = ''internal evidence error: '' @ d"

text \<open>\<open>map_err(EvidenceError::from_core)\<close> and \<open>from_integrity\<close>.\<close>

definition ev_from_core :: "AuditError + 'a \<Rightarrow> EvidenceError + 'a" where
  "ev_from_core r = map_err (\<lambda>e. EvidenceError.Internal (AuditError_to_string e)) r"

definition ev_from_integrity :: "IntegrityError + 'a \<Rightarrow> EvidenceError + 'a" where
  "ev_from_integrity r = map_err (\<lambda>e. EvidenceError.Integrity (IntegrityError_to_string e)) r"

lemma ev_from_eq_Inr [simp]:
  "ev_from_core r = Inr y \<longleftrightarrow> r = Inr y" "ev_from_integrity q = Inr y \<longleftrightarrow> q = Inr y"
  "ev_from_core (Inr x) = Inr x" "ev_from_integrity (Inr x) = Inr x"
  by (simp_all add: ev_from_core_def ev_from_integrity_def)

definition EVIDENCE_MANIFEST_SCHEMA_VERSION :: nat where
  "EVIDENCE_MANIFEST_SCHEMA_VERSION = 1"

record EvidenceManifest =
  em_manifest_id :: ManifestId
  em_artifact :: EvidenceId
  em_schema_version :: nat
  em_generated_at :: Timestamp
  em_software_version :: string
  em_parser_version :: VersionLabel
  em_network :: NetworkId
  em_from_ledger :: "int option"
  em_to_ledger :: "int option"
  em_record_count :: nat
  em_entries :: "ManifestEntry list"
  em_aggregate_digest :: IntegrityDigest

definition EvidenceManifest_validate :: "EvidenceManifest \<Rightarrow> AuditError + unit" where
  "EvidenceManifest_validate m =
     (if em_schema_version m \<noteq> EVIDENCE_MANIFEST_SCHEMA_VERSION
      then Inl (UnsupportedSchema (''evidence manifest schema version '' @ show_nat (em_schema_version m)
                  @ '' is not supported (expected '' @ show_nat EVIDENCE_MANIFEST_SCHEMA_VERSION @ '')''))
      else if em_record_count m \<noteq> length (em_entries m)
      then Inl (AuditError.ValidationFailure (''evidence manifest declares '' @ show_nat (em_record_count m)
                  @ '' records but carries '' @ show_nat (length (em_entries m))))
      else if range_inverted (em_from_ledger m) (em_to_ledger m)
      then Inl (AuditError.ValidationFailure ''evidence manifest ledger range start exceeds its end'')
      else Inr ())"

definition from_integrity_manifest ::
  "IntegrityManifest \<Rightarrow> EvidenceId \<Rightarrow> VersionLabel \<Rightarrow> NetworkId \<Rightarrow> EvidenceError + EvidenceManifest" where
  "from_integrity_manifest manifest artifact parser_version network =
     and_then (ev_from_core (IntegrityManifest_validate manifest)) (\<lambda>_.
     and_then
       (case im_aggregate_digest manifest of
          Some d \<Rightarrow> Inr d
        | None \<Rightarrow> Inl (InvalidContent ''evidence manifests require an aggregate digest'')) (\<lambda>aggregate.
     (let built = \<lparr>em_manifest_id = im_manifest_id manifest, em_artifact = artifact,
            em_schema_version = EVIDENCE_MANIFEST_SCHEMA_VERSION,
            em_generated_at = im_generated_at manifest,
            em_software_version = im_software_version manifest, em_parser_version = parser_version,
            em_network = network, em_from_ledger = im_from_ledger manifest,
            em_to_ledger = im_to_ledger manifest, em_record_count = im_record_count manifest,
            em_entries = im_entries manifest, em_aggregate_digest = aggregate\<rparr>
      in and_then
           (map_err (\<lambda>e. InvalidContent (''built manifest is invalid: '' @ AuditError_to_string e))
              (EvidenceManifest_validate built)) (\<lambda>_. Inr built))))"

record EvidencePackage =
  pk_artifact :: EvidenceArtifact
  pk_manifest :: EvidenceManifest

definition EvidencePackage_new :: "EvidenceArtifact \<Rightarrow> EvidenceManifest \<Rightarrow> EvidenceError + EvidencePackage" where
  "EvidencePackage_new artifact manifest =
     and_then
       (fail_if (em_artifact manifest \<noteq> ea_evidence_id artifact)
          (InvalidContent (''manifest certifies artifact '' @ em_artifact manifest
             @ '' but the package carries '' @ ea_evidence_id artifact))) (\<lambda>_.
     and_then
       (case ea_manifest_id artifact of
          None \<Rightarrow> Inr ()
        | Some i \<Rightarrow>
            fail_if (i \<noteq> em_manifest_id manifest)
              (InvalidContent (''artifact names manifest '' @ i @ '' but the package carries ''
                 @ em_manifest_id manifest))) (\<lambda>_.
     and_then (ev_from_core (EvidenceArtifact_validate artifact)) (\<lambda>_.
     and_then (ev_from_core (EvidenceManifest_validate manifest)) (\<lambda>_.
     Inr \<lparr>pk_artifact = artifact, pk_manifest = manifest\<rparr>))))"

section \<open>Verification\<close>

record EvidenceVerification =
  vv_artifact_verified :: bool
  vv_aggregate :: IntegrityStatus
  vv_records :: "VerificationOutcome list"
  vv_verified :: bool

record EvidenceVerificationSummary =
  vs_artifact :: bool
  vs_aggregate :: bool
  vs_records :: bool
  vs_verified :: bool

definition EvidenceVerificationSummary_from :: "EvidenceVerification \<Rightarrow> EvidenceVerificationSummary" where
  "EvidenceVerificationSummary_from v =
     \<lparr>vs_artifact = vv_artifact_verified v, vs_aggregate = is_verified (vv_aggregate v),
      vs_records = (vv_records v \<noteq> [] \<and> list_all (\<lambda>out. is_verified (vo_status out)) (vv_records v)),
      vs_verified = vv_verified v\<rparr>"

definition core_manifest :: "EvidencePackage \<Rightarrow> EvidenceError + IntegrityManifest" where
  "core_manifest package =
     (let m = pk_manifest package;
          core = IntegrityManifest_new (em_manifest_id m) (em_generated_at m) (em_software_version m)
                   (em_from_ledger m) (em_to_ledger m) (em_entries m) (Some (em_aggregate_digest m))
      in and_then (ev_from_core (IntegrityManifest_validate core)) (\<lambda>_. Inr core))"

definition verify_package_structure ::
  "('z) artifact_ext_scheme \<Rightarrow> EvidencePackage \<Rightarrow> EvidenceError + EvidenceVerification" where
  "verify_package_structure X package =
     (let artifact = pk_artifact package in
      and_then (ev_from_core (EvidenceArtifact_validate artifact)) (\<lambda>_.
      and_then
        (case ea_digest artifact of
           Some digest \<Rightarrow>
             map_ok (\<lambda>bs. hash_bytes X bs = digest) (ev_from_core (evidence_canonical_bytes X artifact))
         | None \<Rightarrow> Inr False) (\<lambda>artifact_verified.
      and_then (core_manifest package) (\<lambda>core.
      and_then (ev_from_integrity (verify_manifest_aggregate X core)) (\<lambda>aggregate.
      Inr \<lparr>vv_artifact_verified = artifact_verified, vv_aggregate = aggregate, vv_records = [],
           vv_verified = (artifact_verified \<and> is_verified aggregate)\<rparr>)))))"

definition verify_package ::
  "('z) artifact_ext_scheme \<Rightarrow> 's AuditStore \<Rightarrow> EvidencePackage \<Rightarrow> 's \<Rightarrow> EvidenceError + EvidenceVerification" where
  "verify_package X A package audit =
     and_then (verify_package_structure X package) (\<lambda>structure.
     and_then (core_manifest package) (\<lambda>core.
     (let records = List.map_filter
            (\<lambda>entry. case as_get A audit (me_record_id entry) of Inr r \<Rightarrow> Some r | Inl _ \<Rightarrow> None)
            (im_entries core)
      in and_then (ev_from_integrity (verify_manifest_records X core records)) (\<lambda>outcomes.
         (let records_ok = list_all (\<lambda>out. is_verified (vo_status out)) outcomes
          in Inr (structure\<lparr>vv_records := outcomes,
                    vv_verified := (vv_artifact_verified structure \<and> is_verified (vv_aggregate structure)
                                    \<and> records_ok)\<rparr>))))))"

section \<open>The builder\<close>

record EvidenceBuildOptions =
  bo_kind :: EvidenceKind
  bo_record_ids :: "RecordId list"
  bo_generated_by :: AuditorId

definition EvidenceBuildOptions_new ::
  "EvidenceKind \<Rightarrow> RecordId list \<Rightarrow> AuditorId \<Rightarrow> EvidenceError + EvidenceBuildOptions" where
  "EvidenceBuildOptions_new kind record_ids generated_by =
     (if record_ids = [] then Inl NoSourceRecords
      else Inr \<lparr>bo_kind = kind, bo_record_ids = record_ids, bo_generated_by = generated_by\<rparr>)"

record EvidenceBuilder =
  eb_network :: NetworkId
  eb_source :: string
  eb_parser :: VersionLabel
  eb_generator_version :: VersionLabel
  eb_registry :: Registry

definition evidence_require :: "EvidenceBuilder \<Rightarrow> Timestamp \<Rightarrow> AuditorId \<Rightarrow> EvidenceError + unit" where
  "evidence_require b now actor =
     (case authorize (eb_registry b) now actor GenerateEvidence (Network (eb_network b)) of
        Inl e \<Rightarrow> Inl (EvidenceError.Internal (''authorizer failure: '' @ AuthorizationError_to_string e))
      | Inr d \<Rightarrow>
          if ad_allowed d then Inr ()
          else let why = (case ad_reason d of Some r \<Rightarrow> r | None \<Rightarrow> ACTION_DENIED)
               in Inl (NotAuthorized actor (''cannot generate evidence: '' @ why)))"

fun require_intact :: "('z) integrity_ext_scheme \<Rightarrow> AuditRecord list \<Rightarrow> EvidenceError + unit" where
  "require_intact X [] = Inr ()"
| "require_intact X (r # rs) =
     (case rc_integrity r of
        None \<Rightarrow> require_intact X rs
      | Some integrity \<Rightarrow>
          (case ev_from_integrity (record_digest X r) of
             Inl e \<Rightarrow> Inl e
           | Inr recomputed \<Rightarrow>
               if recomputed \<noteq> ri_digest integrity
               then Inl (TamperedSource (''record '' @ rc_record_id r
                           @ '' carries a stored digest that no longer matches its body''))
               else require_intact X rs))"

definition record_generation ::
  "('z) event_ext_scheme \<Rightarrow> 's AuditStore \<Rightarrow> EvidenceLifecycle \<Rightarrow> Timestamp \<Rightarrow> 's
     \<Rightarrow> (EvidenceError + unit) \<times> 's" where
  "record_generation X A lifecycle now store =
     (case evidence_lifecycle_event X lifecycle EventSlot_default of
        Inl e \<Rightarrow> (Inl (EventRecord (EventError_to_string e)), store)
      | Inr event \<Rightarrow>
          (case from_event_classified X event Confidential now of
             Inl e \<Rightarrow> (Inl (EventRecord (AuditError_to_string e)), store)
           | Inr r \<Rightarrow>
               (case as_insert A store (r\<lparr>rc_redactions := detail_policy (rc_event r)\<rparr>) of
                  (Inr _, store') \<Rightarrow> (Inr (), store')
                | (Inl e, store') \<Rightarrow> (Inl (EventRecord (StoreError_to_string e)), store'))))"

definition ledger_range :: "AuditRecord list \<Rightarrow> int option \<times> int option" where
  "ledger_range records =
     (let ledgers = List.map_filter (\<lambda>r. eo_ledger_sequence (ev_order (rc_event r))) records
      in if length ledgers = length records \<and> ledgers \<noteq> []
         then (Some (Min (set ledgers)), Some (Max (set ledgers)))
         else (None, None))"

definition fetch_records ::
  "'s AuditStore \<Rightarrow> 's \<Rightarrow> RecordId list \<Rightarrow> EvidenceError + AuditRecord list" where
  "fetch_records A audit ids =
     try_map (\<lambda>i. map_err (\<lambda>_. EvidenceError.RecordMissing i) (as_get A audit i)) ids"

text \<open>The steps of \<open>build\<close> between fetching the sources and recording the generation.\<close>

definition assemble ::
  "('z) artifact_ext_scheme \<Rightarrow> EvidenceBuilder \<Rightarrow> Timestamp \<Rightarrow> EvidenceBuildOptions \<Rightarrow> AuditRecord list
     \<Rightarrow> EvidenceError + (EvidenceArtifact \<times> EvidenceManifest)" where
  "assemble X b now options records =
     (let record_ids = map rc_record_id records;
          source_events = map (\<lambda>r. ev_event_id (rc_event r)) records;
          evidence_id = id_derive X EvidenceIdT
            ([eb_network b, EvidenceKind_as_str (bo_kind options)] @ record_ids) in
      and_then (ev_from_core (EvidenceProvenance_new record_ids source_events (eb_parser b) (eb_generator_version b))) (\<lambda>provenance.
      (let artifact = EvidenceArtifact_new evidence_id (bo_kind options) provenance now (Some (bo_generated_by options)) in
      and_then (ev_from_core (evidence_canonical_bytes X artifact)) (\<lambda>bs.
      (let artifact = EvidenceArtifact_with_digest artifact (hash_bytes X bs);
           (from_ledger, to_ledger) = ledger_range records in
      and_then (ev_from_integrity (ManifestOptions_new from_ledger to_ledger (eb_generator_version b))) (\<lambda>opts.
      and_then (ev_from_integrity (build_manifest X records opts now)) (\<lambda>core.
      and_then (from_integrity_manifest core evidence_id (eb_parser b) (eb_network b)) (\<lambda>manifest.
      Inr (EvidenceArtifact_with_manifest artifact (em_manifest_id manifest), manifest)))))))))"

definition evidence_build ::
  "('z) artifact_ext_scheme \<Rightarrow> 's AuditStore \<Rightarrow> EvidenceBuilder \<Rightarrow> clock_reads \<Rightarrow> 's \<Rightarrow> EvidenceBuildOptions
     \<Rightarrow> (EvidenceError + EvidencePackage) \<times> 's" where
  "evidence_build X A b t audit options =
     (case and_then (evidence_require b (at_authorize t) (bo_generated_by options)) (\<lambda>_.
           and_then (fetch_records A audit (bo_record_ids options)) (\<lambda>records.
           and_then (require_intact X records) (\<lambda>_.
           map_ok (Pair (length records))
             (assemble X b (at_now t) options (sort_key rc_record_id records))))) of
        Inl e \<Rightarrow> (Inl e, audit)
      | Inr (record_count, artifact, manifest) \<Rightarrow>
          (case record_generation X A
                  \<lparr>el_network = eb_network b, el_source = eb_source b, el_parser = eb_parser b,
                   el_evidence = ea_evidence_id artifact, el_kind = bo_kind options,
                   el_record_count = record_count,
                   el_manifest = Some (em_manifest_id manifest), el_digest = ea_digest artifact\<rparr>
                  (at_record t) audit of
             (Inl e, audit') \<Rightarrow> (Inl e, audit')
           | (Inr _, audit') \<Rightarrow> (EvidencePackage_new artifact manifest, audit')))"

section \<open>Building and verifying\<close>

lemma fetch_records_Inr:
  "fetch_records A s ids = Inr rs \<longleftrightarrow> list_all2 (\<lambda>i r. as_get A s i = Inr r) ids rs"
  by (simp add: fetch_records_def try_map_eq_Inr)

lemma require_intact_Inr:
  "require_intact X rs = Inr () \<longleftrightarrow>
     (\<forall>r i. r \<in> set rs \<longrightarrow> rc_integrity r = Some i \<longrightarrow> record_digest X r = Inr (ri_digest i))"
proof (induction rs)
  case (Cons r rs)
  show ?case
  proof (cases "rc_integrity r")
    case None
    with Cons show ?thesis by auto
  next
    case (Some i)
    then show ?thesis
    proof (cases "record_digest X r")
      case (Inr d)
      with Some Cons show ?thesis by (auto simp: ev_from_integrity_def)
    qed (auto simp: ev_from_integrity_def)
  qed
qed simp

lemma assemble_Inr:
  assumes "assemble X b now options records = Inr (artifact, manifest)"
  obtains core opts bs where "build_manifest X records opts now = Inr core"
    "from_integrity_manifest core (ea_evidence_id artifact) (eb_parser b) (eb_network b) = Inr manifest"
    "evidence_canonical_bytes X artifact = Inr bs" "ea_digest artifact = Some (hash_bytes X bs)"
    "ea_manifest_id artifact = Some (em_manifest_id manifest)" "EvidenceArtifact_validate artifact = Inr ()"
    "ea_evidence_id artifact = id_derive X EvidenceIdT
       ([eb_network b, EvidenceKind_as_str (bo_kind options)] @ map rc_record_id records)"
proof -
  obtain from_ledger to_ledger where range: "ledger_range records = (from_ledger, to_ledger)"
    by (cases "ledger_range records")
  from assms range show thesis
    by (auto simp: assemble_def Let_def and_then_eq_Inr EvidenceArtifact_with_manifest_def
        EvidenceArtifact_with_digest_def EvidenceArtifact_new_def evidence_canonical_bytes_def
        EvidenceArtifact_validate_def intro!: that)
qed

lemma from_integrity_manifest_Inr:
  assumes "from_integrity_manifest core i p n = Inr m"
  shows "em_artifact m = i" "EvidenceManifest_validate m = Inr ()" "em_entries m = im_entries core"
    "em_manifest_id m = im_manifest_id core" "im_aggregate_digest core = Some (em_aggregate_digest m)"
    "em_generated_at m = im_generated_at core" "em_software_version m = im_software_version core"
    "em_from_ledger m = im_from_ledger core" "em_to_ledger m = im_to_ledger core"
    "IntegrityManifest_validate core = Inr ()"
  using assms by (auto simp: from_integrity_manifest_def Let_def and_then_eq_Inr split: option.splits)

lemma IntegrityManifest_validate_Inr:
  "IntegrityManifest_validate m = Inr () \<longleftrightarrow>
     im_schema_version m = INTEGRITY_MANIFEST_SCHEMA_VERSION
     \<and> \<not> range_inverted (im_from_ledger m) (im_to_ledger m) \<and> im_record_count m = length (im_entries m)"
  by (simp add: IntegrityManifest_validate_def)

text \<open>The core manifest rebuilt from a package is the one it was made from.\<close>

lemma core_manifest_round_trip:
  assumes "from_integrity_manifest core i p n = Inr m"
  shows "core_manifest \<lparr>pk_artifact = a, pk_manifest = m\<rparr> = Inr core"
proof -
  note f = from_integrity_manifest_Inr [OF assms]
  have "IntegrityManifest_new (em_manifest_id m) (em_generated_at m) (em_software_version m)
      (em_from_ledger m) (em_to_ledger m) (em_entries m) (Some (em_aggregate_digest m)) = core"
    using f by (cases core) (auto simp: IntegrityManifest_new_def IntegrityManifest_validate_Inr)
  with f(10) show ?thesis by (simp add: core_manifest_def Let_def)
qed

lemma evidence_build_Inr:
  assumes "evidence_build X A b t s options = (Inr package, s')"
  obtains records artifact manifest where
    "fetch_records A s (bo_record_ids options) = Inr records" "require_intact X records = Inr ()"
    "assemble X b (at_now t) options (sort_key rc_record_id records) = Inr (artifact, manifest)"
    "package = \<lparr>pk_artifact = artifact, pk_manifest = manifest\<rparr>"
  using assms
  by (auto simp: evidence_build_def and_then_eq_Inr map_ok_eq_Inr EvidencePackage_new_def
      split: sum.splits prod.splits)

lemma map_filter_get:
  assumes "\<And>r. r \<in> set rs \<Longrightarrow> get (rc_record_id r) = Inr r"
  shows "List.map_filter (\<lambda>i. case get i of Inr r \<Rightarrow> Some r | Inl _ \<Rightarrow> None) (map rc_record_id rs) = rs"
  using assms by (induction rs) (simp_all add: map_filter_simps)

lemma map_filter_map_key:
  "List.map_filter (\<lambda>e. f (k e)) es = List.map_filter f (map k es)"
  by (induction es) (simp_all add: map_filter_simps split: option.split)

lemma mem_get_record_id:
  assumes "mem_inv s" "mem_get s i = Inr r"
  shows "rc_record_id r = i"
  using assms by (auto simp: mem_get_def split: option.splits elim: mem_inv_by_record [OF assms(1)])

lemma verify_package_of_manifest:
  assumes m: "build_manifest X rs opts now = Inr core"
    and f: "from_integrity_manifest core i p n = Inr manifest"
    and a: "evidence_canonical_bytes X artifact = Inr bs" "ea_digest artifact = Some (hash_bytes X bs)"
      "EvidenceArtifact_validate artifact = Inr ()"
    and get: "\<And>r. r \<in> set rs \<Longrightarrow> as_get A s (rc_record_id r) = Inr r"
  shows "\<exists>v. verify_package X A \<lparr>pk_artifact = artifact, pk_manifest = manifest\<rparr> s = Inr v
    \<and> vv_verified v \<and> map vo_record_id (vv_records v) = map rc_record_id rs"
proof -
  let ?p = "\<lparr>pk_artifact = artifact, pk_manifest = manifest\<rparr>"
  have core: "core_manifest ?p = Inr core" by (rule core_manifest_round_trip [OF f])
  from build_manifest_sound [OF m] obtain os where agg: "verify_manifest_aggregate X core = Inr Verified"
    and os: "verify_manifest_records X core rs = Inr os" "map vo_record_id os = map rc_record_id rs"
      "list_all (\<lambda>out. vo_status out = Verified) os" by blast
  have st: "verify_package_structure X ?p = Inr \<lparr>vv_artifact_verified = True, vv_aggregate = Verified,
      vv_records = [], vv_verified = True\<rparr>"
    using a core agg by (simp add: verify_package_structure_def Let_def)
  have "map me_record_id (im_entries core) = map rc_record_id rs"
  proof -
    from m have "manifest_entries X {} rs = Inr (im_entries core)" by (rule build_manifest_eq_Inr)
    then have "list_all2 (\<lambda>r e. me_record_id e = rc_record_id r \<and> record_digest X r = Inr (me_digest e)) rs (im_entries core)"
      by (simp add: manifest_entries_eq_Inr)
    then show ?thesis by (induction rule: list_all2_induct) auto
  qed
  then have "List.map_filter (\<lambda>entry. case as_get A s (me_record_id entry) of Inr r \<Rightarrow> Some r | Inl _ \<Rightarrow> None)
      (im_entries core) = rs"
    using map_filter_get [of rs "as_get A s", OF get]
      map_filter_map_key [of "\<lambda>i. case as_get A s i of Inr r \<Rightarrow> Some r | Inl _ \<Rightarrow> None" me_record_id "im_entries core"]
    by simp
  with st core os show ?thesis
    by (auto simp: verify_package_def Let_def list_all_iff)
qed

lemma fetch_records_perm:
  assumes "fetch_records A s ids = Inr rs" "mset ids' = mset ids"
  obtains rs' where "fetch_records A s ids' = Inr rs'" "mset rs' = mset rs"
proof -
  from assms(1) have l2: "list_all2 (\<lambda>i r. as_get A s i = Inr r) ids rs" by (simp add: fetch_records_Inr)
  then have rs: "rs = map (\<lambda>i. projr (as_get A s i)) ids" and ok: "\<forall>i \<in> set ids. \<exists>r. as_get A s i = Inr r"
    by (induction rule: list_all2_induct) auto
  have "\<forall>i \<in> set ids'. as_get A s i = Inr (projr (as_get A s i))"
    using ok mset_eq_setD [OF assms(2)] by auto
  then have "list_all2 (\<lambda>i r. as_get A s i = Inr r) ids' (map (\<lambda>i. projr (as_get A s i)) ids')"
    by (simp add: list.rel_map list.rel_refl_strong)
  then have "fetch_records A s ids' = Inr (map (\<lambda>i. projr (as_get A s i)) ids')"
    by (simp add: fetch_records_Inr)
  then show thesis by (rule that) (simp add: rs assms(2))
qed

lemma fetch_records_ids:
  assumes "mem_inv s" "fetch_records mem_audit s ids = Inr rs"
  shows "map rc_record_id rs = ids" "\<And>r. r \<in> set rs \<Longrightarrow> mem_get s (rc_record_id r) = Inr r"
proof -
  have l2: "list_all2 (\<lambda>i r. mem_get s i = Inr r) ids rs"
    using assms(2) by (simp add: fetch_records_Inr mem_audit_def)
  have id: "rc_record_id r = i" if "mem_get s i = Inr r" for i r
    using that by (rule mem_get_record_id [OF assms(1)])
  from l2 have "list_all2 (\<lambda>i r. i = rc_record_id r) ids rs"
    by (rule list_all2_mono) (simp add: id)
  then show "map rc_record_id rs = ids" by (induction rule: list_all2_induct) simp_all
  fix r assume "r \<in> set rs"
  with l2 obtain i where "mem_get s i = Inr r" by (blast dest: list_all2_right)
  then show "mem_get s (rc_record_id r) = Inr r" using id by simp
qed

lemma fetch_records_inj:
  assumes "mem_inv s" "fetch_records mem_audit s ids = Inr rs"
  shows "inj_on rc_record_id (set rs)"
  by (rule inj_on_inverseI [where g = "\<lambda>i. projr (mem_get s i)"])
    (simp add: fetch_records_ids(2) [OF assms])

text \<open>
  Evidence that was built verifies.  Whenever the builder returns a package, verifying it against
  any store that still returns the named records as they were at the time succeeds: the artifact's
  digest, the manifest's aggregate digest and one digest per source record all check, with exactly
  one outcome for each named record.
\<close>

lemma evidence_package_verifies:
  assumes "evidence_build X mem_audit b t s options = (Inr package, s')"
    and "mem_inv s"
    and "\<forall>i \<in> set (bo_record_ids options). mem_get s'' i = mem_get s i"
  shows "\<exists>v. verify_package X mem_audit package s'' = Inr v \<and> vv_verified v
    \<and> mset (map vo_record_id (vv_records v)) = mset (bo_record_ids options)"
proof -
  from assms(1) obtain records artifact manifest where
    r: "fetch_records mem_audit s (bo_record_ids options) = Inr records" "require_intact X records = Inr ()"
      "assemble X b (at_now t) options (sort_key rc_record_id records) = Inr (artifact, manifest)"
    and p: "package = \<lparr>pk_artifact = artifact, pk_manifest = manifest\<rparr>"
    by (rule evidence_build_Inr)
  note ids = fetch_records_ids [OF assms(2) r(1)]
  have get: "as_get mem_audit s'' (rc_record_id r) = Inr r" if "r \<in> set records" for r
    using that ids assms(3) by (auto simp: mem_audit_def simp flip: ids(1))
  from r(3) obtain core opts bs where
    "build_manifest X (sort_key rc_record_id records) opts (at_now t) = Inr core"
    "from_integrity_manifest core (ea_evidence_id artifact) (eb_parser b) (eb_network b) = Inr manifest"
    "evidence_canonical_bytes X artifact = Inr bs" "ea_digest artifact = Some (hash_bytes X bs)"
    "EvidenceArtifact_validate artifact = Inr ()"
    by (rule assemble_Inr)
  from verify_package_of_manifest [OF this, of mem_audit s''] get obtain v where
    v: "verify_package X mem_audit package s'' = Inr v" "vv_verified v"
      "map vo_record_id (vv_records v) = map rc_record_id (sort_key rc_record_id records)"
    by (auto simp: p)
  from arg_cong [OF v(3), of mset] have "mset (map vo_record_id (vv_records v)) = mset (bo_record_ids options)"
    by (simp flip: ids(1))
  with v show ?thesis by blast
qed

text \<open>The consistency checks of \<open>EvidencePackage::new\<close> never refuse what \<open>build\<close> assembled.\<close>

lemma assemble_packages:
  assumes "assemble X b now options records = Inr (artifact, manifest)"
  shows "EvidencePackage_new artifact manifest = Inr \<lparr>pk_artifact = artifact, pk_manifest = manifest\<rparr>"
proof -
  from assms obtain core where
    f: "from_integrity_manifest core (ea_evidence_id artifact) (eb_parser b) (eb_network b) = Inr manifest"
    and a: "ea_manifest_id artifact = Some (em_manifest_id manifest)" "EvidenceArtifact_validate artifact = Inr ()"
    by (rule assemble_Inr)
  from from_integrity_manifest_Inr(1,2) [OF f] a show ?thesis by (simp add: EvidencePackage_new_def)
qed

lemma assemble_update [simp]:
  "assemble X b now (options\<lparr>bo_record_ids := ids\<rparr>) rs = assemble X b now options rs"
  by (simp add: assemble_def)

text \<open>
  The order in which record ids are supplied does not matter.  When a build succeeds, a build over
  any rearrangement of the same ids, at the same time and over the same store, returns the same
  package and leaves the same store.
\<close>

lemma evidence_order_independent:
  assumes "evidence_build X mem_audit b t s options = (Inr package, s')"
    and "mem_inv s" and "mset ids = mset (bo_record_ids options)"
  shows "evidence_build X mem_audit b t s (options\<lparr>bo_record_ids := ids\<rparr>) = (Inr package, s')"
proof -
  from assms(1) obtain records where
    r: "fetch_records mem_audit s (bo_record_ids options) = Inr records" "require_intact X records = Inr ()"
    by (rule evidence_build_Inr)
  obtain records' where r': "fetch_records mem_audit s ids = Inr records'"
    and same: "mset records' = mset records"
    using fetch_records_perm [OF r(1) assms(3)] by blast
  have inj: "inj_on rc_record_id (set records')"
    using mset_eq_setD [OF same] fetch_records_inj [OF assms(2) r(1)] by simp
  have "sort_key rc_record_id records' = sort_key rc_record_id records"
    using same inj by (intro sort_key_inj_key_eq) simp_all
  moreover have "require_intact X records' = Inr ()"
    using r(2) mset_eq_setD [OF same] by (simp add: require_intact_Inr)
  ultimately show ?thesis
    using assms(1) r r' mset_eq_length [OF same]
    by (simp add: evidence_build_def cong: sum.case_cong prod.case_cong)
qed

text \<open>The stored block of a record behind the first of a verified chain hashes its predecessor's digest in.\<close>

lemma verify_chain_member:
  assumes "verify_chain X (xs @ r # zs) = Inr ()" "xs \<noteq> []"
  obtains p a i where "chain_head None xs = Some p" "canonical_record_input X r = Inr a"
    "rc_integrity r = Some i" "ri_digest i = hash_bytes X (dg_value p @ a)"
proof -
  from assms(1) have "verify_chain X (xs @ [r]) = Inr ()" and v: "verify_chain X xs = Inr ()"
    by (auto simp: verify_chain_def verify_from_append verify_from_Cons simp del: verify_from.simps(2))
  then obtain a d where "canonical_record_input X r = Inr a" "chain_step X (chain_head None xs) r = Inr d"
    "rc_integrity r = Some \<lparr>ri_digest = d, ri_prev_digest = chain_head None xs, ri_chained = True\<rparr>"
    by (auto simp: verify_chain_def verify_from_append verify_from_Cons chain_step_eq_Inr simp del: verify_from.simps)
  moreover obtain p where "chain_head None xs = Some p"
    using verify_chain_head(1) [OF v] assms(2) by auto
  ultimately show thesis by (auto simp: chain_step_eq_Inr intro: that)
qed

text \<open>
  C37: a record sealed into a chain behind its first record cannot become evidence.  The builder compares
  the stored digest with the standalone digest of the body, while a chained block also covers the
  predecessor's digest, so every build that names such a record is refused and nothing is recorded,
  unless those two inputs (the body, and the predecessor's digest followed by the body) have the same SHA-256 value.
\<close>

theorem chained_evidence_refused:
  assumes "verify_chain X (xs @ r # zs) = Inr ()" and "xs \<noteq> []"
    and "mem_get s i = Inr r" and "i \<in> set (bo_record_ids options)"
  shows "(\<exists>e. evidence_build X mem_audit b t s options = (Inl e, s))
    \<or> (\<exists>p a. chain_head None xs = Some p \<and> canonical_record_input X r = Inr a
         \<and> sha256 X (dg_value p @ a) = sha256 X a)"
proof -
  from assms(1,2) obtain p a k where k: "chain_head None xs = Some p" "canonical_record_input X r = Inr a"
    "rc_integrity r = Some k" "ri_digest k = hash_bytes X (dg_value p @ a)"
    by (rule verify_chain_member)
  show ?thesis
  proof (cases "\<exists>records. fetch_records mem_audit s (bo_record_ids options) = Inr records \<and> require_intact X records = Inr ()")
    case True
    then obtain records where r: "fetch_records mem_audit s (bo_record_ids options) = Inr records"
      "require_intact X records = Inr ()" by blast
    from r(1) have "list_all2 (\<lambda>i r. mem_get s i = Inr r) (bo_record_ids options) records"
      by (simp add: fetch_records_Inr mem_audit_def)
    from list_all2_left [OF this assms(4)] assms(3) have "r \<in> set records" by auto
    with r(2) k have "hash_bytes X a = hash_bytes X (dg_value p @ a)"
      by (auto simp: require_intact_Inr record_digest_def)
    with k show ?thesis by auto
  next
    case False
    then show ?thesis
      by (cases "fetch_records mem_audit s (bo_record_ids options)";
          cases "evidence_require b (at_authorize t) (bo_generated_by options)")
        (auto simp: evidence_build_def and_then_eq_Inr split: sum.split)
  qed
qed

section \<open>Building succeeds\<close>

text \<open>The encoders accept every value.\<close>

definition encodes :: "('z) artifact_ext_scheme \<Rightarrow> bool" where
  "encodes X \<longleftrightarrow> (\<forall>e. \<exists>bs. json_event X e = Inr bs) \<and> (\<forall>r. \<exists>d. record_digest X r = Inr d)
     \<and> (\<forall>es. \<exists>bs. json_entries X es = Inr bs) \<and> (\<forall>a. \<exists>bs. json_evidence X a = Inr bs)"

lemma encodesD:
  assumes "encodes X"
  shows "json_event X e = Inr (projr (json_event X e))" "record_digest X r = Inr (projr (record_digest X r))"
    "json_entries X es = Inr (projr (json_entries X es))" "json_evidence X a = Inr (projr (json_evidence X a))"
  using assms by (metis encodes_def sum.sel(2))+

lemma build_manifest_succeeds:
  assumes "encodes X" "distinct (map rc_record_id rs)" "\<not> range_inverted (mo_from_ledger opts) (mo_to_ledger opts)"
  obtains m where "build_manifest X rs opts now = Inr m"
    "IntegrityManifest_validate m = Inr ()" "im_aggregate_digest m \<noteq> None"
proof -
  let ?es = "map (\<lambda>r. \<lparr>me_record_id = rc_record_id r, me_digest = projr (record_digest X r)\<rparr>) rs"
  have "manifest_entries X {} rs = Inr ?es"
    using assms(2) encodesD(2) [OF assms(1)] by (simp add: manifest_entries_eq_Inr list.rel_map list.rel_refl)
  moreover obtain bs where "json_entries X ?es = Inr bs" using encodesD(3) [OF assms(1)] by blast
  ultimately have "\<exists>m. build_manifest X rs opts now = Inr m"
    using assms(3)
    by (simp add: build_manifest_def aggregate_hex_def aggregate_input_def Let_def
        IntegrityManifest_new_def IntegrityManifest_validate_def del: map_map)
  then obtain m where m: "build_manifest X rs opts now = Inr m" ..
  then obtain bs where "IntegrityManifest_validate m = Inr ()"
    "im_aggregate_digest m = Some (hash_bytes X bs)"
    by (rule build_manifest_eq_Inr)
  with m show thesis by (intro that [of m]) simp_all
qed

lemma Min_le_Max: "xs \<noteq> [] \<Longrightarrow> Min (set xs) \<le> Max (set xs)"
  using Min_le [of "set xs" "hd xs"] Max_ge [of "set xs" "hd xs"] by (simp add: order_trans)

lemma ledger_range_ordered:
  "ledger_range rs = (l, u) \<Longrightarrow> \<not> range_inverted l u"
  by (auto simp: ledger_range_def Let_def range_inverted_def not_less simp del: Min_le_iff Max_ge_iff Max_less_iff Min_gr_iff
      split: if_splits dest!: Min_le_Max)

lemma assemble_succeeds:
  assumes "encodes X" "distinct (map rc_record_id rs)" "rs \<noteq> []" "VersionLabel_new (eb_generator_version b) = Inr v"
  shows "\<exists>a m. assemble X b now options rs = Inr (a, m)"
proof -
  obtain l u where range: "ledger_range rs = (l, u)" by (cases "ledger_range rs")
  note ordered = ledger_range_ordered [OF range]
  with assms(4) obtain opts where opts: "ManifestOptions_new l u (eb_generator_version b) = Inr opts"
    and lu: "mo_from_ledger opts = l" "mo_to_ledger opts = u"
    by (auto simp: ManifestOptions_new_def range_inverted_def split: option.splits)
  from assms(1,2) ordered obtain m where m: "build_manifest X rs opts now = Inr m"
    "IntegrityManifest_validate m = Inr ()" "im_aggregate_digest m \<noteq> None"
    by (rule build_manifest_succeeds [of X rs opts now, unfolded lu])
  moreover obtain em where "from_integrity_manifest m (id_derive X EvidenceIdT
      ([eb_network b, EvidenceKind_as_str (bo_kind options)] @ map rc_record_id rs))
      (eb_parser b) (eb_network b) = Inr em"
    using m(2,3) m(2) [unfolded IntegrityManifest_validate_Inr]
    by (auto simp: from_integrity_manifest_def Let_def EvidenceManifest_validate_def)
  moreover obtain js where "json_evidence X = (\<lambda>a. Inr (js a))"
  proof (rule that [of "\<lambda>a. projr (json_evidence X a)"])
    show "json_evidence X = (\<lambda>a. Inr (projr (json_evidence X a)))" by (rule ext) (rule encodesD(4) [OF assms(1)])
  qed
  ultimately show ?thesis
    using opts range assms(3)
    by (simp add: assemble_def Let_def EvidenceProvenance_new_def evidence_canonical_bytes_def)
qed

text \<open>The record a generation becomes.\<close>

definition evidence_record ::
  "('z) event_ext_scheme \<Rightarrow> EvidenceLifecycle \<Rightarrow> Timestamp \<Rightarrow> EvidenceError + AuditRecord" where
  "evidence_record X l now =
     and_then (map_err (\<lambda>e. EventRecord (EventError_to_string e)) (evidence_lifecycle_event X l EventSlot_default)) (\<lambda>event.
     map_ok (\<lambda>r. r\<lparr>rc_redactions := detail_policy (rc_event r)\<rparr>)
       (map_err (\<lambda>e. EventRecord (AuditError_to_string e)) (from_event_classified X event Confidential now)))"

text \<open>The step the builder records of a package.\<close>

definition evidence_lifecycle :: "EvidenceBuilder \<Rightarrow> EvidenceBuildOptions \<Rightarrow> EvidencePackage \<Rightarrow> EvidenceLifecycle" where
  "evidence_lifecycle b options package =
     \<lparr>el_network = eb_network b, el_source = eb_source b, el_parser = eb_parser b,
      el_evidence = ea_evidence_id (pk_artifact package), el_kind = bo_kind options,
      el_record_count = length (bo_record_ids options),
      el_manifest = Some (em_manifest_id (pk_manifest package)), el_digest = ea_digest (pk_artifact package)\<rparr>"

lemma evidence_record_fields:
  assumes "evidence_record X l now = Inr r"
  shows "record_wf r" "ev_kind (rc_event r) = EventKind.EvidenceGenerated"
    "evidence_lifecycle_event X l EventSlot_default = Inr (rc_event r)"
    "\<exists>bs. json_event X (rc_event r) = Inr bs \<and> rc_record_id r = id_derive_bytes X RecordIdT bs"
proof -
  from assms obtain e r' where e: "evidence_lifecycle_event X l EventSlot_default = Inr e"
    "from_event_classified X e Confidential now = Inr r'" "r = r'\<lparr>rc_redactions := detail_policy (rc_event r')\<rparr>"
    by (auto simp: evidence_record_def and_then_eq_Inr map_ok_eq_Inr)
  have kind: "ev_kind e = EventKind.EvidenceGenerated"
    using e(1) by (auto simp: evidence_lifecycle_event_def map_ok_eq_Inr dest!: derived_base(3))
  then have "ev_kind e \<noteq> EventKind.RecordCorrected" by simp
  note wf = from_event_classified_wf [OF e(2) this]
  show "record_wf r" using wf by (auto simp: e(3) record_wf_def)
  show "evidence_lifecycle_event X l EventSlot_default = Inr (rc_event r)" "ev_kind (rc_event r) = EventKind.EvidenceGenerated"
    using wf e(1) kind by (simp_all add: e(3))
  show "\<exists>bs. json_event X (rc_event r) = Inr bs \<and> rc_record_id r = id_derive_bytes X RecordIdT bs"
    using e(2) by (auto simp: e(3) from_event_classified_def from_event_def event_canonical_bytes_def split: sum.splits)
qed

lemma record_generation_eq:
  "record_generation X mem_audit l now s =
     (case evidence_record X l now of Inl e \<Rightarrow> (Inl e, s) | Inr r \<Rightarrow> (Inr (), snd (mem_insert s r)))"
proof (cases "evidence_record X l now")
  case (Inl e)
  then show ?thesis
    by (auto simp: record_generation_def evidence_record_def and_then_eq_Inl split: sum.splits)
next
  case (Inr r)
  from evidence_record_fields(1) [OF Inr] obtain out s' where "mem_insert s r = (Inr out, s')"
    by (cases "mem_contains_event s (rc_event_id r)") (auto simp: mem_insert_wf)
  with Inr show ?thesis
    by (auto simp: record_generation_def evidence_record_def and_then_eq_Inr map_ok_eq_Inr mem_audit_def)
qed

lemma evidence_record_total:
  assumes "encodes X" "EventProvenance_new Derived (el_source l) (el_parser l) = Inr p"
  shows "\<exists>r. evidence_record X l now = Inr r"
proof -
  from assms(2) obtain e where e: "evidence_lifecycle_event X l EventSlot_default = Inr e"
    by (auto simp: evidence_lifecycle_event_def derived_audit_event_base_def DerivationInfo_new_def
        invalid_field_def ascii_defs byte_def)
  have "AuditEvent_validate e = Inr ()"
    using payload_envelope [OF payload_event.intros(8) [OF e]]
    by (simp add: envelope_def tx_on_def AuditEvent_validate_Inr)
  moreover obtain bs where "json_event X e = Inr bs" using encodesD(1) [OF assms(1)] by blast
  ultimately show ?thesis
    using e by (auto simp: evidence_record_def from_event_classified_def from_event_def event_canonical_bytes_def)
qed

lemma evidence_record_details:
  assumes "evidence_record X l now = Inr r"
  shows "map_of (ev_details (rc_event r)) ''evidence'' = Some (el_evidence l)"
    "map_of (ev_details (rc_event r)) ''kind'' = Some (EvidenceKind_as_str (el_kind l))"
    "map_of (ev_details (rc_event r)) ''records'' = Some (show_nat (el_record_count l))"
  using evidence_record_fields(3) [OF assms]
  by (auto simp: evidence_lifecycle_event_def derived_audit_event_base_def map_ok_eq_Inr and_then_eq_Inr Let_def AuditEvent_new_def
      set_detail_def set_detail_opt_def map_of_bt_insert split: option.splits)

lemma insert_keeps_records:
  assumes "mem_inv s" "ms_by_record s (rc_record_id r) = None" "record_wf r" "mem_get s i = Inr r'"
  shows "mem_get (snd (mem_insert s r)) i = Inr r'"
proof -
  have "i \<noteq> rc_record_id r" using assms(2,4) by (auto simp: mem_get_def)
  then show ?thesis using assms by (simp add: mem_insert_wf mem_commit_get)
qed

text \<open>
  An authorized build over stored, intact records returns a package whenever the encoders accept
  its values and the builder's labels are well-formed.
\<close>

lemma evidence_build_total:
  assumes "encodes X" "VersionLabel_new (eb_generator_version b) = Inr v"
    and "EventProvenance_new Derived (eb_source b) (eb_parser b) = Inr p"
    and "evidence_require b (at_authorize t) (bo_generated_by options) = Inr ()"
    and "fetch_records mem_audit s (bo_record_ids options) = Inr records" "require_intact X records = Inr ()"
    and "records \<noteq> []" "distinct (map rc_record_id records)"
  obtains package r where "evidence_build X mem_audit b t s options = (Inr package, snd (mem_insert s r))"
    "evidence_record X (evidence_lifecycle b options package) (at_record t) = Inr r" "em_record_count (pk_manifest package) = length records"
proof -
  have "mset (map rc_record_id (sort_key rc_record_id records)) = mset (map rc_record_id records)" by simp
  with assms(8) have "distinct (map rc_record_id (sort_key rc_record_id records))"
    using mset_eq_imp_distinct_iff by blast
  moreover have "sort_key rc_record_id records \<noteq> []"
    using assms(7) by (metis length_0_conv length_sort)
  ultimately obtain a m where
    am: "assemble X b (at_now t) options (sort_key rc_record_id records) = Inr (a, m)"
    using assemble_succeeds [OF assms(1)] assms(2) by blast
  let ?l = "\<lparr>el_network = eb_network b, el_source = eb_source b, el_parser = eb_parser b,
      el_evidence = ea_evidence_id a, el_kind = bo_kind options, el_record_count = length records,
      el_manifest = Some (em_manifest_id m), el_digest = ea_digest a\<rparr>"
  obtain r where r: "evidence_record X ?l (at_record t) = Inr r"
    using evidence_record_total [OF assms(1), of ?l] assms(3) by auto
  from am obtain core opts where core: "build_manifest X (sort_key rc_record_id records) opts (at_now t) = Inr core"
    "from_integrity_manifest core (ea_evidence_id a) (eb_parser b) (eb_network b) = Inr m" by (rule assemble_Inr)
  note mf = from_integrity_manifest_Inr [OF core(2)]
  have "manifest_entries X {} (sort_key rc_record_id records) = Inr (im_entries core)" using core(1) by (rule build_manifest_eq_Inr)
  then have "em_record_count m = length records"
    using mf(2,3) by (auto simp: manifest_entries_eq_Inr EvidenceManifest_validate_def dest: list_all2_lengthD split: if_splits)
  then show ?thesis
    using that [of "\<lparr>pk_artifact = a, pk_manifest = m\<rparr>" r] assemble_packages [OF am] r am assms(4-6)
      list_all2_lengthD [OF assms(5) [unfolded fetch_records_Inr]]
    by (auto simp: evidence_build_def record_generation_eq evidence_lifecycle_def)
qed

lemma evidence_build_succeeds:
  assumes "encodes X" "VersionLabel_new (eb_generator_version b) = Inr v"
    and "EventProvenance_new Derived (eb_source b) (eb_parser b) = Inr p"
    and "evidence_require b (at_authorize t) (bo_generated_by options) = Inr ()"
    and "fetch_records mem_audit s (bo_record_ids options) = Inr records" "require_intact X records = Inr ()"
    and "records \<noteq> []" "distinct (map rc_record_id records)"
  shows "\<exists>package s'. evidence_build X mem_audit b t s options = (Inr package, s')"
  using evidence_build_total [OF assms] by metis

text \<open>The same from the identifiers: each names a stored record, at most once, whose body matches the digest it carries.\<close>

definition ids_intact :: "('z) integrity_ext_scheme \<Rightarrow> MemoryEventStore \<Rightarrow> RecordId list \<Rightarrow> bool" where
  "ids_intact X s ids \<longleftrightarrow> ids \<noteq> [] \<and> distinct ids
     \<and> (\<forall>i \<in> set ids. \<exists>r. mem_get s i = Inr r
          \<and> (\<forall>block. rc_integrity r = Some block \<longrightarrow> record_digest X r = Inr (ri_digest block)))"

lemma ids_intact_fetched:
  assumes "mem_inv s" "ids_intact X s ids"
  obtains rs where "fetch_records mem_audit s ids = Inr rs" "require_intact X rs = Inr ()" "map rc_record_id rs = ids"
proof -
  have "list_all2 (\<lambda>i r. mem_get s i = Inr r) ids (map (\<lambda>i. projr (mem_get s i)) ids)"
    using assms(2) by (auto simp: ids_intact_def list.rel_map intro!: list.rel_refl_strong)
  then obtain rs where rs: "fetch_records mem_audit s ids = Inr rs" by (auto simp: fetch_records_Inr mem_audit_def)
  note ids = fetch_records_ids [OF assms(1) rs]
  have "require_intact X rs = Inr ()"
    unfolding require_intact_Inr
  proof (intro allI impI)
    fix r block assume r: "r \<in> set rs" "rc_integrity r = Some block"
    then have "rc_record_id r \<in> set ids" by (auto simp flip: ids(1))
    with assms(2) ids(2) [OF r(1)] r(2) show "record_digest X r = Inr (ri_digest block)" by (force simp: ids_intact_def)
  qed
  then show thesis using that rs ids(1) by blast
qed

lemma evidence_build_intact:
  assumes "encodes X" "mem_inv s" "evidence_require b (at_authorize t) (bo_generated_by options) = Inr ()"
    and "ids_intact X s (bo_record_ids options)"
    and "VersionLabel_new (eb_generator_version b) = Inr v" "EventProvenance_new Derived (eb_source b) (eb_parser b) = Inr p"
  obtains package r where "evidence_build X mem_audit b t s options = (Inr package, snd (mem_insert s r))"
    "evidence_record X (evidence_lifecycle b options package) (at_record t) = Inr r" "em_record_count (pk_manifest package) = length (bo_record_ids options)"
    "ms_by_record s (rc_record_id r) = None \<Longrightarrow>
       \<exists>ver. verify_package X mem_audit package (snd (mem_insert s r)) = Inr ver \<and> vv_verified ver"
proof -
  obtain rs where rs: "fetch_records mem_audit s (bo_record_ids options) = Inr rs" "require_intact X rs = Inr ()"
    "map rc_record_id rs = bo_record_ids options" by (rule ids_intact_fetched [OF assms(2,4)])
  have "rs \<noteq> []" "distinct (map rc_record_id rs)" using assms(4) rs(3) by (auto simp: ids_intact_def)
  from evidence_build_total [OF assms(1,5,6,3) rs(1,2) this] obtain package r where
    b: "evidence_build X mem_audit b t s options = (Inr package, snd (mem_insert s r))"
    "evidence_record X (evidence_lifecycle b options package) (at_record t) = Inr r" "em_record_count (pk_manifest package) = length rs" .
  have "\<exists>ver. verify_package X mem_audit package (snd (mem_insert s r)) = Inr ver \<and> vv_verified ver"
    if "ms_by_record s (rc_record_id r) = None"
    using evidence_package_verifies [OF b(1) assms(2)] insert_keeps_records [OF assms(2) that evidence_record_fields(1) [OF b(2)]] assms(4)
    unfolding ids_intact_def by metis
  with that [OF b(1,2)] b(3) arg_cong [OF rs(3), of length] show thesis by simp
qed

text \<open>Evidence over the sample store, by an administrator.\<close>

definition evidence_sample_ext :: artifact_ext where
  "evidence_sample_ext =
     \<lparr>sha256 = sha256 sample_ext, json_strings = json_strings sample_ext, json_event = json_event sample_ext,
      json_record = json_record sample_ext, json_entries = json_entries sample_ext,
      json_evidence = \<lambda>_. Inr ''{}'', json_report = \<lambda>_. Inr ''{}''\<rparr>"

definition sample_builder :: EvidenceBuilder where
  "sample_builder = \<lparr>eb_network = ''testnet'', eb_source = ''evidence'', eb_parser = ''1.0'',
     eb_generator_version = ''1.0'', eb_registry =
       [(''aud_a1'', \<lparr>gr_auditor = ''aud_a1'', gr_role = Administrator, gr_scopes = [All],
          gr_credential = Some (Credential_new ''aud_a1'' ''secret'' 100)\<rparr>)]\<rparr>"

definition sample_options :: "RecordId list \<Rightarrow> EvidenceBuildOptions" where
  "sample_options ids = \<lparr>bo_kind = TransactionEvidence, bo_record_ids = ids, bo_generated_by = ''aud_a1''\<rparr>"

definition sample_pair :: MemoryEventStore where
  "sample_pair = mem_commit (mem_commit mem_new (sample_record ''rec_a1'' ''evt_a1'' (Some 7)))
     (sample_record ''rec_a2'' ''evt_a2'' (Some 8))"

lemma evidence_sample_digest [simp]:
  "record_digest evidence_sample_ext r = Inr (hash_bytes evidence_sample_ext (''{'' @ rc_record_id r @ ''}''))"
  by (simp add: record_digest_def canonical_record_input_def record_canonical_bytes_def
      evidence_sample_ext_def sample_ext_def)

lemma sample_pair_ok:
  "mem_inv sample_pair"
  "mem_get sample_pair ''rec_a1'' = Inr (sample_record ''rec_a1'' ''evt_a1'' (Some 7))"
  "mem_get sample_pair ''rec_a2'' = Inr (sample_record ''rec_a2'' ''evt_a2'' (Some 8))"
proof -
  let ?r = "sample_record ''rec_a1'' ''evt_a1'' (Some 7)"
  have i: "mem_inv (mem_commit mem_new ?r)" by (intro mem_inv_commit) simp_all
  have "ms_by_record (mem_commit mem_new ?r) ''rec_a2'' = None" by (simp add: mem_new_def)
  with i show "mem_inv sample_pair"
    "mem_get sample_pair ''rec_a1'' = Inr ?r"
    "mem_get sample_pair ''rec_a2'' = Inr (sample_record ''rec_a2'' ''evt_a2'' (Some 8))"
    using mem_commit_get [OF mem_inv_new, of ?r "''rec_a1''"]
    by (simp_all add: sample_pair_def mem_commit_get mem_inv_commit mem_new_def)
qed

lemma encodes_sample: "encodes evidence_sample_ext"
  by (simp add: encodes_def) (simp add: evidence_sample_ext_def sample_ext_def)

lemma sample_builder_labels:
  "VersionLabel_new (eb_generator_version sample_builder) = Inr ''1.0''"
  "\<exists>p. EventProvenance_new Derived (eb_source sample_builder) (eb_parser sample_builder) = Inr p"
  by (simp_all add: sample_builder_def VersionLabel_new_def EventProvenance_new_def invalid_field_def
      ascii_defs byte_def)

lemma sample_builder_authorized: "evidence_require sample_builder 1 ''aud_a1'' = Inr ()"
  by (simp add: evidence_require_def sample_builder_def authorize_known role_allows_Administrator
      grant_covers_def credential_check_valid Credential_new_def is_valid_at_def expired_at_def is_at_or_after_def
      decision_def with_reason_def AuthorizationDecision_new_def)

lemma sample_evidence_built:
  assumes "ids = [''rec_a1'', ''rec_a2''] \<or> ids = [''rec_a2'', ''rec_a1'']"
  shows "\<exists>package s'. evidence_build evidence_sample_ext mem_audit sample_builder
     \<lparr>at_authorize = 1, at_now = 1, at_record = 1\<rparr> sample_pair (sample_options ids) = (Inr package, s')"
proof -
  let ?rs = "map (\<lambda>i. projr (mem_get sample_pair i)) ids"
  obtain p where p: "EventProvenance_new Derived (eb_source sample_builder) (eb_parser sample_builder) = Inr p"
    using sample_builder_labels(2) by blast
  show ?thesis
  proof (rule evidence_build_total [OF encodes_sample sample_builder_labels(1) p])
    show "fetch_records mem_audit sample_pair (bo_record_ids (sample_options ids)) = Inr ?rs"
      using assms sample_pair_ok by (auto simp: fetch_records_Inr mem_audit_def sample_options_def)
    show "evidence_require sample_builder (at_authorize \<lparr>at_authorize = 1, at_now = 1, at_record = 1\<rparr>)
        (bo_generated_by (sample_options ids)) = Inr ()"
      by (simp add: sample_options_def sample_builder_authorized)
  qed (use assms sample_pair_ok in auto)
qed

text \<open>A hash that tells its inputs apart by their ends, under which the second record of a chain is refused.\<close>

definition ends_evidence_ext :: artifact_ext where
  "ends_evidence_ext = evidence_sample_ext\<lparr>sha256 := Abs_hash256 \<circ> ends_32\<rparr>"

lemma ends_evidence_simps [simp]:
  "sha256 ends_evidence_ext bs = Abs_hash256 (ends_32 bs)"
  "canonical_record_input ends_evidence_ext r = Inr (''{'' @ rc_record_id r @ ''}'')"
  by (simp_all add: ends_evidence_ext_def evidence_sample_ext_def sample_ext_def canonical_record_input_def
      record_canonical_bytes_def)

lemma hash_bytes_no_brace: "\<exists>c cs. dg_value (hash_bytes X bs) = c # cs \<and> c \<noteq> CHR ''{''"
proof -
  let ?h = "hash_bytes_of (sha256 X bs)"
  have v: "dg_value (hash_bytes X bs) = hex_lower ?h" by (simp add: sha256_hex_def)
  have "length (hex_lower ?h) = 64" by simp
  then obtain c cs where c: "hex_lower ?h = c # cs" by (cases "hex_lower ?h") auto
  then have "is_ascii_hexdigit c" using hex_lower_chars [of c ?h] by simp
  then have "c \<noteq> CHR ''{''" by (auto simp: ascii_defs byte_def)
  with v c show ?thesis by auto
qed

theorem chained_evidence_refused_witness:
  "\<exists>x y s e. seal_chain ends_evidence_ext
       [sample_record ''rec_a1'' ''evt_a1'' (Some 7), sample_record ''rec_a2'' ''evt_a2'' (Some 8)] = Inr [x, y]
    \<and> mem_get s ''rec_a2'' = Inr y \<and> evidence_require sample_builder 1 ''aud_a1'' = Inr ()
    \<and> evidence_build ends_evidence_ext mem_audit sample_builder
        \<lparr>at_authorize = 1, at_now = 1, at_record = 1\<rparr> s (sample_options [''rec_a2'']) = (Inl e, s)"
proof -
  let ?rs = "[sample_record ''rec_a1'' ''evt_a1'' (Some 7), sample_record ''rec_a2'' ''evt_a2'' (Some 8)]"
  have "list_all (\<lambda>r. \<not> isl (canonical_record_input ends_evidence_ext r)) ?rs" by simp
  from iffD2 [OF seal_from_total this] obtain ss where ss: "seal_chain ends_evidence_ext ?rs = Inr ss"
    by (auto simp only: seal_chain_def)
  then have v: "verify_chain ends_evidence_ext ss = Inr ()"
    unfolding verify_chain_def verify_from_iff_sealed seal_chain_def by (rule seal_from_again)
  from ss obtain x y where xy: "ss = [x, y]" and y: "rc_record_id y = ''rec_a2''"
    by (auto simp: seal_chain_def map_ok_eq_Inr split: sum.splits)
  have get: "mem_get (mem_commit mem_new y) ''rec_a2'' = Inr y"
    using mem_commit_get [OF mem_inv_new, of y] y by (simp add: mem_new_def)
  have i: "''rec_a2'' \<in> set (bo_record_ids (sample_options [''rec_a2'']))" by (simp add: sample_options_def)
  from v xy have v2: "verify_chain ends_evidence_ext ([x] @ y # []) = Inr ()" by simp
  have "\<not> (\<exists>p a. chain_head None [x] = Some p \<and> canonical_record_input ends_evidence_ext y = Inr a
      \<and> sha256 ends_evidence_ext (dg_value p @ a) = sha256 ends_evidence_ext a)"
  proof clarify
    fix p a
    assume p: "chain_head None [x] = Some p" and a: "canonical_record_input ends_evidence_ext y = Inr a"
      and h: "sha256 ends_evidence_ext (dg_value p @ a) = sha256 ends_evidence_ext a"
    from v2 p obtain bs where "p = hash_bytes ends_evidence_ext bs"
      by (auto simp: verify_chain_def verify_from_Cons chain_step_eq_Inr chain_head_def record_digest_def
          simp del: verify_from.simps)
    with hash_bytes_no_brace obtain c cs where c: "dg_value p = c # cs" "c \<noteq> CHR ''{''" by metis
    from h a c(1) have "ends_32 (c # cs @ a) = ends_32 a" by (simp add: ends_32_inject)
    moreover have "hd (ends_32 (b # bs)) = b" for b bs by (simp add: ends_32_def)
    ultimately have "hd a = c" using a by (metis append_Cons ends_evidence_simps(2) list.sel(1) sum.inject(2))
    with a c(2) show False by auto
  qed
  with chained_evidence_refused [OF v2 _ get i, of sample_builder "\<lparr>at_authorize = 1, at_now = 1, at_record = 1\<rparr>"]
  obtain e where "evidence_build ends_evidence_ext mem_audit sample_builder
      \<lparr>at_authorize = 1, at_now = 1, at_record = 1\<rparr> (mem_commit mem_new y) (sample_options [''rec_a2''])
    = (Inl e, mem_commit mem_new y)" by auto
  with ss xy get sample_builder_authorized show ?thesis by blast
qed

text \<open>
  C6: the evidence builder returns.  Over a consistent in-memory store, when an authorized auditor names stored,
  pairwise different records whose bodies match the digests they carry, and the encoders are total and
  the builder's labels valid, a package is built.  Its generation is recorded as an \<open>evidence-generated\<close> event
  that names the package's evidence, and the package verifies in full against the store that results
  (unless the new record takes the identifier of a stored one).
\<close>

theorem evidence_build_returns:
  assumes "encodes X" "mem_inv s" "evidence_require b (at_authorize t) (bo_generated_by options) = Inr ()"
    and "ids_intact X s (bo_record_ids options)"
    and "VersionLabel_new (eb_generator_version b) = Inr v" "EventProvenance_new Derived (eb_source b) (eb_parser b) = Inr p"
  shows "\<exists>package r. evidence_build X mem_audit b t s options = (Inr package, snd (mem_insert s r))
    \<and> evidence_record X (evidence_lifecycle b options package) (at_record t) = Inr r
    \<and> ev_kind (rc_event r) = EventKind.EvidenceGenerated
    \<and> map_of (ev_details (rc_event r)) ''evidence'' = Some (ea_evidence_id (pk_artifact package))
    \<and> (ms_by_record s (rc_record_id r) \<noteq> None
       \<or> (\<exists>ver. verify_package X mem_audit package (snd (mem_insert s r)) = Inr ver \<and> vv_verified ver))"
proof (rule evidence_build_intact [OF assms])
  fix package r
  assume b: "evidence_build X mem_audit b t s options = (Inr package, snd (mem_insert s r))"
    "evidence_record X (evidence_lifecycle b options package) (at_record t) = Inr r"
    "ms_by_record s (rc_record_id r) = None \<Longrightarrow>
       \<exists>ver. verify_package X mem_audit package (snd (mem_insert s r)) = Inr ver \<and> vv_verified ver"
  with evidence_record_fields(2) [OF b(2)] evidence_record_details(1) [OF b(2)] show ?thesis
    by (intro exI [of _ package] exI [of _ r]) (auto simp: evidence_lifecycle_def)
qed

theorem evidence_build_returns_witness:
  "\<exists>package s'. evidence_build evidence_sample_ext mem_audit sample_builder \<lparr>at_authorize = 1, at_now = 1, at_record = 1\<rparr>
     sample_pair (sample_options [''rec_a1'', ''rec_a2'']) = (Inr package, s')"
proof -
  obtain p where p: "EventProvenance_new Derived (eb_source sample_builder) (eb_parser sample_builder) = Inr p"
    using sample_builder_labels(2) by blast
  have "ids_intact evidence_sample_ext sample_pair (bo_record_ids (sample_options [''rec_a1'', ''rec_a2'']))"
    using sample_pair_ok by (simp add: ids_intact_def sample_options_def sample_record_def)
  from evidence_build_returns [OF encodes_sample sample_pair_ok(1) _ this sample_builder_labels(1) p,
      of "\<lparr>at_authorize = 1, at_now = 1, at_record = 1\<rparr>"] sample_builder_authorized
  show ?thesis by (auto simp: sample_options_def)
qed

end
