(* ===== verification/Audit_Privacy.thy ===== *)
theory Audit_Privacy
  imports Audit_Authorization
begin

text \<open>
  \<open>crates/privacy\<close> and \<open>audit-core/src/decryption.rs\<close>: the redaction of detail values above a
  disclosure ceiling, the ceiling derived from granted scopes, the projection of a record a reader
  receives, and the validation of decryption requests.
\<close>

section \<open>Redaction\<close>

definition REDACTED_MARKER :: string where
  "REDACTED_MARKER = ''[redacted]''"

definition is_redacted :: "string \<Rightarrow> bool" where
  "is_redacted v \<longleftrightarrow> v = REDACTED_MARKER"

definition field_classification ::
  "string \<Rightarrow> FieldClassifications \<Rightarrow> DataClassification \<Rightarrow> DataClassification" where
  "field_classification key redactions dflt =
     (case map_of redactions key of Some c \<Rightarrow> c | None \<Rightarrow> dflt)"

definition is_disclosable :: "DataClassification \<Rightarrow> DataClassification \<Rightarrow> bool" where
  "is_disclosable classification ceiling \<longleftrightarrow> \<not> is_at_least classification ceiling"

definition redact_details ::
  "(string \<times> string) list \<Rightarrow> FieldClassifications \<Rightarrow> DataClassification \<Rightarrow> DataClassification
     \<Rightarrow> (string \<times> string) list" where
  "redact_details details redactions dflt ceiling =
     map (\<lambda>(key, val).
        let classification = field_classification key redactions dflt
        in (key, if is_disclosable classification ceiling then val else REDACTED_MARKER)) details"

definition redacted_keys ::
  "(string \<times> string) list \<Rightarrow> FieldClassifications \<Rightarrow> DataClassification \<Rightarrow> DataClassification
     \<Rightarrow> string list" where
  "redacted_keys details redactions dflt ceiling =
     map fst (filter (\<lambda>(key, _). \<not> is_disclosable (field_classification key redactions dflt) ceiling)
       details)"

section \<open>Disclosure of a record\<close>

definition disclose_details ::
  "AuditRecord \<Rightarrow> DataClassification option \<Rightarrow> (string \<times> string) list" where
  "disclose_details r ceiling =
     (case ceiling of
        None \<Rightarrow> ev_details (rc_event r)
      | Some c \<Rightarrow> redact_details (ev_details (rc_event r)) (rc_redactions r) (rc_classification r) c)"

definition record_redacted_keys :: "AuditRecord \<Rightarrow> DataClassification option \<Rightarrow> string list" where
  "record_redacted_keys r ceiling =
     (case ceiling of
        None \<Rightarrow> []
      | Some c \<Rightarrow> redacted_keys (ev_details (rc_event r)) (rc_redactions r) (rc_classification r) c)"

record RecordDisclosure =
  rd_record_id :: RecordId
  rd_kind :: EventKind
  rd_network :: NetworkId
  rd_recorded_at :: Timestamp
  rd_details :: "(string \<times> string) list"
  rd_redacted_keys :: "string list"

definition disclose :: "AuditRecord \<Rightarrow> DataClassification option \<Rightarrow> RecordDisclosure" where
  "disclose r ceiling =
     \<lparr>rd_record_id = rc_record_id r, rd_kind = ev_kind (rc_event r), rd_network = ev_network (rc_event r),
      rd_recorded_at = rc_recorded_at r, rd_details = disclose_details r ceiling,
      rd_redacted_keys = record_redacted_keys r ceiling\<rparr>"

section \<open>The ceiling of a set of grants\<close>

fun next_level :: "DataClassification \<Rightarrow> DataClassification option" where
  "next_level Public = Some Operational"
| "next_level Operational = Some Confidential"
| "next_level Confidential = Some Restricted"
| "next_level Restricted = Some HighlyRestricted"
| "next_level HighlyRestricted = None"

text \<open>The loop over the grants, with \<open>most_sensitive\<close> as its accumulator.\<close>

fun ceiling_loop :: "DataClassification option \<Rightarrow> AccessScope list \<Rightarrow> DataClassification option" where
  "ceiling_loop most_sensitive [] =
     (case most_sensitive of None \<Rightarrow> Some Public | Some c \<Rightarrow> next_level c)"
| "ceiling_loop most_sensitive (scope # granted) =
     (case scope of
        All \<Rightarrow> None
      | Classification c \<Rightarrow>
          ceiling_loop (Some (case most_sensitive of Some current \<Rightarrow> max current c | None \<Rightarrow> c)) granted
      | _ \<Rightarrow> ceiling_loop most_sensitive granted)"

definition disclosure_ceiling :: "AccessScope list \<Rightarrow> DataClassification option" where
  "disclosure_ceiling granted = ceiling_loop None granted"

section \<open>Decryption requests\<close>

datatype DecryptionError =
    InvalidRequest string
  | NotAuthorized string
  | Denied string
  | Failed string

fun DecryptionError_to_string :: "DecryptionError \<Rightarrow> string" where
  "DecryptionError_to_string (InvalidRequest d) = ''invalid decryption request: '' @ d"
| "DecryptionError_to_string (NotAuthorized d) = ''decryption not authorized: '' @ d"
| "DecryptionError_to_string (DecryptionError.Denied d) = ''decryption denied: '' @ d"
| "DecryptionError_to_string (DecryptionError.Failed d) = ''decryption failed: '' @ d"

fun into_core :: "DecryptionError \<Rightarrow> AuditError" where
  "into_core (InvalidRequest d) = AuditError.ValidationFailure d"
| "into_core (NotAuthorized d) = DecryptionAuthorizationFailure d"
| "into_core (DecryptionError.Denied d) = DecryptionAuthorizationFailure d"
| "into_core (DecryptionError.Failed d) = AuditError.Internal d"

record DecryptionRequest =
  dq_request_id :: RequestId
  dq_requester :: AuditorId
  dq_target :: string
  dq_purpose :: string
  dq_requested_fields :: "string list"
  dq_requested_at :: Timestamp

definition decryption_validate_label :: "string \<Rightarrow> string \<Rightarrow> nat \<Rightarrow> DecryptionError + unit" where
  "decryption_validate_label kind val maxlen =
     (let valid = 1 \<le> length val \<and> length val \<le> maxlen
            \<and> list_all (\<lambda>c. is_ascii_graphic c \<and> c \<noteq> CHR '' '' \<and> c \<noteq> CHR 0x22) val
      in if valid then Inr ()
         else Inl (InvalidRequest (kind @ '' must be 1-'' @ show_nat maxlen
                     @ '' non-space printable ASCII chars'')))"

definition validate_purpose :: "string \<Rightarrow> DecryptionError + unit" where
  "validate_purpose purpose =
     (let valid = 1 \<le> length purpose \<and> length purpose \<le> 512 \<and> \<not> trim_is_empty purpose
            \<and> list_all (\<lambda>c. is_ascii_graphic c \<or> c = CHR '' '') purpose
      in if valid then Inr ()
         else Inl (InvalidRequest ''purpose must be 1-512 printable ASCII chars and not blank''))"

definition DecryptionRequest_new ::
  "RequestId \<Rightarrow> AuditorId \<Rightarrow> string \<Rightarrow> string \<Rightarrow> string list \<Rightarrow> Timestamp
     \<Rightarrow> DecryptionError + DecryptionRequest" where
  "DecryptionRequest_new request_id requester target purpose requested_fields requested_at =
     and_then (decryption_validate_label ''target'' target 256) (\<lambda>_.
     and_then (validate_purpose purpose) (\<lambda>_.
     and_then
       (fail_if (requested_fields = [] \<or> length requested_fields > 16)
          (InvalidRequest ''requested_fields must name between 1 and 16 fields'')) (\<lambda>_.
     and_then (try_map (\<lambda>field. decryption_validate_label ''field'' field 64) requested_fields) (\<lambda>_.
     Inr \<lparr>dq_request_id = request_id, dq_requester = requester, dq_target = target,
          dq_purpose = purpose, dq_requested_fields = remdups_adj (sort requested_fields),
          dq_requested_at = requested_at\<rparr>))))"

record DecryptionResponse =
  dr_request_id :: RequestId
  dr_fields :: "(string \<times> string) list"

section \<open>What a reader learns\<close>

text \<open>Whether a value of some classification passes a ceiling, where no ceiling passes everything.\<close>

definition passes :: "DataClassification option \<Rightarrow> DataClassification \<Rightarrow> bool" where
  "passes ceiling c \<longleftrightarrow> (case ceiling of None \<Rightarrow> True | Some k \<Rightarrow> is_disclosable c k)"

lemma next_level_passes: "passes (next_level m) c \<longleftrightarrow> c \<le> m"
  by (cases m; cases c) (simp_all add: passes_def is_disclosable_def is_at_least_def less_eq_DataClassification_def)

lemma passes_Public [simp]: "\<not> passes (Some Public) c"
  by (cases c) (simp_all add: passes_def is_disclosable_def is_at_least_def less_eq_DataClassification_def)

lemma passes_None [simp]: "passes None c"
  by (simp add: passes_def)

lemma ceiling_loop_passes:
  "passes (ceiling_loop m granted) c \<longleftrightarrow>
     (\<exists>k. m = Some k \<and> c \<le> k) \<or> covers_classification granted c"
proof (induction granted arbitrary: m)
  case Nil
  then show ?case
    by (cases m) (auto simp: next_level_passes covers_classification_def any_contains_def)
next
  case (Cons g granted)
  then show ?case
    by (cases g; cases m) (auto simp: covers_classification_def any_contains_def
        scope_for_classification_def classification_covers_def le_max_iff_disj)
qed

lemma map_of_redact:
  "map_of (disclose_details r ceiling) k =
     map_option (\<lambda>v. if passes ceiling (field_classification k (rc_redactions r) (rc_classification r))
                     then v else REDACTED_MARKER) (map_of (ev_details (rc_event r)) k)"
proof (cases ceiling)
  case None
  then show ?thesis by (simp add: disclose_details_def passes_def option.map_ident)
next
  case (Some c)
  have "map_of (redact_details d t df c) k =
      map_option (\<lambda>v. if is_disclosable (field_classification k t df) c then v else REDACTED_MARKER) (map_of d k)"
    for d t df by (induction d) (auto simp: redact_details_def Let_def)
  with Some show ?thesis by (simp add: disclose_details_def passes_def)
qed

lemma record_redacted_keys_eq:
  "record_redacted_keys r ceiling =
     filter (\<lambda>k. \<not> passes ceiling (field_classification k (rc_redactions r) (rc_classification r)))
       (map fst (ev_details (rc_event r)))"
  by (cases ceiling) (auto simp: record_redacted_keys_def redacted_keys_def passes_def filter_map comp_def case_prod_beta')

text \<open>
  C18: an auditor reads exactly what the grants cover.  Under the ceiling derived from a list of granted
  scopes, the disclosed view of a record has the keys of its details, each with its own value when the
  authorizer would cover the field's classification and with the marker otherwise; the withheld keys
  listed are those not covered, in the order of the details.
\<close>

theorem granted_disclosure:
  "map_of (rd_details (disclose r (disclosure_ceiling granted))) k =
     map_option (\<lambda>v. if covers_classification granted (field_classification k (rc_redactions r) (rc_classification r))
                     then v else REDACTED_MARKER) (map_of (ev_details (rc_event r)) k)
   \<and> rd_redacted_keys (disclose r (disclosure_ceiling granted)) =
     filter (\<lambda>k. \<not> covers_classification granted (field_classification k (rc_redactions r) (rc_classification r)))
       (map fst (ev_details (rc_event r)))"
  by (simp add: disclose_def map_of_redact record_redacted_keys_eq disclosure_ceiling_def ceiling_loop_passes)

text \<open>
  Withheld values do not leak.  Two records that differ only in the values of details at or above
  the ceiling have the same disclosure.
\<close>

lemma disclosure_noninterference:
  assumes "list_all2 (\<lambda>(k, v) (k', v'). k = k'
      \<and> (is_disclosable (field_classification k (rc_redactions r) (rc_classification r)) c \<longrightarrow> v = v'))
      (ev_details (rc_event r)) details"
  shows "disclose r (Some c) = disclose (r\<lparr>rc_event := (rc_event r)\<lparr>ev_details := details\<rparr>\<rparr>) (Some c)"
proof -
  let ?same = "\<lambda>t df. list_all2 (\<lambda>(k, v) (k', v'). k = k'
      \<and> (is_disclosable (field_classification k t df) c \<longrightarrow> v = v'))"
  have "?same t df d d' \<Longrightarrow> redact_details d t df c = redact_details d' t df c
      \<and> redacted_keys d t df c = redacted_keys d' t df c" for t df d d'
    by (induction rule: list_all2_induct) (auto simp: redact_details_def redacted_keys_def Let_def)
  from this [OF assms] show ?thesis
    by (simp add: disclose_def disclose_details_def record_redacted_keys_def)
qed

lemma distinct_remdups_adj_sorted: "sorted xs \<Longrightarrow> distinct (remdups_adj xs)"
  by (induction xs rule: remdups_adj.induct) (auto simp: order.antisym)

text \<open>A request that was accepted names its fields once each, in order.\<close>

lemma DecryptionRequest_new_fields:
  assumes "DecryptionRequest_new i a target purpose fs t = Inr q"
  shows "set (dq_requested_fields q) = set fs" "distinct (dq_requested_fields q)"
    "sorted (dq_requested_fields q)" "dq_requested_fields q \<noteq> []" "length (dq_requested_fields q) \<le> 16"
    "\<And>f. f \<in> set fs \<Longrightarrow> decryption_validate_label ''field'' f 64 = Inr ()"
proof -
  from assms have q: "dq_requested_fields q = remdups_adj (sort fs)" "fs \<noteq> []" "length fs \<le> 16"
    and ok: "\<exists>us. try_map (\<lambda>field. decryption_validate_label ''field'' field 64) fs = Inr us"
    by (auto simp: DecryptionRequest_new_def and_then_eq_Inr not_less)
  from q show "set (dq_requested_fields q) = set fs" "distinct (dq_requested_fields q)"
    "sorted (dq_requested_fields q)" "dq_requested_fields q \<noteq> []" "length (dq_requested_fields q) \<le> 16"
    using remdups_adj_length [of "sort fs"]
    by (auto simp: distinct_remdups_adj_sorted simp flip: set_empty intro: le_trans)
  from ok show "decryption_validate_label ''field'' f 64 = Inr ()" if "f \<in> set fs" for f
    using that by (auto simp: try_map_eq_Inr dest: list_all2_left)
qed

end
