(* ===== verification/Audit_Retention.thy ===== *)
theory Audit_Retention
  imports Audit_Time "HOL-Library.Word"
begin

text \<open>
  \<open>audit-core/src/retention.rs\<close>: retention policies and the evaluation of archival and deletion
  eligibility, with the 64-bit arithmetic of the period.
\<close>

section \<open>Policies\<close>

datatype RetentionPeriod = Indefinite | Days nat

fun RetentionPeriod_as_str :: "RetentionPeriod \<Rightarrow> string" where
  "RetentionPeriod_as_str Indefinite = ''indefinite''"
| "RetentionPeriod_as_str (Days n) = ''days:'' @ show_nat n"

fun is_indefinite :: "RetentionPeriod \<Rightarrow> bool" where
  "is_indefinite Indefinite = True"
| "is_indefinite (Days _) = False"

record RetentionPolicy =
  rt_retention :: RetentionPeriod
  rt_archived :: bool
  rt_legal_hold :: bool
  rt_investigation_case :: "CaseId option"
  rt_deletion_allowed :: bool

definition default_evidence :: RetentionPolicy where
  "default_evidence = \<lparr>rt_retention = Indefinite, rt_archived = False, rt_legal_hold = False,
     rt_investigation_case = None, rt_deletion_allowed = False\<rparr>"

definition for_days :: "nat \<Rightarrow> RetentionPolicy" where
  "for_days days = default_evidence\<lparr>rt_retention := Days days\<rparr>"

definition with_legal_hold :: "RetentionPolicy \<Rightarrow> RetentionPolicy" where
  "with_legal_hold p = p\<lparr>rt_legal_hold := True\<rparr>"

definition with_investigation :: "RetentionPolicy \<Rightarrow> CaseId \<Rightarrow> RetentionPolicy" where
  "with_investigation p c = p\<lparr>rt_investigation_case := Some c\<rparr>"

definition with_deletion_allowed :: "RetentionPolicy \<Rightarrow> RetentionPolicy" where
  "with_deletion_allowed p = p\<lparr>rt_deletion_allowed := True\<rparr>"

section \<open>Evaluation\<close>

text \<open>
  \<open>u64 as i64\<close>, \<open>i64::saturating_sub\<close> and \<open>i64\<close> multiplication.  An overflowing product panics (\<open>None\<close>)
  in a build with overflow checks and wraps around in one without.
\<close>

definition as_i64 :: "nat \<Rightarrow> int" where
  "as_i64 n = sint (word_of_nat n :: 64 word)"

definition saturating_sub :: "int \<Rightarrow> int \<Rightarrow> int" where
  "saturating_sub a b = max (- (2 ^ 63)) (min (2 ^ 63 - 1) (a - b))"

definition i64_mul :: "bool \<Rightarrow> int \<Rightarrow> int \<Rightarrow> int option" where
  "i64_mul overflow_checks a b =
     (if in_i64 (a * b) then Some (a * b)
      else if overflow_checks then None
      else Some (sint (word_of_int (a * b) :: 64 word)))"

record RetentionStatus =
  st_period_elapsed :: bool
  st_eligible_for_archival :: bool
  st_eligible_for_deletion :: bool
  st_holds :: "string list"

definition evaluate :: "bool \<Rightarrow> RetentionPolicy \<Rightarrow> Timestamp \<Rightarrow> Timestamp \<Rightarrow> RetentionStatus option" where
  "evaluate overflow_checks policy recorded_at now =
     (case (case rt_retention policy of
              Indefinite \<Rightarrow> Some False
            | Days days \<Rightarrow>
                let elapsed = saturating_sub now recorded_at
                in map_option (\<lambda>limit. elapsed \<ge> limit) (i64_mul overflow_checks (as_i64 days) 86400)) of
        None \<Rightarrow> None
      | Some period_elapsed \<Rightarrow>
          let holds = (if rt_legal_hold policy then [''legal-hold''] else [])
                @ (case rt_investigation_case policy of Some c \<Rightarrow> [''investigation:'' @ c] | None \<Rightarrow> []);
              held = holds \<noteq> []
          in Some \<lparr>st_period_elapsed = period_elapsed,
                   st_eligible_for_archival = (period_elapsed \<and> \<not> held),
                   st_eligible_for_deletion = (rt_deletion_allowed policy \<and> period_elapsed \<and> \<not> held),
                   st_holds = holds\<rparr>)"

section \<open>Correctness and the range it has\<close>

lemma as_i64_eq: "as_i64 n = (int n + 2 ^ 63) mod 2 ^ 64 - 2 ^ 63"
  by (simp add: as_i64_def signed_of_nat signed_take_bit_eq_take_bit_shift take_bit_eq_mod)

lemma as_i64_small: "int n < 2 ^ 63 \<Longrightarrow> as_i64 n = int n"
  by (simp add: as_i64_eq)

lemma as_i64_large: "2 ^ 63 \<le> int n \<Longrightarrow> int n < 2 ^ 64 \<Longrightarrow> as_i64 n = int n - 2 ^ 64"
proof -
  assume n: "2 ^ 63 \<le> int n" "int n < 2 ^ 64"
  have "(int n + 2 ^ 63) mod 2 ^ 64 = ((int n - 2 ^ 63) + 2 ^ 64) mod 2 ^ 64"
    by (simp add: algebra_simps)
  also have "\<dots> = (int n - 2 ^ 63) mod 2 ^ 64"
    by (rule mod_add_self2)
  also have "\<dots> = int n - 2 ^ 63"
    using n by (intro mod_pos_pos_trivial) auto
  finally show ?thesis by (simp add: as_i64_eq)
qed

text \<open>
  C26: retention is evaluated correctly for every period that is representable in seconds.  In either
  build the evaluation returns; the period has elapsed exactly when the days have passed since the
  recording, archival eligibility is an elapsed period with no hold, deletion also needs the policy's
  permission, and holds are listed exactly when there is a legal hold or an investigation.
\<close>

theorem retention_evaluate_correct:
  assumes "\<forall>days. rt_retention p = Days days \<longrightarrow> int days * 86400 < 2 ^ 63"
  shows "\<exists>s. evaluate checks p recorded now = Some s
    \<and> (st_period_elapsed s \<longleftrightarrow> (\<exists>days. rt_retention p = Days days \<and> recorded + int days * 86400 \<le> now))
    \<and> (st_eligible_for_archival s \<longleftrightarrow> st_period_elapsed s \<and> \<not> rt_legal_hold p \<and> rt_investigation_case p = None)
    \<and> (st_eligible_for_deletion s \<longleftrightarrow> st_eligible_for_archival s \<and> rt_deletion_allowed p)
    \<and> (st_holds s = [] \<longleftrightarrow> \<not> rt_legal_hold p \<and> rt_investigation_case p = None)"
proof (cases "rt_retention p")
  case Indefinite
  then show ?thesis by (auto simp: evaluate_def Let_def split: option.splits)
next
  case (Days days)
  with assms have small: "int days * 86400 < 2 ^ 63" by simp
  then have "i64_mul checks (as_i64 days) 86400 = Some (int days * 86400)"
    by (simp add: as_i64_small i64_mul_def in_i64_def)
  moreover have "int days * 86400 \<le> saturating_sub now recorded \<longleftrightarrow> recorded + int days * 86400 \<le> now"
    using small by (auto simp: saturating_sub_def le_max_iff_disj min_le_iff_disj)
  ultimately show ?thesis
    using Days by (auto simp: evaluate_def Let_def split: option.splits)
qed

theorem retention_evaluate_correct_witness:
  "\<exists>s. evaluate True (with_deletion_allowed (for_days 30)) 0 2592000 = Some s \<and> st_eligible_for_deletion s"
  using retention_evaluate_correct [of "with_deletion_allowed (for_days 30)" True 0 2592000]
  by (auto simp: with_deletion_allowed_def for_days_def default_evidence_def)

text \<open>
  A period near the top of its 64-bit range is read as negative.  Such a record, meant to be kept
  practically for ever, counts as elapsed the moment it is recorded, in either build, and may be
  deleted at once when the policy allows deletion.
\<close>

lemma retention_huge_period_elapsed:
  assumes "2 ^ 64 - 106751991167300 \<le> days" and "days < 2 ^ 64" and "recorded \<le> now"
  shows "evaluate checks (with_deletion_allowed (for_days days)) recorded now =
    Some \<lparr>st_period_elapsed = True, st_eligible_for_archival = True, st_eligible_for_deletion = True, st_holds = []\<rparr>"
proof -
  from assms(1,2) have d: "as_i64 days = int days - 2 ^ 64" by (intro as_i64_large) simp_all
  then have "in_i64 (as_i64 days * 86400)" "as_i64 days * 86400 \<le> 0"
    using assms(1,2) by (simp_all add: in_i64_def)
  then show ?thesis
    using assms(3) by (simp add: evaluate_def with_deletion_allowed_def for_days_def default_evidence_def
        i64_mul_def saturating_sub_def le_max_iff_disj)
qed

end
