(* ===== verification/Audit_Json.thy ===== *)
theory Audit_Json
  imports Main
begin

text \<open>
  The variants of \<open>serde_json::Value\<close>, over the type of its numbers.  An object is the list of its
  entries in key order; what the library does with values is a parameter of the theories that use it.
\<close>

datatype 'n Value =
    Null | Bool bool | Number 'n | String string | Array "'n Value list"
  | Object "(string \<times> 'n Value) list"

end
