(* ===== verification/Audit_Normalizer.thy ===== *)
theory Audit_Normalizer
  imports Audit_Events Audit_Indexer Audit_Json
begin

text \<open>
  \<open>crates/event-normalizer/src\<close>: the scheme registry, the decoding of payloads, the validation of
  decoded forms, their classification into the event envelope, and the pipeline.

  \<open>serde_json\<close> is a parameter: parsing a text, reading a number as \<open>i64\<close> or \<open>u64\<close> and decoding a
  value as an event are fields of \<open>normalizer_ext\<close>.
\<close>

section \<open>Schemes\<close>

datatype Scheme = HooksStateEvent | AuditEnvelope

fun Scheme_as_label :: "Scheme \<Rightarrow> string" where
  "Scheme_as_label HooksStateEvent = ''hooks-state-event''"
| "Scheme_as_label AuditEnvelope = ''audit-envelope''"

fun supported_version :: "Scheme \<Rightarrow> nat" where
  "supported_version HooksStateEvent = 1"
| "supported_version AuditEnvelope = 1"

fun declares_version :: "Scheme \<Rightarrow> bool" where
  "declares_version HooksStateEvent = False"
| "declares_version AuditEnvelope = True"

definition Scheme_from_str :: "string \<Rightarrow> Scheme option" where
  "Scheme_from_str label =
     (if label = ''hooks-state-event'' then Some HooksStateEvent
      else if label = ''audit-envelope'' then Some AuditEnvelope
      else None)"

section \<open>Decoding\<close>

record 'n normalizer_ext = event_ext +
  json_from_str :: "string \<Rightarrow> string + 'n Value"
  num_as_i64 :: "'n \<Rightarrow> int option"
  num_as_u64 :: "'n \<Rightarrow> nat option"
  event_from_value :: "'n Value \<Rightarrow> string + AuditEvent"

datatype HooksType =
    AccountFrozen | AccountUnfrozen | TokenBound | TokenUnbound | ComplianceConfigChanged | Initialized

fun HooksType_as_str :: "HooksType \<Rightarrow> string" where
  "HooksType_as_str HooksType.AccountFrozen = ''account_frozen''"
| "HooksType_as_str HooksType.AccountUnfrozen = ''account_unfrozen''"
| "HooksType_as_str HooksType.TokenBound = ''token_bound''"
| "HooksType_as_str HooksType.TokenUnbound = ''token_unbound''"
| "HooksType_as_str ComplianceConfigChanged = ''compliance_config_changed''"
| "HooksType_as_str Initialized = ''initialized''"

definition HooksType_from_wire :: "string \<Rightarrow> HooksType option" where
  "HooksType_from_wire s =
     (if s = ''account_frozen'' then Some HooksType.AccountFrozen
      else if s = ''account_unfrozen'' then Some HooksType.AccountUnfrozen
      else if s = ''token_bound'' then Some HooksType.TokenBound
      else if s = ''token_unbound'' then Some HooksType.TokenUnbound
      else if s = ''compliance_config_changed'' then Some ComplianceConfigChanged
      else if s = ''initialized'' then Some Initialized
      else None)"

fun to_event_kind :: "HooksType \<Rightarrow> EventKind" where
  "to_event_kind HooksType.AccountFrozen = EventKind.AccountFrozen"
| "to_event_kind HooksType.AccountUnfrozen = EventKind.AccountUnfrozen"
| "to_event_kind HooksType.TokenBound = EventKind.TokenBound"
| "to_event_kind HooksType.TokenUnbound = EventKind.TokenUnbound"
| "to_event_kind ComplianceConfigChanged = ConfigurationChanged"
| "to_event_kind Initialized = EnforcementInitialized"

definition has_account :: "HooksType \<Rightarrow> bool" where
  "has_account t \<longleftrightarrow> t = HooksType.AccountFrozen \<or> t = HooksType.AccountUnfrozen"

definition has_policy_config :: "HooksType \<Rightarrow> bool" where
  "has_policy_config t \<longleftrightarrow> t = ComplianceConfigChanged"

definition has_admin :: "HooksType \<Rightarrow> bool" where
  "has_admin t \<longleftrightarrow> t = Initialized"

record RawHooksEvent =
  rh_hooks_type :: HooksType
  rh_token :: "string option"
  rh_admin :: "string option"
  rh_account :: "string option"
  rh_policy :: "string option"
  rh_sac_passthrough :: "bool option"
  rh_ledger :: int
  rh_close_time :: int
  rh_transaction_hash :: string
  rh_operation_index :: nat
  rh_event_index :: nat

datatype ParsedEvent = HooksState RawHooksEvent | Envelope AuditEvent

definition ENVELOPE_FIELDS :: "string list" where
  "ENVELOPE_FIELDS =
     [''event_id'', ''kind'', ''schema_version'', ''network'', ''provenance'', ''observed_at'', ''order'',
      ''ledger'', ''transaction'', ''operation'', ''token'', ''actor'', ''subject'', ''decision'',
      ''enforcement'', ''outcome'', ''reason'', ''details'']"

definition HOOKS_FIELDS :: "string list" where
  "HOOKS_FIELDS =
     [''type'', ''token'', ''admin'', ''account'', ''policy'', ''sac_passthrough'', ''ledger'', ''close_time'',
      ''transaction_hash'', ''operation_index'', ''event_index'']"

definition malformed :: "string \<Rightarrow> string \<Rightarrow> NormalizerError + 'a" where
  "malformed scheme detail = Inl (NormalizerError.MalformedPayload scheme detail)"

definition parse_json :: "('n, 'z) normalizer_ext_scheme \<Rightarrow> string \<Rightarrow> string \<Rightarrow> NormalizerError + 'n Value" where
  "parse_json X payload scheme =
     map_err (\<lambda>e. NormalizerError.MalformedPayload scheme (''payload is not valid JSON: '' @ e))
       (json_from_str X payload)"

definition as_object ::
  "('n, 'z) normalizer_ext_scheme \<Rightarrow> string \<Rightarrow> string \<Rightarrow> NormalizerError + (string \<times> 'n Value) list" where
  "as_object X payload scheme =
     and_then (parse_json X payload scheme) (\<lambda>v.
       case v of Object obj \<Rightarrow> Inr obj | _ \<Rightarrow> malformed scheme ''payload must be a JSON object'')"

fun reject_unknown_fields ::
  "(string \<times> 'n Value) list \<Rightarrow> string list \<Rightarrow> string \<Rightarrow> NormalizerError + unit" where
  "reject_unknown_fields [] allowed scheme = Inr ()"
| "reject_unknown_fields ((key, _) # obj) allowed scheme =
     (if key \<notin> set allowed then malformed scheme (''unknown field `'' @ key @ ''`'')
      else reject_unknown_fields obj allowed scheme)"

definition required_string ::
  "(string \<times> 'n Value) list \<Rightarrow> string \<Rightarrow> string \<Rightarrow> NormalizerError + string" where
  "required_string obj field scheme =
     (case map_of obj field of
        Some (String s) \<Rightarrow> Inr s
      | _ \<Rightarrow> malformed scheme (''`'' @ field @ ''` must be a string''))"

definition optional_string ::
  "(string \<times> 'n Value) list \<Rightarrow> string \<Rightarrow> string \<Rightarrow> NormalizerError + string option" where
  "optional_string obj field scheme =
     (case map_of obj field of
        None \<Rightarrow> Inr None
      | Some (String s) \<Rightarrow> Inr (Some s)
      | Some _ \<Rightarrow> malformed scheme (''`'' @ field @ ''` must be a string''))"

text \<open>The shape shared by the numeric fields: a JSON number that the conversion accepts.\<close>

definition number_field ::
  "(string \<times> 'n Value) list \<Rightarrow> string \<Rightarrow> ('n \<Rightarrow> 'a option) \<Rightarrow> string \<Rightarrow> NormalizerError + 'a" where
  "number_field obj field convert detail =
     (case map_of obj field of
        Some (Number n) \<Rightarrow>
          (case convert n of Some v \<Rightarrow> Inr v | None \<Rightarrow> malformed ''hooks-state-event'' detail)
      | _ \<Rightarrow> malformed ''hooks-state-event'' detail)"

definition u32_try_from :: "nat \<Rightarrow> nat option" where
  "u32_try_from v = (if v < 2 ^ 32 then Some v else None)"

definition parse_hooks_state ::
  "('n, 'z) normalizer_ext_scheme \<Rightarrow> string \<Rightarrow> NormalizerError + RawHooksEvent" where
  "parse_hooks_state X payload =
     and_then (as_object X payload ''hooks-state-event'') (\<lambda>obj.
     and_then (reject_unknown_fields obj HOOKS_FIELDS ''hooks-state-event'') (\<lambda>_.
     and_then
       (case map_of obj ''type'' of
          Some (String s) \<Rightarrow>
            (case HooksType_from_wire s of
               Some t \<Rightarrow> Inr t
             | None \<Rightarrow> Inl (ValidationFailed ''hooks-state-event''
                         (''`'' @ s @ ''` is not a supported hooks event type'')))
        | _ \<Rightarrow> malformed ''hooks-state-event'' ''`type` must be a string'') (\<lambda>hooks_type.
     and_then (optional_string obj ''token'' ''hooks-state-event'') (\<lambda>token.
     and_then (optional_string obj ''admin'' ''hooks-state-event'') (\<lambda>admin.
     and_then (optional_string obj ''account'' ''hooks-state-event'') (\<lambda>account.
     and_then (optional_string obj ''policy'' ''hooks-state-event'') (\<lambda>policy.
     and_then
       (case map_of obj ''sac_passthrough'' of
          None \<Rightarrow> Inr None
        | Some (Bool b) \<Rightarrow> Inr (Some b)
        | Some _ \<Rightarrow> malformed ''hooks-state-event'' ''`sac_passthrough` must be a boolean'') (\<lambda>sac_passthrough.
     and_then
       (number_field obj ''ledger''
          (\<lambda>n. case num_as_i64 X n of Some v \<Rightarrow> if v \<ge> 0 then Some v else None | None \<Rightarrow> None)
          ''`ledger` must be a non-negative integer'') (\<lambda>ledger.
     and_then
       (number_field obj ''close_time'' (num_as_i64 X)
          ''`close_time` must be an integer Unix timestamp'') (\<lambda>close_time.
     and_then (required_string obj ''transaction_hash'' ''hooks-state-event'') (\<lambda>transaction_hash.
     and_then
       (number_field obj ''operation_index'' (\<lambda>n. Option.bind (num_as_u64 X n) u32_try_from)
          ''`operation_index` must be a non-negative integer'') (\<lambda>operation_index.
     and_then
       (number_field obj ''event_index'' (\<lambda>n. Option.bind (num_as_u64 X n) u32_try_from)
          ''`event_index` must be a non-negative integer'') (\<lambda>event_index.
     Inr \<lparr>rh_hooks_type = hooks_type, rh_token = token, rh_admin = admin, rh_account = account,
          rh_policy = policy, rh_sac_passthrough = sac_passthrough, rh_ledger = ledger,
          rh_close_time = close_time, rh_transaction_hash = transaction_hash,
          rh_operation_index = operation_index, rh_event_index = event_index\<rparr>)))))))))))))"

definition parse_envelope ::
  "('n, 'z) normalizer_ext_scheme \<Rightarrow> string \<Rightarrow> NormalizerError + AuditEvent" where
  "parse_envelope X payload =
     and_then (as_object X payload ''audit-envelope'') (\<lambda>obj.
     and_then (reject_unknown_fields obj ENVELOPE_FIELDS ''audit-envelope'') (\<lambda>_.
     and_then (parse_json X payload ''audit-envelope'') (\<lambda>v.
     map_err
       (\<lambda>e. NormalizerError.MalformedPayload ''audit-envelope''
          (''payload does not decode as an audit event: '' @ e))
       (event_from_value X v))))"

fun parse ::
  "('n, 'z) normalizer_ext_scheme \<Rightarrow> Scheme \<Rightarrow> string \<Rightarrow> NormalizerError + ParsedEvent" where
  "parse X HooksStateEvent payload = map_ok HooksState (parse_hooks_state X payload)"
| "parse X AuditEnvelope payload = map_ok Envelope (parse_envelope X payload)"

section \<open>Validation\<close>

definition invalid_hooks :: "string \<Rightarrow> NormalizerError + unit" where
  "invalid_hooks detail = Inl (ValidationFailed ''hooks-state-event'' detail)"

definition check_hooks_value :: "AuditError + 'a \<Rightarrow> string \<Rightarrow> NormalizerError + unit" where
  "check_hooks_value r field =
     (case r of
        Inr _ \<Rightarrow> Inr ()
      | Inl e \<Rightarrow> Inl (ValidationFailed ''hooks-state-event'' (field @ '': '' @ AuditError_to_string e)))"

definition check_tx_hash :: "string \<Rightarrow> NormalizerError + unit" where
  "check_tx_hash hash =
     (if length hash = 64 \<and> list_all (\<lambda>c. is_ascii_hexdigit c \<and> \<not> is_ascii_uppercase c) hash
      then Inr ()
      else invalid_hooks ''transaction_hash: must be 64 lowercase hex chars'')"

text \<open>The \<open>match\<close> of \<open>validate_hooks_state\<close> on the type-dependent fields.\<close>

definition check_hooks_fields :: "RawHooksEvent \<Rightarrow> NormalizerError + unit" where
  "check_hooks_fields raw =
     (if has_admin (rh_hooks_type raw) then
        if rh_admin raw = None then invalid_hooks ''admin: required for initialized events''
        else if rh_token raw \<noteq> None \<or> rh_account raw \<noteq> None \<or> rh_policy raw \<noteq> None
                \<or> rh_sac_passthrough raw \<noteq> None
        then invalid_hooks ''token: initialized events must not carry token, account, or policy fields''
        else Inr ()
      else if has_account (rh_hooks_type raw) then
        if rh_account raw = None then invalid_hooks ''account: required for freeze-state events''
        else if rh_token raw = None then invalid_hooks ''token: required for freeze-state events''
        else if rh_policy raw \<noteq> None \<or> rh_sac_passthrough raw \<noteq> None \<or> rh_admin raw \<noteq> None
        then invalid_hooks ''policy: freeze-state events must not carry policy configuration''
        else Inr ()
      else if has_policy_config (rh_hooks_type raw) then
        if rh_policy raw = None then invalid_hooks ''policy: required for config-change events''
        else if rh_sac_passthrough raw = None
        then invalid_hooks ''sac_passthrough: required for config-change events''
        else if rh_token raw = None then invalid_hooks ''token: required for config-change events''
        else if rh_account raw \<noteq> None \<or> rh_admin raw \<noteq> None
        then invalid_hooks ''account: config-change events must not carry a subject account''
        else Inr ()
      else
        if rh_token raw = None then invalid_hooks ''token: required for bind/unbind events''
        else if rh_account raw \<noteq> None \<or> rh_policy raw \<noteq> None \<or> rh_sac_passthrough raw \<noteq> None
                \<or> rh_admin raw \<noteq> None
        then invalid_hooks ''account: bind/unbind events must not carry account or policy fields''
        else Inr ())"

definition if_some :: "'a option \<Rightarrow> ('a \<Rightarrow> 'e + unit) \<Rightarrow> 'e + unit" where
  "if_some x f = (case x of None \<Rightarrow> Inr () | Some v \<Rightarrow> f v)"

definition validate_hooks_state :: "RawHooksEvent \<Rightarrow> NormalizerError + unit" where
  "validate_hooks_state raw =
     and_then (check_hooks_fields raw) (\<lambda>_.
     and_then (if_some (rh_token raw) (\<lambda>token. check_hooks_value (ContractId_new token) ''token'')) (\<lambda>_.
     and_then (if_some (rh_admin raw) (\<lambda>admin. check_hooks_value (AccountId_new admin) ''admin'')) (\<lambda>_.
     and_then (if_some (rh_account raw) (\<lambda>account. check_hooks_value (AccountId_new account) ''account'')) (\<lambda>_.
     and_then (if_some (rh_policy raw) (\<lambda>policy. check_hooks_value (ContractId_new policy) ''policy'')) (\<lambda>_.
     and_then (check_tx_hash (rh_transaction_hash raw)) (\<lambda>_.
     if rh_ledger raw < 1 then invalid_hooks ''ledger: sequence must be >= 1''
     else if rh_close_time raw < 0 then invalid_hooks ''close_time: must be a non-negative Unix timestamp''
     else Inr ()))))))"

definition invalid_envelope :: "string \<Rightarrow> NormalizerError + unit" where
  "invalid_envelope detail = Inl (ValidationFailed ''audit-envelope'' detail)"

definition envelope_field :: "string \<Rightarrow> AuditError + 'a \<Rightarrow> NormalizerError + 'a" where
  "envelope_field field r =
     map_err (\<lambda>e. ValidationFailed ''audit-envelope'' (field @ '': '' @ AuditError_to_string e)) r"

definition validate_provenance :: "EventProvenance \<Rightarrow> NormalizerError + unit" where
  "validate_provenance p =
     and_then (envelope_field ''provenance.parser_version'' (VersionLabel_new (ep_parser_version p))) (\<lambda>_.
     if_some (ep_derivation p) (\<lambda>d.
       map_ok (\<lambda>_. ())
         (envelope_field ''provenance.derivation''
            (DerivationInfo_new (di_method d) (di_source_events d) (di_note d)))))"

definition validate_account :: "string \<Rightarrow> AccountReference \<Rightarrow> NormalizerError + unit" where
  "validate_account field reference =
     and_then (envelope_field (field @ ''.network'') (NetworkId_new (acr_network reference))) (\<lambda>_.
     and_then (envelope_field (field @ ''.account'') (AccountId_new (acr_account reference))) (\<lambda>_.
     Inr ()))"

definition validate_token :: "TokenReference \<Rightarrow> NormalizerError + unit" where
  "validate_token token =
     and_then (envelope_field ''token.network'' (NetworkId_new (tok_network token))) (\<lambda>network.
     case tok_contract token of
       Some contract \<Rightarrow>
         and_then (envelope_field ''token.contract'' (ContractId_new contract)) (\<lambda>_. Inr ())
     | None \<Rightarrow>
         (case (tok_asset_code token, tok_issuer token) of
            (Some code, Some issuer) \<Rightarrow>
              and_then (envelope_field ''token.issuer'' (AccountId_new issuer)) (\<lambda>i.
              and_then (envelope_field ''token.asset_code'' (for_classic_asset network code i)) (\<lambda>_. Inr ()))
          | _ \<Rightarrow> invalid_envelope ''token must identify a contract or a classic asset''))"

definition validate_decision :: "PolicyDecisionReference \<Rightarrow> NormalizerError + unit" where
  "validate_decision d =
     (let policy_ref = pdr_policy d in
      and_then (envelope_field ''decision.policy.policy'' (ContractId_new (pol_policy policy_ref))) (\<lambda>c.
      and_then (envelope_field ''decision.policy.version'' (VersionLabel_new (pol_version policy_ref))) (\<lambda>v.
      and_then
        (if_some (pol_digest policy_ref) (\<lambda>digest.
           map_ok (\<lambda>_. ())
             (envelope_field ''decision.policy.digest''
                (PolicyReference_with_digest (PolicyReference_new c v) (Some digest))))) (\<lambda>_.
      and_then
        (if_some (pdr_reason d) (\<lambda>reason.
           map_ok (\<lambda>_. ()) (envelope_field ''decision.reason'' (ReasonCode_new reason)))) (\<lambda>_.
      if_some (pdr_decided_at d) (\<lambda>at.
        if at < 0 then invalid_envelope ''decision.decided_at must be non-negative'' else Inr ()))))))"

definition validate_enforcement :: "EnforcementResultReference \<Rightarrow> NormalizerError + unit" where
  "validate_enforcement enf =
     and_then (envelope_field ''enforcement.hook_version'' (VersionLabel_new (err_hook_version enf))) (\<lambda>v.
     and_then
       (envelope_field ''enforcement.hook''
          (EnforcementResultReference_new (err_hook enf) v (err_result enf))) (\<lambda>_.
     if_some (err_reason enf) (\<lambda>reason.
       map_ok (\<lambda>_. ()) (envelope_field ''enforcement.reason'' (ReasonCode_new reason)))))"

definition validate_ledger :: "LedgerReference \<Rightarrow> NormalizerError + unit" where
  "validate_ledger ledger =
     and_then (envelope_field ''ledger.network'' (NetworkId_new (lr_network ledger))) (\<lambda>n.
     and_then
       (envelope_field ''ledger.sequence''
          (LedgerReference_new n (lr_sequence ledger) (lr_close_time ledger))) (\<lambda>_.
     if_some (lr_close_time ledger) (\<lambda>t.
       if t < 0 then invalid_envelope ''ledger.close_time must be non-negative'' else Inr ())))"

definition validate_transaction :: "string \<Rightarrow> TransactionReference \<Rightarrow> NormalizerError + TransactionReference" where
  "validate_transaction field tx =
     and_then (envelope_field (field @ ''.network'') (NetworkId_new (txr_network tx))) (\<lambda>n.
     and_then (envelope_field (field @ ''.hash'') (TransactionHash_new (txr_hash tx))) (\<lambda>h.
     Inr \<lparr>txr_network = n, txr_hash = h\<rparr>))"

definition validate_operation :: "OperationReference \<Rightarrow> NormalizerError + unit" where
  "validate_operation op =
     and_then (validate_transaction ''operation.transaction'' (opr_transaction op)) (\<lambda>tx.
     map_ok (\<lambda>_. ()) (envelope_field ''operation'' (OperationReference_new tx (opr_index op) (opr_op_type op))))"

fun validate_details :: "(string \<times> string) list \<Rightarrow> NormalizerError + unit" where
  "validate_details [] = Inr ()"
| "validate_details ((key, val) # details) =
     (let ok_key = 1 \<le> length key \<and> length key \<le> 64 \<and> list_all is_ascii_graphic key;
          ok_value = length val \<le> 1024
      in if \<not> ok_key \<or> \<not> ok_value
         then invalid_envelope
                ''details: keys must be 1-64 printable ASCII chars, values at most 1024 chars''
         else validate_details details)"

definition validate_envelope :: "AuditEvent \<Rightarrow> NormalizerError + unit" where
  "validate_envelope event =
     (let declared = ev_schema_version event; supported = supported_version AuditEnvelope in
      and_then
        (fail_if (declared \<noteq> supported)
           (UnsupportedVersion ''audit-envelope'' (show_nat declared) (''supported: '' @ show_nat supported))) (\<lambda>_.
      and_then
        (map_err
           (\<lambda>e. case e of
                  UnsupportedSchema detail \<Rightarrow> UnsupportedVersion ''audit-envelope'' (show_nat declared) detail
                | other \<Rightarrow> ValidationFailed ''audit-envelope'' (AuditError_to_string other))
           (AuditEvent_validate event)) (\<lambda>_.
      and_then (envelope_field ''network'' (NetworkId_new (ev_network event))) (\<lambda>_.
      and_then (validate_provenance (ev_provenance event)) (\<lambda>_.
      and_then
        (if_some (ev_observed_at event) (\<lambda>at.
           if at < 0 then invalid_envelope ''observed_at must be a non-negative Unix timestamp'' else Inr ())) (\<lambda>_.
      and_then
        (if_some (eo_ledger_sequence (ev_order event)) (\<lambda>seq.
           if seq < 1 then invalid_envelope ''order.ledger_sequence must be >= 1'' else Inr ())) (\<lambda>_.
      and_then (if_some (ev_ledger event) validate_ledger) (\<lambda>_.
      and_then
        (if_some (ev_transaction event) (\<lambda>tx. map_ok (\<lambda>_. ()) (validate_transaction ''transaction'' tx))) (\<lambda>_.
      and_then (if_some (ev_operation event) validate_operation) (\<lambda>_.
      and_then (if_some (ev_token event) validate_token) (\<lambda>_.
      and_then (if_some (ev_actor event) (validate_account ''actor'')) (\<lambda>_.
      and_then (if_some (ev_subject event) (validate_account ''subject'')) (\<lambda>_.
      and_then (if_some (ev_decision event) validate_decision) (\<lambda>_.
      and_then (if_some (ev_enforcement event) validate_enforcement) (\<lambda>_.
      and_then
        (if_some (ev_reason event) (\<lambda>reason.
           map_ok (\<lambda>_. ()) (envelope_field ''reason'' (ReasonCode_new reason)))) (\<lambda>_.
      validate_details (ev_details event)))))))))))))))))"

fun validate :: "ParsedEvent \<Rightarrow> NormalizerError + unit" where
  "validate (HooksState raw) = validate_hooks_state raw"
| "validate (Envelope event) = validate_envelope event"

section \<open>Classification\<close>

record NormalizeConfig =
  nc_network :: NetworkId
  nc_source :: string
  nc_parser_version :: VersionLabel

definition classify_error :: "string \<Rightarrow> NormalizerError" where
  "classify_error detail = ClassificationFailed ''hooks-state-event'' detail"

record HooksPlacement =
  hp_observed_at :: Timestamp
  hp_order :: EventOrder
  hp_ledger :: LedgerReference
  hp_transaction :: TransactionReference
  hp_operation :: "OperationReference option"

definition metadata_classify_error :: "string \<Rightarrow> AuditError + 'a \<Rightarrow> NormalizerError + 'a" where
  "metadata_classify_error field r =
     map_err (\<lambda>e. ClassificationFailed ''hooks-state-event'' (field @ '': '' @ AuditError_to_string e)) r"

definition hooks_placement :: "RawHooksEvent \<Rightarrow> NetworkId \<Rightarrow> NormalizerError + HooksPlacement" where
  "hooks_placement raw network =
     (let observed_at = rh_close_time raw in
      and_then (metadata_classify_error ''transaction'' (TransactionHash_new (rh_transaction_hash raw))) (\<lambda>hash.
      (let transaction = \<lparr>txr_network = network, txr_hash = hash\<rparr> in
      and_then (metadata_classify_error ''ledger'' (LedgerReference_new network (rh_ledger raw) (Some observed_at))) (\<lambda>ledger.
      and_then (metadata_classify_error ''operation'' (OperationReference_new transaction (rh_operation_index raw) None)) (\<lambda>operation.
      Inr \<lparr>hp_observed_at = observed_at,
           hp_order = \<lparr>eo_ledger_sequence = Some (rh_ledger raw), eo_transaction_position = None,
                       eo_operation_index = Some (rh_operation_index raw),
                       eo_event_index = Some (rh_event_index raw)\<rparr>,
           hp_ledger = ledger, hp_transaction = transaction, hp_operation = Some operation\<rparr>)))))"

text \<open>The two blocks of \<open>classify_hooks\<close> that attach the token or admin, and the subject or policy.\<close>

definition classify_token ::
  "RawHooksEvent \<Rightarrow> AuditEvent \<Rightarrow> NormalizerError + AuditEvent" where
  "classify_token raw event =
     (if has_admin (rh_hooks_type raw) then
        (case rh_admin raw of
           None \<Rightarrow> Inl (classify_error ''recorded admin missing after validation'')
         | Some admin \<Rightarrow> Inr (set_detail ''admin_account'' admin event))
      else
        (case rh_token raw of
           None \<Rightarrow> Inl (classify_error ''token missing after validation'')
         | Some token_raw \<Rightarrow>
             and_then
               (map_err (\<lambda>e. classify_error (''token: '' @ AuditError_to_string e)) (ContractId_new token_raw)) (\<lambda>token.
             Inr (set_token (for_contract (ev_network event) token) event))))"

definition classify_subject ::
  "RawHooksEvent \<Rightarrow> AuditEvent \<Rightarrow> NormalizerError + AuditEvent" where
  "classify_subject raw event =
     (if has_account (rh_hooks_type raw) then
        (case rh_account raw of
           None \<Rightarrow> Inl (classify_error ''subject account missing after validation'')
         | Some account \<Rightarrow>
             and_then
               (map_err (\<lambda>e. classify_error (''subject account: '' @ AuditError_to_string e)) (AccountId_new account)) (\<lambda>a.
             Inr (set_subject \<lparr>acr_network = ev_network event, acr_account = a\<rparr> event)))
      else if has_policy_config (rh_hooks_type raw) then
        (let event = (case rh_sac_passthrough raw of
               None \<Rightarrow> event
             | Some flag \<Rightarrow> set_detail ''sac_passthrough'' (if flag then ''true'' else ''false'') event)
         in case rh_policy raw of
              None \<Rightarrow> Inr event
            | Some policy \<Rightarrow>
                and_then
                  (map_err (\<lambda>e. classify_error (''policy: '' @ AuditError_to_string e)) (ContractId_new policy)) (\<lambda>p.
                Inr (set_detail ''policy_contract'' p event)))
      else Inr event)"

definition classify_hooks ::
  "('z) hash_ext_scheme \<Rightarrow> NormalizeConfig \<Rightarrow> RawHooksEvent \<Rightarrow> NormalizerError + AuditEvent" where
  "classify_hooks X config raw =
     (let kind = to_event_kind (rh_hooks_type raw); network = nc_network config in
      and_then
        (map_err (\<lambda>e. classify_error (''cannot derive event id: '' @ EventError_to_string e))
           (onchain_event_id X network (Some (rh_transaction_hash raw)) (Some (rh_operation_index raw))
              (Some (rh_event_index raw)) kind)) (\<lambda>event_id.
      and_then
        (map_err (\<lambda>e. classify_error (''provenance: '' @ AuditError_to_string e))
           (EventProvenance_new OnChain (nc_source config) (nc_parser_version config))) (\<lambda>provenance.
      and_then (hooks_placement raw network) (\<lambda>placement.
      (let event = (AuditEvent_new event_id kind network provenance)
             \<lparr>ev_observed_at := Some (hp_observed_at placement), ev_order := hp_order placement,
              ev_ledger := Some (hp_ledger placement), ev_transaction := Some (hp_transaction placement),
              ev_operation := hp_operation placement\<rparr> in
      and_then (classify_token raw event) (\<lambda>event.
      and_then (classify_subject raw event) (\<lambda>event.
      and_then
        (map_err (\<lambda>e. classify_error (''classified event failed validation: '' @ AuditError_to_string e))
           (AuditEvent_validate event)) (\<lambda>_.
      Inr event))))))))"

fun classify ::
  "('z) hash_ext_scheme \<Rightarrow> NormalizeConfig \<Rightarrow> ParsedEvent \<Rightarrow> NormalizerError + AuditEvent" where
  "classify X config (HooksState raw) = classify_hooks X config raw"
| "classify X config (Envelope event) = Inr event"

section \<open>The pipeline\<close>

record NormalizedEvent =
  ne_event :: AuditEvent
  ne_scheme :: Scheme
  ne_position :: string

definition normalize ::
  "('n, 'z) normalizer_ext_scheme \<Rightarrow> NormalizeConfig \<Rightarrow> RawEventItem \<Rightarrow> NormalizerError + NormalizedEvent" where
  "normalize X config item =
     (case Scheme_from_str (it_scheme item) of
        None \<Rightarrow> Inl (UnsupportedScheme (it_scheme item))
      | Some scheme \<Rightarrow>
          and_then (parse X scheme (it_payload item)) (\<lambda>parsed.
          and_then (validate parsed) (\<lambda>_.
          and_then (classify X config parsed) (\<lambda>event.
          and_then
            (fail_if (ev_network event \<noteq> nc_network config)
               (ValidationFailed (Scheme_as_label scheme)
                  (''payload is on network `'' @ ev_network event
                     @ ''` but the normalizer is pinned to `'' @ nc_network config @ ''`''))) (\<lambda>_.
          Inr \<lparr>ne_event = event, ne_scheme = scheme, ne_position = it_position item\<rparr>)))))"


section \<open>What the stages accept\<close>

lemma Scheme_labels [simp]: "Scheme_from_str (Scheme_as_label s) = Some s"
  by (cases s) (simp_all add: Scheme_from_str_def)

lemma Scheme_as_label_inject [simp]: "Scheme_as_label s = Scheme_as_label t \<longleftrightarrow> s = t"
  by (cases s; cases t) simp_all

lemma Scheme_from_str_Some: "Scheme_from_str l = Some s \<longleftrightarrow> l = Scheme_as_label s"
  by (cases s) (auto simp: Scheme_from_str_def)

lemma HooksType_wire [simp]: "HooksType_from_wire (HooksType_as_str t) = Some t"
  by (cases t) (simp_all add: HooksType_from_wire_def)

lemma HooksType_from_wire_Some: "HooksType_from_wire s = Some t \<longleftrightarrow> s = HooksType_as_str t"
  by (cases t) (auto simp: HooksType_from_wire_def split: if_splits)

lemma EventKind_as_str_inject: "EventKind_as_str k = EventKind_as_str l \<longleftrightarrow> k = l"
  using EventKind_wire_roundtrip [of "EventKind_as_str k" k] EventKind_wire_roundtrip [of "EventKind_as_str k" l]
  by auto

lemma to_event_kind_inject [simp]: "to_event_kind s = to_event_kind t \<longleftrightarrow> s = t"
  by (cases s; cases t) simp_all

named_theorems stage_simps \<open>when a check of the normalizer succeeds\<close>

lemma if_some_Inr [stage_simps]: "if_some x f = Inr () \<longleftrightarrow> (\<forall>v. x = Some v \<longrightarrow> f v = Inr ())"
  by (cases x) (simp_all add: if_some_def)

lemma check_hooks_value_Inr [stage_simps]: "check_hooks_value r f = Inr () \<longleftrightarrow> (\<exists>v. r = Inr v)"
  by (cases r) (simp_all add: check_hooks_value_def)

lemma envelope_field_Inr [stage_simps]: "envelope_field f r = Inr y \<longleftrightarrow> r = Inr y"
  by (simp add: envelope_field_def)

lemma invalid_ne [simp]: "invalid_hooks d \<noteq> Inr y" "invalid_envelope d \<noteq> Inr y" "malformed s d \<noteq> Inr z"
  by (simp_all add: invalid_hooks_def invalid_envelope_def malformed_def)

text \<open>The rule of references: 1 to 128 printable ASCII characters.\<close>

definition ref_ok :: "string \<Rightarrow> bool" where
  "ref_ok raw \<longleftrightarrow> raw \<noteq> [] \<and> length raw \<le> REF_MAX_LEN \<and> list_all is_ascii_graphic raw"

lemma ref_new_Inr [stage_simps]:
  "ContractId_new raw = Inr c \<longleftrightarrow> c = raw \<and> ref_ok raw"
  "AccountId_new raw = Inr c \<longleftrightarrow> c = raw \<and> ref_ok raw"
  "TransactionHash_new raw = Inr c \<longleftrightarrow> c = raw \<and> ref_ok raw"
  by (auto simp: ContractId_new_def AccountId_new_def TransactionHash_new_def validate_ref_def ref_ok_def map_ok_eq_Inr)

text \<open>Every type-dependent field is present exactly for the types that have it.\<close>

definition hooks_fields_match :: "RawHooksEvent \<Rightarrow> bool" where
  "hooks_fields_match raw \<longleftrightarrow>
     (let t = rh_hooks_type raw in
      (rh_admin raw \<noteq> None \<longleftrightarrow> has_admin t)
      \<and> (rh_token raw \<noteq> None \<longleftrightarrow> \<not> has_admin t)
      \<and> (rh_account raw \<noteq> None \<longleftrightarrow> has_account t)
      \<and> (rh_policy raw \<noteq> None \<longleftrightarrow> has_policy_config t)
      \<and> (rh_sac_passthrough raw \<noteq> None \<longleftrightarrow> has_policy_config t))"

lemmas has_defs = has_admin_def has_account_def has_policy_config_def

lemma check_hooks_fields_Inr: "check_hooks_fields raw = Inr () \<longleftrightarrow> hooks_fields_match raw"
  by (cases "rh_hooks_type raw") (auto simp: check_hooks_fields_def hooks_fields_match_def has_defs)

lemma check_tx_hash_Inr [stage_simps]: "check_tx_hash h = Inr () \<longleftrightarrow> is_sha256_hex h"
  by (simp add: check_tx_hash_def is_sha256_hex_def)

lemma validate_hooks_state_Inr:
  "validate_hooks_state raw = Inr () \<longleftrightarrow>
     hooks_fields_match raw
     \<and> (\<forall>s. s \<in> set_option (rh_token raw) \<union> set_option (rh_admin raw) \<union> set_option (rh_account raw)
              \<union> set_option (rh_policy raw) \<longrightarrow> ref_ok s)
     \<and> is_sha256_hex (rh_transaction_hash raw) \<and> 1 \<le> rh_ledger raw \<and> 0 \<le> rh_close_time raw"
  by (auto simp: validate_hooks_state_def and_then_eq_Inr check_hooks_fields_Inr stage_simps
      elem_set split: if_splits)

lemma sha256_hex_ref_ok: "is_sha256_hex h \<Longrightarrow> ref_ok h"
  by (auto simp: is_sha256_hex_def ref_ok_def REF_MAX_LEN_def list_all_iff ascii_defs)

section \<open>Classification against a reference\<close>

text \<open>The event a valid hooks payload stands for, written down field by field.\<close>

definition hooks_event :: "('z) hash_ext_scheme \<Rightarrow> NormalizeConfig \<Rightarrow> RawHooksEvent \<Rightarrow> AuditEvent" where
  "hooks_event X config raw =
     (let n = nc_network config; kind = to_event_kind (rh_hooks_type raw);
          tx = \<lparr>txr_network = n, txr_hash = rh_transaction_hash raw\<rparr> in
      \<lparr>ev_event_id = derive_event_id X
         [n, rh_transaction_hash raw, ''op:'' @ show_nat (rh_operation_index raw),
          ''ev:'' @ show_nat (rh_event_index raw), EventKind_as_str kind],
       ev_kind = kind, ev_schema_version = EVENT_SCHEMA_VERSION, ev_network = n,
       ev_provenance = \<lparr>ep_origin = OnChain, ep_source = nc_source config,
         ep_parser_version = nc_parser_version config, ep_derivation = None\<rparr>,
       ev_observed_at = Some (rh_close_time raw),
       ev_order = \<lparr>eo_ledger_sequence = Some (rh_ledger raw), eo_transaction_position = None,
         eo_operation_index = Some (rh_operation_index raw), eo_event_index = Some (rh_event_index raw)\<rparr>,
       ev_ledger = Some \<lparr>lr_network = n, lr_sequence = rh_ledger raw, lr_close_time = Some (rh_close_time raw)\<rparr>,
       ev_transaction = Some tx,
       ev_operation = Some \<lparr>opr_transaction = tx, opr_index = rh_operation_index raw, opr_op_type = None\<rparr>,
       ev_token = map_option (for_contract n) (rh_token raw), ev_actor = None,
       ev_subject = map_option (\<lambda>a. \<lparr>acr_network = n, acr_account = a\<rparr>) (rh_account raw),
       ev_decision = None, ev_enforcement = None, ev_outcome = None, ev_reason = None,
       ev_details =
         (case rh_admin raw of Some a \<Rightarrow> [(''admin_account'', a)] | None \<Rightarrow> [])
         @ (case rh_policy raw of Some p \<Rightarrow> [(''policy_contract'', p)] | None \<Rightarrow> [])
         @ (case rh_sac_passthrough raw of
              Some flag \<Rightarrow> [(''sac_passthrough'', if flag then ''true'' else ''false'')] | None \<Rightarrow> [])\<rparr>)"

lemma hooks_event_wf: "event_wf (hooks_event X config raw)"
  by (auto simp: event_wf_def hooks_event_def Let_def for_contract_def)

lemma hooks_placement_valid:
  assumes "validate_hooks_state raw = Inr ()"
  shows "hooks_placement raw n = Inr
    \<lparr>hp_observed_at = rh_close_time raw,
     hp_order = \<lparr>eo_ledger_sequence = Some (rh_ledger raw), eo_transaction_position = None,
       eo_operation_index = Some (rh_operation_index raw), eo_event_index = Some (rh_event_index raw)\<rparr>,
     hp_ledger = \<lparr>lr_network = n, lr_sequence = rh_ledger raw, lr_close_time = Some (rh_close_time raw)\<rparr>,
     hp_transaction = \<lparr>txr_network = n, txr_hash = rh_transaction_hash raw\<rparr>,
     hp_operation = Some \<lparr>opr_transaction = \<lparr>txr_network = n, txr_hash = rh_transaction_hash raw\<rparr>,
       opr_index = rh_operation_index raw, opr_op_type = None\<rparr>\<rparr>"
proof -
  from assms have "TransactionHash_new (rh_transaction_hash raw) = Inr (rh_transaction_hash raw)"
    "\<not> rh_ledger raw < 1"
    by (auto simp: validate_hooks_state_Inr stage_simps sha256_hex_ref_ok)
  then show ?thesis
    by (simp add: hooks_placement_def Let_def metadata_classify_error_def LedgerReference_new_def OperationReference_new_def)
qed

lemma classify_hooks_valid:
  assumes "validate_hooks_state raw = Inr ()"
    and "EventProvenance_new OnChain (nc_source config) (nc_parser_version config) = Inr p"
  shows "classify_hooks X config raw = Inr (hooks_event X config raw)"
proof -
  from assms(1) have f: "hooks_fields_match raw" and refs: "\<And>s. rh_token raw = Some s \<Longrightarrow> ContractId_new s = Inr s"
    "\<And>s. rh_account raw = Some s \<Longrightarrow> AccountId_new s = Inr s" "\<And>s. rh_policy raw = Some s \<Longrightarrow> ContractId_new s = Inr s"
    by (auto simp: validate_hooks_state_Inr stage_simps)
  from assms(2) have p: "p = \<lparr>ep_origin = OnChain, ep_source = nc_source config,
      ep_parser_version = nc_parser_version config, ep_derivation = None\<rparr>"
    by (auto simp: EventProvenance_new_def split: if_splits)
  have wf: "AuditEvent_validate (hooks_event X config raw) = Inr ()"
    by (simp add: AuditEvent_validate_Inr hooks_event_wf)
  let ?base = "(AuditEvent_new (ev_event_id (hooks_event X config raw)) (to_event_kind (rh_hooks_type raw)) (nc_network config) p)
     \<lparr>ev_observed_at := ev_observed_at (hooks_event X config raw), ev_order := ev_order (hooks_event X config raw),
      ev_ledger := ev_ledger (hooks_event X config raw), ev_transaction := ev_transaction (hooks_event X config raw),
      ev_operation := ev_operation (hooks_event X config raw)\<rparr>"
  have "and_then (classify_token raw ?base) (classify_subject raw) = Inr (hooks_event X config raw)"
    using f refs
    by (cases "rh_hooks_type raw")
      (auto simp: hooks_fields_match_def has_defs classify_token_def classify_subject_def hooks_event_def Let_def
        AuditEvent_new_def p set_token_def set_subject_def set_detail_def)
  then show ?thesis
    using wf assms(2) hooks_placement_valid [OF assms(1), of "nc_network config"]
    by (auto simp: classify_hooks_def Let_def onchain_event_id_def hooks_event_def and_then_eq_Inr)
qed

section \<open>The pipeline\<close>

lemma normalize_Inr:
  "normalize X config item = Inr ne \<longleftrightarrow>
     (\<exists>parsed. parse X (ne_scheme ne) (it_payload item) = Inr parsed \<and> validate parsed = Inr ()
        \<and> classify X config parsed = Inr (ne_event ne))
     \<and> it_scheme item = Scheme_as_label (ne_scheme ne) \<and> ne_position ne = it_position item
     \<and> ev_network (ne_event ne) = nc_network config"
  by (cases ne) (auto simp: normalize_def and_then_eq_Inr Scheme_from_str_Some split: option.splits)

lemma reject_unknown_fields_Inr:
  "reject_unknown_fields obj allowed s = Inr () \<longleftrightarrow> fst ` set obj \<subseteq> set allowed"
  by (induction obj allowed s rule: reject_unknown_fields.induct) auto

text \<open>The fields of a configuration are values their constructors accept.\<close>

definition config_ok :: "NormalizeConfig \<Rightarrow> bool" where
  "config_ok config \<longleftrightarrow>
     NetworkId_new (nc_network config) = Inr (nc_network config)
     \<and> VersionLabel_new (nc_parser_version config) = Inr (nc_parser_version config)"

lemma envelope_version_ok: "event_wf e \<Longrightarrow> ev_schema_version e = supported_version AuditEnvelope"
  by (simp add: event_wf_def EVENT_SCHEMA_VERSION_def)

lemma hooks_details_ok:
  assumes "validate_hooks_state raw = Inr ()"
  shows "validate_details (ev_details (hooks_event X config raw)) = Inr ()"
proof -
  from assms have "length s \<le> 1024" if "s \<in> set_option (rh_admin raw) \<union> set_option (rh_policy raw)" for s
    using that by (fastforce simp: validate_hooks_state_Inr ref_ok_def REF_MAX_LEN_def)
  then show ?thesis
    by (auto simp: hooks_event_def Let_def ascii_defs byte_def split: option.split)
qed

text \<open>A classified hooks event is an acceptable envelope.\<close>

lemma hooks_event_envelope:
  assumes "validate_hooks_state raw = Inr ()" and "config_ok config"
  shows "validate_envelope (hooks_event X config raw) = Inr ()"
proof -
  let ?e = "hooks_event X config raw"
  from assms(1) have v: "is_sha256_hex (rh_transaction_hash raw)" "1 \<le> rh_ledger raw" "0 \<le> rh_close_time raw"
    "\<And>s. rh_token raw = Some s \<Longrightarrow> ref_ok s" "\<And>s. rh_account raw = Some s \<Longrightarrow> ref_ok s"
    by (auto simp: validate_hooks_state_Inr)
  have f: "ev_network ?e = nc_network config" "ep_parser_version (ev_provenance ?e) = nc_parser_version config"
    "ep_derivation (ev_provenance ?e) = None" "ev_observed_at ?e = Some (rh_close_time raw)"
    "eo_ledger_sequence (ev_order ?e) = Some (rh_ledger raw)"
    "ev_ledger ?e = Some \<lparr>lr_network = nc_network config, lr_sequence = rh_ledger raw, lr_close_time = Some (rh_close_time raw)\<rparr>"
    "ev_transaction ?e = Some \<lparr>txr_network = nc_network config, txr_hash = rh_transaction_hash raw\<rparr>"
    "ev_operation ?e = Some \<lparr>opr_transaction = \<lparr>txr_network = nc_network config, txr_hash = rh_transaction_hash raw\<rparr>,
       opr_index = rh_operation_index raw, opr_op_type = None\<rparr>"
    "ev_token ?e = map_option (for_contract (nc_network config)) (rh_token raw)"
    "ev_subject ?e = map_option (\<lambda>a. \<lparr>acr_network = nc_network config, acr_account = a\<rparr>) (rh_account raw)"
    "ev_actor ?e = None" "ev_decision ?e = None" "ev_enforcement ?e = None" "ev_reason ?e = None"
    by (simp_all add: hooks_event_def Let_def)
  have "TransactionHash_new (rh_transaction_hash raw) = Inr (rh_transaction_hash raw)"
    using v(1) by (simp add: stage_simps sha256_hex_ref_ok)
  then have "validate_transaction l \<lparr>txr_network = nc_network config, txr_hash = rh_transaction_hash raw\<rparr>
      = Inr \<lparr>txr_network = nc_network config, txr_hash = rh_transaction_hash raw\<rparr>" for l
    using assms(2) by (simp add: validate_transaction_def config_ok_def envelope_field_def)
  then show ?thesis
    using v assms hooks_details_ok [OF assms(1), of X config] hooks_event_wf [of X config raw]
      envelope_version_ok [OF hooks_event_wf [of X config raw]]
    by (auto simp: validate_envelope_def Let_def and_then_eq_Inr stage_simps f config_ok_def
        AuditEvent_validate_Inr validate_provenance_def validate_ledger_def LedgerReference_new_def
        validate_operation_def map_ok_eq_Inr OperationReference_new_def validate_token_def
        for_contract_def validate_account_def)
qed

lemma normalized_envelope:
  assumes "normalize X config item = Inr ne" and "config_ok config"
  shows "validate_envelope (ne_event ne) = Inr ()"
proof -
  from assms(1) obtain parsed where p: "parse X (ne_scheme ne) (it_payload item) = Inr parsed"
    "validate parsed = Inr ()" "classify X config parsed = Inr (ne_event ne)" by (auto simp: normalize_Inr)
  show ?thesis
  proof (cases parsed)
    case (HooksState raw)
    with p(3) obtain pr where pr: "EventProvenance_new OnChain (nc_source config) (nc_parser_version config) = Inr pr"
      by (auto simp: classify_hooks_def Let_def and_then_eq_Inr)
    from p(2) HooksState have v: "validate_hooks_state raw = Inr ()" by simp
    with p(3) HooksState have "ne_event ne = hooks_event X config raw"
      by (simp add: classify_hooks_valid [OF v pr])
    with hooks_event_envelope [OF v assms(2), of X] show ?thesis by simp
  qed (use p in simp)
qed

lemma validate_envelope_wf: "validate_envelope e = Inr () \<Longrightarrow> event_wf e"
  by (auto simp: validate_envelope_def Let_def and_then_eq_Inr AuditEvent_validate_Inr)

text \<open>
  C20: hooks payloads normalize to the events they stand for.  For a configuration whose source label is
  acceptable, normalizing a hooks item is decoding and validating it: classification never fails after
  validation, and the result is the reference event with its identity, placement, token, subject and
  details, at the item's position.
\<close>

theorem normalize_hooks_spec:
  assumes "it_scheme item = ''hooks-state-event''"
    and "EventProvenance_new OnChain (nc_source config) (nc_parser_version config) = Inr p"
  shows "normalize X config item =
    and_then (parse_hooks_state X (it_payload item)) (\<lambda>raw.
    and_then (validate_hooks_state raw) (\<lambda>_.
      Inr \<lparr>ne_event = hooks_event X config raw, ne_scheme = HooksStateEvent, ne_position = it_position item\<rparr>))"
proof (cases "parse_hooks_state X (it_payload item)")
  case (Inr raw)
  then show ?thesis
    using assms classify_hooks_valid [OF _ assms(2), of raw X]
    by (cases "validate_hooks_state raw")
      (simp_all add: normalize_def Scheme_from_str_def hooks_event_def Let_def)
qed (simp add: normalize_def assms(1) Scheme_from_str_def)

text \<open>
  C21: normalized events can be ingested again.  The event of any normalized item, of either scheme,
  passes the envelope's validation; when it is serialized and the JSON decodes to it again, normalizing
  that text as an \<open>audit-envelope\<close> item returns the same event.
\<close>

theorem normalize_reingest:
  assumes "normalize X config item = Inr ne" and "config_ok config"
    and "json_event X (ne_event ne) = Inr payload"
    and "json_from_str X payload = Inr (Object obj)" and "event_from_value X (Object obj) = Inr (ne_event ne)"
    and "fst ` set obj \<subseteq> set ENVELOPE_FIELDS"
  shows "normalize X config \<lparr>it_scheme = ''audit-envelope'', it_payload = payload, it_position = position\<rparr> =
    Inr \<lparr>ne_event = ne_event ne, ne_scheme = AuditEnvelope, ne_position = position\<rparr>"
proof -
  have "parse_envelope X payload = Inr (ne_event ne)"
    using assms(4-6) by (simp add: parse_envelope_def as_object_def parse_json_def reject_unknown_fields_Inr and_then_eq_Inr)
  then show ?thesis
    using normalized_envelope [OF assms(1,2)] assms(1) by (simp add: normalize_Inr)
qed

text \<open>
  What identifies a hooks event.  Under one configuration two hooks payloads get the same event id
  exactly when they agree on transaction hash, operation index, event index and type, up to a collision
  of the truncated SHA-256; ledger, close time, token, account and policy play no part.
\<close>

lemma hooks_event_identity:
  assumes "inj (json_strings X)"
  shows "ev_event_id (hooks_event X config raw) = ev_event_id (hooks_event X config raw') \<longleftrightarrow>
     (rh_transaction_hash raw, rh_operation_index raw, rh_event_index raw, rh_hooks_type raw) =
     (rh_transaction_hash raw', rh_operation_index raw', rh_event_index raw', rh_hooks_type raw')
     \<or> id_collision X
         [nc_network config, rh_transaction_hash raw, ''op:'' @ show_nat (rh_operation_index raw),
          ''ev:'' @ show_nat (rh_event_index raw), EventKind_as_str (to_event_kind (rh_hooks_type raw))]
         [nc_network config, rh_transaction_hash raw', ''op:'' @ show_nat (rh_operation_index raw'),
          ''ev:'' @ show_nat (rh_event_index raw'), EventKind_as_str (to_event_kind (rh_hooks_type raw'))]"
  by (simp add: hooks_event_def Let_def derive_event_id_def id_derive_eq [OF assms] EventKind_as_str_inject)

text \<open>
  The validation of envelopes does not look at the provenance source.  Replacing the source label
  of an event by any text whatever, an empty one or one with spaces and control characters included,
  leaves the outcome of the validation as it is.
\<close>

lemma envelope_source_unchecked:
  "validate_envelope (e\<lparr>ev_provenance := (ev_provenance e)\<lparr>ep_source := s\<rparr>\<rparr>) = validate_envelope e"
proof -
  have "AuditEvent_validate (e\<lparr>ev_provenance := (ev_provenance e)\<lparr>ep_source := s\<rparr>\<rparr>) = AuditEvent_validate e"
  proof -
    have "network_refs (e\<lparr>ev_provenance := (ev_provenance e)\<lparr>ep_source := s\<rparr>\<rparr>) = network_refs e"
      by (simp add: network_refs_def)
    then show ?thesis by (simp add: AuditEvent_validate_def cong: sum.case_cong option.case_cong)
  qed
  moreover have "validate_provenance ((ev_provenance e)\<lparr>ep_source := s\<rparr>) = validate_provenance (ev_provenance e)"
    by (simp add: validate_provenance_def)
  ultimately show ?thesis by (simp add: validate_envelope_def Let_def)
qed


section \<open>The history an indexer collects\<close>

text \<open>The normalizer as the indexer uses it.\<close>

definition normalizing :: "('n, 'z) normalizer_ext_scheme \<Rightarrow> NormalizeConfig \<Rightarrow> RawEventItem \<Rightarrow> NormalizerError + AuditEvent" where
  "normalizing X config item = map_ok ne_event (normalize X config item)"

text \<open>The stores that any number of cycles, successful or not, can lead to.\<close>

inductive indexed_history ::
  "('n, 'z) normalizer_ext_scheme \<Rightarrow> NormalizeConfig \<Rightarrow> 's EventSource \<Rightarrow> 'c CheckpointStore
     \<Rightarrow> MemoryEventStore \<Rightarrow> bool" for X config S C where
  empty: "indexed_history X config S C mem_new"
| cycle: "indexed_history X config S C store \<Longrightarrow> ix_normalize ix = normalizing X config \<Longrightarrow>
    run_once X ix S C mem_insert_batch src cps store = (res, src', cps', store') \<Longrightarrow>
    indexed_history X config S C store'"

definition store_events :: "MemoryEventStore \<Rightarrow> AuditEvent set" where
  "store_events s = (\<lambda>(k, r). rc_event r) ` set (ms_records s)"

lemma store_events_commit: "store_events (mem_commit s r) \<subseteq> insert (rc_event r) (store_events s)"
  using set_bt_insert_subset [of "PositionKey_of r" r "ms_records s"] by (fastforce simp: store_events_def)

definition yields :: "Indexer \<Rightarrow> AuditEvent \<Rightarrow> bool" where
  "yields ix ev \<longleftrightarrow> (\<exists>i. ix_normalize ix i = Inr ev)"

lemma yieldsI: "ix_normalize ix i = Inr ev \<Longrightarrow> yields ix ev"
  unfolding yields_def by (rule exI)

lemma ingest_items_events:
  assumes "ingest_items X ix items st = Inr st'"
  shows "rc_event ` set (is_records st') \<subseteq> rc_event ` set (is_records st) \<union> Collect (yields ix)"
  using assms
proof (induction items arbitrary: st)
  case (Cons i items)
  then obtain st1 where i: "ingest_item X ix i st = Inr st1" "ingest_items X ix items st1 = Inr st'"
    by (auto simp: and_then_eq_Inr)
  have "rc_event ` set (is_records st1) \<subseteq> rc_event ` set (is_records st) \<union> Collect (yields ix)"
  proof (cases "ix_normalize ix i")
    case (Inl e)
    with i(1) show ?thesis by (cases "ix_malformed_policy ix") (auto simp: ingest_item_def)
  next
    case (Inr ev)
    then have "yields ix ev" by (rule yieldsI)
    with Inr i(1) show ?thesis
      by (auto simp: ingest_item_def from_event_fields split: sum.splits if_splits)
  qed
  with Cons.IH [OF i(2)] show ?case by blast
qed simp

lemma foldl_commit_events: "store_events (foldl mem_commit s rs) \<subseteq> store_events s \<union> rc_event ` set rs"
proof (induction rs arbitrary: s)
  case (Cons r rs)
  from Cons.IH [of "mem_commit s r"] store_events_commit [of s r] show ?case by auto
qed simp

lemma mem_insert_batch_events:
  assumes "mem_insert_batch s rs = (res, s')"
  shows "store_events s' \<subseteq> store_events s \<union> rc_event ` set rs"
proof (cases res)
  case (Inl e)
  with assms show ?thesis by (auto dest: mem_insert_batch_Inl)
next
  case (Inr out)
  with assms have "s' = foldl mem_commit s (filter (\<lambda>r. \<not> mem_contains_event s (rc_event_id r)) rs)"
    by (simp add: mem_insert_batch_Inr)
  with foldl_commit_events [of s "filter (\<lambda>r. \<not> mem_contains_event s (rc_event_id r)) rs"] show ?thesis
    by (auto dest: subsetD)
qed

lemma append_page_events:
  assumes "append_page mem_insert_batch pol rep rs s = (res, s')"
  shows "store_events s' \<subseteq> store_events s \<union> rc_event ` set rs"
  using assms
  by (auto simp: append_page_def WriteBatch_new_Inr split: if_splits sum.splits prod.splits
      dest!: mem_insert_batch_events)

lemma run_once_events:
  assumes "run_once X ix S C mem_insert_batch src cps store = (res, src', cps', store')"
  shows "store_events store' \<subseteq>
    store_events store \<union> Collect (yields ix)"
proof -
  let ?N = "Collect (yields ix)"
  have "store_events store' \<subseteq> store_events store \<union> ?N"
    if p: "ingest_page X ix C mem_insert_batch name page cps store = (res, cps', store')" for name page
  proof (cases "ingest_items X ix (sp_items page) (start_state page)")
    case (Inl e)
    with p show ?thesis by (simp add: ingest_page_def)
  next
    case (Inr st)
    from ingest_items_events [OF Inr] have n: "rc_event ` set (is_records st) \<subseteq> ?N" by simp
    obtain r t where a: "append_page mem_insert_batch (ix_dedup_policy ix) (is_report st) (is_records st) store = (r, t)"
      by fastforce
    from p Inr a have "store' = store \<or> store' = t"
      by (auto simp: ingest_page_def split: if_splits sum.splits prod.splits)
    with append_page_events [OF a] n show ?thesis by blast
  qed
  with assms show ?thesis
    by (auto simp: run_once_def split: sum.splits prod.splits)
qed

text \<open>
  C19: the pinned network holds for the whole history.  Whatever cycles an indexer over a normalizer runs,
  with any source, checkpoints, policies and clocks, and whether they succeed or fail, every record of
  the store holds an event of the configured network that passes the envelope's validation.
\<close>

theorem indexed_history_pinned:
  assumes "config_ok config" and "indexed_history X config S C store"
  shows "list_all (\<lambda>(k, r). ev_network (rc_event r) = nc_network config
    \<and> validate_envelope (rc_event r) = Inr ()) (ms_records store)"
proof -
  from assms(2) have "store_events store \<subseteq>
      {ev. ev_network ev = nc_network config \<and> validate_envelope ev = Inr ()}"
  proof induction
    case empty
    then show ?case by (simp add: mem_new_def store_events_def)
  next
    case (cycle store ix src cps res src' cps' store')
    have "Collect (yields ix) \<subseteq>
        {ev. ev_network ev = nc_network config \<and> validate_envelope ev = Inr ()}"
    proof clarify
      fix ev assume "yields ix ev"
      then obtain i ne where n: "normalize X config i = Inr ne" "ev = ne_event ne"
        by (auto simp: yields_def cycle.hyps(2) normalizing_def map_ok_eq_Inr)
      from normalized_envelope [OF n(1) assms(1)] n show "ev_network ev = nc_network config \<and> validate_envelope ev = Inr ()"
        by (simp add: normalize_Inr)
    qed
    with cycle.IH run_once_events [OF cycle.hyps(3)] show ?case by blast
  qed
  then show ?thesis by (auto simp: list_all_iff store_events_def)
qed

section \<open>A sample feed\<close>

definition sample_raw :: RawHooksEvent where
  "sample_raw =
     \<lparr>rh_hooks_type = HooksType.TokenBound, rh_token = Some ''C1'', rh_admin = None, rh_account = None,
      rh_policy = None, rh_sac_passthrough = None, rh_ledger = 7, rh_close_time = 1700000000,
      rh_transaction_hash = replicate 64 (CHR ''a''), rh_operation_index = 0, rh_event_index = 1\<rparr>"

definition sample_config :: NormalizeConfig where
  "sample_config = \<lparr>nc_network = ''testnet'', nc_source = ''hooks'', nc_parser_version = ''1.0''\<rparr>"

definition sample_hooks_ext :: "int normalizer_ext" where
  "sample_hooks_ext =
     \<lparr>sha256 = sha256 inj_ext, json_strings = json_strings inj_ext, json_event = \<lambda>e. Inr ''env'',
      json_from_str = \<lambda>p.
        if p = ''hooks'' then
          Inr (Object [(''close_time'', Number 1700000000), (''event_index'', Number 1), (''ledger'', Number 7),
            (''operation_index'', Number 0), (''token'', String ''C1''),
            (''transaction_hash'', String (replicate 64 (CHR ''a''))), (''type'', String ''token_bound'')])
        else if p = ''env'' then Inr (Object [(''kind'', String ''token-bound'')])
        else Inl ''expected value'',
      num_as_i64 = Some, num_as_u64 = \<lambda>n. if n \<ge> 0 then Some (nat n) else None,
      event_from_value = \<lambda>_. Inr (hooks_event inj_ext sample_config sample_raw)\<rparr>"

definition sample_hooks_item :: RawEventItem where
  "sample_hooks_item = \<lparr>it_scheme = ''hooks-state-event'', it_payload = ''hooks'', it_position = ''p1''\<rparr>"

lemma sample_parsed: "parse_hooks_state sample_hooks_ext ''hooks'' = Inr sample_raw"
  by (simp add: parse_hooks_state_def sample_hooks_ext_def as_object_def parse_json_def HOOKS_FIELDS_def
      HooksType_from_wire_def optional_string_def required_string_def number_field_def u32_try_from_def sample_raw_def)

lemma sample_raw_valid: "validate_hooks_state sample_raw = Inr ()"
  by (simp add: validate_hooks_state_Inr sample_raw_def hooks_fields_match_def has_defs ref_ok_def REF_MAX_LEN_def
      is_sha256_hex_def list_all_iff ascii_defs byte_def)

lemma sample_config_ok: "config_ok sample_config"
  "EventProvenance_new OnChain (nc_source sample_config) (nc_parser_version sample_config) =
     Inr \<lparr>ep_origin = OnChain, ep_source = ''hooks'', ep_parser_version = ''1.0'', ep_derivation = None\<rparr>"
  by (simp_all add: config_ok_def sample_config_def NetworkId_new_def VersionLabel_new_def EventProvenance_new_def
      ascii_defs byte_def)

lemma sample_hooks_event: "hooks_event sample_hooks_ext config raw = hooks_event inj_ext config raw"
  by (simp add: hooks_event_def Let_def derive_event_id_def id_derive_def derive_def derive_bytes_def
      sample_hooks_ext_def sha256_hex_def)

lemma sample_normalized:
  "normalize sample_hooks_ext sample_config sample_hooks_item =
     Inr \<lparr>ne_event = hooks_event sample_hooks_ext sample_config sample_raw, ne_scheme = HooksStateEvent, ne_position = ''p1''\<rparr>"
  by (simp add: normalize_Inr sample_hooks_item_def sample_parsed sample_raw_valid
      classify_hooks_valid [OF sample_raw_valid sample_config_ok(2)]) (simp add: hooks_event_def Let_def)

theorem normalize_hooks_spec_witness:
  "normalize sample_hooks_ext sample_config sample_hooks_item =
     Inr \<lparr>ne_event = hooks_event sample_hooks_ext sample_config sample_raw, ne_scheme = HooksStateEvent, ne_position = ''p1''\<rparr>"
proof -
  have "it_scheme sample_hooks_item = ''hooks-state-event''" by (simp add: sample_hooks_item_def)
  from normalize_hooks_spec [OF this sample_config_ok(2), of sample_hooks_ext] show ?thesis
    by (simp add: sample_hooks_item_def sample_parsed sample_raw_valid)
qed

theorem normalize_reingest_witness:
  "normalize sample_hooks_ext sample_config \<lparr>it_scheme = ''audit-envelope'', it_payload = ''env'', it_position = ''p2''\<rparr> =
     Inr \<lparr>ne_event = hooks_event sample_hooks_ext sample_config sample_raw, ne_scheme = AuditEnvelope, ne_position = ''p2''\<rparr>"
proof -
  let ?obj = "[(''kind'', String ''token-bound'')] :: (string \<times> int Value) list"
  have "json_event sample_hooks_ext e = Inr ''env''" for e by (simp add: sample_hooks_ext_def)
  moreover have "json_from_str sample_hooks_ext ''env'' = Inr (Object ?obj)" by (simp add: sample_hooks_ext_def)
  moreover have "event_from_value sample_hooks_ext (Object ?obj) = Inr (hooks_event sample_hooks_ext sample_config sample_raw)"
    unfolding sample_hooks_event by (simp add: sample_hooks_ext_def)
  moreover have "fst ` set ?obj \<subseteq> set ENVELOPE_FIELDS" by (simp add: ENVELOPE_FIELDS_def)
  ultimately show ?thesis
    using normalize_reingest [OF sample_normalized sample_config_ok(1), of "''env''" ?obj "''p2''"] by simp
qed

definition sample_hooks_indexer :: Indexer where
  "sample_hooks_indexer =
     \<lparr>ix_normalize = normalizing sample_hooks_ext sample_config, ix_clock = \<lambda>_. 1700000000,
      ix_dedup_policy = SkipDuplicates, ix_malformed_policy = SkipAndReport, ix_page_limit = 10\<rparr>"

lemma sample_hooks_run:
  obtains rep cps r s where
    "run_once sample_hooks_ext sample_hooks_indexer (sample_source [sample_hooks_item] None) memcp
       mem_insert_batch () Map.empty mem_new = (Inr rep, (), cps, s)"
    "ms_records s = [(PositionKey_of r, r)]"
proof -
  let ?e = "hooks_event sample_hooks_ext sample_config sample_raw"
  obtain r where r: "from_event sample_hooks_ext ?e 1700000000 = Inr r" "record_wf r"
    using hooks_event_wf [of sample_hooks_ext sample_config sample_raw]
    by (auto simp: from_event_def event_canonical_bytes_def sample_hooks_ext_def record_wf_def AuditEvent_validate_Inr
        hooks_event_def Let_def sample_raw_def)
  then have wf: "batch_wf [r]" by (simp add: batch_wf_def)
  obtain out s where b: "mem_insert_batch mem_new [r] = (Inr out, s)"
    using r(2) by (auto simp: mem_insert_batch_Inr)
  have "ix_normalize sample_hooks_indexer sample_hooks_item = Inr ?e"
    by (simp add: sample_hooks_indexer_def normalizing_def sample_normalized)
  moreover have "eo_ledger_sequence (ev_order ?e) \<noteq> None" by (simp add: hooks_event_def Let_def)
  ultimately have "\<exists>rep cps. run_once sample_hooks_ext sample_hooks_indexer (sample_source [sample_hooks_item] None) memcp
       mem_insert_batch () Map.empty mem_new = (Inr rep, (), cps, s)"
    using r wf b
    by (simp add: run_once_def ingest_page_def sample_source_def SourcePage_new_def ingest_item_def
        note_placement_def append_page_def checkpoint_page_def sample_hooks_item_def sample_hooks_indexer_def
        SourceCursor_new_def Checkpoint_at_def validate_source_name_def label_ok_def ascii_defs byte_def
        iffD2 [OF WriteBatch_new_Inr] memcp_def memcp_save_def memcp_load_def)
  moreover have "ms_records s = [(PositionKey_of r, r)]"
    using b by (simp add: mem_insert_batch_Inr mem_contains_event_def mem_new_def)
  ultimately show thesis using that by blast
qed

theorem indexed_history_pinned_witness:
  "\<exists>k r. list_all (\<lambda>(k, r). ev_network (rc_event r) = ''testnet'' \<and> validate_envelope (rc_event r) = Inr ())
      (ms_records (snd (snd (snd (run_once sample_hooks_ext sample_hooks_indexer (sample_source [sample_hooks_item] None)
         memcp mem_insert_batch () Map.empty mem_new)))))
    \<and> ms_records (snd (snd (snd (run_once sample_hooks_ext sample_hooks_indexer (sample_source [sample_hooks_item] None)
         memcp mem_insert_batch () Map.empty mem_new)))) = [(k, r)]"
proof -
  obtain rep cps r s where run: "run_once sample_hooks_ext sample_hooks_indexer (sample_source [sample_hooks_item] None)
      memcp mem_insert_batch () Map.empty mem_new = (Inr rep, (), cps, s)"
    and s: "ms_records s = [(PositionKey_of r, r)]" by (rule sample_hooks_run)
  have "indexed_history sample_hooks_ext sample_config (sample_source [sample_hooks_item] None) memcp s"
    by (rule indexed_history.cycle [OF indexed_history.empty _ run]) (simp add: sample_hooks_indexer_def)
  from indexed_history_pinned [OF sample_config_ok(1) this] run s show ?thesis by (simp add: sample_config_def)
qed

end
