(* ===== verification/Audit_Rpc.thy ===== *)
theory Audit_Rpc
  imports Audit_Soroban Audit_Json
begin

text \<open>
  \<open>crates/rpc/src\<close>: the parameters of a \<open>getEvents\<close> request and their rules, the JSON-RPC request and
  response forms, retrying with backoff, the recorded-event client, and the feed that adapts a client
  to the Soroban source.

  A client is its state and \<open>get_events\<close>, which maps a state and parameters to the result and the new
  state.  A \<open>Duration\<close> is a number of nanoseconds.  \<open>serde_json\<close> and the debug rendering of strings are
  fields of \<open>rpc_ext\<close>.
\<close>

section \<open>Errors\<close>

datatype RpcError =
    Transport string
  | Server int string
  | Malformed string
  | InvalidRequest string

fun RpcError_to_string :: "RpcError \<Rightarrow> string" where
  "RpcError_to_string (Transport d) = ''transport failure: '' @ d"
| "RpcError_to_string (Server code message) = ''rpc server error '' @ show_int code @ '': '' @ message"
| "RpcError_to_string (Malformed d) = ''malformed rpc response: '' @ d"
| "RpcError_to_string (InvalidRequest d) = ''invalid rpc request: '' @ d"

fun is_retryable :: "RpcError \<Rightarrow> bool" where
  "is_retryable (Transport _) = True"
| "is_retryable (Server code _) = (- 32099 \<le> code \<and> code \<le> - 32000)"
| "is_retryable (Malformed _) = False"
| "is_retryable (InvalidRequest _) = False"

section \<open>Requests\<close>

definition MIN_LIMIT :: nat where "MIN_LIMIT = 1"
definition MAX_LIMIT :: nat where "MAX_LIMIT = 10000"
definition MAX_FILTERS :: nat where "MAX_FILTERS = 5"
definition MAX_CONTRACT_IDS_PER_FILTER :: nat where "MAX_CONTRACT_IDS_PER_FILTER = 5"

datatype EventTypeFilter = Contract | System

fun EventTypeFilter_as_str :: "EventTypeFilter \<Rightarrow> string" where
  "EventTypeFilter_as_str EventTypeFilter.Contract = ''contract''"
| "EventTypeFilter_as_str EventTypeFilter.System = ''system''"

record EventFilter =
  ef_filter_type :: "EventTypeFilter option"
  ef_contract_ids :: "string list"
  ef_topics :: "string list list"

definition filter_for_contract :: "string \<Rightarrow> EventFilter" where
  "filter_for_contract contract_id =
     \<lparr>ef_filter_type = Some EventTypeFilter.Contract, ef_contract_ids = [contract_id], ef_topics = []\<rparr>"

fun check_topics :: "nat \<Rightarrow> string list list \<Rightarrow> RpcError + unit" where
  "check_topics index [] = Inr ()"
| "check_topics index (matchers # topics) =
     (if matchers = [] \<or> length matchers > 4
      then Inl (InvalidRequest (''topic matcher '' @ show_nat index
                  @ '' must hold 1-4 segment matchers, got '' @ show_nat (length matchers)))
      else check_topics (index + 1) topics)"

definition EventFilter_validate :: "EventFilter \<Rightarrow> RpcError + unit" where
  "EventFilter_validate f =
     and_then
       (fail_if (length (ef_contract_ids f) > MAX_CONTRACT_IDS_PER_FILTER)
          (InvalidRequest (''a filter may name at most '' @ show_nat MAX_CONTRACT_IDS_PER_FILTER
             @ '' contract ids, got '' @ show_nat (length (ef_contract_ids f))))) (\<lambda>_.
     and_then
       (fail_if (length (ef_topics f) > MAX_FILTERS)
          (InvalidRequest (''a filter may carry at most '' @ show_nat MAX_FILTERS
             @ '' topic matchers, got '' @ show_nat (length (ef_topics f))))) (\<lambda>_.
     check_topics 0 (ef_topics f)))"

record 'n RpcErrorBody =
  eb_code :: int
  eb_message :: string
  eb_data :: "'n Value option"

definition RpcError_from_body :: "'n RpcErrorBody \<Rightarrow> RpcError" where
  "RpcError_from_body body = Server (eb_code body) (eb_message body)"

record ('n, 't) JsonRpcEnvelope =
  je_jsonrpc :: string
  je_id :: "'n Value option"
  je_result :: "'t option"
  je_error :: "'n RpcErrorBody option"

record 'n rpc_ext =
  num_of_int :: "int \<Rightarrow> 'n"
  json_to_string :: "'n Value \<Rightarrow> string + string"
  decode_response :: "string \<Rightarrow> string + ('n, SorobanEventsResult) JsonRpcEnvelope"
  debug_str :: "string \<Rightarrow> string"

definition EventFilter_to_value :: "EventFilter \<Rightarrow> 'n Value" where
  "EventFilter_to_value f =
     (let obj = [];
          obj = (case ef_filter_type f of
                   None \<Rightarrow> obj
                 | Some t \<Rightarrow> bt_insert ''type'' (String (EventTypeFilter_as_str t)) obj);
          obj = (if ef_contract_ids f = [] then obj
                 else bt_insert ''contractIds'' (Array (map String (ef_contract_ids f))) obj);
          obj = (if ef_topics f = [] then obj
                 else bt_insert ''topics'' (Array (map (\<lambda>ms. Array (map String ms)) (ef_topics f))) obj)
      in Object obj)"

record GetEventsParams =
  gp_start_ledger :: "nat option"
  gp_end_ledger :: "nat option"
  gp_filters :: "EventFilter list"
  gp_cursor :: "string option"
  gp_limit :: "nat option"

definition GetEventsParams_new :: GetEventsParams where
  "GetEventsParams_new = \<lparr>gp_start_ledger = None, gp_end_ledger = None, gp_filters = [],
     gp_cursor = None, gp_limit = None\<rparr>"

definition params_start_ledger :: "nat \<Rightarrow> GetEventsParams \<Rightarrow> GetEventsParams" where
  "params_start_ledger ledger p = p\<lparr>gp_start_ledger := Some ledger\<rparr>"

definition params_end_ledger :: "nat \<Rightarrow> GetEventsParams \<Rightarrow> GetEventsParams" where
  "params_end_ledger ledger p = p\<lparr>gp_end_ledger := Some ledger\<rparr>"

definition params_cursor :: "string \<Rightarrow> GetEventsParams \<Rightarrow> GetEventsParams" where
  "params_cursor cursor p = p\<lparr>gp_cursor := Some cursor\<rparr>"

definition params_limit :: "nat \<Rightarrow> GetEventsParams \<Rightarrow> GetEventsParams" where
  "params_limit limit p = p\<lparr>gp_limit := Some limit\<rparr>"

definition params_add_filter :: "EventFilter \<Rightarrow> GetEventsParams \<Rightarrow> GetEventsParams" where
  "params_add_filter f p = p\<lparr>gp_filters := gp_filters p @ [f]\<rparr>"

definition params_validate :: "GetEventsParams \<Rightarrow> RpcError + unit" where
  "params_validate p =
     and_then
       (case gp_limit p of
          None \<Rightarrow> Inr ()
        | Some limit \<Rightarrow>
            fail_if (\<not> (MIN_LIMIT \<le> limit \<and> limit \<le> MAX_LIMIT))
              (InvalidRequest (''limit must be within '' @ show_nat MIN_LIMIT @ ''-'' @ show_nat MAX_LIMIT
                 @ '', got '' @ show_nat limit))) (\<lambda>_.
     and_then
       (fail_if (length (gp_filters p) > MAX_FILTERS)
          (InvalidRequest (''at most '' @ show_nat MAX_FILTERS @ '' filters per request, got ''
             @ show_nat (length (gp_filters p))))) (\<lambda>_.
     and_then (try_map EventFilter_validate (gp_filters p)) (\<lambda>_.
     if gp_cursor p \<noteq> None then
       fail_if (gp_start_ledger p \<noteq> None \<or> gp_end_ledger p \<noteq> None)
         (InvalidRequest ''a cursor request must not carry startLedger or endLedger'')
     else
       fail_if (gp_start_ledger p = None)
         (InvalidRequest ''a request needs either a cursor or a startLedger''))))"

definition params_to_value :: "('n, 'z) rpc_ext_scheme \<Rightarrow> GetEventsParams \<Rightarrow> 'n Value" where
  "params_to_value X p =
     (let put = (\<lambda>k v obj. case v of None \<Rightarrow> obj | Some x \<Rightarrow> bt_insert k x obj);
          num = (\<lambda>n. Number (num_of_int X (int n)));
          obj = put ''startLedger'' (map_option num (gp_start_ledger p)) [];
          obj = put ''endLedger'' (map_option num (gp_end_ledger p)) obj;
          obj = (if gp_filters p = [] then obj
                 else bt_insert ''filters'' (Array (map EventFilter_to_value (gp_filters p))) obj);
          pagination = put ''cursor'' (map_option String (gp_cursor p)) [];
          pagination = put ''limit'' (map_option num (gp_limit p)) pagination;
          obj = (if pagination = [] then obj else bt_insert ''pagination'' (Object pagination) obj)
      in Object obj)"

record GetEventsRequest =
  gr_id :: int
  gr_params :: GetEventsParams

definition GetEventsRequest_new :: "int \<Rightarrow> GetEventsParams \<Rightarrow> GetEventsRequest" where
  "GetEventsRequest_new i params = \<lparr>gr_id = i, gr_params = params\<rparr>"

definition request_body :: "('n, 'z) rpc_ext_scheme \<Rightarrow> GetEventsRequest \<Rightarrow> RpcError + string" where
  "request_body X r =
     and_then (params_validate (gr_params r)) (\<lambda>_.
     map_err Malformed
       (json_to_string X (Object (fold (\<lambda>(k, v). bt_insert k v)
          [(''jsonrpc'', String ''2.0''), (''id'', Number (num_of_int X (gr_id r))),
           (''method'', String ''getEvents''), (''params'', params_to_value X (gr_params r))] []))))"

definition into_result :: "('n, 'z) rpc_ext_scheme \<Rightarrow> ('n, 't) JsonRpcEnvelope \<Rightarrow> RpcError + 't" where
  "into_result X env =
     (if je_jsonrpc env \<noteq> ''2.0''
      then Inl (Malformed (''expected jsonrpc 2.0, got '' @ debug_str X (je_jsonrpc env)))
      else case je_error env of
             Some body \<Rightarrow> Inl (RpcError_from_body body)
           | None \<Rightarrow>
               (case je_result env of
                  Some t \<Rightarrow> Inr t
                | None \<Rightarrow> Inl (Malformed ''response carried neither a result nor an error'')))"

definition parse_get_events_response ::
  "('n, 'z) rpc_ext_scheme \<Rightarrow> string \<Rightarrow> RpcError + SorobanEventsResult" where
  "parse_get_events_response X body =
     and_then (map_err Malformed (decode_response X body)) (into_result X)"

section \<open>Retrying\<close>

type_synonym Duration = nat

definition DURATION_MAX :: Duration where
  "DURATION_MAX = 2 ^ 64 * 10 ^ 9 - 1"

definition saturating_mul :: "Duration \<Rightarrow> nat \<Rightarrow> Duration" where
  "saturating_mul d k = min (d * k) DURATION_MAX"

record RetryPolicy =
  rp_max_attempts :: nat
  rp_base_delay :: Duration
  rp_max_delay :: Duration

definition RetryPolicy_default :: RetryPolicy where
  "RetryPolicy_default = \<lparr>rp_max_attempts = 5, rp_base_delay = 200 * 10 ^ 6, rp_max_delay = 5 * 10 ^ 9\<rparr>"

definition RetryPolicy_new :: "nat \<Rightarrow> Duration \<Rightarrow> Duration \<Rightarrow> RpcError + RetryPolicy" where
  "RetryPolicy_new max_attempts base_delay max_delay =
     and_then (fail_if (max_attempts = 0) (InvalidRequest ''max_attempts must be at least 1'')) (\<lambda>_.
     and_then
       (fail_if (max_delay < base_delay)
          (InvalidRequest ''max_delay must not be smaller than base_delay'')) (\<lambda>_.
     Inr \<lparr>rp_max_attempts = max_attempts, rp_base_delay = base_delay, rp_max_delay = max_delay\<rparr>))"

record RpcPolicy =
  pol_attempt_timeout :: Duration
  pol_retry :: RetryPolicy

definition RpcPolicy_default :: RpcPolicy where
  "RpcPolicy_default = \<lparr>pol_attempt_timeout = 30 * 10 ^ 9, pol_retry = RetryPolicy_default\<rparr>"

definition backoff :: "RetryPolicy \<Rightarrow> nat \<Rightarrow> Duration" where
  "backoff policy retry_number =
     (let exponent = min (retry_number - 1) 16
      in min (saturating_mul (rp_base_delay policy) (2 ^ exponent)) (rp_max_delay policy))"

text \<open>The loop over the attempt numbers; the sleeps are listed beside the result.\<close>

function retry_from ::
  "RetryPolicy \<Rightarrow> ('s \<Rightarrow> (RpcError + SorobanEventsResult) \<times> 's) \<Rightarrow> nat \<Rightarrow> 's \<Rightarrow> Duration list
     \<Rightarrow> (RpcError + SorobanEventsResult) \<times> 's \<times> Duration list" where
  "retry_from policy attempt n s slept =
     (if n > rp_max_attempts policy
      then (Inl (Transport ''retry policy exhausted without an attempt''), s, slept)
      else case attempt s of
             (Inr page, s') \<Rightarrow> (Inr page, s', slept)
           | (Inl e, s') \<Rightarrow>
               if is_retryable e \<and> n < rp_max_attempts policy
               then retry_from policy attempt (n + 1) s' (slept @ [backoff policy n])
               else (Inl e, s', slept))"
  by pat_completeness auto
termination
  by (relation "measure (\<lambda>(policy, attempt, n, s, slept). rp_max_attempts policy + 1 - n)") auto

declare retry_from.simps [simp del]

definition fetch_with_retry ::
  "RetryPolicy \<Rightarrow> ('s \<Rightarrow> (RpcError + SorobanEventsResult) \<times> 's) \<Rightarrow> 's
     \<Rightarrow> (RpcError + SorobanEventsResult) \<times> 's \<times> Duration list" where
  "fetch_with_retry policy attempt s = retry_from policy attempt 1 s []"

section \<open>The recorded-event client and the feed\<close>

type_synonym 'c EventsRpc = "'c \<Rightarrow> GetEventsParams \<Rightarrow> (RpcError + SorobanEventsResult) \<times> 'c"

record MockEventsClient =
  mc_events :: "SorobanEvent list"
  mc_default_limit :: nat
  mc_transport_failures_remaining :: nat

definition MockEventsClient_new :: "SorobanEvent list \<Rightarrow> MockEventsClient" where
  "MockEventsClient_new events =
     \<lparr>mc_events = events, mc_default_limit = 100, mc_transport_failures_remaining = 0\<rparr>"

definition fail_next :: "nat \<Rightarrow> MockEventsClient \<Rightarrow> MockEventsClient" where
  "fail_next count c = c\<lparr>mc_transport_failures_remaining := count\<rparr>"

fun position :: "('a \<Rightarrow> bool) \<Rightarrow> 'a list \<Rightarrow> nat option" where
  "position p [] = None"
| "position p (x # xs) = (if p x then Some 0 else map_option Suc (position p xs))"

definition mock_get_events :: "MockEventsClient EventsRpc" where
  "mock_get_events c params =
     (if mc_transport_failures_remaining c > 0
      then (Inl (Transport ''mock node unreachable''),
            c\<lparr>mc_transport_failures_remaining := mc_transport_failures_remaining c - 1\<rparr>)
      else
        (and_then (params_validate params) (\<lambda>_.
         and_then
           (case gp_cursor params of
              None \<Rightarrow> Inr 0
            | Some cursor \<Rightarrow>
                (case position (\<lambda>e. se_id e = cursor) (mc_events c) of
                   Some at \<Rightarrow> Inr (at + 1)
                 | None \<Rightarrow> Inl (InvalidRequest (''unknown cursor '' @ cursor)))) (\<lambda>start.
         (let limit = (case gp_limit params of Some l \<Rightarrow> l | None \<Rightarrow> mc_default_limit c);
              finish = min (start + limit) (length (mc_events c));
              served = take (finish - start) (drop start (mc_events c));
              cursor = (if finish < length (mc_events c)
                        then (if served = [] then None else Some (se_id (last served)))
                        else None)
          in Inr \<lparr>sr_events = served, sr_cursor = cursor, sr_latest_ledger = None, sr_oldest_ledger = None,
                  sr_latest_ledger_close_time = None, sr_oldest_ledger_close_time = None\<rparr>))), c))"

record 'c EventsRpcFeed =
  rf_client :: 'c
  rf_start_ledger :: "nat option"

definition EventsRpcFeed_new :: "'c \<Rightarrow> nat option \<Rightarrow> 'c EventsRpcFeed" where [simp]:
  "EventsRpcFeed_new client start_ledger = \<lparr>rf_client = client, rf_start_ledger = start_ledger\<rparr>"

text \<open>The parameters \<open>fetch_page\<close> builds from a resume position.\<close>

definition feed_params :: "nat option \<Rightarrow> string option \<Rightarrow> nat \<Rightarrow> GetEventsParams" where
  "feed_params start_ledger after limit =
     (let params = GetEventsParams_new;
          params = (case after of
                      Some cursor \<Rightarrow> params_cursor cursor params
                    | None \<Rightarrow>
                        (case start_ledger of
                           Some ledger \<Rightarrow> params_start_ledger ledger params
                         | None \<Rightarrow> params))
      in params_limit limit params)"

definition rpc_fetch_page :: "'c EventsRpc \<Rightarrow> 'c EventsRpcFeed SorobanEventFeed" where
  "rpc_fetch_page get_events feed after limit =
     (if \<not> (1 \<le> limit \<and> limit \<le> MAX_LIMIT)
      then (Inl (InvalidItem (''page limit '' @ show_nat limit @ '' is outside the getEvents range'')), feed)
      else
        (let params = feed_params (rf_start_ledger feed) after limit in
         case params_validate params of
           Inl e \<Rightarrow> (Inl (InvalidItem (RpcError_to_string e)), feed)
         | Inr _ \<Rightarrow>
             (case get_events (rf_client feed) params of
                (res, client) \<Rightarrow>
                  (map_err (\<lambda>e. FetchFailed (RpcError_to_string e)) res, feed\<lparr>rf_client := client\<rparr>))))"

section \<open>What retrying returns\<close>

text \<open>The state after a number of calls, and the outcome of the call made there.\<close>

definition after_calls :: "('s \<Rightarrow> (RpcError + 'p) \<times> 's) \<Rightarrow> 's \<Rightarrow> nat \<Rightarrow> 's" where
  "after_calls attempt s k = ((\<lambda>s. snd (attempt s)) ^^ k) s"

definition outcome :: "('s \<Rightarrow> (RpcError + 'p) \<times> 's) \<Rightarrow> 's \<Rightarrow> nat \<Rightarrow> RpcError + 'p" where
  "outcome attempt s k = fst (attempt (after_calls attempt s k))"

definition transient :: "RpcError + 'p \<Rightarrow> bool" where
  "transient r \<longleftrightarrow> (case r of Inl e \<Rightarrow> is_retryable e | Inr _ \<Rightarrow> False)"

lemma after_calls_simps [simp]:
  "after_calls attempt s 0 = s" "after_calls attempt (snd (attempt s)) k = after_calls attempt s (Suc k)"
  by (simp_all add: after_calls_def funpow_Suc_right del: funpow.simps)

lemma outcome_Suc: "outcome attempt (snd (attempt s)) k = outcome attempt s (Suc k)"
  by (simp add: outcome_def)

lemma retry_from_spec:
  assumes "n + m = rp_max_attempts policy"
  shows "\<exists>k \<le> m. retry_from policy attempt n s slept =
      (outcome attempt s k, after_calls attempt s (Suc k), slept @ map (backoff policy) [n..<n + k])
    \<and> (\<forall>j < k. transient (outcome attempt s j)) \<and> (\<not> transient (outcome attempt s k) \<or> k = m)"
  using assms
proof (induction m arbitrary: n s slept)
  case 0
  obtain r s' where a: "attempt s = (r, s')" by fastforce
  with 0 have "retry_from policy attempt n s slept = (outcome attempt s 0, after_calls attempt s (Suc 0), slept)"
    by (subst retry_from.simps) (auto simp: outcome_def after_calls_def split: sum.split)
  then show ?case by auto
next
  case (Suc m)
  obtain r s' where a: "attempt s = (r, s')" by fastforce
  show ?case
  proof (cases "transient r")
    case True
    then obtain e where e: "r = Inl e" "is_retryable e" by (cases r) (auto simp: transient_def)
    with a Suc.prems have step: "retry_from policy attempt n s slept =
        retry_from policy attempt (Suc n) s' (slept @ [backoff policy n])"
      by (subst retry_from.simps) simp
    from Suc.IH [of "Suc n" s' "slept @ [backoff policy n]"] Suc.prems obtain k where
      k: "k \<le> m" "retry_from policy attempt (Suc n) s' (slept @ [backoff policy n]) =
        (outcome attempt s' k, after_calls attempt s' (Suc k),
         (slept @ [backoff policy n]) @ map (backoff policy) [Suc n..<Suc n + k])"
      "\<forall>j < k. transient (outcome attempt s' j)" "\<not> transient (outcome attempt s' k) \<or> k = m" by auto
    have s': "s' = snd (attempt s)" using a by simp
    have "transient (outcome attempt s 0)" using True a by (simp add: outcome_def)
    with k(3) have "\<forall>j < Suc k. transient (outcome attempt s j)"
      by (auto simp: s' outcome_Suc less_Suc_eq_0_disj)
    moreover have "[n..<n + Suc k] = n # [Suc n..<Suc n + k]" by (simp add: upt_conv_Cons del: upt_Suc)
    ultimately show ?thesis
      using k step by (intro exI [of _ "Suc k"]) (auto simp: s' outcome_Suc simp del: upt_Suc)
  next
    case False
    with a Suc.prems have "retry_from policy attempt n s slept = (outcome attempt s 0, after_calls attempt s (Suc 0), slept)"
      by (subst retry_from.simps) (auto simp: outcome_def after_calls_def transient_def split: sum.split)
    with False a show ?thesis by (intro exI [of _ 0]) (auto simp: outcome_def)
  qed
qed

text \<open>
  C38: what retrying returns.  Under a policy with at least one attempt \<open>fetch_with_retry\<close> always returns,
  with the outcome of its last call and without the exhaustion error of its own: all earlier calls failed
  transiently, the last one succeeded, failed permanently or used the final attempt, and it slept the
  backoff of each retry in turn.
\<close>

theorem fetch_with_retry_outcome:
  assumes "1 \<le> rp_max_attempts policy"
  shows "\<exists>k < rp_max_attempts policy. fetch_with_retry policy attempt s =
      (outcome attempt s k, after_calls attempt s (Suc k), map (backoff policy) [1..<Suc k])
    \<and> (\<forall>j < k. transient (outcome attempt s j))
    \<and> (\<not> transient (outcome attempt s k) \<or> Suc k = rp_max_attempts policy)"
proof -
  from assms have "1 + (rp_max_attempts policy - 1) = rp_max_attempts policy" by simp
  from retry_from_spec [OF this, of attempt s "[]"] obtain k where
    "k \<le> rp_max_attempts policy - 1" "retry_from policy attempt 1 s [] =
      (outcome attempt s k, after_calls attempt s (Suc k), map (backoff policy) [1..<1 + k])"
    "\<forall>j < k. transient (outcome attempt s j)" "\<not> transient (outcome attempt s k) \<or> k = rp_max_attempts policy - 1"
    by auto
  with assms show ?thesis by (intro exI [of _ k]) (auto simp: fetch_with_retry_def)
qed

text \<open>Backoff delays of a constructed policy start at the base, never decrease and stay within the bounds.\<close>

lemma backoff_bounds:
  assumes "RetryPolicy_new n base m = Inr policy" "m \<le> DURATION_MAX"
  shows "backoff policy 1 = base" "base \<le> backoff policy k" "backoff policy k \<le> m"
    "i \<le> j \<Longrightarrow> backoff policy i \<le> backoff policy j"
proof -
  from assms have p: "rp_base_delay policy = base" "rp_max_delay policy = m" "base \<le> m"
    by (auto simp: RetryPolicy_new_def and_then_eq_Inr not_less)
  have one: "base \<le> base * 2 ^ e" for e :: nat by simp
  show "backoff policy 1 = base" "backoff policy k \<le> m"
    using p assms(2) by (auto simp: backoff_def saturating_mul_def)
  show "base \<le> backoff policy k"
    using p assms(2) one by (auto simp: backoff_def saturating_mul_def Let_def)
  assume "i \<le> j"
  then have "base * 2 ^ min (i - 1) 16 \<le> base * 2 ^ min (j - 1) 16"
    by (intro mult_le_mono2 power_increasing) auto
  then show "backoff policy i \<le> backoff policy j"
    unfolding backoff_def saturating_mul_def Let_def p by (intro min.mono order_refl)
qed

section \<open>Paging through a client\<close>

text \<open>
  What the feed relies on of a client: for parameters that validate, a ready client serves the recorded
  events behind the cursor, up to the limit, with a cursor exactly when more follow.
\<close>

definition starts_at :: "SorobanEvent list \<Rightarrow> string option \<Rightarrow> nat \<Rightarrow> bool" where
  "starts_at events cursor start \<longleftrightarrow>
     (case cursor of
        None \<Rightarrow> start = 0
      | Some c \<Rightarrow> 0 < start \<and> start \<le> length events \<and> se_id (events ! (start - 1)) = c)"

locale paged_rpc =
  fixes get_events :: "'c EventsRpc" and recorded :: "'c \<Rightarrow> SorobanEvent list" and ready :: "'c \<Rightarrow> bool"
  assumes serve: "ready c \<Longrightarrow> params_validate p = Inr () \<Longrightarrow> gp_limit p = Some l \<Longrightarrow>
    starts_at (recorded c) (gp_cursor p) start \<Longrightarrow>
    \<exists>res c'. get_events c p = (Inr res, c') \<and> ready c' \<and> recorded c' = recorded c
      \<and> sr_events res = take l (drop start (recorded c))
      \<and> sr_cursor res = (if start + l < length (recorded c)
          then Some (se_id (recorded c ! (start + l - 1))) else None)"
begin

lemma feed_page:
  assumes "ready (rf_client f)" "1 \<le> l" "l \<le> MAX_LIMIT" "rf_start_ledger f = Some ledger"
    and "starts_at (recorded (rf_client f)) after start"
  shows "\<exists>res c'. rpc_fetch_page get_events f after l = (Inr res, f\<lparr>rf_client := c'\<rparr>) \<and> ready c'
    \<and> recorded c' = recorded (rf_client f)
    \<and> sr_events res = take l (drop start (recorded (rf_client f)))
    \<and> sr_cursor res = (if start + l < length (recorded (rf_client f))
        then Some (se_id (recorded (rf_client f) ! (start + l - 1))) else None)"
proof -
  let ?p = "feed_params (rf_start_ledger f) after l"
  have p: "params_validate ?p = Inr ()" "gp_limit ?p = Some l" "gp_cursor ?p = after"
    using assms(2-4)
    by (cases after; simp add: feed_params_def Let_def params_validate_def params_limit_def params_cursor_def
        params_start_ledger_def GetEventsParams_new_def MIN_LIMIT_def)+
  from serve [OF assms(1) p(1,2), of start] assms(5) p(3) obtain res c' where
    "get_events (rf_client f) ?p = (Inr res, c')" "ready c'" "recorded c' = recorded (rf_client f)"
    "sr_events res = take l (drop start (recorded (rf_client f)))"
    "sr_cursor res = (if start + l < length (recorded (rf_client f))
        then Some (se_id (recorded (rf_client f) ! (start + l - 1))) else None)" by auto
  then show ?thesis
    using assms(2,3) p(1) by (intro exI [of _ res] exI [of _ c']) (simp add: rpc_fetch_page_def)
qed

end

text \<open>Following the cursors of a feed, with a bound on the number of pages.\<close>

fun feed_drain ::
  "nat \<Rightarrow> 'f SorobanEventFeed \<Rightarrow> 'f \<Rightarrow> string option \<Rightarrow> nat \<Rightarrow> (SourceError + SorobanEvent list) option" where
  "feed_drain 0 fetch_page feed after limit = None"
| "feed_drain (Suc n) fetch_page feed after limit =
     (case fetch_page feed after limit of
        (Inl e, _) \<Rightarrow> Some (Inl e)
      | (Inr res, feed') \<Rightarrow>
          (case sr_cursor res of
             None \<Rightarrow> Some (Inr (sr_events res))
           | Some c \<Rightarrow> map_option (map_ok ((@) (sr_events res))) (feed_drain n fetch_page feed' (Some c) limit)))"

context paged_rpc
begin

lemma drain_complete:
  assumes "ready (rf_client f)" "1 \<le> l" "l \<le> MAX_LIMIT" "rf_start_ledger f = Some ledger"
    and "starts_at (recorded (rf_client f)) after start" "length (recorded (rf_client f)) < start + n"
  shows "feed_drain n (rpc_fetch_page get_events) f after l = Some (Inr (drop start (recorded (rf_client f))))"
  using assms
proof (induction n arbitrary: f after start)
  case 0
  then show ?case by (auto simp: starts_at_def split: option.splits)
next
  case (Suc n)
  let ?es = "recorded (rf_client f)"
  from feed_page [OF Suc.prems(1-5)] obtain res c' where
    page: "rpc_fetch_page get_events f after l = (Inr res, f\<lparr>rf_client := c'\<rparr>)" "ready c'" "recorded c' = ?es"
    and es: "sr_events res = take l (drop start ?es)"
    and cur: "sr_cursor res = (if start + l < length ?es then Some (se_id (?es ! (start + l - 1))) else None)"
    by blast
  show ?case
  proof (cases "start + l < length ?es")
    case True
    then have "starts_at (recorded (rf_client (f\<lparr>rf_client := c'\<rparr>))) (Some (se_id (?es ! (start + l - 1)))) (start + l)"
      using Suc.prems(2) page(3) by (simp add: starts_at_def)
    from Suc.IH [OF _ Suc.prems(2,3) _ this] page Suc.prems
    have "feed_drain n (rpc_fetch_page get_events) (f\<lparr>rf_client := c'\<rparr>) (Some (se_id (?es ! (start + l - 1)))) l
        = Some (Inr (drop (start + l) ?es))" by simp
    moreover have "take l (drop start ?es) @ drop (start + l) ?es = drop start ?es"
      by (metis add.commute append_take_drop_id drop_drop)
    ultimately show ?thesis using True page(1) es cur by simp
  qed (use page es cur in simp)
qed

end

text \<open>The recorded-event client fulfils the contract while it injects no failures and its ids are distinct.\<close>

lemma position_nth: "distinct (map f xs) \<Longrightarrow> i < length xs \<Longrightarrow> position (\<lambda>x. f x = f (xs ! i)) xs = Some i"
proof (induction xs arbitrary: i)
  case (Cons x xs)
  then show ?case by (cases i) auto
qed simp

definition mock_ready :: "MockEventsClient \<Rightarrow> bool" where
  "mock_ready c \<longleftrightarrow> mc_transport_failures_remaining c = 0 \<and> distinct (map se_id (mc_events c))"

interpretation mock: paged_rpc mock_get_events mc_events mock_ready
proof
  fix c p l start
  assume c: "mock_ready c" and v: "params_validate p = Inr ()" and l: "gp_limit p = Some l"
    and s: "starts_at (mc_events c) (gp_cursor p) start"
  let ?es = "mc_events c" and ?fin = "min (start + l) (length (mc_events c))"
  have l1: "1 \<le> l" using v l by (auto simp: params_validate_def and_then_eq_Inr MIN_LIMIT_def)
  have at: "(case gp_cursor p of None \<Rightarrow> Inr 0
      | Some cursor \<Rightarrow> (case position (\<lambda>e. se_id e = cursor) ?es of Some at \<Rightarrow> Inr (at + 1)
          | None \<Rightarrow> Inl (InvalidRequest (''unknown cursor '' @ cursor)))) = Inr start"
  proof (cases "gp_cursor p")
    case (Some cursor)
    with s have "start - 1 < length ?es" "se_id (?es ! (start - 1)) = cursor" "0 < start"
      by (auto simp: starts_at_def)
    with Some c position_nth [of se_id ?es "start - 1"] show ?thesis by (simp add: mock_ready_def)
  qed (use s in \<open>simp add: starts_at_def\<close>)
  have served: "take (?fin - start) (drop start ?es) = take l (drop start ?es)"
    by (cases "start + l \<le> length ?es") (auto simp: min_def)
  have "last (take l (drop start ?es)) = ?es ! (start + l - 1)" if "start + l < length ?es"
    using that l1 by (subst last_conv_nth) (auto simp: add.commute)
  with l1 show "\<exists>res c'. mock_get_events c p = (Inr res, c') \<and> mock_ready c' \<and> mc_events c' = ?es
      \<and> sr_events res = take l (drop start ?es)
      \<and> sr_cursor res = (if start + l < length ?es then Some (se_id (?es ! (start + l - 1))) else None)"
    using c v l at by (auto simp: mock_get_events_def mock_ready_def Let_def served)
qed

text \<open>
  Draining a recorded feed returns every event once and in order.  Over a client with distinct event
  ids, with a start ledger and a limit in the range of \<open>getEvents\<close>, following the cursors from a fresh
  pass ends within one page per event and returns the whole recording.
\<close>

lemma mock_feed_drains:
  assumes "distinct (map se_id events)" and "1 \<le> limit" and "limit \<le> MAX_LIMIT" and "length events < fuel"
  shows "feed_drain fuel (rpc_fetch_page mock_get_events)
    \<lparr>rf_client = MockEventsClient_new events, rf_start_ledger = Some ledger\<rparr> None limit = Some (Inr events)"
  using mock.drain_complete [of "\<lparr>rf_client = MockEventsClient_new events, rf_start_ledger = Some ledger\<rparr>" limit ledger None 0 fuel]
    assms by (simp add: mock_ready_def MockEventsClient_new_def starts_at_def)

text \<open>
  A feed without a start ledger cannot begin.  A fresh pass over any client whatever is refused with
  a parameter error before the client is called, so no page is ever fetched.
\<close>

lemma feed_without_start_refused:
  assumes "1 \<le> limit" and "limit \<le> MAX_LIMIT" and "rf_start_ledger feed = None"
  shows "rpc_fetch_page get_events feed None limit =
    (Inl (InvalidItem ''invalid rpc request: a request needs either a cursor or a startLedger''), feed)"
  using assms
  by (simp add: rpc_fetch_page_def feed_params_def Let_def params_validate_def params_limit_def GetEventsParams_new_def MIN_LIMIT_def)

section \<open>Witnesses\<close>

text \<open>Two injected failures are ridden out by the default policy.\<close>

theorem fetch_with_retry_outcome_witness:
  "fetch_with_retry RetryPolicy_default (\<lambda>c. mock_get_events c (feed_params (Some 1) None 10))
      (fail_next 2 (MockEventsClient_new []))
   = (Inr \<lparr>sr_events = [], sr_cursor = None, sr_latest_ledger = None, sr_oldest_ledger = None,
        sr_latest_ledger_close_time = None, sr_oldest_ledger_close_time = None\<rparr>,
      MockEventsClient_new [], [200000000, 400000000])"
proof -
  let ?attempt = "\<lambda>c. mock_get_events c (feed_params (Some 1) None 10)"
  let ?s = "fail_next 2 (MockEventsClient_new [])"
  have v: "params_validate (feed_params (Some 1) None 10) = Inr ()"
    by (simp add: feed_params_def Let_def params_validate_def params_limit_def params_start_ledger_def
        GetEventsParams_new_def MIN_LIMIT_def MAX_LIMIT_def)
  have o: "transient (outcome ?attempt ?s 0)" "transient (outcome ?attempt ?s 1)" "\<not> transient (outcome ?attempt ?s 2)"
    using v by (simp_all add: outcome_def after_calls_def transient_def mock_get_events_def fail_next_def
        MockEventsClient_new_def feed_params_def Let_def params_limit_def params_start_ledger_def
        GetEventsParams_new_def numeral_2_eq_2)
  from fetch_with_retry_outcome [of RetryPolicy_default ?attempt ?s] obtain k where k: "k < 5"
    "fetch_with_retry RetryPolicy_default ?attempt ?s =
      (outcome ?attempt ?s k, after_calls ?attempt ?s (Suc k), map (backoff RetryPolicy_default) [1..<Suc k])"
    "\<forall>j < k. transient (outcome ?attempt ?s j)" "\<not> transient (outcome ?attempt ?s k) \<or> Suc k = 5"
    by (auto simp: RetryPolicy_default_def)
  from k(3) o(3) have "k \<le> 2" using not_le by auto
  with k(4) o have "k = 2" by (auto simp: le_Suc_eq numeral_2_eq_2)
  moreover have "outcome ?attempt ?s 2 = Inr \<lparr>sr_events = [], sr_cursor = None, sr_latest_ledger = None,
      sr_oldest_ledger = None, sr_latest_ledger_close_time = None, sr_oldest_ledger_close_time = None\<rparr>"
    "after_calls ?attempt ?s (Suc 2) = MockEventsClient_new []"
    using v by (simp_all add: outcome_def after_calls_def mock_get_events_def fail_next_def
        MockEventsClient_new_def feed_params_def Let_def params_limit_def params_start_ledger_def
        GetEventsParams_new_def numeral_2_eq_2)
  moreover have "map (backoff RetryPolicy_default) [1..<Suc 2] = [200000000, 400000000]"
    by (simp add: upt_rec backoff_def saturating_mul_def RetryPolicy_default_def DURATION_MAX_def)
  ultimately show ?thesis using k(2) by simp
qed

end
