(* ===== verification/Audit_System.thy ===== *)
theory Audit_System
  imports Audit_Investigation Audit_Reporting Audit_Evidence Audit_Normalizer
begin

text \<open>
  The audit layer as one system: the indexer, the access log, the case service, the report service and
  the evidence builder writing to one in-memory store.  Holds what a write to the store is
  (\<open>writes\<close>: records of new events appended one by one), the actions of a running system and the
  traces they form, and the properties of traces: the store refines an append-only log, evidence
  stays verifiable, and the trail holds exactly the recorded actions.
\<close>

section \<open>Writes\<close>

text \<open>Every record is stored under an id derived from the canonical bytes of its event.\<close>

definition content_addressed :: "('z) event_ext_scheme \<Rightarrow> AuditRecord \<Rightarrow> bool" where
  "content_addressed X r \<longleftrightarrow>
     (\<exists>bs. json_event X (rc_event r) = Inr bs \<and> rc_record_id r = id_derive_bytes X RecordIdT bs)"

lemma content_addressed_update [simp]:
  "content_addressed X (r\<lparr>rc_redactions := p\<rparr>) = content_addressed X r"
  "content_addressed X (r\<lparr>rc_classification := c\<rparr>) = content_addressed X r"
  by (simp_all add: content_addressed_def)

lemma from_event_addressed: "from_event X ev now = Inr r \<Longrightarrow> content_addressed X r"
  by (auto simp: from_event_eq_Inr content_addressed_def)

lemma from_event_classified_addressed:
  "from_event_classified X ev cl now = Inr r \<Longrightarrow> content_addressed X r"
  by (auto simp: from_event_classified_def dest: from_event_addressed split: sum.splits)

definition writes ::
  "('z) event_ext_scheme \<Rightarrow> MemoryEventStore \<Rightarrow> AuditRecord list \<Rightarrow> MemoryEventStore \<Rightarrow> bool" where
  "writes X s rs s' \<longleftrightarrow>
     s' = foldl mem_commit s rs \<and> distinct (map rc_event_id rs)
     \<and> (\<forall>r \<in> set rs. record_wf r \<and> content_addressed X r \<and> \<not> mem_contains_event s (rc_event_id r))"

lemma writes_Nil [simp]: "writes X s [] s' \<longleftrightarrow> s' = s"
  by (simp add: writes_def)

lemma writes_contains:
  "writes X s rs s' \<Longrightarrow> mem_contains_event s' e \<longleftrightarrow> mem_contains_event s e \<or> e \<in> rc_event_id ` set rs"
  by (auto simp: writes_def)

lemma writes_unchanged [intro]: "\<exists>ws. writes X s ws s"
  by (intro exI [of _ "[]"]) simp

lemma writes_Cons:
  "writes X s (r # rs) s' \<longleftrightarrow>
     record_wf r \<and> content_addressed X r \<and> \<not> mem_contains_event s (rc_event_id r)
     \<and> writes X (mem_commit s r) rs s'"
proof -
  have "rc_event_id r \<notin> rc_event_id ` set rs \<longleftrightarrow> (\<forall>t \<in> set rs. rc_event_id t \<noteq> rc_event_id r)"
    by (metis imageE image_eqI)
  then show ?thesis by (auto simp: writes_def)
qed

lemma writes_trans: "writes X s rs s' \<Longrightarrow> writes X s' ts s'' \<Longrightarrow> writes X s (rs @ ts) s''"
  by (induction rs arbitrary: s) (auto simp: writes_Cons)

lemma writes_inv: "writes X s rs s' \<Longrightarrow> mem_inv s \<Longrightarrow> mem_inv s'"
  by (auto simp: writes_def intro: mem_inv_foldl_commit)

lemma writes_insert:
  assumes "mem_insert s r = (Inr out, s')" "content_addressed X r"
  shows "\<exists>rs. writes X s rs s' \<and> set rs \<subseteq> {r}"
proof -
  have wf: "record_wf r" using assms(1) by (cases "record_wf r") (auto elim: mem_insert_not_wf [of r s])
  show ?thesis
  proof (cases "mem_contains_event s (rc_event_id r)")
    case True
    with wf assms(1) have "s' = s" by (simp add: mem_insert_wf)
    then show ?thesis by (intro exI [of _ "[]"]) simp
  next
    case False
    with wf assms have "writes X s [r] s'" by (simp add: mem_insert_wf writes_def)
    then show ?thesis by auto
  qed
qed

lemma writes_batch:
  assumes "mem_insert_batch s b = (res, s')" "distinct (map rc_event_id b)" "\<forall>r \<in> set b. content_addressed X r"
  shows "\<exists>rs. writes X s rs s' \<and> set rs \<subseteq> set b"
proof (cases res)
  case (Inl e)
  with assms(1) have "s' = s" by (auto dest: mem_insert_batch_Inl)
  then show ?thesis by (intro exI [of _ "[]"]) simp
next
  case (Inr out)
  let ?rs = "filter (\<lambda>r. \<not> mem_contains_event s (rc_event_id r)) b"
  from Inr assms have "writes X s ?rs s'"
    by (auto simp: mem_insert_batch_Inr writes_def distinct_map_filter)
  then show ?thesis by (intro exI [of _ ?rs]) simp
qed

section \<open>A store that is only written to is an append-only log\<close>

definition stored :: "MemoryEventStore \<Rightarrow> AuditRecord set" where
  "stored s = snd ` set (ms_records s)"

lemma stored_commit: "stored (mem_commit s r) \<subseteq> insert r (stored s)"
  using set_bt_insert_subset [of "PositionKey_of r" r "ms_records s"] by (fastforce simp: stored_def)

text \<open>
  Two records of different events whose canonical bytes agree in the part of the digest that record
  ids keep.
\<close>

definition record_clash :: "('z) event_ext_scheme \<Rightarrow> AuditRecord set \<Rightarrow> bool" where
  "record_clash X R \<longleftrightarrow>
     (\<exists>r \<in> R. \<exists>t \<in> R. rc_event_id r \<noteq> rc_event_id t
        \<and> (\<exists>bs cs. json_event X (rc_event r) = Inr bs \<and> json_event X (rc_event t) = Inr cs
             \<and> take BODY_HEX_LEN (sha256_hex X bs) = take BODY_HEX_LEN (sha256_hex X cs)))"

lemma record_clashI:
  assumes "r \<in> R" "t \<in> R" "content_addressed X r" "content_addressed X t"
    and "rc_record_id r = rc_record_id t" "rc_event_id r \<noteq> rc_event_id t"
  shows "record_clash X R"
proof -
  from assms(3,4) obtain bs cs where "json_event X (rc_event r) = Inr bs" "json_event X (rc_event t) = Inr cs"
    "rc_record_id r = id_derive_bytes X RecordIdT bs" "rc_record_id t = id_derive_bytes X RecordIdT cs"
    by (auto simp: content_addressed_def)
  moreover from this assms(5) have "take BODY_HEX_LEN (sha256_hex X bs) = take BODY_HEX_LEN (sha256_hex X cs)"
    by (simp add: id_derive_bytes_def derive_bytes_def)
  ultimately show ?thesis unfolding record_clash_def using assms(1,2,6) by blast
qed

lemma record_clash_mono: "record_clash X R \<Longrightarrow> R \<subseteq> T \<Longrightarrow> record_clash X T"
  unfolding record_clash_def by blast

definition addressed_store :: "('z) event_ext_scheme \<Rightarrow> MemoryEventStore \<Rightarrow> bool" where
  "addressed_store X s \<longleftrightarrow> mem_inv s \<and> (\<forall>r \<in> stored s. content_addressed X r)"

lemma addressed_store_new [simp]: "addressed_store X mem_new"
  by (simp add: addressed_store_def stored_def mem_new_def) (simp add: mem_inv_def)

lemma stored_foldl_commit: "stored (foldl mem_commit s rs) \<subseteq> stored s \<union> set rs"
proof (induction rs arbitrary: s)
  case (Cons r rs)
  from Cons.IH [of "mem_commit s r"] stored_commit [of s r] show ?case by auto
qed simp

lemma writes_stored: "writes X s rs s' \<Longrightarrow> stored s' \<subseteq> stored s \<union> set rs"
  using stored_foldl_commit by (auto simp: writes_def)

lemma writes_addressed: "writes X s rs s' \<Longrightarrow> addressed_store X s \<Longrightarrow> addressed_store X s'"
  using writes_stored writes_inv by (fastforce simp: addressed_store_def writes_def)

lemma fresh_record_id:
  assumes "addressed_store X s" "content_addressed X r" "\<not> mem_contains_event s (rc_event_id r)"
    and "\<not> record_clash X (insert r (stored s))"
  shows "ms_by_record s (rc_record_id r) = None"
proof (rule ccontr)
  assume "ms_by_record s (rc_record_id r) \<noteq> None"
  then obtain k where k: "ms_by_record s (rc_record_id r) = Some k" by blast
  have inv: "mem_inv s" using assms(1) by (simp add: addressed_store_def)
  from k obtain t where t: "map_of (ms_records s) k = Some t" "rc_record_id t = rc_record_id r"
    using mem_inv_by_record [OF inv] by metis
  then have m: "(k, t) \<in> set (ms_records s)" by (blast dest: map_of_SomeD)
  then have st: "t \<in> stored s" by (force simp: stored_def)
  have "mem_contains_event s (rc_event_id t)"
    using mem_inv_entry(3) [OF inv m] by (simp add: mem_contains_event_def)
  with assms(3) have "rc_event_id t \<noteq> rc_event_id r" by auto
  with st t(2) assms(1,2,4) show False
    using record_clashI [of t "insert r (stored s)" r X] by (auto simp: addressed_store_def)
qed

lemma writes_log:
  assumes "writes X s rs s'" "addressed_store X s" "\<not> record_clash X (stored s \<union> set rs)"
  shows "mem_history s' = foldl history_insert (mem_history s) rs"
    and "mem_len s' = mem_len s + length rs"
    and "mem_get s i = Inr r \<Longrightarrow> mem_get s' i = Inr r"
proof -
  have "mem_history s' = foldl history_insert (mem_history s) rs \<and> mem_len s' = mem_len s + length rs
    \<and> (\<forall>i r. mem_get s i = Inr r \<longrightarrow> mem_get s' i = Inr r)"
    using assms
  proof (induction rs arbitrary: s)
    case Nil
    then show ?case by (simp add: writes_def)
  next
    case (Cons r rs)
    let ?s = "mem_commit s r"
    have r: "record_wf r" "content_addressed X r" "\<not> mem_contains_event s (rc_event_id r)"
      using Cons.prems(1) by (simp_all add: writes_Cons)
    have inv: "mem_inv s" using Cons.prems(2) by (simp add: addressed_store_def)
    have fresh: "ms_by_record s (rc_record_id r) = None"
    proof (rule fresh_record_id [OF Cons.prems(2) r(2,3)], rule notI, drule record_clash_mono)
      show "insert r (stored s) \<subseteq> stored s \<union> set (r # rs)" by auto
    qed (rule notE [OF Cons.prems(3)])
    have step: "writes X s [r] ?s" using r by (simp add: writes_def)
    have rest: "writes X ?s rs s'"
      using Cons.prems(1) by (simp add: writes_Cons)
    have "\<not> record_clash X (stored ?s \<union> set rs)"
    proof (rule notI, drule record_clash_mono)
      show "stored ?s \<union> set rs \<subseteq> stored s \<union> set (r # rs)" using stored_commit [of s r] by auto
    qed (rule notE [OF Cons.prems(3)])
    from Cons.IH [OF rest writes_addressed [OF step Cons.prems(2)] this]
    have ih: "mem_history s' = foldl history_insert (mem_history ?s) rs" "mem_len s' = mem_len ?s + length rs"
      "\<And>i t. mem_get ?s i = Inr t \<Longrightarrow> mem_get s' i = Inr t" by blast+
    have "mem_history ?s = history_insert (mem_history s) r"
      using r mem_commit_history [OF inv fresh] mem_get_by_event_total(2) [OF inv] by (simp add: history_insert_def)
    moreover have "mem_get ?s i = Inr t" if "mem_get s i = Inr t" for i t
      using that fresh mem_commit_get [OF inv fresh, of i] by (auto simp: mem_get_def)
    ultimately show ?case using ih mem_commit_len [OF inv fresh] by simp
  qed
  then show "mem_history s' = foldl history_insert (mem_history s) rs"
    "mem_len s' = mem_len s + length rs" "mem_get s i = Inr r \<Longrightarrow> mem_get s' i = Inr r" by blast+
qed

lemma log_keeps: "h e = Some r \<Longrightarrow> foldl history_insert h rs e = Some r"
proof (induction rs arbitrary: h)
  case (Cons a rs)
  have "history_insert h a e = Some r" using Cons.prems by (auto simp: history_insert_def)
  with Cons.IH show ?case by simp
qed simp

section \<open>The components write\<close>

lemma writes_fresh:
  assumes "writes X s rs s'" "\<And>ev. mem_contains_event s' ev \<Longrightarrow> mem_contains_event s ev \<or> ev \<in> E"
  shows "rc_event_id ` set rs \<subseteq> E"
proof
  fix ev assume ev: "ev \<in> rc_event_id ` set rs"
  then have "\<not> mem_contains_event s ev" using assms(1) by (auto simp: writes_def)
  with ev assms(2) [of ev] writes_contains [OF assms(1), of ev] show "ev \<in> E" by blast
qed

lemma ingest_items_addressed:
  assumes "ingest_items X ix items st = Inr st'" "\<forall>r \<in> set (is_records st). content_addressed X r"
  shows "\<forall>r \<in> set (is_records st'). content_addressed X r"
  using assms
proof (induction items arbitrary: st)
  case (Cons i items)
  then obtain st1 where i: "ingest_item X ix i st = Inr st1" "ingest_items X ix items st1 = Inr st'"
    by (auto simp: and_then_eq_Inr)
  have "\<forall>r \<in> set (is_records st1). content_addressed X r"
    using i(1) Cons.prems(2)
    by (auto simp: ingest_item_def dest: from_event_addressed
        split: sum.splits if_splits MalformedItemPolicy.splits)
  from Cons.IH [OF i(2) this] show ?case .
qed simp

lemma append_page_writes:
  assumes "append_page mem_insert_batch pol rep rs s = (res, s')" "distinct (map rc_event_id rs)"
    and "\<forall>r \<in> set rs. content_addressed X r"
  shows "\<exists>ws. writes X s ws s' \<and> set ws \<subseteq> set rs"
proof -
  have "s' = s \<or> (\<exists>out. mem_insert_batch s rs = (out, s'))"
    using assms(1) by (auto simp: append_page_def WriteBatch_new_Inr split: if_splits sum.splits prod.splits)
  moreover have "\<exists>ws. writes X s ws s \<and> set ws \<subseteq> set rs" by (intro exI [of _ "[]"]) simp
  ultimately show ?thesis using writes_batch [OF _ assms(2,3)] by blast
qed

lemma ingest_page_writes:
  assumes "ingest_page X ix C mem_insert_batch name page cps s = (res, cps', s')"
  shows "\<exists>ws. writes X s ws s' \<and> rc_event_id ` set ws \<subseteq> ev_event_id ` set (page_events ix (sp_items page))"
proof (cases "ingest_items X ix (sp_items page) (start_state page)")
  case (Inl e)
  with assms have "s' = s" by (simp add: ingest_page_def)
  then show ?thesis by (intro exI [of _ "[]"]) simp
next
  case (Inr st)
  from ingest_items_spec [OF Inr guard_ok_start] have d: "distinct (map rc_event_id (is_records st))"
    and g: "rc_event_id ` set (is_records st) = ev_event_id ` set (page_events ix (sp_items page))"
    by (auto simp: guard_ok_def)
  have a: "\<forall>r \<in> set (is_records st). content_addressed X r"
    by (rule ingest_items_addressed [OF Inr]) simp
  obtain out t where p: "append_page mem_insert_batch (ix_dedup_policy ix) (is_report st) (is_records st) s = (out, t)"
    by fastforce
  from assms Inr p have "s' = s \<or> s' = t"
    by (auto simp: ingest_page_def split: if_splits sum.splits prod.splits)
  moreover obtain ws where "writes X s ws t" "set ws \<subseteq> set (is_records st)"
    using append_page_writes [OF p d a] by blast
  moreover have "writes X s [] s" by simp
  ultimately show ?thesis unfolding g [symmetric]
    by (metis empty_subsetI image_empty image_mono list.set(1))
qed

text \<open>The events of the page that a cycle would be served.\<close>

definition served :: "Indexer \<Rightarrow> 's EventSource \<Rightarrow> 's \<Rightarrow> InMemoryCheckpointStore \<Rightarrow> AuditEvent list" where
  "served ix S src cps =
     (case fetch_after S src (cps (source_name S src)) (ix_page_limit ix) of
        (Inr page, _) \<Rightarrow> page_events ix (sp_items page)
      | (Inl _, _) \<Rightarrow> [])"

lemma run_once_writes:
  assumes "run_once X ix S memcp mem_insert_batch src cps s = (res, src', cps', s')"
  shows "\<exists>ws. writes X s ws s' \<and> rc_event_id ` set ws \<subseteq> ev_event_id ` set (served ix S src cps)"
proof -
  obtain r src1 where f: "fetch_after S src (cps (source_name S src)) (ix_page_limit ix) = (r, src1)"
    by fastforce
  show ?thesis
  proof (cases r)
    case (Inl e)
    with f assms have "s' = s" by (simp add: run_once_def)
    then show ?thesis by (intro exI [of _ "[]"]) simp
  next
    case (Inr page)
    with f assms have "ingest_page X ix memcp mem_insert_batch (source_name S src1) page cps s = (res, cps', s')"
      by (simp add: run_once_def split: prod.splits)
    from ingest_page_writes [OF this] f Inr show ?thesis by (simp add: served_def)
  qed
qed

lemma run_once_served:
  assumes "run_once X ix S memcp mem_insert_batch src cps s = (Inr rep, src', cps', s')" "mem_inv s"
  shows "mem_contains_event s' ev \<longleftrightarrow> mem_contains_event s ev \<or> ev \<in> ev_event_id ` set (served ix S src cps)"
proof -
  from assms(1) obtain resumed page where f: "load memcp cps (source_name S src) = Inr resumed"
    "fetch_after S src resumed (ix_page_limit ix) = (Inr page, src')"
    "ingest_page X ix memcp mem_insert_batch (source_name S src') page cps s = (Inr rep, cps', s')"
    by (rule run_once_Inr)
  from mem_ingest.ingest_page_no_loss(2) [OF assms(2) f(3), of ev] f(1,2) show ?thesis
    by (simp add: served_def)
qed

text \<open>A service's own event, with its detail policy.\<close>

lemma own_event_writes:
  assumes "from_event_classified X e cl now = Inr r" "mem_insert s (r\<lparr>rc_redactions := p\<rparr>) = (res, s')"
  shows "\<exists>ws. writes X s ws s'"
proof (cases res)
  case (Inl err)
  with assms(2) have "s' = s" by (auto dest: mem_sink.insert_rejected)
  then show ?thesis by auto
next
  case (Inr out)
  with assms(2) writes_insert [of s "r\<lparr>rc_redactions := p\<rparr>" out s' X]
    from_event_classified_addressed [OF assms(1)]
  show ?thesis by auto
qed

lemma record_into_writes:
  assumes "record_into X mem_insert log now entry s = (res, s')"
  shows "\<exists>ws. writes X s ws s'"
proof (cases res)
  case (Inl err)
  with assms have "s' = s" by (auto dest: mem_sink.record_into_Inl)
  then show ?thesis by auto
next
  case (Inr u)
  with assms obtain e r out where r: "from_event_classified X e Confidential now = Inr r" "mem_insert s r = (Inr out, s')"
    using mem_sink.record_into_Inr [of X log now entry s s'] by auto
  from writes_insert [OF r(2) from_event_classified_addressed [OF r(1)]] show ?thesis by blast
qed

lemmas own_event_splits = sum.splits prod.splits

lemma record_step_writes:
  "record_step X mem_audit step source parser now s = (res, s') \<Longrightarrow> \<exists>ws. writes X s ws s'"
  by (auto simp: record_step_def mem_audit_def intro: own_event_writes split: own_event_splits)
lemma svc_step_writes:
  assumes "svc_step X memcase mem_audit sv (cases, s) actor res (cases', s')"
  shows "\<exists>ws. writes X s ws s'"
  using assms
  by (cases rule: svc_step_cases)
     (auto simp: opens_def svc_commit_def Let_def intro: record_step_writes split: own_event_splits)

lemma record_report_writes:
  "record_report X mem_audit l now s = (res, s') \<Longrightarrow> \<exists>ws. writes X s ws s'"
  by (auto simp: record_report_def mem_audit_def intro: own_event_writes split: own_event_splits)

lemma record_generation_writes:
  "record_generation X mem_audit l now s = (res, s') \<Longrightarrow> \<exists>ws. writes X s ws s'"
  by (auto simp: record_generation_def mem_audit_def intro: own_event_writes split: own_event_splits)

text \<open>The events that a generated report and a built package are recorded under.\<close>

definition report_event_id :: "('z) hash_ext_scheme \<Rightarrow> ReportLifecycle \<Rightarrow> EventId" where
  "report_event_id X l = derived_event_id X (rl_network l) ''report-generation''
     [rl_report l, ReportKind_as_str (rl_kind l), show_nat (rl_record_count l)]"

definition evidence_event_id :: "('z) hash_ext_scheme \<Rightarrow> EvidenceLifecycle \<Rightarrow> EventId" where
  "evidence_event_id X l = derived_event_id X (el_network l) ''evidence-generation''
     [el_evidence l, EvidenceKind_as_str (el_kind l), show_nat (el_record_count l)]"

lemma report_lifecycle_event_id:
  "report_lifecycle_event X l slot = Inr e \<Longrightarrow>
     ev_kind e \<noteq> EventKind.RecordCorrected \<and> ev_event_id e = report_event_id X l"
  by (auto simp: report_lifecycle_event_def map_ok_eq_Inr report_event_id_def derived_base(3,4))

lemma evidence_lifecycle_event_id:
  "evidence_lifecycle_event X l slot = Inr e \<Longrightarrow>
     ev_kind e \<noteq> EventKind.RecordCorrected \<and> ev_event_id e = evidence_event_id X l"
  by (auto simp: evidence_lifecycle_event_def map_ok_eq_Inr evidence_event_id_def derived_base(3,4))

lemma record_report_contains:
  assumes "record_report X mem_audit l now s = (res, s')"
  shows "case res of Inl _ \<Rightarrow> s' = s
    | Inr _ \<Rightarrow> \<forall>ev. mem_contains_event s' ev \<longleftrightarrow> mem_contains_event s ev \<or> ev = report_event_id X l"
proof (cases "report_lifecycle_event X l EventSlot_default")
  case (Inr e)
  note id = report_lifecycle_event_id [OF Inr]
  show ?thesis
  proof (cases "from_event_classified X e Confidential now")
    fix r assume r: "from_event_classified X e Confidential now = Inr r"
    with assms Inr id mem_audit.insert_with_policy [OF r, of s] show ?thesis
      by (auto simp: record_report_def)
  qed (use assms Inr in \<open>auto simp: record_report_def\<close>)
qed (use assms in \<open>auto simp: record_report_def\<close>)

lemma record_generation_contains:
  assumes "record_generation X mem_audit l now s = (res, s')"
  shows "case res of Inl _ \<Rightarrow> s' = s
    | Inr _ \<Rightarrow> \<forall>ev. mem_contains_event s' ev \<longleftrightarrow> mem_contains_event s ev \<or> ev = evidence_event_id X l"
proof (cases "evidence_lifecycle_event X l EventSlot_default")
  case (Inr e)
  note id = evidence_lifecycle_event_id [OF Inr]
  show ?thesis
  proof (cases "from_event_classified X e Confidential now")
    fix r assume r: "from_event_classified X e Confidential now = Inr r"
    with assms Inr id mem_audit.insert_with_policy [OF r, of s] show ?thesis
      by (auto simp: record_generation_def)
  qed (use assms Inr in \<open>auto simp: record_generation_def\<close>)
qed (use assms in \<open>auto simp: record_generation_def\<close>)

definition report_lifecycle :: "ReportService \<Rightarrow> Report \<Rightarrow> ReportLifecycle" where
  "report_lifecycle sv report =
     \<lparr>rl_network = rs_network sv, rl_source = rs_source sv, rl_parser = rs_parser sv,
      rl_report = rp_report_id report, rl_kind = rp_kind report,
      rl_record_count = su_total_records (rp_summary report), rl_digest = rp_digest report\<rparr>"

lemma build_report_ids:
  "build_report X sv now request records = Inr report \<Longrightarrow>
     rp_report_id report = derive_report_id X sv request \<and> rp_kind report = rt_kind request"
  by (auto simp: build_report_def Let_def and_then_eq_Inr with_summary_def with_rows_def
      with_generated_by_def Report_new_def Report_with_digest_def)

lemma report_generate_cases:
  assumes "report_generate X mem_audit sv t s request = Some (res, s')"
  obtains (unrecorded) e where "res = Inl e" "s' = s"
  | (recorded) report r where "record_report X mem_audit (report_lifecycle sv report) (at_record t) s = (r, s')"
      "res = (case r of Inl e \<Rightarrow> Inl e | Inr _ \<Rightarrow> Inr report)"
proof (cases "report_require sv (at_authorize t) (rt_requested_by request)")
  case ok: (Inr u)
  show thesis
  proof (cases "validate_request request")
    case valid: (Inr u)
    show thesis
    proof (cases "to_audit_query (rt_query request)")
      case query: (Inr q)
      from assms ok valid query obtain scanned where scan: "report_scan mem_audit sv s q = Some scanned"
        by (auto simp: report_generate_def bind_eq_Some_conv)
      show thesis
      proof (cases scanned)
        case records: (Inr records)
        show thesis
        proof (cases "build_report X sv (at_now t) request records")
          case report: (Inr report)
          obtain r s1 where r: "record_report X mem_audit (report_lifecycle sv report) (at_record t) s = (r, s1)"
            by fastforce
          with assms ok valid query scan records report build_report_ids [OF report] show thesis
            by (intro recorded [of report r])
              (auto simp: report_generate_def report_lifecycle_def split: sum.splits)
        next
          case (Inl e)
          with assms ok valid query scan records show thesis
            by (intro unrecorded [of e]) (auto simp: report_generate_def)
        qed
      qed (use assms ok valid query scan unrecorded in \<open>auto simp: report_generate_def\<close>)
    qed (use assms ok valid unrecorded in \<open>auto simp: report_generate_def\<close>)
  qed (use assms ok unrecorded in \<open>auto simp: report_generate_def\<close>)
qed (use assms unrecorded in \<open>auto simp: report_generate_def\<close>)

lemma evidence_build_cases:
  assumes "evidence_build X mem_audit b t s options = (res, s')"
  obtains (unrecorded) e where "res = Inl e" "s' = s"
  | (recorded) package r where
      "record_generation X mem_audit (evidence_lifecycle b options package) (at_record t) s = (r, s')"
      "res = (case r of Inl e \<Rightarrow> Inl e | Inr _ \<Rightarrow> Inr package)"
proof (cases "and_then (evidence_require b (at_authorize t) (bo_generated_by options)) (\<lambda>_.
    and_then (fetch_records mem_audit s (bo_record_ids options)) (\<lambda>records.
    and_then (require_intact X records) (\<lambda>_.
    map_ok (Pair (length records)) (assemble X b (at_now t) options (sort_key rc_record_id records)))))")
  case (Inl e)
  with assms unrecorded show thesis by (auto simp: evidence_build_def)
next
  case (Inr x)
  then obtain records artifact manifest where x: "x = (length records, artifact, manifest)"
    and f: "fetch_records mem_audit s (bo_record_ids options) = Inr records"
    and a: "assemble X b (at_now t) options (sort_key rc_record_id records) = Inr (artifact, manifest)"
    by (auto simp: and_then_eq_Inr map_ok_eq_Inr)
  let ?p = "\<lparr>pk_artifact = artifact, pk_manifest = manifest\<rparr>"
  have len: "length records = length (bo_record_ids options)"
    using f by (auto simp: fetch_records_Inr dest: list_all2_lengthD)
  obtain r s1 where r: "record_generation X mem_audit (evidence_lifecycle b options ?p) (at_record t) s = (r, s1)"
    by fastforce
  with assms Inr x len assemble_packages [OF a] show thesis
    by (intro recorded [of ?p r]) (auto simp: evidence_build_def evidence_lifecycle_def split: sum.splits)
qed

section \<open>Actions and traces\<close>

text \<open>
  The state of a running system: the event source and the three stores.  The services themselves keep
  no state; their configuration is part of the action.
\<close>

record 's AuditSystem =
  sy_source :: 's
  sy_checkpoints :: InMemoryCheckpointStore
  sy_store :: MemoryEventStore
  sy_cases :: InMemoryCaseStore

text \<open>What happened, with its result: a cycle over the events it was served, or a call of a service.\<close>

datatype action =
  Ingested "AuditEvent list" "IndexerError + IngestReport"
| Accessed StoreAccessLog AuditAccessEntry "AuthorizationError + unit"
| CaseStep CaseService AuditorId "InvestigationError + InvestigationCase"
| Reported ReportService ReportRequest "ReportingError + Report"
| Evidenced EvidenceBuilder EvidenceBuildOptions "EvidenceError + EvidencePackage"

inductive system_step ::
  "('z) report_ext_scheme \<Rightarrow> 's EventSource \<Rightarrow> 's AuditSystem \<Rightarrow> action \<Rightarrow> 's AuditSystem \<Rightarrow> bool"
  for X S where
  ingested: "run_once X ix S memcp mem_insert_batch (sy_source st) (sy_checkpoints st) (sy_store st)
       = (res, src', cps', store') \<Longrightarrow>
     system_step X S st (Ingested (served ix S (sy_source st) (sy_checkpoints st)) res)
       (st\<lparr>sy_source := src', sy_checkpoints := cps', sy_store := store'\<rparr>)"
| accessed: "record_into X mem_insert log now entry (sy_store st) = (res, store') \<Longrightarrow>
     system_step X S st (Accessed log entry res) (st\<lparr>sy_store := store'\<rparr>)"
| case_step: "svc_step X memcase mem_audit sv (sy_cases st, sy_store st) actor res (cases', store') \<Longrightarrow>
     system_step X S st (CaseStep sv actor res) (st\<lparr>sy_store := store', sy_cases := cases'\<rparr>)"
| reported: "report_generate X mem_audit sv t (sy_store st) request = Some (res, store') \<Longrightarrow>
     system_step X S st (Reported sv request res) (st\<lparr>sy_store := store'\<rparr>)"
| evidenced: "evidence_build X mem_audit b t (sy_store st) options = (res, store') \<Longrightarrow>
     system_step X S st (Evidenced b options res) (st\<lparr>sy_store := store'\<rparr>)"

inductive system_trace ::
  "('z) report_ext_scheme \<Rightarrow> 's EventSource \<Rightarrow> 's AuditSystem \<Rightarrow> action list \<Rightarrow> 's AuditSystem \<Rightarrow> bool"
  for X S where
  start: "system_trace X S st [] st"
| step: "system_trace X S st as st' \<Longrightarrow> system_step X S st' a st'' \<Longrightarrow> system_trace X S st (as @ [a]) st''"

text \<open>The events a successful action is recorded under, and those a failed cycle may have written.\<close>

fun recorded_as :: "('z) hash_ext_scheme \<Rightarrow> action \<Rightarrow> EventId set" where
  "recorded_as X (Ingested events (Inr _)) = ev_event_id ` set events"
| "recorded_as X (Accessed log entry (Inr _)) = {access_event_id X log entry}"
| "recorded_as X (CaseStep sv actor (Inr c)) =
     {lifecycle_id X (sv_network sv) (ic_case_id c) actor (step_sequence c)}"
| "recorded_as X (Reported sv request (Inr report)) = {report_event_id X (report_lifecycle sv report)}"
| "recorded_as X (Evidenced b options (Inr package)) =
     {evidence_event_id X (evidence_lifecycle b options package)}"
| "recorded_as X _ = {}"

fun interrupted :: "action \<Rightarrow> EventId set" where
  "interrupted (Ingested events (Inl _)) = ev_event_id ` set events"
| "interrupted _ = {}"

definition system_ok :: "('z) event_ext_scheme \<Rightarrow> 's AuditSystem \<Rightarrow> bool" where
  "system_ok X st \<longleftrightarrow> addressed_store X (sy_store st) \<and> stored_ok memcase bt_ok (sy_cases st)"

definition system_start :: "'s \<Rightarrow> 's AuditSystem" where
  "system_start src = \<lparr>sy_source = src, sy_checkpoints = InMemoryCheckpointStore_new, sy_store = mem_new,
     sy_cases = InMemoryCaseStore_new\<rparr>"

lemma system_ok_start [simp]: "system_ok X (system_start src)"
  by (simp add: system_ok_def system_start_def)

text \<open>What one action does to the store.\<close>

definition step_effect_on :: "('z) event_ext_scheme \<Rightarrow> MemoryEventStore \<Rightarrow> action \<Rightarrow> MemoryEventStore \<Rightarrow> bool" where
  "step_effect_on X s a s' \<longleftrightarrow>
     (\<exists>ws. writes X s ws s') \<and> (\<forall>ev \<in> recorded_as X a. mem_contains_event s' ev)
     \<and> (\<forall>ev. mem_contains_event s' ev \<longrightarrow> mem_contains_event s ev \<or> ev \<in> recorded_as X a \<union> interrupted a)"

lemma step_effect_unchanged: "recorded_as X a = {} \<Longrightarrow> step_effect_on X s a s"
  by (auto simp: step_effect_on_def)

lemma step_effect_exact:
  "\<exists>ws. writes X s ws s' \<Longrightarrow>
   \<forall>ev. mem_contains_event s' ev \<longleftrightarrow> mem_contains_event s ev \<or> ev \<in> recorded_as X a \<Longrightarrow> step_effect_on X s a s'"
  by (auto simp: step_effect_on_def)

lemma ingested_effect:
  assumes "run_once X ix S memcp mem_insert_batch src cps s = (res, src', cps', s')" "mem_inv s"
  shows "step_effect_on X s (Ingested (served ix S src cps) res) s'"
proof (cases res)
  case (Inl e)
  from run_once_writes [OF assms(1)] obtain ws where "writes X s ws s'"
    "rc_event_id ` set ws \<subseteq> ev_event_id ` set (served ix S src cps)" by blast
  with Inl writes_contains [of X s ws s'] show ?thesis by (auto simp: step_effect_on_def)
next
  case (Inr rep)
  with run_once_writes [OF assms(1)] run_once_served [of X ix S src cps s rep src' cps' s'] assms
  show ?thesis by (intro step_effect_exact) auto
qed

lemma accessed_effect:
  assumes "record_into X mem_insert log now entry s = (res, s')"
  shows "step_effect_on X s (Accessed log entry res) s'"
proof (cases res)
  case (Inl e)
  with assms have "s' = s" by (auto dest: mem_sink.record_into_Inl)
  with Inl show ?thesis by (simp add: step_effect_unchanged)
next
  case (Inr u)
  with record_into_writes [OF assms] mem_sink.record_into_contains [of X log now entry s s'] assms
  show ?thesis by (intro step_effect_exact) auto
qed

lemma case_step_effect:
  assumes "svc_step X memcase mem_audit sv (cases, s) actor res (cases', s')" "stored_ok memcase bt_ok cases"
  shows "step_effect_on X s (CaseStep sv actor res) s'"
  using mem_service.step_effect [OF assms(2,1)]
proof (elim disjE exE conjE)
  fix c
  assume "step_recorded X mem_contains_event (sv_network sv) actor c res s s'"
  then consider e where "res = Inl e" "s' = s"
    | "res = Inr c" "\<forall>ev. mem_contains_event s' ev \<longleftrightarrow> mem_contains_event s ev
        \<or> ev = lifecycle_id X (sv_network sv) (ic_case_id c) actor (step_sequence c)"
    unfolding step_recorded_def by blast
  then show ?thesis
  proof cases
    case 2
    with svc_step_writes [OF assms(1)] show ?thesis by (intro step_effect_exact) simp_all
  qed (simp add: step_effect_unchanged)
qed (simp add: step_effect_unchanged)

lemma reported_effect:
  assumes "report_generate X mem_audit sv t s request = Some (res, s')"
  shows "step_effect_on X s (Reported sv request res) s'"
  using assms
proof (cases rule: report_generate_cases)
  case (recorded report r)
  with record_report_contains [OF recorded(1)] record_report_writes [OF recorded(1)] show ?thesis
    by (cases r) (auto intro: step_effect_exact)
qed (auto intro: step_effect_unchanged)

lemma evidenced_effect:
  assumes "evidence_build X mem_audit b t s options = (res, s')"
  shows "step_effect_on X s (Evidenced b options res) s'"
  using assms
proof (cases rule: evidence_build_cases)
  case (recorded package r)
  with record_generation_contains [OF recorded(1)] record_generation_writes [OF recorded(1)] show ?thesis
    by (cases r) (auto intro: step_effect_exact)
qed (auto intro: step_effect_unchanged)

lemma system_step_effect:
  assumes "system_step X S st a st'" "system_ok X st"
  shows "step_effect_on X (sy_store st) a (sy_store st') \<and> system_ok X st'"
proof -
  have inv: "mem_inv (sy_store st)" and cases: "stored_ok memcase bt_ok (sy_cases st)"
    using assms(2) by (simp_all add: system_ok_def addressed_store_def)
  have "step_effect_on X (sy_store st) a (sy_store st') \<and> stored_ok memcase bt_ok (sy_cases st')"
    using assms(1)
  proof cases
    case (ingested ix res src' cps' store')
    with ingested_effect [OF ingested(3) inv] cases show ?thesis by simp
  next
    case (accessed log now entry res store')
    with accessed_effect [OF accessed(3)] cases show ?thesis by simp
  next
    case (case_step sv actor res cases' store')
    with case_step_effect [OF case_step(3) cases] mem_service.step_stored_ok [OF cases case_step(3)]
    show ?thesis by simp
  next
    case (reported sv t request res store')
    with reported_effect [OF reported(3)] cases show ?thesis by simp
  next
    case (evidenced b t options res store')
    with evidenced_effect [OF evidenced(3)] cases show ?thesis by simp
  qed
  then show ?thesis
    using assms(2) writes_addressed by (auto simp: system_ok_def step_effect_on_def)
qed

lemma system_trace_effect:
  assumes "system_trace X S st as st'" "system_ok X st"
  shows "system_ok X st' \<and> (\<exists>ws. writes X (sy_store st) ws (sy_store st'))
    \<and> (\<forall>a \<in> set as. \<forall>ev \<in> recorded_as X a. mem_contains_event (sy_store st') ev)
    \<and> (\<forall>ev. mem_contains_event (sy_store st') ev \<longrightarrow> mem_contains_event (sy_store st) ev
         \<or> (\<exists>a \<in> set as. ev \<in> recorded_as X a \<union> interrupted a))"
  using assms
proof (induction rule: system_trace.induct)
  case (start st)
  then show ?case by auto
next
  case (step st as st' a st'')
  then have ih: "system_ok X st'" "\<forall>a \<in> set as. \<forall>ev \<in> recorded_as X a. mem_contains_event (sy_store st') ev"
    "\<forall>ev. mem_contains_event (sy_store st') ev \<longrightarrow> mem_contains_event (sy_store st) ev
         \<or> (\<exists>a \<in> set as. ev \<in> recorded_as X a \<union> interrupted a)" by blast+
  from step obtain ws where ws: "writes X (sy_store st) ws (sy_store st')" by blast
  from system_step_effect [OF step.hyps(2) ih(1)] have ok: "system_ok X st''"
    and eff: "step_effect_on X (sy_store st') a (sy_store st'')" by simp_all
  from eff obtain vs where vs: "writes X (sy_store st') vs (sy_store st'')"
    by (auto simp: step_effect_on_def)
  have "mem_contains_event (sy_store st'') ev" if "b \<in> set as" "ev \<in> recorded_as X b" for b ev
    using that ih(2) writes_contains [OF vs, of ev] by blast
  with ok eff ih(3) writes_trans [OF ws vs] show ?case by (auto simp: step_effect_on_def)
qed

text \<open>
  C3: the system refines an append-only log.  Whatever the indexer, the access log, the case, report and
  evidence services do, in any order, with any configuration, and whether their calls succeed or fail, the
  store of a system in good order changes by appending records of new events, one after the other: the
  history seen through event lookups is the old one with exactly these records added, the length grows
  by their number, every record looked up before, by event or by record id, is returned unchanged, and the
  system is in good order again.  The only exception is a clash among the stored and appended records, of
  two events whose canonical bytes agree in the 128 bits of the digest that record ids keep.
\<close>

theorem system_refines_log:
  assumes "system_trace X S st as st'" "system_ok X st"
  shows "system_ok X st'
    \<and> (\<exists>rs. sy_store st' = foldl mem_commit (sy_store st) rs
        \<and> list_all (\<lambda>r. record_wf r \<and> \<not> mem_contains_event (sy_store st) (rc_event_id r)) rs
        \<and> (mem_history (sy_store st') = foldl history_insert (mem_history (sy_store st)) rs
             \<and> mem_len (sy_store st') = mem_len (sy_store st) + length rs
             \<and> mem_history (sy_store st) \<subseteq>\<^sub>m mem_history (sy_store st')
             \<and> (\<forall>i r. mem_get (sy_store st) i = Inr r \<longrightarrow> mem_get (sy_store st') i = Inr r)
           \<or> record_clash X (stored (sy_store st) \<union> set rs)))"
proof -
  from system_trace_effect [OF assms] obtain rs where rs: "writes X (sy_store st) rs (sy_store st')"
    and ok: "system_ok X st'" by blast
  have a: "addressed_store X (sy_store st)" using assms(2) by (simp add: system_ok_def)
  have le: "mem_history (sy_store st) \<subseteq>\<^sub>m foldl history_insert (mem_history (sy_store st)) rs"
    by (auto simp: map_le_def log_keeps)
  show ?thesis
  proof (intro conjI exI [of _ rs] disjCI ok)
    show "sy_store st' = foldl mem_commit (sy_store st) rs"
      "list_all (\<lambda>r. record_wf r \<and> \<not> mem_contains_event (sy_store st) (rc_event_id r)) rs"
      using rs by (simp_all add: writes_def list_all_iff)
    assume "\<not> record_clash X (stored (sy_store st) \<union> set rs)"
    note log = writes_log [OF rs a this]
    show "mem_history (sy_store st') = foldl history_insert (mem_history (sy_store st)) rs"
      "mem_len (sy_store st') = mem_len (sy_store st) + length rs"
      "mem_history (sy_store st) \<subseteq>\<^sub>m mem_history (sy_store st')"
      "\<forall>i r. mem_get (sy_store st) i = Inr r \<longrightarrow> mem_get (sy_store st') i = Inr r"
      using le log by simp_all
  qed
qed

text \<open>
  C4: the audit trail is complete and nothing is made up.  In a system started from nothing, the store holds
  the event of every successful action of the trace, namely of each event of each completed cycle, each
  access entry, each case step, each report and each evidence package; and every event it holds is
  the event of one of these, or was on a page whose cycle ended with an error.
\<close>

theorem audit_trail_exact:
  assumes "system_trace X S (system_start src) as st"
  shows "(\<Union>a \<in> set as. recorded_as X a) \<subseteq> {ev. mem_contains_event (sy_store st) ev}
    \<and> {ev. mem_contains_event (sy_store st) ev} \<subseteq> (\<Union>a \<in> set as. recorded_as X a \<union> interrupted a)"
  using system_trace_effect [OF assms system_ok_start]
  by (auto simp: system_start_def mem_contains_event_def mem_new_def)

text \<open>
  C5: evidence stays verifiable.  A package built by a system in good order verifies against the store of the
  system at every later time, whatever is ingested and recorded in between: its own digest, the aggregate
  digest and one digest per named record check.  The only exception is a clash of record ids as above.
\<close>

theorem evidence_stays_verifiable:
  assumes "system_ok X st" "evidence_build X mem_audit b t (sy_store st) options = (Inr package, s)"
    and "system_trace X S (st\<lparr>sy_store := s\<rparr>) as st'"
  shows "\<exists>rs. sy_store st' = foldl mem_commit (sy_store st) rs
    \<and> ((\<exists>v. verify_package X mem_audit package (sy_store st') = Inr v \<and> vv_verified v
          \<and> mset (map vo_record_id (vv_records v)) = mset (bo_record_ids options))
       \<or> record_clash X (stored (sy_store st) \<union> set rs))"
proof -
  have ok: "addressed_store X (sy_store st)" "mem_inv (sy_store st)"
    using assms(1) by (simp_all add: system_ok_def addressed_store_def)
  from evidenced_effect [OF assms(2)] obtain ws where ws: "writes X (sy_store st) ws s"
    by (auto simp: step_effect_on_def)
  have "system_ok X (st\<lparr>sy_store := s\<rparr>)"
    using assms(1) writes_addressed [OF ws] by (simp add: system_ok_def)
  from system_trace_effect [OF assms(3) this] obtain vs where "writes X s vs (sy_store st')" by auto
  with ws have rs: "writes X (sy_store st) (ws @ vs) (sy_store st')" by (rule writes_trans)
  show ?thesis
  proof (intro exI [of _ "ws @ vs"] conjI disjCI)
    show "sy_store st' = foldl mem_commit (sy_store st) (ws @ vs)" using rs by (simp add: writes_def)
    assume "\<not> record_clash X (stored (sy_store st) \<union> set (ws @ vs))"
    note keep = writes_log(3) [OF rs ok(1) this]
    have "mem_get (sy_store st') i = mem_get (sy_store st) i" if "i \<in> set (bo_record_ids options)" for i
    proof -
      obtain records where "fetch_records mem_audit (sy_store st) (bo_record_ids options) = Inr records"
        using assms(2) by (rule evidence_build_Inr)
      then have "list_all2 (\<lambda>i r. mem_get (sy_store st) i = Inr r) (bo_record_ids options) records"
        by (simp add: fetch_records_Inr mem_audit_def)
      with that obtain r where "mem_get (sy_store st) i = Inr r" by (blast dest: list_all2_left)
      with keep show ?thesis by simp
    qed
    with evidence_package_verifies [OF assms(2) ok(2), of "sy_store st'"]
    show "\<exists>v. verify_package X mem_audit package (sy_store st') = Inr v \<and> vv_verified v
          \<and> mset (map vo_record_id (vv_records v)) = mset (bo_record_ids options)" by blast
  qed
qed

section \<open>Sample traces\<close>

lemma json_event_report_sample: "\<exists>bs. json_event report_sample_ext e = Inr bs"
  by (simp add: report_sample_ext_def sample_ext_def)

lemma sample_access_trace:
  "\<exists>st. system_trace report_sample_ext (sample_source [] None) (system_start ())
     [Accessed sample_log (sample_entry ''rec_1'' AccessResult.Granted 1) (Inr ())] st"
proof -
  obtain s where "record_into report_sample_ext mem_insert sample_log 1 (sample_entry ''rec_1'' AccessResult.Granted 1)
      (sy_store (system_start ())) = (Inr (), s)"
    using sample_entry_recorded [OF json_event_report_sample] by blast
  from system_trace.step [OF system_trace.start system_step.accessed [OF this]] show ?thesis by auto
qed

theorem system_refines_log_witness:
  "\<exists>st rs. system_trace report_sample_ext (sample_source [] None) (system_start ())
       [Accessed sample_log (sample_entry ''rec_1'' AccessResult.Granted 1) (Inr ())] st
     \<and> system_ok report_sample_ext st \<and> sy_store st = foldl mem_commit mem_new rs"
proof -
  obtain st where st: "system_trace report_sample_ext (sample_source [] None) (system_start ())
     [Accessed sample_log (sample_entry ''rec_1'' AccessResult.Granted 1) (Inr ())] st"
    using sample_access_trace by blast
  from system_refines_log [OF this system_ok_start] obtain rs where
    "system_ok report_sample_ext st" "sy_store st = foldl mem_commit mem_new rs"
    by (auto simp: system_start_def)
  with st show ?thesis by blast
qed

theorem audit_trail_exact_witness:
  "\<exists>st. system_trace report_sample_ext (sample_source [] None) (system_start ())
       [Accessed sample_log (sample_entry ''rec_1'' AccessResult.Granted 1) (Inr ())] st
     \<and> {ev. mem_contains_event (sy_store st) ev}
       = {access_event_id report_sample_ext sample_log (sample_entry ''rec_1'' AccessResult.Granted 1)}"
proof -
  obtain st where st: "system_trace report_sample_ext (sample_source [] None) (system_start ())
     [Accessed sample_log (sample_entry ''rec_1'' AccessResult.Granted 1) (Inr ())] st"
    using sample_access_trace by blast
  with audit_trail_exact [OF st] show ?thesis by auto
qed

text \<open>A system that holds one ingested event, and evidence over it.\<close>

definition sample_kept :: AuditRecord where
  "sample_kept = projr (from_event report_sample_ext (sample_event ''evt_a1'' (Some 7)) 1)"

lemma sample_kept_from_event: "from_event report_sample_ext (sample_event ''evt_a1'' (Some 7)) 1 = Inr sample_kept"
  by (simp add: sample_kept_def from_event_def event_canonical_bytes_def report_sample_ext_def sample_ext_def)

definition sample_system :: "unit AuditSystem" where
  "sample_system = (system_start ())\<lparr>sy_store := mem_commit mem_new sample_kept\<rparr>"

lemma sample_kept_wf: "record_wf sample_kept" "rc_integrity sample_kept = None"
proof -
  show "record_wf sample_kept" using from_event_wf [OF sample_kept_from_event] by simp
  show "rc_integrity sample_kept = None"
    by (simp add: sample_kept_def from_event_def event_canonical_bytes_def report_sample_ext_def sample_ext_def)
qed

lemma sample_system_ok: "system_ok report_sample_ext sample_system"
proof -
  have "writes report_sample_ext mem_new [sample_kept] (mem_commit mem_new sample_kept)"
    using sample_kept_wf from_event_addressed [OF sample_kept_from_event]
    by (simp add: writes_def mem_contains_event_def mem_new_def)
  then have "addressed_store report_sample_ext (mem_commit mem_new sample_kept)"
    by (rule writes_addressed) simp
  then show ?thesis by (simp add: system_ok_def sample_system_def system_start_def)
qed

lemma encodes_report_sample: "encodes report_sample_ext"
  by (simp add: encodes_def record_digest_def canonical_record_input_def record_canonical_bytes_def)
    (simp add: report_sample_ext_def sample_ext_def)

lemma sample_system_evidence:
  "\<exists>package s. evidence_build report_sample_ext mem_audit sample_builder
     \<lparr>at_authorize = 1, at_now = 1, at_record = 1\<rparr> (sy_store sample_system)
     (sample_options [rc_record_id sample_kept]) = (Inr package, s)"
proof -
  obtain p where p: "EventProvenance_new Derived (eb_source sample_builder) (eb_parser sample_builder) = Inr p"
    using sample_builder_labels(2) by blast
  have "mem_get (sy_store sample_system) (rc_record_id sample_kept) = Inr sample_kept"
    using mem_commit_get [OF mem_inv_new, of sample_kept] by (simp add: sample_system_def mem_new_def)
  then have "fetch_records mem_audit (sy_store sample_system)
      (bo_record_ids (sample_options [rc_record_id sample_kept])) = Inr [sample_kept]"
    by (simp add: fetch_records_Inr mem_audit_def sample_options_def)
  from evidence_build_succeeds [OF encodes_report_sample sample_builder_labels(1) p _ this,
      of "\<lparr>at_authorize = 1, at_now = 1, at_record = 1\<rparr>"]
  show ?thesis using sample_kept_wf(2) sample_builder_authorized by (simp add: sample_options_def)
qed

theorem evidence_stays_verifiable_witness:
  "\<exists>package s rs. evidence_build report_sample_ext mem_audit sample_builder
       \<lparr>at_authorize = 1, at_now = 1, at_record = 1\<rparr> (sy_store sample_system)
       (sample_options [rc_record_id sample_kept]) = (Inr package, s)
     \<and> s = foldl mem_commit (sy_store sample_system) rs
     \<and> ((\<exists>v. verify_package report_sample_ext mem_audit package s = Inr v \<and> vv_verified v)
        \<or> record_clash report_sample_ext (stored (sy_store sample_system) \<union> set rs))"
proof -
  obtain package s where b: "evidence_build report_sample_ext mem_audit sample_builder
       \<lparr>at_authorize = 1, at_now = 1, at_record = 1\<rparr> (sy_store sample_system)
       (sample_options [rc_record_id sample_kept]) = (Inr package, s)"
    using sample_system_evidence by blast
  from evidence_stays_verifiable [OF sample_system_ok b
      system_trace.start [of report_sample_ext "sample_source [] None" "sample_system\<lparr>sy_store := s\<rparr>"]] b
  show ?thesis by auto
qed

end
