(* ===== verification/Audit_Pipeline.thy ===== *)
theory Audit_Pipeline
  imports Audit_Rpc Audit_Normalizer
begin

text \<open>
  The ingestion pipeline end to end: the RPC feed, the Soroban source, a normalizer and the indexer's
  replay into a store.  Holds the contract of a paged source (locale \<open>paged_source\<close>, interpreted on the
  Soroban source over any client that meets \<open>paged_rpc\<close>), the proof that a replay over such a source
  returns with everything stored, and what becomes of Soroban items under the shipped normalizer.
\<close>

section \<open>Pages that are accepted\<close>

text \<open>
  The items a replay accepts: they normalize to events that become well-formed records under distinct
  ids, with known placements in strictly increasing order, at positions that are valid cursors.
\<close>

definition accepted ::
  "('z) event_ext_scheme \<Rightarrow> (RawEventItem \<Rightarrow> NormalizerError + AuditEvent) \<Rightarrow> RawEventItem \<Rightarrow> bool" where
  "accepted X normalizer i \<longleftrightarrow>
     label_ok 512 (it_position i)
     \<and> (\<exists>ev r. normalizer i = Inr ev \<and> from_event X ev 0 = Inr r \<and> ev_kind ev \<noteq> EventKind.RecordCorrected)"

definition event_of :: "(RawEventItem \<Rightarrow> NormalizerError + AuditEvent) \<Rightarrow> RawEventItem \<Rightarrow> AuditEvent" where
  "event_of normalizer i = projr (normalizer i)"

definition told_apart ::
  "('z) event_ext_scheme \<Rightarrow> (RawEventItem \<Rightarrow> NormalizerError + AuditEvent) \<Rightarrow> RawEventItem set \<Rightarrow> bool" where
  "told_apart X normalizer I \<longleftrightarrow>
     (\<forall>i \<in> I. \<forall>j \<in> I. \<forall>r t.
        from_event X (event_of normalizer i) 0 = Inr r \<longrightarrow> from_event X (event_of normalizer j) 0 = Inr t \<longrightarrow>
        rc_record_id r = rc_record_id t \<longrightarrow> rc_event_id r = rc_event_id t)"

lemma told_apart_mono: "told_apart X normalizer J \<Longrightarrow> I \<subseteq> J \<Longrightarrow> told_apart X normalizer I"
  unfolding told_apart_def by blast

definition ingestible ::
  "('z) event_ext_scheme \<Rightarrow> (RawEventItem \<Rightarrow> NormalizerError + AuditEvent) \<Rightarrow> RawEventItem list \<Rightarrow> bool" where
  "ingestible X normalizer items \<longleftrightarrow>
     list_all (accepted X normalizer) items
     \<and> is_strictly_increasing (filter (\<lambda>p. eo_ledger_sequence p \<noteq> None) (map (ev_order \<circ> event_of normalizer) items))
     \<and> told_apart X normalizer (set items)"

lemma accepted_event:
  "accepted X normalizer i \<Longrightarrow> normalizer i = Inr (event_of normalizer i)"
  by (auto simp: accepted_def event_of_def)

lemma accepted_record:
  assumes "accepted X normalizer i"
  shows "\<exists>r. from_event X (event_of normalizer i) now = Inr r"
  using assms from_event_clock by (fastforce simp: accepted_def event_of_def)

lemma accepted_record_wf:
  "accepted X normalizer i \<Longrightarrow> from_event X (event_of normalizer i) now = Inr r \<Longrightarrow> record_wf r"
  by (auto simp: accepted_def event_of_def dest: from_event_wf)

lemma ingestible_sublist:
  assumes "ingestible X normalizer (xs @ ys @ zs)"
  shows "ingestible X normalizer ys"
proof -
  have "told_apart X normalizer (set ys)"
    by (rule told_apart_mono [of X normalizer "set (xs @ ys @ zs)"]) (use assms in \<open>auto simp: ingestible_def\<close>)
  with assms show ?thesis by (simp add: ingestible_def is_strictly_increasing_iff sorted_wrt_append)
qed

lemma page_events_accepted:
  "list_all (accepted X (ix_normalize ix)) items \<Longrightarrow> page_events ix items = map (event_of (ix_normalize ix)) items"
proof (induction items)
  case (Cons i items)
  then have "ix_normalize ix i = Inr (event_of (ix_normalize ix) i)" by (simp add: accepted_event [of X])
  with Cons show ?case by simp
qed simp

lemma ingest_items_accepted:
  assumes "list_all (accepted X (ix_normalize ix)) items"
    and "\<forall>r \<in> set (is_records st). \<exists>i \<in> I. \<exists>now. from_event X (event_of (ix_normalize ix) i) now = Inr r"
    and "set items \<subseteq> I"
  shows "\<exists>st'. ingest_items X ix items st = Inr st'
    \<and> (\<forall>r \<in> set (is_records st'). \<exists>i \<in> I. \<exists>now. from_event X (event_of (ix_normalize ix) i) now = Inr r)"
  using assms
proof (induction items arbitrary: st)
  case (Cons i items)
  let ?ev = "event_of (ix_normalize ix) i"
  have n: "ix_normalize ix i = Inr ?ev" using Cons.prems(1) by (simp add: accepted_event [of X])
  obtain r where r: "from_event X ?ev (ix_clock ix (length (is_records st))) = Inr r"
    using accepted_record [of X "ix_normalize ix" i] Cons.prems(1) by auto
  obtain st1 where st1: "ingest_item X ix i st = Inr st1" "set (is_records st1) \<subseteq> insert r (set (is_records st))"
    using n r by (cases "ev_event_id ?ev \<in> is_guard st") (auto simp: ingest_item_def)
  have "\<forall>t \<in> set (is_records st1). \<exists>i \<in> I. \<exists>now. from_event X (event_of (ix_normalize ix) i) now = Inr t"
    using Cons.prems(2,3) st1(2) r by (metis insert_iff list.set_intros(1) subset_iff)
  from Cons.IH [OF _ this] Cons.prems(1,3) st1(1) show ?case by simp
qed simp

lemma ingest_page_accepted:
  assumes "ingestible X (ix_normalize ix) (sp_items page)" "ix_dedup_policy ix = SkipDuplicates"
    and "label_ok 64 name" "mem_inv s"
  shows "\<exists>rep cps' s'. ingest_page X ix memcp mem_insert_batch name page cps s = (Inr rep, cps', s')
    \<and> ir_has_more rep = SourcePage_has_more page"
proof -
  let ?items = "sp_items page" and ?n = "ix_normalize ix"
  have acc: "list_all (accepted X ?n) ?items" using assms(1) by (simp add: ingestible_def)
  from ingest_items_accepted [OF acc, of "start_state page" "set ?items"] obtain st where
    st: "ingest_items X ix ?items (start_state page) = Inr st"
    and rs: "\<forall>r \<in> set (is_records st). \<exists>i \<in> set ?items. \<exists>now. from_event X (event_of ?n i) now = Inr r"
    by auto
  from ingest_items_spec [OF st guard_ok_start] have sp: "distinct (map rc_event_id (is_records st))"
    "is_placements st = filter (\<lambda>p. eo_ledger_sequence p \<noteq> None) (map ev_order (page_events ix ?items))"
    "ir_has_more (is_report st) = SourcePage_has_more page"
    by (auto simp: guard_ok_def initial_report_def)
  have inc: "is_strictly_increasing (is_placements st)"
    using assms(1) sp(2) page_events_accepted [OF acc] by (simp add: ingestible_def)
  have wf: "batch_wf (is_records st)"
  proof -
    have "record_wf r" if r: "r \<in> set (is_records st)" for r
      using rs r acc accepted_record_wf unfolding list_all_iff by metis
    moreover have "rc_event_id r = rc_event_id t"
      if "r \<in> set (is_records st)" "t \<in> set (is_records st)" "rc_record_id r = rc_record_id t" for r t
    proof -
      from rs that(1,2) obtain i now j now' where
        i: "i \<in> set ?items" "from_event X (event_of ?n i) now = Inr r"
        and j: "j \<in> set ?items" "from_event X (event_of ?n j) now' = Inr t" by blast
      have "rc_event_id (r\<lparr>rc_recorded_at := 0\<rparr>) = rc_event_id (t\<lparr>rc_recorded_at := 0\<rparr>)"
        using assms(1) [unfolded ingestible_def told_apart_def, THEN conjunct2, THEN conjunct2, rule_format,
            OF i(1) j(1) from_event_clock [OF i(2), of 0] from_event_clock [OF j(2), of 0]] that(3) by simp
      then show ?thesis by (simp add: rc_event_id_def)
    qed
    then have "inj_on rc_record_id (set (is_records st))"
      using sp(1) by (intro inj_onI) (metis distinct_map inj_onD)
    ultimately show ?thesis using sp(1) by (simp add: batch_wf_def distinct_map)
  qed
  obtain rep s' where a: "append_page mem_insert_batch SkipDuplicates (is_report st) (is_records st) s = (Inr rep, s')"
    "ir_has_more rep = SourcePage_has_more page"
  proof (cases "is_records st = []")
    case False
    with wf that sp(3) show thesis
      by (auto simp: append_page_def iffD2 [OF WriteBatch_new_Inr] mem_insert_batch_def mem_plan_wf batch_wf_def)
  qed (use that sp(3) in auto)
  have "\<exists>cps'. checkpoint_page memcp name ?items cps = (Inr (), cps')"
  proof (cases "?items = []")
    case False
    then have "accepted X ?n (last ?items)" using acc by (simp add: list_all_iff)
    then show ?thesis
      using assms(3) by (simp add: checkpoint_page_def accepted_def SourceCursor_new_def Checkpoint_at_def
          validate_source_name_def memcp_def memcp_save_def)
  qed (simp add: checkpoint_page_def)
  with st inc a assms(2) show ?thesis by (auto simp: ingest_page_def)
qed

section \<open>Paged sources\<close>

text \<open>
  A source over a recording: for each recorded event the item it is served as, or nothing where it
  is skipped.  A page is asked for behind the position of an item, or from the start.
\<close>

fun somes :: "'a option list \<Rightarrow> 'a list" where
  "somes [] = []"
| "somes (None # xs) = somes xs"
| "somes (Some x # xs) = x # somes xs"

lemma somes_append [simp]: "somes (xs @ ys) = somes xs @ somes ys"
  by (induction xs rule: somes.induct) simp_all

lemma somes_last:
  "somes w \<noteq> [] \<Longrightarrow> \<exists>u v. w = u @ Some (last (somes w)) # v \<and> somes v = []"
proof (induction w rule: rev_induct)
  case (snoc x w)
  show ?case
  proof (cases x)
    case None
    with snoc obtain u v where "w = u @ Some (last (somes w)) # v" "somes v = []" by auto
    with None show ?thesis by (intro exI [of _ u] exI [of _ "v @ [x]"]) simp
  next
    case (Some y)
    then show ?thesis by (intro exI [of _ w] exI [of _ "[]"]) simp
  qed
qed simp

definition resumes_at :: "RawEventItem option list \<Rightarrow> string option \<Rightarrow> nat \<Rightarrow> bool" where
  "resumes_at es after start \<longleftrightarrow>
     (case after of
        None \<Rightarrow> start = 0
      | Some c \<Rightarrow> 0 < start \<and> start \<le> length es \<and> (\<exists>i. es ! (start - 1) = Some i \<and> it_position i = c))"

text \<open>The position behind a page, and what is left from there.\<close>

lemma page_advances:
  assumes "resumes_at es after start" "items = somes (take l (drop start es))"
  obtains start' where "resumes_at es (if items = [] then after else Some (it_position (last items))) start'"
    "start \<le> start'" "items \<noteq> [] \<Longrightarrow> start < start'"
    "somes (take start' es) = somes (take start es) @ items"
    "somes (drop start es) = items @ somes (drop start' es)"
proof (cases "items = []")
  case True
  with that [of start] assms(1) show thesis by simp
next
  case False
  with somes_last [of "take l (drop start es)"] assms(2) obtain u v where
    w: "take l (drop start es) = u @ Some (last items) # v" "somes v = []" by auto
  have dr: "drop start es = u @ Some (last items) # v @ drop l (drop start es)"
    using w(1) by (metis append_Cons append_assoc append_take_drop_id)
  let ?start = "start + (length u + 1)"
  have len: "?start \<le> length es" using arg_cong [OF dr, of length] by simp
  have "es ! (start + length u) = Some (last items)"
    using arg_cong [OF dr, of "\<lambda>xs. xs ! length u"] len by (simp add: nth_append)
  then have at: "resumes_at es (Some (it_position (last items))) ?start"
    using len by (simp add: resumes_at_def)
  have items: "items = somes u @ [last items]" using assms(2) w by simp
  have "take ?start es = take start es @ u @ [Some (last items)]"
    by (subst take_add, subst dr) simp
  then have t: "somes (take ?start es) = somes (take start es) @ items"
    by (simp only: somes_append somes.simps items [symmetric])
  have "drop ?start es = v @ drop l (drop start es)"
    using arg_cong [OF dr, of "drop (length u + 1)"] by (simp add: add.commute add.left_commute)
  then have "somes (drop start es) = (somes u @ [last items]) @ somes (drop ?start es)"
    using arg_cong [OF dr, of somes] w(2) by simp
  then have d: "somes (drop start es) = items @ somes (drop ?start es)"
    by (simp only: items [symmetric])
  show thesis by (rule that [OF _ _ _ t d]) (use at False in simp_all)
qed

text \<open>No page in the middle of the recording is without an item.\<close>

definition dense :: "nat \<Rightarrow> RawEventItem option list \<Rightarrow> bool" where
  "dense l es \<longleftrightarrow> (\<forall>k. k + l < length es \<longrightarrow> somes (take l (drop k es)) \<noteq> [])"

locale paged_source =
  fixes S :: "'s EventSource" and recorded :: "'s \<Rightarrow> RawEventItem option list" and ready :: "'s \<Rightarrow> bool"
    and max_limit :: nat
  assumes serve: "ready s \<Longrightarrow> 1 \<le> l \<Longrightarrow> l \<le> max_limit \<Longrightarrow> resumes_at (recorded s) after start \<Longrightarrow>
    \<exists>page s'. fetch_after S s after l = (Inr page, s') \<and> ready s' \<and> recorded s' = recorded s
      \<and> source_name S s' = source_name S s
      \<and> sp_items page = somes (take l (drop start (recorded s)))
      \<and> (SourcePage_has_more page \<longleftrightarrow> start + l < length (recorded s))"
begin

text \<open>One cycle over an accepted recording.\<close>

lemma run_once_serves:
  assumes "ready src" "resumes_at (recorded src) (cps (source_name S src)) start"
    and "1 \<le> ix_page_limit ix" "ix_page_limit ix \<le> max_limit" "ix_dedup_policy ix = SkipDuplicates"
    and "ingestible X (ix_normalize ix) (somes (recorded src))" "label_ok 64 (source_name S src)" "mem_inv s"
    and "items = somes (take (ix_page_limit ix) (drop start (recorded src)))"
  shows "\<exists>rep src' cps' s'. run_once X ix S memcp mem_insert_batch src cps s = (Inr rep, src', cps', s')
    \<and> ready src' \<and> recorded src' = recorded src \<and> source_name S src' = source_name S src \<and> mem_inv s'
    \<and> cps' (source_name S src) = (if items = [] then cps (source_name S src) else Some (it_position (last items)))
    \<and> ir_inserted rep + ir_duplicates rep = length items
    \<and> (ir_has_more rep \<longleftrightarrow> start + ix_page_limit ix < length (recorded src))
    \<and> (\<forall>ev. mem_contains_event s' ev \<longleftrightarrow>
         mem_contains_event s ev \<or> ev \<in> (ev_event_id \<circ> event_of (ix_normalize ix)) ` set items)"
proof -
  let ?l = "ix_page_limit ix" and ?es = "recorded src" and ?name = "source_name S src"
  from serve [OF assms(1,3,4,2)] obtain page src' where
    f: "fetch_after S src (cps ?name) ?l = (Inr page, src')"
    and src': "ready src'" "recorded src' = ?es" "source_name S src' = ?name"
    and page: "sp_items page = items" "SourcePage_has_more page \<longleftrightarrow> start + ?l < length ?es"
    unfolding assms(9) by blast
  have "?es = take start ?es @ take ?l (drop start ?es) @ drop ?l (drop start ?es)"
    by (simp only: append_take_drop_id)
  from arg_cong [OF this, of somes] have split: "somes ?es = somes (take start ?es) @ items @ somes (drop ?l (drop start ?es))"
    by (simp only: somes_append assms(9))
  have ing: "ingestible X (ix_normalize ix) items"
    by (rule ingestible_sublist [OF assms(6) [unfolded split]])
  from ingest_page_accepted [of X ix page ?name s cps] ing page(1) assms(5,7,8) obtain rep cps' s' where
    p: "ingest_page X ix memcp mem_insert_batch ?name page cps s = (Inr rep, cps', s')"
    "ir_has_more rep = SourcePage_has_more page" by auto
  note loss = mem_ingest.ingest_page_no_loss [OF assms(8) p(1), unfolded page(1)]
  have acc: "list_all (accepted X (ix_normalize ix)) items" using ing by (simp add: ingestible_def)
  have "filter (\<lambda>i. isl (ix_normalize ix i)) items = []"
    using acc by (auto simp: filter_empty_conv list_all_iff accepted_def)
  with loss(4,5) have "ir_inserted rep + ir_duplicates rep = length items" by simp
  moreover have "run_once X ix S memcp mem_insert_batch src cps s = (Inr rep, src', cps', s')"
    using f p(1) src'(3) by (simp add: run_once_def)
  moreover have "cps' ?name = (if items = [] then cps ?name else Some (it_position (last items)))"
    using loss(6) [of ?name] by (simp split: if_splits)
  moreover have "mem_contains_event s' ev \<longleftrightarrow>
         mem_contains_event s ev \<or> ev \<in> (ev_event_id \<circ> event_of (ix_normalize ix)) ` set items" for ev
    using loss(2) [of ev] page_events_accepted [OF acc] by (simp add: image_comp)
  ultimately show ?thesis using src' loss(1) page(2) p(2) by blast
qed

text \<open>The replay loop over a dense recording returns, with every item behind its start consumed.\<close>

lemma replay_loop_complete:
  assumes "ready src" "resumes_at (recorded src) (cps (source_name S src)) start"
    and "1 \<le> ix_page_limit ix" "ix_page_limit ix \<le> max_limit" "ix_dedup_policy ix = SkipDuplicates"
    and "ingestible X (ix_normalize ix) (somes (recorded src))" "label_ok 64 (source_name S src)" "mem_inv s"
    and "dense (ix_page_limit ix) (recorded src)" "ro_max_pages opts = None" "ro_max_records opts = None"
  shows "\<exists>rep src' s'. replay_loop X ix S mem_insert_batch opts src cps s report = Some (Inr rep, src', s')
    \<and> rp_truncated rep = rp_truncated report \<and> mem_inv s'
    \<and> rp_inserted rep + rp_duplicates rep =
        rp_inserted report + rp_duplicates report + length (somes (drop start (recorded src)))
    \<and> (\<forall>ev. mem_contains_event s' ev \<longleftrightarrow> mem_contains_event s ev
         \<or> ev \<in> (ev_event_id \<circ> event_of (ix_normalize ix)) ` set (somes (drop start (recorded src))))"
  using assms
proof (induction "length (recorded src) - start" arbitrary: src cps s report start rule: less_induct)
  case less
  let ?l = "ix_page_limit ix" and ?es = "recorded src" and ?name = "source_name S src"
  let ?items = "somes (take ?l (drop start ?es))" and ?ids = "\<lambda>is. (ev_event_id \<circ> event_of (ix_normalize ix)) ` set is"
  from run_once_serves [where cps = cps and start = start and src = src and X = X and ix = ix and s = s,
      OF less.prems(1-8) refl] obtain rep src' cps' s' where
    r: "run_once X ix S memcp mem_insert_batch src cps s = (Inr rep, src', cps', s')"
    and src': "ready src'" "recorded src' = ?es" "source_name S src' = ?name" and inv: "mem_inv s'"
    and cps': "cps' ?name = (if ?items = [] then cps ?name else Some (it_position (last ?items)))"
    and n: "ir_inserted rep + ir_duplicates rep = length ?items"
    and more: "ir_has_more rep \<longleftrightarrow> start + ?l < length ?es"
    and cont: "\<And>ev. mem_contains_event s' ev \<longleftrightarrow> mem_contains_event s ev \<or> ev \<in> ?ids ?items"
    by blast
  let ?rep = "report\<lparr>rp_pages := rp_pages report + 1, rp_inserted := rp_inserted report + ir_inserted rep,
      rp_duplicates := rp_duplicates report + ir_duplicates rep, rp_last_position := cps' ?name\<rparr>"
  have unfold: "replay_loop X ix S mem_insert_batch opts src cps s report =
      (if ir_has_more rep then replay_loop X ix S mem_insert_batch opts src' cps' s' ?rep
       else Some (Inr ?rep, src', s'))"
    using r src'(3) less.prems(10,11) by (subst replay_loop.simps) (simp add: memcp_load_def Let_def)
  show ?case
  proof (cases "start + ?l < length ?es")
    case False
    then have "take ?l (drop start ?es) = drop start ?es" by simp
    then show ?thesis using unfold more False n cont inv by simp
  next
    case True
    then have ne: "?items \<noteq> []" using less.prems(9) by (simp add: dense_def)
    from page_advances [OF less.prems(2) refl, of ?l] obtain start' where
      adv: "resumes_at ?es (Some (it_position (last ?items))) start'" "start < start'"
        "somes (drop start ?es) = ?items @ somes (drop start' ?es)" using ne by auto
    then have at: "resumes_at (recorded src') (cps' (source_name S src')) start'"
      using cps' src' ne by simp
    note rest = adv(3)
    have "length (recorded src') - start' < length ?es - start" using src'(2) True adv(2) by simp
    note ih = less.hyps [where src = src' and cps = cps' and start = start' and s = s' and report = ?rep,
        OF this src'(1) at less.prems(3-5), unfolded src'(2,3), OF less.prems(6,7) inv less.prems(9-11)]
    from ih obtain rep' src'' s'' where
      "replay_loop X ix S mem_insert_batch opts src' cps' s' ?rep = Some (Inr rep', src'', s'')"
      "rp_truncated rep' = rp_truncated ?rep" "mem_inv s''"
      "rp_inserted rep' + rp_duplicates rep' = rp_inserted ?rep + rp_duplicates ?rep + length (somes (drop start' ?es))"
      "\<And>ev. mem_contains_event s'' ev \<longleftrightarrow> mem_contains_event s' ev \<or> ev \<in> ?ids (somes (drop start' ?es))"
      by blast
    then show ?thesis using unfold more True n cont rest by (auto simp: image_Un)
  qed
qed

end

section \<open>The Soroban source over a paging client\<close>

text \<open>The item a recorded event is served as: only events of registered contracts are.\<close>

definition wire_item ::
  "(SorobanEvent \<Rightarrow> string + string) \<Rightarrow> ContractRegistry \<Rightarrow> NetworkId \<Rightarrow> SorobanEvent \<Rightarrow> RawEventItem option" where
  "wire_item json registry network e =
     (case Option.bind (se_contract_id e) (registry_label registry network) of
        None \<Rightarrow> None
      | Some label \<Rightarrow> Some \<lparr>it_scheme = label, it_payload = projr (json e), it_position = se_id e\<rparr>)"

text \<open>What a recording has to be: events that validate, in the order of their ids, and that serialize.\<close>

definition wire_ok ::
  "(SorobanEvent \<Rightarrow> string + string) \<Rightarrow> ContractRegistry \<Rightarrow> NetworkId \<Rightarrow> SorobanEvent \<Rightarrow> bool" where
  "wire_ok json registry network e \<longleftrightarrow>
     SorobanEvent_validate e = Inr ()
     \<and> (\<forall>label. Option.bind (se_contract_id e) (registry_label registry network) = Some label \<longrightarrow>
          (\<exists>payload item. json e = Inr payload \<and> RawEventItem_new label payload (se_id e) = Inr item))"

lemma admit_events_ok:
  assumes "list_all (wire_ok json registry network) es"
    and "sorted_wrt (<) (map se_id es)"
    and "\<forall>e \<in> set es. (case after of Some a \<Rightarrow> a < se_id e | None \<Rightarrow> True)
           \<and> (case previous of Some p \<Rightarrow> p < se_id e | None \<Rightarrow> True)"
  shows "\<exists>skipped'. admit_events json registry network after es previous items skipped
    = Inr (items @ somes (map (wire_item json registry network) es), skipped')"
  using assms
proof (induction es arbitrary: previous items skipped)
  case (Cons e es)
  have v: "SorobanEvent_validate e = Inr ()" using Cons.prems(1) by (simp add: wire_ok_def)
  have after: "\<not> (case after of Some a \<Rightarrow> se_id e \<le> a | None \<Rightarrow> False)"
    and prev: "\<not> (case previous of Some p \<Rightarrow> se_id e \<le> p | None \<Rightarrow> False)"
    using Cons.prems(3) by (auto simp: not_le split: option.splits)
  have tail: "\<forall>x \<in> set es. (case after of Some a \<Rightarrow> a < se_id x | None \<Rightarrow> True)
      \<and> (case Some (se_id e) of Some p \<Rightarrow> p < se_id x | None \<Rightarrow> True)"
    using Cons.prems(2,3) by auto
  note ih = Cons.IH [OF _ _ tail]
  show ?case
  proof (cases "Option.bind (se_contract_id e) (registry_label registry network)")
    case None
    then have "wire_item json registry network e = None" by (simp add: wire_item_def)
    moreover have "admit_events json registry network after (e # es) previous items skipped
        = admit_events json registry network after es (Some (se_id e)) items (skipped + 1)"
      using v after prev None by (cases "se_contract_id e") simp_all
    ultimately show ?thesis using ih [of items "skipped + 1"] Cons.prems(1,2) by simp
  next
    case (Some label)
    then obtain c where c: "se_contract_id e = Some c" "registry_label registry network c = Some label"
      by (auto simp: bind_eq_Some_conv)
    from Some Cons.prems(1) obtain payload item where p: "json e = Inr payload"
      "RawEventItem_new label payload (se_id e) = Inr item" by (auto simp: wire_ok_def)
    have "wire_item json registry network e = Some item"
      using Some p by (simp add: wire_item_def RawEventItem_new_Inr)
    moreover have "admit_events json registry network after (e # es) previous items skipped
        = admit_events json registry network after es (Some (se_id e)) (items @ [item]) skipped"
      using v after prev c p by simp
    ultimately show ?thesis using ih [of "items @ [item]" skipped] Cons.prems(1,2) by simp
  qed
qed simp

text \<open>The recording behind a source, by what its client has recorded, and when it can be served.\<close>

definition wire_recorded ::
  "('c \<Rightarrow> SorobanEvent list) \<Rightarrow> (SorobanEvent \<Rightarrow> string + string) \<Rightarrow> 'c EventsRpcFeed SorobanEventSource
     \<Rightarrow> RawEventItem option list" where
  "wire_recorded rec json src =
     map (wire_item json (ss_registry src) (ss_network src)) (rec (rf_client (ss_feed src)))"

definition wire_ready ::
  "('c \<Rightarrow> SorobanEvent list) \<Rightarrow> ('c \<Rightarrow> bool) \<Rightarrow> (SorobanEvent \<Rightarrow> string + string)
     \<Rightarrow> 'c EventsRpcFeed SorobanEventSource \<Rightarrow> bool" where
  "wire_ready rec rdy json src \<longleftrightarrow>
     rdy (rf_client (ss_feed src)) \<and> rf_start_ledger (ss_feed src) \<noteq> None
     \<and> list_all (wire_ok json (ss_registry src) (ss_network src)) (rec (rf_client (ss_feed src)))
     \<and> sorted_wrt (<) (map se_id (rec (rf_client (ss_feed src))))"

context paged_rpc
begin

lemma resume_position:
  assumes "resumes_at (wire_recorded recorded json src) (Some c) start"
  shows "starts_at (recorded (rf_client (ss_feed src))) (Some c) start"
  using assms by (auto simp: resumes_at_def wire_recorded_def starts_at_def wire_item_def split: option.splits)

lemma soroban_serves:
  assumes "wire_ready recorded ready json src" "1 \<le> l" "l \<le> MAX_LIMIT" "resumes_at (wire_recorded recorded json src) after start"
  shows "\<exists>page src'. fetch_after (soroban_source json (rpc_fetch_page get_events)) src after l = (Inr page, src')
    \<and> wire_ready recorded ready json src' \<and> wire_recorded recorded json src' = wire_recorded recorded json src \<and> ss_name src' = ss_name src
    \<and> sp_items page = somes (take l (drop start (wire_recorded recorded json src)))
    \<and> (SourcePage_has_more page \<longleftrightarrow> start + l < length (wire_recorded recorded json src))"
proof -
  let ?f = "ss_feed src" and ?es = "recorded (rf_client (ss_feed src))"
  let ?w = "take l (drop start ?es)" and ?item = "wire_item json (ss_registry src) (ss_network src)"
  from assms(1) obtain ledger where r: "ready (rf_client ?f)" "rf_start_ledger ?f = Some ledger"
    "list_all (wire_ok json (ss_registry src) (ss_network src)) ?es" "sorted_wrt (<) (map se_id ?es)"
    by (auto simp: wire_ready_def)
  have at: "starts_at ?es after start"
  proof (cases after)
    case None
    with assms(4) show ?thesis by (simp add: resumes_at_def starts_at_def)
  next
    case (Some c)
    with assms(4) resume_position show ?thesis by simp
  qed
  from feed_page [OF r(1) assms(2,3) r(2) at] obtain res c' where
    f: "rpc_fetch_page get_events ?f after l = (Inr res, ?f\<lparr>rf_client := c'\<rparr>)" "ready c'" "recorded c' = ?es"
    and res: "sr_events res = ?w"
      "sr_cursor res = (if start + l < length ?es then Some (se_id (?es ! (start + l - 1))) else None)" by blast
  have es: "?es = take start ?es @ ?w @ drop l (drop start ?es)" by (simp only: append_take_drop_id)
  have ok: "list_all (wire_ok json (ss_registry src) (ss_network src)) ?w"
    using r(3) by (subst (asm) es) simp
  have srt: "sorted_wrt (<) (map se_id ?w)" using r(4) by (subst (asm) es) (simp add: sorted_wrt_append)
  have behind: "a < se_id e" if "after = Some a" "e \<in> set ?w" for a e
  proof -
    from at that(1) have s: "0 < start" "start \<le> length ?es" "se_id (?es ! (start - 1)) = a"
      by (auto simp: starts_at_def)
    then have "?es ! (start - 1) \<in> set (take start ?es)"
      by (metis diff_less in_set_conv_nth length_take min.absorb2 nth_take zero_less_one)
    with r(4) that(2) s(3) show ?thesis by (subst (asm) (1) es) (auto simp: sorted_wrt_append)
  qed
  have "\<forall>e \<in> set ?w. (case after of Some a \<Rightarrow> a < se_id e | None \<Rightarrow> True)
      \<and> (case None of Some p \<Rightarrow> p < se_id e | None \<Rightarrow> True)"
    using behind by (auto split: option.split)
  from admit_events_ok [OF ok srt this, of "[]" 0] obtain sk where
    adm: "admit_events json (ss_registry src) (ss_network src) after ?w None [] 0 = Inr (somes (map ?item ?w), sk)"
    by auto
  have toid: "is_toid_id a" if "after = Some a" for a
  proof -
    from at that have s: "0 < start" "start \<le> length ?es" "se_id (?es ! (start - 1)) = a"
      by (auto simp: starts_at_def)
    then have "?es ! (start - 1) \<in> set ?es" by (intro nth_mem) simp
    with r(3) s(3) show ?thesis by (auto simp: list_all_iff wire_ok_def dest: SorobanEvent_validate_toid)
  qed
  let ?src' = "src\<lparr>ss_feed := ?f\<lparr>rf_client := c'\<rparr>, ss_skipped := ss_skipped src + sk\<rparr>"
  have "fetch_after (soroban_source json (rpc_fetch_page get_events)) src after l
      = (Inr (SourcePage_new (somes (map ?item ?w)) (sr_cursor res)), ?src')"
    using assms(2,3) f(1) res(1) adm toid
    by (cases after) (simp_all add: soroban_source_def soroban_fetch_after_def MAX_LIMIT_def MAX_PAGE_LIMIT_def)
  moreover have "wire_ready recorded ready json ?src'" "wire_recorded recorded json ?src' = wire_recorded recorded json src" "ss_name ?src' = ss_name src"
    using assms(1) f(2,3) by (simp_all add: wire_ready_def wire_recorded_def)
  moreover have "somes (map ?item ?w) = somes (take l (drop start (wire_recorded recorded json src)))"
    by (simp add: wire_recorded_def take_map drop_map)
  moreover have "SourcePage_has_more (SourcePage_new (somes (map ?item ?w)) (sr_cursor res))
      \<longleftrightarrow> start + l < length (wire_recorded recorded json src)"
    by (simp add: SourcePage_has_more_def SourcePage_new_def res(2) wire_recorded_def)
  ultimately show ?thesis by (metis SourcePage.select_convs(1) SourcePage_new_def)
qed

end

sublocale paged_rpc \<subseteq> wire: paged_source "soroban_source json (rpc_fetch_page get_events)"
  "wire_recorded recorded json" "wire_ready recorded ready json" MAX_LIMIT
  for json
proof
  fix s l after start
  assume "wire_ready recorded ready json s" "1 \<le> l" "l \<le> MAX_LIMIT" "resumes_at (wire_recorded recorded json s) after start"
  from soroban_serves [OF this]
  show "\<exists>page s'. fetch_after (soroban_source json (rpc_fetch_page get_events)) s after l = (Inr page, s')
      \<and> wire_ready recorded ready json s' \<and> wire_recorded recorded json s' = wire_recorded recorded json s
      \<and> source_name (soroban_source json (rpc_fetch_page get_events)) s'
        = source_name (soroban_source json (rpc_fetch_page get_events)) s
      \<and> sp_items page = somes (take l (drop start (wire_recorded recorded json s)))
      \<and> (SourcePage_has_more page \<longleftrightarrow> start + l < length (wire_recorded recorded json s))"
    by (simp add: soroban_source_def)
qed

text \<open>
  C8: a replay over the whole pipeline returns with everything stored.  The recording behind the mock RPC
  endpoint holds valid events that serialize, in the order of their ids, gated by any contract registry; the
  source's name is valid and the store consistent.  The normalizer is any one that
  accepts every admitted item: each becomes an event, not a correction, of which a record can be
  made; the events' known placements strictly increase; and different events get different record ids.
  The page limit is in its range and one at which no page in the middle of the recording is without an admitted event.
  Then an unbudgeted replay from the start ends without being truncated: every admitted event is
  counted once, as inserted or as a duplicate, and the store holds exactly the events it held before and
  those of the admitted items.  In particular what is stored does not depend on the page limit.  The
  conditions are needed: a page in the middle without an admitted event makes the replay run forever, and
  the normalizer of this repository accepts no event of the Soroban source.
\<close>

theorem soroban_replay_complete:
  assumes "list_all (wire_ok json registry network) events" "sorted_wrt (<) (map se_id events)"
    and "items = map (wire_item json registry network) events"
    and "ingestible X normalizer (somes items)" "dense (ro_page_limit options) items"
    and "1 \<le> ro_page_limit options" "ro_page_limit options \<le> MAX_LIMIT"
    and "ro_max_pages options = None" "ro_max_records options = None"
    and "label_ok 64 name" "mem_inv target"
  shows "\<exists>report src' target'. replay_into X normalizer now (soroban_source json (rpc_fetch_page mock_get_events))
      mem_insert_batch (SorobanEventSource_new name network registry
        \<lparr>rf_client = MockEventsClient_new events, rf_start_ledger = Some ledger\<rparr>) target None options
      = Some (Inr report, src', target')
    \<and> \<not> rp_truncated report \<and> rp_inserted report + rp_duplicates report = length (somes items)
    \<and> (\<forall>ev. mem_contains_event target' ev \<longleftrightarrow> mem_contains_event target ev
         \<or> ev \<in> (ev_event_id \<circ> event_of normalizer) ` set (somes items))"
proof -
  let ?src = "SorobanEventSource_new name network registry
    \<lparr>rf_client = MockEventsClient_new events, rf_start_ledger = Some ledger\<rparr>"
  let ?S = "soroban_source json (rpc_fetch_page mock_get_events)"
  let ?ix = "\<lparr>ix_normalize = normalizer, ix_clock = (\<lambda>_. now), ix_dedup_policy = SkipDuplicates,
    ix_malformed_policy = AbortOnMalformed, ix_page_limit = ro_page_limit options\<rparr>"
  let ?rep = "\<lparr>rp_pages = 0, rp_inserted = 0, rp_duplicates = 0, rp_truncated = False, rp_last_position = None\<rparr>"
  have "sorted_wrt (<) (map se_id events) \<Longrightarrow> distinct (map se_id events)"
    by (simp add: strict_sorted_iff)
  with assms(1,2) have ready: "wire_ready mc_events mock_ready json ?src"
    by (simp add: wire_ready_def mock_ready_def SorobanEventSource_new_def MockEventsClient_new_def)
  have rec: "wire_recorded mc_events json ?src = items"
    by (simp add: wire_recorded_def SorobanEventSource_new_def MockEventsClient_new_def assms(3))
  have "\<exists>rep src' s'. replay_loop X ?ix ?S mem_insert_batch options ?src InMemoryCheckpointStore_new target ?rep
        = Some (Inr rep, src', s')
    \<and> rp_truncated rep = rp_truncated ?rep \<and> mem_inv s'
    \<and> rp_inserted rep + rp_duplicates rep = rp_inserted ?rep + rp_duplicates ?rep
        + length (somes (drop 0 (wire_recorded mc_events json ?src)))
    \<and> (\<forall>ev. mem_contains_event s' ev \<longleftrightarrow> mem_contains_event target ev
         \<or> ev \<in> (ev_event_id \<circ> event_of (ix_normalize ?ix)) ` set (somes (drop 0 (wire_recorded mc_events json ?src))))"
    by (rule mock.wire.replay_loop_complete [OF ready])
      (use assms rec in \<open>simp_all add: resumes_at_def InMemoryCheckpointStore_new_def soroban_source_def
        SorobanEventSource_new_def\<close>)
  moreover have "replay_into X normalizer now ?S mem_insert_batch ?src target None options
      = replay_loop X ?ix ?S mem_insert_batch options ?src InMemoryCheckpointStore_new target ?rep"
    using assms(6) by (simp add: replay_into_def Indexer_new_def)
  ultimately show ?thesis by (simp add: rec) blast
qed

text \<open>A registered event followed by one of an unregistered contract, one event per page.\<close>

definition sample_recording :: "SorobanEvent list" where
  "sample_recording = [sample_soroban_event (Some ''CDUMMY''),
     (sample_soroban_event None)\<lparr>se_id := ''0000000000000000008-0000000001''\<rparr>]"

definition sample_registry :: ContractRegistry where
  "sample_registry = [(''testnet'', [(''CDUMMY'', ''hooks-state-event'')])]"

definition sample_wire_item :: RawEventItem where
  "sample_wire_item = \<lparr>it_scheme = ''hooks-state-event'', it_payload = ''{}'',
     it_position = ''0000000000000000007-0000000001''\<rparr>"

lemma sample_recording_items:
  "map (wire_item (\<lambda>_. Inr ''{}'') sample_registry ''testnet'') sample_recording = [Some sample_wire_item, None]"
  by (simp add: sample_recording_def wire_item_def sample_registry_def registry_label_def sample_soroban_event_def
      sample_wire_item_def)

lemma sample_recording_ok: "list_all (wire_ok (\<lambda>_. Inr ''{}'') sample_registry ''testnet'') sample_recording"
  by (simp add: sample_recording_def wire_ok_def sample_registry_def registry_label_def sample_soroban_event_def
      SorobanEvent_validate_def is_toid_id_def fold_digits_def in_u32_def RawEventItem_new_def validate_label_def
      label_ok_def ascii_defs byte_def)

lemma sample_recording_sorted: "sorted_wrt (<) (map se_id sample_recording)"
  by (simp add: sample_recording_def sample_soroban_event_def less_char_byte byte_def)

lemma sample_recording_ingestible:
  "ingestible sample_json (\<lambda>i. Inr (sample_event ''evt_a1'' (Some 7))) (somes [Some sample_wire_item, None])"
  using sample_from_event [of "''evt_a1''" "Some 7" 0]
  by (auto simp: ingestible_def accepted_def event_of_def told_apart_def sample_wire_item_def label_ok_def
      ascii_defs byte_def)

lemma sample_recording_dense: "dense 1 [Some sample_wire_item, None]"
  by (auto simp: dense_def)

lemma sample_name_ok: "label_ok 64 ''soroban-testnet''"
  by (simp add: label_ok_def ascii_defs byte_def)

theorem soroban_replay_complete_witness:
  "\<exists>report src' target'. replay_into sample_json (\<lambda>i. Inr (sample_event ''evt_a1'' (Some 7))) 0
      (soroban_source (\<lambda>_. Inr ''{}'') (rpc_fetch_page mock_get_events)) mem_insert_batch
      (SorobanEventSource_new ''soroban-testnet'' ''testnet'' sample_registry
        \<lparr>rf_client = MockEventsClient_new sample_recording, rf_start_ledger = Some 7\<rparr>) mem_new None
      \<lparr>ro_max_pages = None, ro_max_records = None, ro_page_limit = 1\<rparr>
      = Some (Inr report, src', target')
    \<and> \<not> rp_truncated report \<and> rp_inserted report + rp_duplicates report = 1
    \<and> mem_contains_event target' ''evt_a1''"
proof -
  let ?n = "\<lambda>i. Inr (sample_event ''evt_a1'' (Some 7)) :: NormalizerError + AuditEvent"
  show ?thesis
    using sample_recording_dense sample_name_ok sample_recording_ingestible
      soroban_replay_complete [OF sample_recording_ok sample_recording_sorted sample_recording_items [symmetric], of sample_json ?n
        "\<lparr>ro_max_pages = None, ro_max_records = None, ro_page_limit = 1\<rparr>" "''soroban-testnet''" mem_new 0 7]
    by (auto simp: MAX_LIMIT_def event_of_def)
qed


section \<open>Soroban items under the shipped normalizer\<close>

text \<open>
  How \<open>serde_json\<close> writes a wire event: as an object that has the event's \<open>id\<close> field, and that its own
  parser reads back as such.
\<close>

definition wire_json :: "('n, 'z) normalizer_ext_scheme \<Rightarrow> (SorobanEvent \<Rightarrow> string + string) \<Rightarrow> bool" where
  "wire_json X json \<longleftrightarrow>
     (\<forall>e payload. json e = Inr payload \<longrightarrow>
        (\<exists>obj. json_from_str X payload = Inr (Object obj) \<and> ''id'' \<in> fst ` set obj))"

lemma admit_events_items:
  assumes "admit_events json registry network after es previous items skipped = Inr (items', skipped')"
    and "\<forall>i \<in> set items. label_ok 512 (it_position i) \<and> (\<exists>e. json e = Inr (it_payload i))"
  shows "\<forall>i \<in> set items'. label_ok 512 (it_position i) \<and> (\<exists>e. json e = Inr (it_payload i))"
  using assms
proof (induction es arbitrary: previous items skipped)
  case (Cons e es)
  from Cons.prems(1) show ?case
  proof (cases rule: admit_events_step)
    case reserved
    from Cons.IH [OF reserved(3) Cons.prems(2)] show ?thesis .
  next
    case skip
    from Cons.IH [OF skip(5) Cons.prems(2)] show ?thesis .
  next
    case (admit item)
    from Cons.IH [OF admit(6)] admit(4,5) Cons.prems(2) show ?thesis by (auto simp: served_as_def)
  qed
qed simp

lemma wire_payload_rejected:
  assumes "wire_json X json" "json e = Inr payload"
  shows "\<exists>err. parse X scheme payload = Inl err"
proof -
  from assms obtain obj where obj: "json_from_str X payload = Inr (Object obj)" "''id'' \<in> fst ` set obj"
    unfolding wire_json_def by blast
  have ids: "''id'' \<notin> set HOOKS_FIELDS" "''id'' \<notin> set ENVELOPE_FIELDS"
    by (simp_all add: HOOKS_FIELDS_def ENVELOPE_FIELDS_def)
  have refused: "\<exists>err. x = Inl err" if "x \<noteq> Inr ()" for x :: "NormalizerError + unit"
    using that by (cases x) auto
  with obj(2) ids have "reject_unknown_fields obj HOOKS_FIELDS s \<noteq> Inr ()"
    "reject_unknown_fields obj ENVELOPE_FIELDS s \<noteq> Inr ()" for s
    by (auto simp: reject_unknown_fields_Inr)
  then obtain e1 e2 where "reject_unknown_fields obj HOOKS_FIELDS ''hooks-state-event'' = Inl e1"
    "reject_unknown_fields obj ENVELOPE_FIELDS ''audit-envelope'' = Inl e2"
    using refused by blast
  with obj(1) show ?thesis
    by (cases scheme) (simp_all add: parse_hooks_state_def parse_envelope_def as_object_def parse_json_def)
qed

lemma wire_item_rejected:
  assumes "wire_json X json" "json e = Inr (it_payload i)"
  shows "isl (normalizing X config i)"
proof (cases "Scheme_from_str (it_scheme i)")
  case (Some scheme)
  with wire_payload_rejected [OF assms, of scheme] show ?thesis by (auto simp: normalizing_def normalize_def)
qed (simp add: normalizing_def normalize_def)

text \<open>A page of malformed items, when they are skipped: each is quarantined, and nothing else happens.\<close>

lemma ingest_items_malformed:
  assumes "\<forall>i \<in> set items. isl (ix_normalize ix i)" "ix_malformed_policy ix = SkipAndReport"
  shows "ingest_items X ix items st = Inr (st\<lparr>is_report := (is_report st)
    \<lparr>ir_quarantined := ir_quarantined (is_report st) @ map it_position items\<rparr>\<rparr>)"
  using assms(1)
proof (induction items arbitrary: st)
  case (Cons i items)
  then obtain e where "ix_normalize ix i = Inl e" by (auto simp: isl_def)
  with Cons assms(2) show ?case by (simp add: ingest_item_def)
qed simp

lemma ingest_page_malformed:
  assumes "\<forall>i \<in> set (sp_items page). isl (ix_normalize ix i)"
  shows "ingest_page X ix memcp mem_insert_batch name page cps s =
    (if ix_malformed_policy ix = AbortOnMalformed \<and> sp_items page \<noteq> []
     then (Inl (Normalize (projl (ix_normalize ix (hd (sp_items page))))), cps, s)
     else case checkpoint_page memcp name (sp_items page) cps of
            (Inl e, cps') \<Rightarrow> (Inl e, cps', s)
          | (Inr _, cps') \<Rightarrow> (Inr ((initial_report page)\<lparr>ir_quarantined := map it_position (sp_items page)\<rparr>), cps', s))"
proof (cases "sp_items page")
  case Nil
  then show ?thesis by (simp add: ingest_page_def append_page_def checkpoint_page_def initial_report_def)
next
  case (Cons i rest)
  show ?thesis
  proof (cases "ix_malformed_policy ix")
    case AbortOnMalformed
    from Cons assms obtain e where "ix_normalize ix i = Inl e" by (auto simp: isl_def)
    with Cons AbortOnMalformed show ?thesis by (simp add: ingest_page_def ingest_item_def)
  next
    case SkipAndReport
    let ?st = "\<lparr>is_report = initial_report page, is_guard = DedupGuard_new, is_records = [], is_placements = []\<rparr>"
    have "ingest_items X ix (sp_items page) ?st
        = Inr (?st\<lparr>is_report := (initial_report page)\<lparr>ir_quarantined := map it_position (sp_items page)\<rparr>\<rparr>)"
      unfolding ingest_items_malformed [OF assms SkipAndReport] by (simp add: initial_report_def)
    with SkipAndReport show ?thesis
      by (simp add: ingest_page_def append_page_def del: ingest_items.simps split: prod.split sum.split)
  qed
qed

lemma checkpoint_page_moves:
  assumes "\<forall>i \<in> set items. label_ok 512 (it_position i)" "label_ok 64 name"
  shows "checkpoint_page memcp name items cps = (Inr (), if items = [] then cps else cps(name \<mapsto> it_position (last items)))"
  using assms by (simp add: checkpoint_page_def SourceCursor_new_def Checkpoint_at_def validate_source_name_def
      memcp_def memcp_save_def)

text \<open>
  C34: the shipped normalizer admits no Soroban event.  When \<open>serde_json\<close> writes events as objects with their \<open>id\<close>
  field, a cycle of an indexer over the Soroban source and the normalizer of this repository, whatever the labels in the registry, never writes to the store.  If the
  fetch fails, so does the cycle.  If malformed items abort the cycle and the page has an item, the cycle fails
  with the normalizer's error and the checkpoint stays where it was, so the next cycle is served the
  same page.  If they are skipped and the source's name is valid, the cycle succeeds with every item of the
  page quarantined, and the checkpoint moves past the page all the same.
\<close>

theorem soroban_events_never_normalized:
  fixes json and fetch_page :: "'f SorobanEventFeed"
  defines "S \<equiv> soroban_source json fetch_page"
  assumes "wire_json X json" "ix_normalize ix = normalizing X config"
    and "run_once X ix S memcp mem_insert_batch src cps s = (res, src', cps', s')"
  shows "s' = s \<and>
    (case fst (fetch_after S src (cps (source_name S src)) (ix_page_limit ix)) of
       Inl e \<Rightarrow> res = Inl (Source e) \<and> cps' = cps
     | Inr page \<Rightarrow>
         if ix_malformed_policy ix = AbortOnMalformed \<and> sp_items page \<noteq> []
         then (\<exists>e. res = Inl (Normalize e)) \<and> cps' = cps
         else label_ok 64 (source_name S src') \<longrightarrow>
           (\<exists>rep. res = Inr rep \<and> ir_fetched rep = length (sp_items page) \<and> ir_inserted rep = 0
              \<and> ir_quarantined rep = map it_position (sp_items page)
              \<and> cps' = (if sp_items page = [] then cps
                         else cps(source_name S src' \<mapsto> it_position (last (sp_items page))))))"
proof -
  obtain r src1 where f: "fetch_after S src (cps (source_name S src)) (ix_page_limit ix) = (r, src1)" by fastforce
  show ?thesis
  proof (cases r)
    case (Inl e)
    with f assms(4) show ?thesis by (auto simp: run_once_def)
  next
    case (Inr page)
    with f obtain es sk where
      "admit_events json (ss_registry src) (ss_network src) (cps (source_name S src)) es None [] 0
        = Inr (sp_items page, sk)"
      by (auto simp: S_def soroban_source_def soroban_fetch_after_def SourcePage_new_def
          split: prod.splits sum.splits if_splits)
    from admit_events_items [OF this] have all: "\<forall>i \<in> set (sp_items page). isl (ix_normalize ix i) \<and> label_ok 512 (it_position i)"
      using wire_item_rejected [OF assms(2)] assms(3) by auto
    from f Inr assms(4) have p: "ingest_page X ix memcp mem_insert_batch (source_name S src') page cps s = (res, cps', s')"
      by (auto simp: run_once_def split: prod.splits)
    note bad = ingest_page_malformed [of page ix X "source_name S src'" cps s, unfolded p]
    show ?thesis
    proof (cases "ix_malformed_policy ix = AbortOnMalformed \<and> sp_items page \<noteq> []")
      case True
      with bad all f Inr show ?thesis by simp
    next
      case False
      then have "(res, cps', s') = (case checkpoint_page memcp (source_name S src') (sp_items page) cps of
          (Inl e, cps') \<Rightarrow> (Inl e, cps', s)
        | (Inr _, cps') \<Rightarrow> (Inr ((initial_report page)\<lparr>ir_quarantined := map it_position (sp_items page)\<rparr>), cps', s))"
        using bad all by auto
      with checkpoint_page_moves [of "sp_items page" "source_name S src'" cps] all False f Inr show ?thesis
        by (auto simp: initial_report_def split: prod.splits sum.splits if_splits)
    qed
  qed
qed

text \<open>A registered event under a label that names a scheme, with the other items skipped and reported.\<close>

definition sample_wire_ext :: "int normalizer_ext" where
  "sample_wire_ext = sample_hooks_ext\<lparr>json_from_str := \<lambda>_. Inr (Object [(''id'', String ''e1'')])\<rparr>"

abbreviation sample_wire_indexer :: "MalformedItemPolicy \<Rightarrow> Indexer" where
  "sample_wire_indexer policy \<equiv> \<lparr>ix_normalize = normalizing sample_wire_ext sample_config, ix_clock = (\<lambda>_. 0),
     ix_dedup_policy = SkipDuplicates, ix_malformed_policy = policy, ix_page_limit = 10\<rparr>"

theorem soroban_events_never_normalized_witness:
  "(\<exists>rep src'. run_once sample_wire_ext (sample_wire_indexer SkipAndReport)
      (soroban_source (\<lambda>_. Inr ''{}'') sample_feed) memcp mem_insert_batch
      (SorobanEventSource_new ''soroban-testnet'' ''testnet'' sample_registry ()) Map.empty mem_new
      = (Inr rep, src', [''soroban-testnet'' \<mapsto> ''0000000000000000007-0000000001''], mem_new)
    \<and> ir_fetched rep = 1 \<and> ir_inserted rep = 0 \<and> ir_quarantined rep = [''0000000000000000007-0000000001''])
   \<and> (\<exists>e src'. run_once sample_wire_ext (sample_wire_indexer AbortOnMalformed)
      (soroban_source (\<lambda>_. Inr ''{}'') sample_feed) memcp mem_insert_batch
      (SorobanEventSource_new ''soroban-testnet'' ''testnet'' sample_registry ()) Map.empty mem_new
      = (Inl (Normalize e), src', Map.empty, mem_new))"
proof -
  let ?S = "soroban_source (\<lambda>_. Inr ''{}'') sample_feed"
  let ?src = "SorobanEventSource_new ''soroban-testnet'' ''testnet'' sample_registry ()"
  have w: "wire_json sample_wire_ext (\<lambda>_. Inr ''{}'')" by (simp add: wire_json_def sample_wire_ext_def)
  have "\<exists>page src'. fetch_after ?S ?src None 10 = (Inr page, src') \<and> sp_items page = [sample_wire_item]
      \<and> source_name ?S src' = ''soroban-testnet''"
    using sample_soroban_valid [of "Some ''CDUMMY''"]
    by (simp add: soroban_source_def soroban_fetch_after_def sample_feed_def SorobanEventSource_new_def MAX_PAGE_LIMIT_def
        sample_registry_def registry_label_def sample_soroban_event_def RawEventItem_new_def validate_label_def
        label_ok_def ascii_defs byte_def SourcePage_new_def sample_wire_item_def)
  then obtain page src' where f: "fetch_after ?S ?src None 10 = (Inr page, src')" "sp_items page = [sample_wire_item]"
    "source_name ?S src' = ''soroban-testnet''" by blast
  have run: "\<exists>res cps' s'. run_once sample_wire_ext (sample_wire_indexer policy) ?S memcp mem_insert_batch ?src Map.empty mem_new
      = (res, src', cps', s')" for policy
    using f(1) by (simp add: run_once_def memcp_def memcp_load_def split: prod.split)
  obtain res cps' s' where r: "run_once sample_wire_ext (sample_wire_indexer SkipAndReport) ?S memcp mem_insert_batch ?src Map.empty mem_new
      = (res, src', cps', s')" using run by blast
  obtain res2 cps2 s2 where r2: "run_once sample_wire_ext (sample_wire_indexer AbortOnMalformed) ?S memcp mem_insert_batch ?src Map.empty mem_new
      = (res2, src', cps2, s2)" using run by blast
  have pos: "it_position sample_wire_item = ''0000000000000000007-0000000001''" by (simp add: sample_wire_item_def)
  have name: "label_ok 64 ''soroban-testnet''" by (simp add: label_ok_def ascii_defs byte_def)
  from soroban_events_never_normalized [OF w _ r, of sample_config] f name pos obtain rep where
    "res = Inr rep" "ir_fetched rep = 1" "ir_inserted rep = 0" "ir_quarantined rep = [''0000000000000000007-0000000001'']"
    "cps' = [''soroban-testnet'' \<mapsto> ''0000000000000000007-0000000001'']" "s' = mem_new" by auto
  moreover from soroban_events_never_normalized [OF w _ r2, of sample_config] f obtain e where
    "res2 = Inl (Normalize e)" "cps2 = Map.empty" "s2 = mem_new" by auto
  ultimately show ?thesis using r r2 by blast
qed

end
