(* ===== verification/Audit_Recovery.thy ===== *)
theory Audit_Recovery
  imports Audit_Pipeline
begin

text \<open>
  Ingestion with crashes.  An indexer over a recorded source runs cycle after cycle; a cycle may fail, the
  process may die between the append and the checkpoint of a cycle (\<open>event-indexer/src/indexer.rs\<close> orders
  them for this case), and a restart loses the in-memory checkpoints.  Shown for every paged source: the
  checkpoint is never ahead of the store, and from whatever state the crashes left, enough
  undisturbed cycles complete the store.
\<close>

section \<open>Runs with crashes\<close>

record 's Ingestion =
  ig_source :: 's
  ig_checkpoints :: InMemoryCheckpointStore
  ig_store :: MemoryEventStore

inductive ingest_step ::
  "('z) event_ext_scheme \<Rightarrow> (RawEventItem \<Rightarrow> NormalizerError + AuditEvent) \<Rightarrow> 's EventSource \<Rightarrow> nat
     \<Rightarrow> 's Ingestion \<Rightarrow> 's Ingestion \<Rightarrow> bool"
  for X normalizer S max_limit where
  cycle: "ix_normalize ix = normalizer \<Longrightarrow> 1 \<le> ix_page_limit ix \<Longrightarrow> ix_page_limit ix \<le> max_limit \<Longrightarrow>
     run_once X ix S memcp mem_insert_batch (ig_source st) (ig_checkpoints st) (ig_store st) = (res, src', cps', s') \<Longrightarrow>
     ingest_step X normalizer S max_limit st \<lparr>ig_source = src', ig_checkpoints = cps', ig_store = s'\<rparr>"
| crash: "ix_normalize ix = normalizer \<Longrightarrow> 1 \<le> ix_page_limit ix \<Longrightarrow> ix_page_limit ix \<le> max_limit \<Longrightarrow>
     run_once X ix S memcp mem_insert_batch (ig_source st) (ig_checkpoints st) (ig_store st) = (res, src', cps', s') \<Longrightarrow>
     ingest_step X normalizer S max_limit st \<lparr>ig_source = src', ig_checkpoints = ig_checkpoints st, ig_store = s'\<rparr>"
| restart: "ingest_step X normalizer S max_limit st (st\<lparr>ig_checkpoints := InMemoryCheckpointStore_new\<rparr>)"

inductive ingest_run ::
  "('z) event_ext_scheme \<Rightarrow> (RawEventItem \<Rightarrow> NormalizerError + AuditEvent) \<Rightarrow> 's EventSource \<Rightarrow> nat
     \<Rightarrow> 's Ingestion \<Rightarrow> 's Ingestion \<Rightarrow> bool"
  for X normalizer S max_limit where
  begins: "ingest_run X normalizer S max_limit st st"
| step: "ingest_run X normalizer S max_limit st st' \<Longrightarrow> ingest_step X normalizer S max_limit st' st'' \<Longrightarrow>
     ingest_run X normalizer S max_limit st st''"

text \<open>A number of undisturbed cycles with one indexer; \<open>None\<close> when one of them fails.\<close>

fun cycles ::
  "nat \<Rightarrow> ('z) event_ext_scheme \<Rightarrow> Indexer \<Rightarrow> 's EventSource \<Rightarrow> 's Ingestion \<Rightarrow> 's Ingestion option" where
  "cycles 0 X ix S st = Some st"
| "cycles (Suc n) X ix S st =
     (case run_once X ix S memcp mem_insert_batch (ig_source st) (ig_checkpoints st) (ig_store st) of
        (Inr _, src', cps', s') \<Rightarrow>
          cycles n X ix S \<lparr>ig_source = src', ig_checkpoints = cps', ig_store = s'\<rparr>
      | (Inl _, _) \<Rightarrow> None)"

section \<open>What the store owes to the recording\<close>

definition events_of :: "(RawEventItem \<Rightarrow> NormalizerError + AuditEvent) \<Rightarrow> RawEventItem list \<Rightarrow> EventId set" where
  "events_of normalizer items = ev_event_id ` {ev. \<exists>i \<in> set items. normalizer i = Inr ev}"

lemma events_of_simps [simp]:
  "events_of normalizer [] = {}" "events_of normalizer (xs @ ys) = events_of normalizer xs \<union> events_of normalizer ys"
  by (simp_all add: events_of_def bex_Un Collect_disj_eq image_Un)

lemma page_events_set: "set (page_events ix items) = {ev. \<exists>i \<in> set items. ix_normalize ix i = Inr ev}"
proof (induction items)
  case (Cons i items)
  then show ?case by (intro set_eqI) (cases "ix_normalize ix i", simp_all, blast)
qed simp

lemma events_of_page: "ev_event_id ` set (page_events ix items) = events_of (ix_normalize ix) items"
  by (simp add: events_of_def page_events_set)

abbreviation held :: "MemoryEventStore \<Rightarrow> EventId set" where
  "held s \<equiv> {e. mem_contains_event s e}"

definition up_to_date ::
  "(RawEventItem \<Rightarrow> NormalizerError + AuditEvent) \<Rightarrow> RawEventItem option list \<Rightarrow> string option
     \<Rightarrow> MemoryEventStore \<Rightarrow> MemoryEventStore \<Rightarrow> bool" where
  "up_to_date normalizer es after s0 s \<longleftrightarrow>
     mem_inv s
     \<and> (\<exists>start. resumes_at es after start \<and> events_of normalizer (somes (take start es)) \<subseteq> held s)
     \<and> held s0 \<subseteq> held s \<and> held s \<subseteq> held s0 \<union> events_of normalizer (somes es)"

lemma up_to_dateI:
  "mem_inv s \<Longrightarrow> resumes_at es after start \<Longrightarrow> events_of normalizer (somes (take start es)) \<subseteq> held s \<Longrightarrow>
     held s0 \<subseteq> held s \<Longrightarrow> held s \<subseteq> held s0 \<union> events_of normalizer (somes es) \<Longrightarrow> up_to_date normalizer es after s0 s"
  unfolding up_to_date_def by blast

lemma up_to_date_start:
  "mem_inv s \<Longrightarrow> up_to_date normalizer es None s s"
  by (auto simp: up_to_date_def resumes_at_def)

lemma up_to_date_restart:
  "up_to_date normalizer es after s0 s \<Longrightarrow> up_to_date normalizer es None s0 s"
  by (auto simp: up_to_date_def resumes_at_def)

context paged_source
begin

text \<open>One cycle, whatever its result, from a state that is up to date.\<close>

lemma run_once_up_to_date:
  assumes "ready src" "up_to_date (ix_normalize ix) (recorded src) (cps (source_name S src)) s0 s"
    and "1 \<le> ix_page_limit ix" "ix_page_limit ix \<le> max_limit"
    and "run_once X ix S memcp mem_insert_batch src cps s = (res, src', cps', s')"
  shows "ready src' \<and> recorded src' = recorded src \<and> source_name S src' = source_name S src
    \<and> up_to_date (ix_normalize ix) (recorded src) (cps' (source_name S src)) s0 s'
    \<and> up_to_date (ix_normalize ix) (recorded src) (cps (source_name S src)) s0 s'"
proof -
  let ?es = "recorded src" and ?name = "source_name S src" and ?ids = "events_of (ix_normalize ix)"
  from assms(2) obtain start where st: "mem_inv s" "resumes_at ?es (cps ?name) start"
    "?ids (somes (take start ?es)) \<subseteq> held s" "held s0 \<subseteq> held s" "held s \<subseteq> held s0 \<union> ?ids (somes ?es)"
    by (auto simp: up_to_date_def)
  from serve [OF assms(1,3,4) st(2)] obtain page src1 where
    f: "fetch_after S src (cps ?name) (ix_page_limit ix) = (Inr page, src1)"
    and src: "ready src1" "recorded src1 = ?es" "source_name S src1 = ?name"
    and items: "sp_items page = somes (take (ix_page_limit ix) (drop start ?es))" by blast
  from f assms(5) have src': "src' = src1"
    and p: "ingest_page X ix memcp mem_insert_batch ?name page cps s = (res, cps', s')"
    by (auto simp: run_once_def src(3) split: prod.splits)
  note b = mem_ingest.ingest_page_bounds [OF st(1) p, unfolded events_of_page]
  have "somes ?es = somes (take start ?es) @ somes (drop start ?es)"
    by (metis append_take_drop_id somes_append)
  moreover from page_advances [OF st(2) items] obtain start' where
    adv: "resumes_at ?es (if sp_items page = [] then cps ?name else Some (it_position (last (sp_items page)))) start'"
      "somes (take start' ?es) = somes (take start ?es) @ sp_items page"
      "somes (drop start ?es) = sp_items page @ somes (drop start' ?es)" by metis
  ultimately have upper: "held s' \<subseteq> held s0 \<union> ?ids (somes ?es)" and lower: "held s \<subseteq> held s'"
    using b(2,3) st(5) by auto
  have stay: "up_to_date (ix_normalize ix) ?es (cps ?name) s0 s'"
    by (rule up_to_dateI [OF b(1) st(2) order_trans [OF st(3) lower] order_trans [OF st(4) lower] upper])
  have "up_to_date (ix_normalize ix) ?es (cps' ?name) s0 s'"
  proof (cases res)
    case (Inl e)
    with p have "cps' = cps" using mem_ingest.ingest_page_error(1) by blast
    with stay show ?thesis by simp
  next
    case (Inr rep)
    note n = mem_ingest.ingest_page_no_loss [OF st(1) p [unfolded Inr], unfolded events_of_page]
    have "cps' ?name = (if sp_items page = [] then cps ?name else Some (it_position (last (sp_items page))))"
      using n(6) [of ?name] by (simp split: if_splits)
    moreover have "?ids (somes (take start' ?es)) \<subseteq> held s'" using adv(2) n(2) st(3) by auto
    ultimately show ?thesis using up_to_dateI [OF b(1) adv(1)] upper order_trans [OF st(4) lower] by simp
  qed
  with stay src src' show ?thesis by simp
qed

lemma ingest_run_up_to_date:
  assumes "ingest_run X normalizer S max_limit st st'" "ready (ig_source st)"
    and "up_to_date normalizer (recorded (ig_source st)) (ig_checkpoints st (source_name S (ig_source st))) s0 (ig_store st)"
  shows "ready (ig_source st') \<and> recorded (ig_source st') = recorded (ig_source st)
    \<and> source_name S (ig_source st') = source_name S (ig_source st)
    \<and> up_to_date normalizer (recorded (ig_source st)) (ig_checkpoints st' (source_name S (ig_source st))) s0 (ig_store st')"
  using assms
proof (induction rule: ingest_run.induct)
  case (step st st' st'')
  then have ih: "ready (ig_source st')" "recorded (ig_source st') = recorded (ig_source st)"
    "source_name S (ig_source st') = source_name S (ig_source st)"
    "up_to_date normalizer (recorded (ig_source st')) (ig_checkpoints st' (source_name S (ig_source st'))) s0 (ig_store st')"
    by auto
  from step.hyps(2) show ?case
  proof (cases rule: ingest_step.cases)
    case (cycle ix res src' cps' s')
    with run_once_up_to_date [OF ih(1) ih(4) [folded cycle(2)] cycle(3-5)] ih show ?thesis by simp
  next
    case (crash ix res src' cps' s')
    with run_once_up_to_date [OF ih(1) ih(4) [folded crash(2)] crash(3-5)] ih show ?thesis by simp
  next
    case restart
    with ih up_to_date_restart [OF ih(4)] show ?thesis by (simp add: InMemoryCheckpointStore_new_def)
  qed
qed simp

text \<open>Undisturbed cycles over an accepted, dense recording, from any state that is up to date.\<close>

lemma cycles_complete:
  assumes "ready (ig_source st)" "mem_inv (ig_store st)"
    and "resumes_at (recorded (ig_source st)) (ig_checkpoints st (source_name S (ig_source st))) start"
    and "1 \<le> ix_page_limit ix" "ix_page_limit ix \<le> max_limit" "ix_dedup_policy ix = SkipDuplicates"
    and "ingestible X (ix_normalize ix) (somes (recorded (ig_source st)))" "label_ok 64 (source_name S (ig_source st))"
    and "dense (ix_page_limit ix) (recorded (ig_source st))" 
    and "somes (drop start (recorded (ig_source st))) = [] \<or> length (recorded (ig_source st)) < start + n"
  shows "\<exists>st'. cycles n X ix S st = Some st'
    \<and> held (ig_store st') = held (ig_store st) \<union> events_of (ix_normalize ix) (somes (drop start (recorded (ig_source st))))"
  using assms
proof (induction n arbitrary: st start)
  case 0
  then show ?case by auto
next
  case (Suc n)
  let ?es = "recorded (ig_source st)" and ?name = "source_name S (ig_source st)" and ?l = "ix_page_limit ix"
  let ?items = "somes (take ?l (drop start ?es))" and ?ids = "events_of (ix_normalize ix)"
  from run_once_serves [where cps = "ig_checkpoints st" and start = start and src = "ig_source st" and X = X
      and ix = ix and s = "ig_store st", OF Suc.prems(1,3-8,2) refl] obtain rep src' cps' s' where
    r: "run_once X ix S memcp mem_insert_batch (ig_source st) (ig_checkpoints st) (ig_store st) = (Inr rep, src', cps', s')"
    and src': "ready src'" "recorded src' = ?es" "source_name S src' = ?name" and inv: "mem_inv s'"
    and cps': "cps' ?name = (if ?items = [] then ig_checkpoints st ?name else Some (it_position (last ?items)))"
    and cont: "\<And>ev. mem_contains_event s' ev \<longleftrightarrow> mem_contains_event (ig_store st) ev
        \<or> ev \<in> (ev_event_id \<circ> event_of (ix_normalize ix)) ` set ?items"
    by blast
  from page_advances [OF Suc.prems(3) refl, of ?l] obtain start' where
    adv: "resumes_at ?es (if ?items = [] then ig_checkpoints st ?name else Some (it_position (last ?items))) start'"
      "start \<le> start'" "?items \<noteq> [] \<Longrightarrow> start < start'" "somes (drop start ?es) = ?items @ somes (drop start' ?es)"
    by metis
  let ?st = "\<lparr>ig_source = src', ig_checkpoints = cps', ig_store = s'\<rparr>"
  have acc: "list_all (accepted X (ix_normalize ix)) ?items"
    using Suc.prems(7) adv(4) append_take_drop_id [of start ?es]
    by (metis ingestible_def list_all_append somes_append)
  have "?ids ?items = (ev_event_id \<circ> event_of (ix_normalize ix)) ` set ?items"
    using page_events_accepted [OF acc] events_of_page [of ix ?items] by (simp add: image_comp)
  with cont have ids: "held s' = held (ig_store st) \<union> ?ids ?items" by (simp add: Collect_disj_eq)
  have unfold: "cycles (Suc n) X ix S st = cycles n X ix S ?st" using r by simp
  have left: "somes (drop start' ?es) = [] \<or> length ?es < start' + n"
  proof (cases "?items = []")
    case True
    with Suc.prems(9) have "\<not> start + ?l < length ?es" by (auto simp: dense_def)
    then have "take ?l (drop start ?es) = drop start ?es" by simp
    with True adv(4) show ?thesis by (metis append_is_Nil_conv)
  next
    case False
    with adv(3) Suc.prems(10) adv(4) show ?thesis by auto
  qed
  have "\<exists>st'. cycles n X ix S ?st = Some st'
    \<and> held (ig_store st') = held (ig_store ?st) \<union> ?ids (somes (drop start' (recorded (ig_source ?st))))"
    by (rule Suc.IH) (use src' inv cps' adv(1) left Suc.prems(4-9) in simp_all)
  then show ?case unfolding unfold adv(4) using ids src'(2) by auto
qed

end

section \<open>The Soroban pipeline under crashes\<close>

abbreviation recorded_source ::
  "string \<Rightarrow> NetworkId \<Rightarrow> ContractRegistry \<Rightarrow> SorobanEvent list \<Rightarrow> nat
     \<Rightarrow> MockEventsClient EventsRpcFeed SorobanEventSource" where
  "recorded_source name network registry events ledger \<equiv>
     SorobanEventSource_new name network registry
       (EventsRpcFeed_new (MockEventsClient_new events) (Some ledger))"

lemma recorded_source_wire:
  assumes "list_all (wire_ok json registry network) events" "sorted_wrt (<) (map se_id events)"
  shows "wire_ready mc_events mock_ready json (recorded_source name network registry events ledger)"
    and "wire_recorded mc_events json (recorded_source name network registry events ledger)
      = map (wire_item json registry network) events"
    and "source_name (soroban_source json f) (recorded_source name network registry events ledger) = name"
  using assms strict_sorted_iff [of "map se_id events"]
  by (simp_all add: wire_ready_def wire_recorded_def mock_ready_def SorobanEventSource_new_def
      MockEventsClient_new_def soroban_source_def)

lemma recorded_run_up_to_date:
  assumes "list_all (wire_ok json registry network) events" "sorted_wrt (<) (map se_id events)"
    and "items = map (wire_item json registry network) events" "mem_inv s0"
    and "ingest_run X normalizer (soroban_source json (rpc_fetch_page mock_get_events)) MAX_LIMIT
      \<lparr>ig_source = recorded_source name network registry events ledger,
       ig_checkpoints = InMemoryCheckpointStore_new, ig_store = s0\<rparr> st"
  shows "wire_ready mc_events mock_ready json (ig_source st)"
    and "wire_recorded mc_events json (ig_source st) = items"
    and "source_name (soroban_source json (rpc_fetch_page mock_get_events)) (ig_source st) = name"
    and "up_to_date normalizer items (ig_checkpoints st name) s0 (ig_store st)"
  using mock.wire.ingest_run_up_to_date [OF assms(5), of s0] up_to_date_start [OF assms(4)]
    recorded_source_wire [OF assms(1,2)] assms(3)
  by (simp_all add: InMemoryCheckpointStore_new_def)

text \<open>
  C9: the checkpoint is never ahead of the store.  Over a recorded feed of valid events in the order of their
  ids, whatever cycles run (with any policies, page limits and clocks, completed or failed), however
  often the process dies between the append and the checkpoint of a cycle or restarts without
  its checkpoints: the events of all items up to the checkpoint that normalize are in the store, so
  nothing before it is ever lost; and the store holds what it held at first and events of the
  recording, nothing else.
\<close>

theorem checkpoint_never_ahead:
  assumes "list_all (wire_ok json registry network) events" "sorted_wrt (<) (map se_id events)"
    and "items = map (wire_item json registry network) events" "mem_inv s0"
    and "ingest_run X normalizer (soroban_source json (rpc_fetch_page mock_get_events)) MAX_LIMIT
      \<lparr>ig_source = recorded_source name network registry events ledger,
       ig_checkpoints = InMemoryCheckpointStore_new, ig_store = s0\<rparr> st"
  shows "(\<forall>c. ig_checkpoints st name = Some c \<longrightarrow>
        (\<exists>k i. k < length items \<and> items ! k = Some i \<and> it_position i = c
           \<and> events_of normalizer (somes (take (Suc k) items)) \<subseteq> held (ig_store st)))
    \<and> held s0 \<subseteq> held (ig_store st) \<and> held (ig_store st) \<subseteq> held s0 \<union> events_of normalizer (somes items)"
proof (intro conjI allI impI)
  note u = recorded_run_up_to_date(4) [OF assms]
  then show "held s0 \<subseteq> held (ig_store st)" "held (ig_store st) \<subseteq> held s0 \<union> events_of normalizer (somes items)"
    by (simp_all add: up_to_date_def)
  fix c assume "ig_checkpoints st name = Some c"
  with u obtain start i where "0 < start" "start \<le> length items" "items ! (start - 1) = Some i" "it_position i = c"
    "events_of normalizer (somes (take start items)) \<subseteq> held (ig_store st)"
    by (auto simp: up_to_date_def resumes_at_def)
  then show "\<exists>k i. k < length items \<and> items ! k = Some i \<and> it_position i = c
      \<and> events_of normalizer (somes (take (Suc k) items)) \<subseteq> held (ig_store st)"
    by (intro exI [of _ "start - 1"] exI [of _ i]) simp
qed

text \<open>
  C10: ingestion recovers from crashes.  Take a recording of valid events that serialize, in the order of
  their ids, behind the mock RPC endpoint, a source with a valid name, a store that starts consistent, an indexer that skips duplicates and whose normalizer accepts every admitted item of the
  recording (each becomes an event of which a record can be made, the known placements strictly increase,
  and different events get different record ids), and a page limit in its range at which no page in the middle of the recording is without an admitted
  event.  From whatever state a run with failed cycles, crashes and restarts left behind, undisturbed cycles
  of this indexer never fail, and as soon as there are more of them than recorded events the store holds
  exactly what it held at first and the events of the recording.  The conditions are needed: without an admitted
  event on a page the checkpoint does not move past it, and the normalizer of this repository accepts no
  event of the Soroban source.
\<close>

theorem ingestion_recovers:
  assumes "list_all (wire_ok json registry network) events" "sorted_wrt (<) (map se_id events)"
    and "items = map (wire_item json registry network) events" "mem_inv s0"
    and "ingest_run X (ix_normalize ix) (soroban_source json (rpc_fetch_page mock_get_events)) MAX_LIMIT
      \<lparr>ig_source = recorded_source name network registry events ledger,
       ig_checkpoints = InMemoryCheckpointStore_new, ig_store = s0\<rparr> st"
    and "1 \<le> ix_page_limit ix" "ix_page_limit ix \<le> MAX_LIMIT" "ix_dedup_policy ix = SkipDuplicates"
    and "ingestible X (ix_normalize ix) (somes items)" "dense (ix_page_limit ix) items"
    and "label_ok 64 name" "length items < n"
  shows "\<exists>st'. cycles n X ix (soroban_source json (rpc_fetch_page mock_get_events)) st = Some st'
    \<and> held (ig_store st') = held s0 \<union> events_of (ix_normalize ix) (somes items)"
proof -
  note u = recorded_run_up_to_date [OF assms(1-5)]
  from u(4) obtain start where start: "mem_inv (ig_store st)" "resumes_at items (ig_checkpoints st name) start"
    "events_of (ix_normalize ix) (somes (take start items)) \<subseteq> held (ig_store st)" "held s0 \<subseteq> held (ig_store st)"
    "held (ig_store st) \<subseteq> held s0 \<union> events_of (ix_normalize ix) (somes items)"
    by (auto simp: up_to_date_def)
  from mock.wire.cycles_complete [OF u(1) start(1), of start ix X n] u(2,3) start(2) assms(6-12) obtain st' where
    "cycles n X ix (soroban_source json (rpc_fetch_page mock_get_events)) st = Some st'"
    "held (ig_store st') = held (ig_store st) \<union> events_of (ix_normalize ix) (somes (drop start items))" by auto
  moreover have "somes items = somes (take start items) @ somes (drop start items)"
    by (metis append_take_drop_id somes_append)
  ultimately show ?thesis using start(3-5) by auto
qed

text \<open>A cycle that dies before its checkpoint, a restart, and the cycle again.\<close>

definition recovery_indexer :: Indexer where
  "recovery_indexer = \<lparr>ix_normalize = (\<lambda>i. Inr (sample_event ''evt_a1'' (Some 7))), ix_clock = (\<lambda>_. 0),
     ix_dedup_policy = SkipDuplicates, ix_malformed_policy = AbortOnMalformed, ix_page_limit = 1\<rparr>"

lemma recovery_cycle:
  fixes src s
  defines "S \<equiv> soroban_source (\<lambda>_. Inr ''{}'') (rpc_fetch_page mock_get_events)"
  assumes "wire_ready mc_events mock_ready (\<lambda>_. Inr ''{}'') src" "mem_inv s"
    and "wire_recorded mc_events (\<lambda>_. Inr ''{}'') src = [Some sample_wire_item, None]"
    and "source_name S src = ''soroban-testnet''"
  shows "\<exists>rep src' cps' s'. run_once sample_json recovery_indexer S memcp mem_insert_batch src
        InMemoryCheckpointStore_new s = (Inr rep, src', cps', s')
    \<and> wire_ready mc_events mock_ready (\<lambda>_. Inr ''{}'') src' \<and> mem_inv s'
    \<and> wire_recorded mc_events (\<lambda>_. Inr ''{}'') src' = [Some sample_wire_item, None]
    \<and> source_name S src' = ''soroban-testnet''
    \<and> cps' ''soroban-testnet'' = Some ''0000000000000000007-0000000001''"
  using mock.wire.run_once_serves [OF assms(2), of InMemoryCheckpointStore_new 0 recovery_indexer sample_json s
      "[sample_wire_item]"] assms sample_recording_ingestible sample_name_ok
  by (auto simp: recovery_indexer_def MAX_LIMIT_def resumes_at_def InMemoryCheckpointStore_new_def sample_wire_item_def)

lemma sample_crash_run:
  "\<exists>st. ingest_run sample_json (\<lambda>i. Inr (sample_event ''evt_a1'' (Some 7)))
      (soroban_source (\<lambda>_. Inr ''{}'') (rpc_fetch_page mock_get_events)) MAX_LIMIT
      \<lparr>ig_source = recorded_source ''soroban-testnet'' ''testnet'' sample_registry sample_recording 7,
       ig_checkpoints = InMemoryCheckpointStore_new, ig_store = mem_new\<rparr> st
    \<and> ig_checkpoints st ''soroban-testnet'' = Some ''0000000000000000007-0000000001''"
proof -
  let ?S = "soroban_source (\<lambda>_. Inr ''{}'') (rpc_fetch_page mock_get_events)"
  let ?src = "recorded_source ''soroban-testnet'' ''testnet'' sample_registry sample_recording 7"
  note w = recorded_source_wire [OF sample_recording_ok sample_recording_sorted, unfolded sample_recording_items]
  obtain rep src1 cps1 s1 where r1: "run_once sample_json recovery_indexer ?S memcp mem_insert_batch ?src
      InMemoryCheckpointStore_new mem_new = (Inr rep, src1, cps1, s1)"
    and st1: "wire_ready mc_events mock_ready (\<lambda>_. Inr ''{}'') src1" "mem_inv s1"
      "wire_recorded mc_events (\<lambda>_. Inr ''{}'') src1 = [Some sample_wire_item, None]"
      "source_name ?S src1 = ''soroban-testnet''"
    using recovery_cycle [OF w(1) mem_inv_new w(2,3)] by blast
  obtain rep2 src2 cps2 s2 where r2: "run_once sample_json recovery_indexer ?S memcp mem_insert_batch src1
      InMemoryCheckpointStore_new s1 = (Inr rep2, src2, cps2, s2)"
    and cps2: "cps2 ''soroban-testnet'' = Some ''0000000000000000007-0000000001''"
    using recovery_cycle [OF st1] by blast
  have ix: "ix_normalize recovery_indexer = (\<lambda>i. Inr (sample_event ''evt_a1'' (Some 7)))"
    "1 \<le> ix_page_limit recovery_indexer" "ix_page_limit recovery_indexer \<le> MAX_LIMIT"
    by (simp_all add: recovery_indexer_def MAX_LIMIT_def)
  let ?st0 = "\<lparr>ig_source = ?src, ig_checkpoints = InMemoryCheckpointStore_new, ig_store = mem_new\<rparr>"
  let ?st1 = "\<lparr>ig_source = src1, ig_checkpoints = InMemoryCheckpointStore_new, ig_store = s1\<rparr>"
  let ?st2 = "\<lparr>ig_source = src2, ig_checkpoints = cps2, ig_store = s2\<rparr>"
  have "ingest_step sample_json (ix_normalize recovery_indexer) ?S MAX_LIMIT ?st0 ?st1"
    using ingest_step.crash [OF refl ix(2,3), of sample_json ?S ?st0] r1 by simp
  moreover have "ingest_step sample_json (ix_normalize recovery_indexer) ?S MAX_LIMIT ?st1 ?st1"
    using ingest_step.restart [of sample_json _ ?S MAX_LIMIT ?st1] by simp
  moreover have "ingest_step sample_json (ix_normalize recovery_indexer) ?S MAX_LIMIT ?st1 ?st2"
    using ingest_step.cycle [OF refl ix(2,3), of sample_json ?S ?st1] r2 by simp
  ultimately have "ingest_run sample_json (ix_normalize recovery_indexer) ?S MAX_LIMIT ?st0 ?st2"
    by (blast intro: ingest_run.intros)
  with cps2 ix(1) show ?thesis by (intro exI [of _ ?st2]) simp
qed

theorem checkpoint_never_ahead_witness:
  "\<exists>st. ingest_run sample_json (\<lambda>i. Inr (sample_event ''evt_a1'' (Some 7)))
      (soroban_source (\<lambda>_. Inr ''{}'') (rpc_fetch_page mock_get_events)) MAX_LIMIT
      \<lparr>ig_source = recorded_source ''soroban-testnet'' ''testnet'' sample_registry sample_recording 7,
       ig_checkpoints = InMemoryCheckpointStore_new, ig_store = mem_new\<rparr> st
    \<and> ig_checkpoints st ''soroban-testnet'' = Some ''0000000000000000007-0000000001''
    \<and> held (ig_store st) = {''evt_a1''}"
proof -
  from sample_crash_run obtain st where
    st: "ingest_run sample_json (\<lambda>i. Inr (sample_event ''evt_a1'' (Some 7)))
      (soroban_source (\<lambda>_. Inr ''{}'') (rpc_fetch_page mock_get_events)) MAX_LIMIT
      \<lparr>ig_source = recorded_source ''soroban-testnet'' ''testnet'' sample_registry sample_recording 7,
       ig_checkpoints = InMemoryCheckpointStore_new, ig_store = mem_new\<rparr> st"
    "ig_checkpoints st ''soroban-testnet'' = Some ''0000000000000000007-0000000001''" by blast
  have ids: "events_of (\<lambda>i. Inr (sample_event ''evt_a1'' (Some 7))) [sample_wire_item] = {''evt_a1''}"
    by (simp add: events_of_def)
  from checkpoint_never_ahead [OF sample_recording_ok sample_recording_sorted sample_recording_items [symmetric]
      mem_inv_new st(1)] st(2) obtain k where k: "k < Suc (Suc 0)" "\<exists>i. [Some sample_wire_item, None] ! k = Some i"
    "events_of (\<lambda>i. Inr (sample_event ''evt_a1'' (Some 7))) (somes (take (Suc k) [Some sample_wire_item, None]))
      \<subseteq> held (ig_store st)" "held (ig_store st) \<subseteq> insert ''evt_a1'' (held mem_new)"
    by (auto simp: ids)
  then have "k = 0" by (cases k) auto
  with k(3,4) ids have "held (ig_store st) = {''evt_a1''}" by (auto simp: mem_contains_event_def mem_new_def)
  with st show ?thesis by blast
qed

theorem ingestion_recovers_witness:
  "\<exists>st st'. ingest_run sample_json (ix_normalize recovery_indexer)
      (soroban_source (\<lambda>_. Inr ''{}'') (rpc_fetch_page mock_get_events)) MAX_LIMIT
      \<lparr>ig_source = recorded_source ''soroban-testnet'' ''testnet'' sample_registry sample_recording 7,
       ig_checkpoints = InMemoryCheckpointStore_new, ig_store = mem_new\<rparr> st
    \<and> cycles 3 sample_json recovery_indexer (soroban_source (\<lambda>_. Inr ''{}'') (rpc_fetch_page mock_get_events)) st = Some st'
    \<and> held (ig_store st') = held mem_new \<union> {''evt_a1''}"
proof -
  have n: "ix_normalize recovery_indexer = (\<lambda>i. Inr (sample_event ''evt_a1'' (Some 7)))"
    by (simp add: recovery_indexer_def)
  from sample_crash_run obtain st where
    st: "ingest_run sample_json (ix_normalize recovery_indexer)
      (soroban_source (\<lambda>_. Inr ''{}'') (rpc_fetch_page mock_get_events)) MAX_LIMIT
      \<lparr>ig_source = recorded_source ''soroban-testnet'' ''testnet'' sample_registry sample_recording 7,
       ig_checkpoints = InMemoryCheckpointStore_new, ig_store = mem_new\<rparr> st" unfolding n by blast
  have "events_of (ix_normalize recovery_indexer) (somes [Some sample_wire_item, None]) = {''evt_a1''}"
    by (simp add: events_of_def n)
  with ingestion_recovers [OF sample_recording_ok sample_recording_sorted sample_recording_items [symmetric]
      mem_inv_new st, of 3] sample_recording_dense sample_name_ok sample_recording_ingestible st
  show ?thesis by (auto simp: recovery_indexer_def MAX_LIMIT_def)
qed

end
