(* ===== verification/Audit_Workflow.thy ===== *)
theory Audit_Workflow
  imports Audit_Access_Control
begin

text \<open>
  The case service of \<open>crates/investigation\<close> makes progress: over the in-memory stores and for an
  authorized actor, every operation on an open case returns, and a case can be brought to its closing,
  unless an entry of its timeline stands in the way.
\<close>

section \<open>Recording a step returns\<close>

text \<open>
  What the service needs beside the request itself: events serialize, its labels are valid, and the
  actor is known under a well-formed identifier and permitted to work on cases at the time of the check.
\<close>

definition service_ready :: "('z) event_ext_scheme \<Rightarrow> CaseService \<Rightarrow> Timestamp \<Rightarrow> AuditorId \<Rightarrow> bool" where
  "service_ready X sv now actor \<longleftrightarrow>
     (\<forall>e. \<exists>bs. json_event X e = Inr bs) \<and> (\<exists>p. EventProvenance_new Derived (sv_source sv) (sv_parser sv) = Inr p)
     \<and> from_checked AuditorIdT actor = Inr actor
     \<and> permitted (sv_registry sv) now actor CreateInvestigation (Network (sv_network sv))"

lemma service_ready_require:
  "service_ready X sv now actor \<Longrightarrow> svc_require sv now actor CreateInvestigation what = Inr ()"
  by (simp add: service_ready_def svc_require_iff)

lemma record_step_returns:
  assumes "\<forall>e. \<exists>bs. json_event X e = Inr bs" "EventProvenance_new Derived source parser = Inr p"
    and "from_checked CaseIdT (ls_case step) = Inr i" "from_checked AuditorIdT (ls_actor step) = Inr a"
  obtains r where "record_step X mem_audit step source parser now s = (Inr (), snd (mem_insert s r))" "record_wf r"
    "step_to_event X step source parser = Inr (rc_event r)"
proof -
  let ?l = "\<lparr>il_network = ls_network step, il_source = source, il_parser = parser, il_case = ls_case step,
     il_actor = ls_actor step, il_kind = ls_kind step, il_sequence = ls_sequence step, il_status = ls_status step,
     il_summary = ls_summary step\<rparr>"
  obtain e where e: "investigation_lifecycle_event X ?l EventSlot_default = Inr e"
    using assms(2) by (auto simp: investigation_lifecycle_event_def derived_audit_event_base_def DerivationInfo_new_def
        invalid_field_def ascii_defs byte_def)
  have st: "step_to_event X step source parser = Inr e"
    using e assms(3,4) from_checked_id [OF assms(3)] from_checked_id [OF assms(4)]
    by (simp add: step_to_event_def parse_case_def parse_actor_def)
  have "AuditEvent_validate e = Inr ()"
    using payload_envelope [OF payload_event.intros(10) [OF e]]
    by (simp add: envelope_def tx_on_def AuditEvent_validate_Inr)
  moreover obtain bs where "json_event X e = Inr bs" using assms(1) by blast
  ultimately obtain r where r: "from_event_classified X e Confidential now = Inr r"
    by (auto simp: from_event_classified_def from_event_def event_canonical_bytes_def)
  let ?r = "r\<lparr>rc_redactions := detail_policy (rc_event r)\<rparr>"
  have wf: "record_wf ?r" "rc_event ?r = e"
    using from_event_classified_wf [OF r conjunct1 [OF step_to_event_id [OF st]]] by (auto simp: record_wf_def)
  then obtain out s' where "mem_insert s ?r = (Inr out, s')"
    by (cases "mem_contains_event s (rc_event_id ?r)") (auto simp: mem_insert_wf)
  with st r have "record_step X mem_audit step source parser now s = (Inr (), snd (mem_insert s ?r))"
    by (simp add: record_step_def mem_audit_def)
  with wf st show ?thesis by (intro that [of ?r]) simp_all
qed

section \<open>Operations on an open case return\<close>

text \<open>
  An operation returns a case when it stores the case and logs the step: inserts a well-formed record of
  the step's event.
\<close>

definition logged :: "MemoryEventStore \<Rightarrow> EventId \<Rightarrow> MemoryEventStore \<Rightarrow> bool" where
  "logged s e s' \<longleftrightarrow> (\<exists>r. record_wf r \<and> rc_event_id r = e \<and> s' = snd (mem_insert s r))"

definition returned ::
  "('z) event_ext_scheme \<Rightarrow> CaseService \<Rightarrow> AuditorId \<Rightarrow> InvestigationCase \<Rightarrow> InMemoryCaseStore \<Rightarrow> MemoryEventStore
     \<Rightarrow> (InMemoryCaseStore, MemoryEventStore) service_result \<Rightarrow> bool" where
  "returned X sv actor c cases audit result \<longleftrightarrow>
     (\<exists>audit'. logged audit (lifecycle_id X (sv_network sv) (ic_case_id c) actor (step_sequence c)) audit'
        \<and> result = (Inr c, bt_insert (ic_case_id c) c cases, audit'))"

lemma logged_keeps:
  assumes "mem_inv s" "logged s e s'"
  shows "mem_inv s'" "mem_contains_event s' ev \<longleftrightarrow> mem_contains_event s ev \<or> ev = e" "mem_len s' \<le> Suc (mem_len s)"
    "ms_by_record s rid \<noteq> None \<Longrightarrow> ms_by_record s' rid \<noteq> None"
proof -
  from assms(2) obtain r where r: "record_wf r" "rc_event_id r = e" "s' = (if mem_contains_event s e then s else mem_commit s r)"
    by (auto simp: logged_def mem_insert_wf)
  have "length (bt_insert k v m) \<le> Suc (length m)" for k :: PositionKey and v :: AuditRecord and m
    by (induction m) auto
  with r show "mem_len s' \<le> Suc (mem_len s)" by (simp add: mem_len_def mem_commit_def Let_def)
  show "mem_inv s'" using r mem_inv_commit [OF assms(1)] assms(1) by simp
  show "mem_contains_event s' ev \<longleftrightarrow> mem_contains_event s ev \<or> ev = e" using r by auto
  show "ms_by_record s' rid \<noteq> None" if "ms_by_record s rid \<noteq> None" using r that by (simp add: mem_commit_def Let_def)
qed

lemma mem_get_known: "mem_inv s \<Longrightarrow> ms_by_record s rid \<noteq> None \<Longrightarrow> \<exists>r. mem_get s rid = Inr r"
  by (auto simp: mem_get_def elim!: mem_inv_by_record)

lemma svc_commit_returns:
  assumes "service_ready X sv now actor" "from_checked CaseIdT (ic_case_id c) = Inr i" "memcase_get cases (ic_case_id c) = Inr c0"
  shows "returned X sv actor c cases audit (svc_commit X memcase mem_audit sv t cases audit actor c summary)"
proof -
  let ?step = "\<lparr>ls_network = sv_network sv, ls_case = ic_case_id c, ls_actor = actor,
     ls_kind = (if ic_status c = CaseStatus.Closed then LifecycleKind.Closed else Updated),
     ls_sequence = step_sequence c, ls_status = ic_status c, ls_summary = summary\<rparr>"
  from assms(1) obtain p where p: "EventProvenance_new Derived (sv_source sv) (sv_parser sv) = Inr p"
    "\<forall>e. \<exists>bs. json_event X e = Inr bs" "from_checked AuditorIdT (ls_actor ?step) = Inr actor"
    by (auto simp: service_ready_def)
  have i: "from_checked CaseIdT (ls_case ?step) = Inr i" using assms(2) by simp
  obtain r where "record_step X mem_audit ?step (sv_source sv) (sv_parser sv) (at_record t) audit = (Inr (), snd (mem_insert audit r))"
    "record_wf r" "step_to_event X ?step (sv_source sv) (sv_parser sv) = Inr (rc_event r)"
    by (rule record_step_returns [OF p(2,1) i p(3)])
  moreover from step_to_event_id [OF this(3)]
  have "rc_event_id r = lifecycle_id X (sv_network sv) (ic_case_id c) actor (step_sequence c)" by (simp add: rc_event_id_def)
  moreover have "cs_update memcase cases c = (Inr (), bt_insert (ic_case_id c) c cases)"
    using assms(3) by (auto simp: memcase_def memcase_update_def memcase_get_def split: option.splits)
  ultimately show ?thesis by (auto simp: returned_def logged_def svc_commit_def Let_def)
qed

lemma svc_operations_return:
  assumes "service_ready X sv (at_authorize t) actor" "memcase_get cases i = Inr c" "ic_case_id c = i"
    and "from_checked CaseIdT i = Inr i" "ic_status c \<noteq> CaseStatus.Closed"
  shows "\<exists>c'. case_assign c a (at_now t) = (Inr (), c')
      \<and> returned X sv actor c' cases audit (svc_assign X memcase mem_audit sv t cases audit actor i a)"
    and "mem_get audit rid = Inr rc \<Longrightarrow> \<exists>c'. case_add_related_record c rid k (at_now t) = (Inr (), c')
      \<and> returned X sv actor c' cases audit (svc_link_record X memcase mem_audit sv t cases audit actor i rid k)"
    and "Finding_new (id_derive X FindingIdT [i, ''finding:'' @ show_nat (length (ic_timeline c))]) (nf_kind nf) (nf_severity nf)
        (nf_summary nf) (at_now t) actor = Inr f \<Longrightarrow>
      \<exists>c'. case_add_finding c (with_related_records f (nf_related_records nf)) (at_now t) = (Inr (), c')
      \<and> returned X sv actor c' cases audit (svc_add_finding X memcase mem_audit sv t cases audit actor i nf)"
    and "Note_new (id_derive X NoteIdT [i, ''note:'' @ show_nat (length (ic_timeline c))]) actor body (at_now t) = Inr n \<Longrightarrow>
      \<exists>c'. case_add_note c n = (Inr (), c')
      \<and> returned X sv actor c' cases audit (svc_add_note X memcase mem_audit sv t cases audit actor i body)"
    and "can_transition (ic_status c) to \<Longrightarrow> (to = CaseStatus.Closed \<longrightarrow> reason \<noteq> None) \<Longrightarrow> closure_ok c \<Longrightarrow>
        list_all entry_ok (ic_timeline c) \<Longrightarrow>
      \<exists>c'. case_change_status c to (at_now t) actor reason = (Inr (), c') \<and> case_validate c' = Inr ()
      \<and> returned X sv actor c' cases audit (svc_transition X memcase mem_audit sv t cases audit actor i to reason)"
proof -
  note req = service_ready_require [OF assms(1)]
  have get: "svc_get_open memcase cases i = Inr c" using assms(2,5) by (simp add: svc_get_open_Inr)
  have commit: "returned X sv actor c' cases audit (svc_commit X memcase mem_audit sv t cases audit actor c' summary)"
    if "ic_case_id c' = i" for c' summary
    using svc_commit_returns [OF assms(1)] assms(2,4) that by simp
  show "\<exists>c'. case_assign c a (at_now t) = (Inr (), c')
      \<and> returned X sv actor c' cases audit (svc_assign X memcase mem_audit sv t cases audit actor i a)"
    using commit assms(3) by (simp add: svc_assign_def req get case_assign_def push_timeline_def)
  show "\<exists>c'. case_add_related_record c rid k (at_now t) = (Inr (), c')
      \<and> returned X sv actor c' cases audit (svc_link_record X memcase mem_audit sv t cases audit actor i rid k)" if "mem_get audit rid = Inr rc"
  proof -
    have "as_get mem_audit audit rid = Inr rc" using that by (simp add: mem_audit_def)
    with commit assms(3) show ?thesis
      by (simp add: svc_link_record_def req get case_add_related_record_def push_timeline_def)
  qed
  show "\<exists>c'. case_add_finding c (with_related_records f (nf_related_records nf)) (at_now t) = (Inr (), c')
      \<and> returned X sv actor c' cases audit (svc_add_finding X memcase mem_audit sv t cases audit actor i nf)"
    if "Finding_new (id_derive X FindingIdT [i, ''finding:'' @ show_nat (length (ic_timeline c))]) (nf_kind nf) (nf_severity nf)
        (nf_summary nf) (at_now t) actor = Inr f"
    using commit assms(3) that by (simp add: svc_add_finding_def req get case_add_finding_def push_timeline_def Let_def)
  show "\<exists>c'. case_add_note c n = (Inr (), c')
      \<and> returned X sv actor c' cases audit (svc_add_note X memcase mem_audit sv t cases audit actor i body)"
    if "Note_new (id_derive X NoteIdT [i, ''note:'' @ show_nat (length (ic_timeline c))]) actor body (at_now t) = Inr n"
    using commit assms(3) that by (simp add: svc_add_note_def req get case_add_note_def push_timeline_def Let_def)
  show "\<exists>c'. case_change_status c to (at_now t) actor reason = (Inr (), c') \<and> case_validate c' = Inr ()
      \<and> returned X sv actor c' cases audit (svc_transition X memcase mem_audit sv t cases audit actor i to reason)"
    if can: "can_transition (ic_status c) to" and reason: "to = CaseStatus.Closed \<longrightarrow> reason \<noteq> None"
      and ok: "closure_ok c" "list_all entry_ok (ic_timeline c)"
  proof -
    from can obtain c' where c': "case_change_status c to (at_now t) actor reason = (Inr (), c')" "ic_case_id c' = i"
      using assms(3) by (auto simp: case_op_defs split: option.split)
    then have "case_validate c' = Inr ()"
      unfolding case_validate_Inr using can ok assms(5)
      by (auto simp: case_op_defs closure_ok_def entry_ok_def with_actor_def with_detail_def split: option.splits if_splits)
    with c' commit reason assms(2,5) show ?thesis by (auto simp: svc_transition_def req)
  qed
qed

lemma case_change_status_fields:
  assumes "case_change_status c to at by reason = (Inr (), c')"
  shows "ic_case_id c' = ic_case_id c" "ic_status c' = to" "length (ic_timeline c') = Suc (length (ic_timeline c))"
    "to = CaseStatus.Closed \<Longrightarrow> ic_closed_reason c' = reason"
  using assms by (auto simp: case_op_defs split: option.splits if_splits)

section \<open>Working on a case\<close>

text \<open>
  A stored case in a status, with a valid timeline of some length; and an operation that takes it one step on,
  under the next number of the trail.
\<close>

definition case_at :: "InMemoryCaseStore \<Rightarrow> CaseId \<Rightarrow> CaseStatus \<Rightarrow> nat \<Rightarrow> InvestigationCase \<Rightarrow> bool" where
  "case_at cases i st n c \<longleftrightarrow>
     bt_ok cases \<and> memcase_get cases i = Inr c \<and> ic_case_id c = i \<and> ic_status c = st \<and> closure_ok c
     \<and> list_all entry_ok (ic_timeline c) \<and> length (ic_timeline c) = n"

definition proceeds ::
  "('z) event_ext_scheme \<Rightarrow> CaseService \<Rightarrow> AuditorId \<Rightarrow> CaseId \<Rightarrow> MemoryEventStore \<Rightarrow> CaseStatus \<Rightarrow> nat \<Rightarrow> nat \<Rightarrow> nat
     \<Rightarrow> (InMemoryCaseStore, MemoryEventStore) service_result \<Rightarrow> bool" where
  "proceeds X sv actor i audit st n f m result \<longleftrightarrow>
     (\<exists>c cases audit'. result = (Inr c, cases, audit') \<and> case_at cases i st n c
        \<and> logged audit (lifecycle_id X (sv_network sv) i actor n) audit'
        \<and> length (ic_findings c) = f \<and> length (ic_notes c) = m)"

lemma proceedsE:
  assumes "proceeds X sv actor i audit st n f m result"
  obtains c cases audit' where "result = (Inr c, cases, audit')" "case_at cases i st n c"
    "logged audit (lifecycle_id X (sv_network sv) i actor n) audit'" "length (ic_findings c) = f" "length (ic_notes c) = m"
  using assms by (auto simp: proceeds_def)

lemma returned_proceeds:
  assumes "returned X sv actor c cases audit result" "bt_ok cases" "ic_case_id c = i" "ic_status c = st" "closure_ok c"
    and "list_all entry_ok (ic_timeline c)" "length (ic_timeline c) = n" "n < 2 ^ 32"
  shows "proceeds X sv actor i audit st n (length (ic_findings c)) (length (ic_notes c)) result"
proof -
  have "step_sequence c = n" using assms(7,8) by (simp add: step_sequence_def)
  moreover have "case_at (bt_insert i c cases) i st n c"
    using assms(2-7) by (simp add: case_at_def bt_ok_insert memcase_get_def map_of_bt_insert)
  ultimately show ?thesis using assms(1,3) by (auto simp: proceeds_def returned_def)
qed

lemma svc_operations_proceed:
  assumes "service_ready X sv (at_authorize t) actor" "from_checked CaseIdT i = Inr i" "case_at cases i st n c"
    and "st \<noteq> CaseStatus.Closed" "Suc n < 2 ^ 32"
  defines "f \<equiv> length (ic_findings c)" and "m \<equiv> length (ic_notes c)"
  shows "proceeds X sv actor i audit st (Suc n) f m (svc_assign X memcase mem_audit sv t cases audit actor i a)"
    and "mem_get audit rid = Inr rc \<Longrightarrow> \<not> needs_actor k \<Longrightarrow>
      proceeds X sv actor i audit st (Suc n) f m (svc_link_record X memcase mem_audit sv t cases audit actor i rid k)"
    and "nf_summary nf \<noteq> [] \<Longrightarrow> length (nf_summary nf) \<le> 512 \<Longrightarrow>
      proceeds X sv actor i audit st (Suc n) (Suc f) m (svc_add_finding X memcase mem_audit sv t cases audit actor i nf)"
    and "body \<noteq> [] \<Longrightarrow> length body \<le> 4096 \<Longrightarrow>
      proceeds X sv actor i audit st (Suc n) f (Suc m) (svc_add_note X memcase mem_audit sv t cases audit actor i body)"
    and "can_transition st to \<Longrightarrow> (to = CaseStatus.Closed \<longrightarrow> reason \<noteq> None) \<Longrightarrow>
      proceeds X sv actor i audit to (Suc n) f m (svc_transition X memcase mem_audit sv t cases audit actor i to reason)"
proof -
  note at = assms(3) [unfolded case_at_def]
  have at': "bt_ok cases" "memcase_get cases i = Inr c" "ic_case_id c = i" "ic_status c \<noteq> CaseStatus.Closed" "ic_status c = st"
    "closure_ok c" "list_all entry_ok (ic_timeline c)" "length (ic_timeline c) = n" using at assms(4) by auto
  note ops = svc_operations_return [OF assms(1) at'(2,3) assms(2) at'(4)]
  have go: "proceeds X sv actor i audit to (Suc n) f' m' result"
    if "returned X sv actor c' cases audit result" "ic_case_id c' = i" "ic_status c' = to" "closure_ok c'"
      "list_all entry_ok (ic_timeline c')" "length (ic_timeline c') = Suc n" "length (ic_findings c') = f'" "length (ic_notes c') = m'"
    for c' result to f' m'
    using returned_proceeds [OF that(1) at'(1) that(2-6) assms(5)] that(7,8) by simp
  note simps = case_op_defs entry_ok_def with_actor_def with_detail_def with_record_def closure_ok_def f_def m_def
  show "proceeds X sv actor i audit st (Suc n) f m (svc_assign X memcase mem_audit sv t cases audit actor i a)"
    by (insert ops(1) [of a audit], elim exE conjE, rule go, assumption) (use at' in \<open>auto simp: simps\<close>)
  show "proceeds X sv actor i audit st (Suc n) f m (svc_link_record X memcase mem_audit sv t cases audit actor i rid k)"
    if "mem_get audit rid = Inr rc" "\<not> needs_actor k"
    by (insert ops(2) [OF that(1), of k], elim exE conjE, rule go, assumption) (use at' that(2) in \<open>auto simp: simps\<close>)
  show "proceeds X sv actor i audit st (Suc n) (Suc f) m (svc_add_finding X memcase mem_audit sv t cases audit actor i nf)"
    if summary: "nf_summary nf \<noteq> []" "length (nf_summary nf) \<le> 512"
  proof -
    obtain fd where fd: "Finding_new (id_derive X FindingIdT [i, ''finding:'' @ show_nat (length (ic_timeline c))]) (nf_kind nf)
        (nf_severity nf) (nf_summary nf) (at_now t) actor = Inr fd"
      using summary by (simp add: Finding_new_def)
    show ?thesis by (insert ops(3) [OF fd, of audit], elim exE conjE, rule go, assumption) (use at' in \<open>auto simp: simps\<close>)
  qed
  show "proceeds X sv actor i audit st (Suc n) f (Suc m) (svc_add_note X memcase mem_audit sv t cases audit actor i body)"
    if body: "body \<noteq> []" "length body \<le> 4096"
  proof -
    obtain nt where nt: "Note_new (id_derive X NoteIdT [i, ''note:'' @ show_nat (length (ic_timeline c))]) actor body (at_now t) = Inr nt"
      using body by (simp add: Note_new_def)
    show ?thesis by (insert ops(4) [OF nt, of audit], elim exE conjE, rule go, assumption) (use at' in \<open>auto simp: simps\<close>)
  qed
  show "proceeds X sv actor i audit to (Suc n) f m (svc_transition X memcase mem_audit sv t cases audit actor i to reason)"
    if can: "can_transition st to" "to = CaseStatus.Closed \<longrightarrow> reason \<noteq> None"
  proof -
    obtain c' where c': "case_change_status c to (at_now t) actor reason = (Inr (), c')" "case_validate c' = Inr ()"
      "returned X sv actor c' cases audit (svc_transition X memcase mem_audit sv t cases audit actor i to reason)"
      using ops(5) [of to reason audit] can at' by auto
    have "ic_findings c' = ic_findings c" "ic_notes c' = ic_notes c"
      using c'(1) by (auto simp: case_op_defs split: option.splits if_splits)
    with case_change_status_fields [OF c'(1)] c'(2) at' show ?thesis
      by (intro go [OF c'(3)]) (simp_all add: case_validate_Inr f_def m_def)
  qed
qed

lemma svc_open_case_proceeds:
  fixes key :: string
  assumes "service_ready X sv (at_authorize t) actor" "title \<noteq> []" "length title \<le> 200"
  defines "i \<equiv> id_derive X CaseIdT [sv_network sv, key]"
  shows "proceeds X sv actor i audit Open 0 0 0
    (svc_open_case X memcase mem_audit sv t InMemoryCaseStore_new audit actor title priority key)"
proof -
  let ?step = "\<lparr>ls_network = sv_network sv, ls_case = i, ls_actor = actor, ls_kind = Opened, ls_sequence = 0,
     ls_status = Open, ls_summary = Some title\<rparr>"
  from assms(1) obtain p where p: "EventProvenance_new Derived (sv_source sv) (sv_parser sv) = Inr p"
    "\<forall>e. \<exists>bs. json_event X e = Inr bs" "from_checked AuditorIdT (ls_actor ?step) = Inr actor"
    by (auto simp: service_ready_def)
  have i: "from_checked CaseIdT (ls_case ?step) = Inr i" by (simp add: i_def id_derive_checked)
  obtain r where r: "record_step X mem_audit ?step (sv_source sv) (sv_parser sv) (at_record t) audit = (Inr (), snd (mem_insert audit r))"
    "record_wf r" "step_to_event X ?step (sv_source sv) (sv_parser sv) = Inr (rc_event r)"
    by (rule record_step_returns [OF p(2,1) i p(3)])
  obtain c where c: "case_open i title priority (at_now t) actor = Inr c" "ic_case_id c = i"
    "case_at [(i, c)] i Open 0 c" "ic_findings c = []" "ic_notes c = []"
    using assms(2,3) by (simp add: case_open_def case_at_def memcase_get_def closure_ok_def bt_ok_Cons)
  have "cs_create memcase InMemoryCaseStore_new c = (Inr (), [(i, c)])"
    by (simp add: memcase_def memcase_create_def InMemoryCaseStore_new_def c(2))
  moreover have "logged audit (lifecycle_id X (sv_network sv) i actor 0) (snd (mem_insert audit r))"
    using step_to_event_id [OF r(3)] r(2) by (auto simp: logged_def rc_event_id_def)
  ultimately show ?thesis
    using c r(1) service_ready_require [OF assms(1)]
    by (auto simp: proceeds_def svc_open_case_def Let_def simp flip: i_def)
qed

text \<open>A whole run of the service on one case: where the case stands, and what the trail has gained since the start.\<close>

definition progress ::
  "('z) event_ext_scheme \<Rightarrow> CaseService \<Rightarrow> AuditorId \<Rightarrow> CaseId \<Rightarrow> MemoryEventStore \<Rightarrow> CaseStatus \<Rightarrow> nat \<Rightarrow> nat \<Rightarrow> nat
     \<Rightarrow> InvestigationCase \<Rightarrow> InMemoryCaseStore \<Rightarrow> MemoryEventStore \<Rightarrow> bool" where
  "progress X sv actor i s st n f m c cases s' \<longleftrightarrow>
     case_at cases i st n c \<and> length (ic_findings c) = f \<and> length (ic_notes c) = m \<and> mem_inv s' \<and> mem_len s' \<le> mem_len s + Suc n
     \<and> (\<forall>rid. ms_by_record s rid \<noteq> None \<longrightarrow> ms_by_record s' rid \<noteq> None)
     \<and> (\<forall>ev. mem_contains_event s' ev \<longleftrightarrow> mem_contains_event s ev \<or> (\<exists>k \<le> n. ev = lifecycle_id X (sv_network sv) i actor k))"

lemma progress_start:
  assumes "proceeds X sv actor i s st 0 f m result" "mem_inv s"
  obtains c cases s' where "result = (Inr c, cases, s')" "progress X sv actor i s st 0 f m c cases s'"
  using assms(1)
proof (rule proceedsE)
  fix c cases s'
  assume "result = (Inr c, cases, s')" "case_at cases i st 0 c" "logged s (lifecycle_id X (sv_network sv) i actor 0) s'"
    "length (ic_findings c) = f" "length (ic_notes c) = m"
  with that [of c cases s'] logged_keeps [OF assms(2) this(3)] show thesis by (simp add: progress_def)
qed

lemma progress_step:
  assumes "progress X sv actor i s st n f m c cases s'" "proceeds X sv actor i s' st' (Suc n) f' m' result"
  obtains c' cases' s'' where "result = (Inr c', cases', s'')" "progress X sv actor i s st' (Suc n) f' m' c' cases' s''"
  using assms(2)
proof (rule proceedsE)
  fix c' cases' s''
  assume r: "result = (Inr c', cases', s'')" "case_at cases' i st' (Suc n) c'"
    "logged s' (lifecycle_id X (sv_network sv) i actor (Suc n)) s''" "length (ic_findings c') = f'" "length (ic_notes c') = m'"
  have "mem_inv s'" using assms(1) by (simp add: progress_def)
  note k = logged_keeps [OF this r(3)]
  have "progress X sv actor i s st' (Suc n) f' m' c' cases' s''"
    unfolding progress_def using assms(1) r(2,4,5) k(1,3,4)
    by (auto simp: progress_def k(2) le_Suc_eq)
  with that r(1) show thesis by blast
qed

lemma progress_operations:
  assumes "service_ready X sv (at_authorize t) actor" "from_checked CaseIdT i = Inr i"
    and "progress X sv actor i s st n f m c cases s'" "st \<noteq> CaseStatus.Closed" "n + 1 < 2 ^ 32"
  defines "P \<equiv> \<lambda>st f m result. \<exists>c cases s'. result = (Inr c, cases, s') \<and> progress X sv actor i s st (n + 1) f m c cases s'"
  shows "P st f m (svc_assign X memcase mem_audit sv t cases s' actor i a)"
    and "ms_by_record s rid \<noteq> None \<Longrightarrow> \<not> needs_actor k \<Longrightarrow>
      P st f m (svc_link_record X memcase mem_audit sv t cases s' actor i rid k)"
    and "nf_summary nf \<noteq> [] \<Longrightarrow> length (nf_summary nf) \<le> 512 \<Longrightarrow>
      P st (f + 1) m (svc_add_finding X memcase mem_audit sv t cases s' actor i nf)"
    and "body \<noteq> [] \<Longrightarrow> length body \<le> 4096 \<Longrightarrow> P st f (m + 1) (svc_add_note X memcase mem_audit sv t cases s' actor i body)"
    and "can_transition st to \<Longrightarrow> (to = CaseStatus.Closed \<longrightarrow> reason \<noteq> None) \<Longrightarrow>
      P to f m (svc_transition X memcase mem_audit sv t cases s' actor i to reason)"
proof -
  from assms(3) have c: "case_at cases i st n c" "length (ic_findings c) = f" "length (ic_notes c) = m" "mem_inv s'"
    "ms_by_record s rid \<noteq> None \<Longrightarrow> ms_by_record s' rid \<noteq> None" for rid
    by (simp_all add: progress_def)
  note go = svc_operations_proceed [OF assms(1,2) c(1) assms(4,5) [unfolded Suc_eq_plus1 [symmetric]], unfolded c(2,3)]
  have step: "P st' f' m' result" if "proceeds X sv actor i s' st' (Suc n) f' m' result" for st' f' m' result
    using progress_step [OF assms(3) that] unfolding P_def Suc_eq_plus1 [symmetric] by metis
  show "P st f m (svc_assign X memcase mem_audit sv t cases s' actor i a)" using go(1) by (rule step)
  show "P st f m (svc_link_record X memcase mem_audit sv t cases s' actor i rid k)"
    if "ms_by_record s rid \<noteq> None" "\<not> needs_actor k"
    using step go(2) that(2) mem_get_known [OF c(4) c(5) [OF that(1)]] by blast
  show "P st (f + 1) m (svc_add_finding X memcase mem_audit sv t cases s' actor i nf)"
    if "nf_summary nf \<noteq> []" "length (nf_summary nf) \<le> 512" using step [OF go(3) [OF that]] by simp
  show "P st f (m + 1) (svc_add_note X memcase mem_audit sv t cases s' actor i body)"
    if "body \<noteq> []" "length body \<le> 4096" using step [OF go(4) [OF that]] by simp
  show "P to f m (svc_transition X memcase mem_audit sv t cases s' actor i to reason)"
    if "can_transition st to" "to = CaseStatus.Closed \<longrightarrow> reason \<noteq> None" using go(5) [OF that] by (rule step)
qed

section \<open>Closing a case\<close>

text \<open>The way from a status to the closing, and the transitions along a list of statuses.\<close>

fun closing_path :: "CaseStatus \<Rightarrow> CaseStatus list" where
  "closing_path Open = [Investigating, Resolved, CaseStatus.Closed]"
| "closing_path Investigating = [Resolved, CaseStatus.Closed]"
| "closing_path Escalated = [Resolved, CaseStatus.Closed]"
| "closing_path Resolved = [CaseStatus.Closed]"
| "closing_path CaseStatus.Closed = []"

fun transitions ::
  "('z) event_ext_scheme \<Rightarrow> CaseService \<Rightarrow> clock_reads \<Rightarrow> AuditorId \<Rightarrow> CaseId \<Rightarrow> string \<Rightarrow> CaseStatus list
     \<Rightarrow> InMemoryCaseStore \<times> MemoryEventStore \<Rightarrow> (InMemoryCaseStore \<times> MemoryEventStore) option" where
  "transitions X sv t actor i reason [] st = Some st"
| "transitions X sv t actor i reason (to # tos) (cases, audit) =
     (case svc_transition X memcase mem_audit sv t cases audit actor i to (Some reason) of
        (Inr _, st) \<Rightarrow> transitions X sv t actor i reason tos st
      | (Inl _, _) \<Rightarrow> None)"

fun path_from :: "CaseStatus \<Rightarrow> CaseStatus list \<Rightarrow> bool" where
  "path_from s [] \<longleftrightarrow> True"
| "path_from s (to # tos) \<longleftrightarrow> s \<noteq> CaseStatus.Closed \<and> can_transition s to \<and> path_from to tos"

lemma closing_path_ok: "path_from s (closing_path s)" "last (s # closing_path s) = CaseStatus.Closed"
  by (cases s; simp)+

lemma transitions_run:
  assumes "service_ready X sv (at_authorize t) actor" "from_checked CaseIdT i = Inr i"
    and "stored_ok memcase bt_ok cases" "memcase_get cases i = Inr c" "list_all entry_ok (ic_timeline c)"
    and "path_from (ic_status c) tos"
  shows "\<exists>cases' audit' c'. transitions X sv t actor i reason tos (cases, audit) = Some (cases', audit')
    \<and> memcase_get cases' i = Inr c' \<and> ic_status c' = last (ic_status c # tos)
    \<and> length (ic_timeline c') = length (ic_timeline c) + length tos
    \<and> (tos \<noteq> [] \<and> last tos = CaseStatus.Closed \<longrightarrow> ic_closed_reason c' = Some reason)"
  using assms(3-)
proof (induction tos arbitrary: cases audit c)
  case Nil
  then show ?case by simp
next
  case (Cons to tos)
  have c: "ic_case_id c = i" "closure_ok c" using Cons.prems(1,2) by (auto simp: stored_ok_def case_inv_def)
  obtain c' where c': "case_change_status c to (at_now t) actor (Some reason) = (Inr (), c')" "case_validate c' = Inr ()"
    "returned X sv actor c' cases audit (svc_transition X memcase mem_audit sv t cases audit actor i to (Some reason))"
    using svc_operations_return(5) [OF assms(1) Cons.prems(2) c(1) assms(2), of to "Some reason" audit] Cons.prems(3,4) c(2) by auto
  note f = case_change_status_fields [OF c'(1)]
  from c'(3) obtain audit1 where
    step: "svc_transition X memcase mem_audit sv t cases audit actor i to (Some reason) = (Inr c', bt_insert i c' cases, audit1)"
    using f(1) c(1) by (auto simp: returned_def)
  note ok = mem_service.step_stored_ok [OF Cons.prems(1) svc_step.moved [OF step]]
  have get: "memcase_get (bt_insert i c' cases) i = Inr c'"
    using Cons.prems(1) by (simp add: memcase_get_def map_of_bt_insert stored_ok_def)
  with Cons.IH [OF ok this, of audit1] c'(2) f(2) Cons.prems(4)
  obtain cases' audit' c'' where run: "transitions X sv t actor i reason tos (bt_insert i c' cases, audit1) = Some (cases', audit')"
    "memcase_get cases' i = Inr c''" "ic_status c'' = last (to # tos)"
    "length (ic_timeline c'') = length (ic_timeline c') + length tos"
    "tos \<noteq> [] \<and> last tos = CaseStatus.Closed \<longrightarrow> ic_closed_reason c'' = Some reason"
    by (auto simp: case_validate_Inr)
  have "ic_closed_reason c'' = Some reason" if "last (to # tos) = CaseStatus.Closed"
  proof (cases tos)
    case Nil
    with run(1,2) get f(4) that show ?thesis by simp
  next
    case (Cons a list)
    with run(5) that show ?thesis by simp
  qed
  with run step f(3) show ?case by auto
qed

text \<open>A timeline that does not validate keeps a case in its status, whatever is called.\<close>

lemma case_move_bad: "case_move c c' \<Longrightarrow> \<not> list_all entry_ok (ic_timeline c) \<Longrightarrow> ic_status c' = ic_status c"
proof (induction rule: case_move.induct)
  case (moved c to at actor reason c')
  with prefix_bad [OF case_change_status_timeline] show ?case by (auto simp: case_validate_Inr)
qed (auto simp: case_op_defs)

lemma reach_bad:
  assumes "svc_reach X memcase mem_audit sv st st'" "stored_ok memcase bt_ok (fst st)"
    and "memcase_get (fst st) i = Inr c" "\<not> list_all entry_ok (ic_timeline c)"
  shows "stored_ok memcase bt_ok (fst st') \<and> (\<exists>c'. memcase_get (fst st') i = Inr c' \<and> ic_status c' = ic_status c
    \<and> \<not> list_all entry_ok (ic_timeline c'))"
  using assms
proof (induction rule: svc_reach.induct)
  case (refl st)
  then show ?case by blast
next
  case (step st st' actor res st'')
  obtain cs au cs' au' where st: "st' = (cs, au)" "st'' = (cs', au')" by (cases st', cases st'') auto
  obtain c' where c': "stored_ok memcase bt_ok cs" "memcase_get cs i = Inr c'" "ic_status c' = ic_status c"
    "\<not> list_all entry_ok (ic_timeline c')" using step.IH [OF step.prems] st(1) by auto
  note one = step.hyps(2) [unfolded st]
  obtain d where d: "memcase_get cs' i = Inr d" "d = c' \<or> case_move c' d"
    using mem_service.step_effect [OF c'(1) one]
  proof (elim disjE exE conjE)
    fix c1
    assume "succeeds memcase cs actor c1" "\<forall>j. cs_get memcase cs' j = (if j = ic_case_id c1 then Inr c1 else cs_get memcase cs j)"
    with that [of c1] that [of c'] c'(2) show thesis by (cases "i = ic_case_id c1") (auto simp: succeeds_def)
  qed (use that c'(2) in auto)
  have "\<not> list_all entry_ok (ic_timeline d)" "ic_status d = ic_status c"
    using d(2) c'(3,4) case_move_bad case_move_extends prefix_bad unfolding extends_def by metis+
  with mem_service.step_stored_ok [OF c'(1) one] d(1) st(2) show ?case by auto
qed

text \<open>
  C23: a case can be closed.  Take any stored case that is not closed and an actor the access policy permits to work
  on cases.  If every auditor action on its timeline carries its actor, the actor closes the case in at
  most three transitions, with the given reason and one timeline entry for each.  If not (such an entry comes
  from \<open>link_record\<close> with the kind of a finding, note or status change), no calls by anyone ever change the
  status of the case again.
\<close>

theorem case_closable:
  assumes "stored_ok memcase bt_ok cases" "memcase_get cases i = Inr c" "ic_status c \<noteq> CaseStatus.Closed"
    and "from_checked CaseIdT i = Inr i" "service_ready X sv (at_authorize t) actor"
  shows "if list_all entry_ok (ic_timeline c)
    then \<exists>cases' audit' c'. transitions X sv t actor i reason (closing_path (ic_status c)) (cases, audit) = Some (cases', audit')
      \<and> memcase_get cases' i = Inr c' \<and> ic_status c' = CaseStatus.Closed \<and> ic_closed_reason c' = Some reason
      \<and> length (ic_timeline c') = length (ic_timeline c) + length (closing_path (ic_status c))
    else \<forall>cases' audit'. svc_reach X memcase mem_audit sv (cases, audit) (cases', audit') \<longrightarrow>
      (\<exists>c'. memcase_get cases' i = Inr c' \<and> ic_status c' = ic_status c)"
proof (cases "list_all entry_ok (ic_timeline c)")
  case True
  have "closing_path (ic_status c) \<noteq> []" using assms(3) by (cases "ic_status c") simp_all
  with True transitions_run [OF assms(5,4,1,2) True closing_path_ok(1), of reason audit] closing_path_ok(2) [of "ic_status c"]
  show ?thesis by auto
next
  case False
  with reach_bad [of X sv "(cases, audit)", OF _ _ _ False] assms(1,2) show ?thesis by fastforce
qed

lemma sample_ready: "service_ready sample_ext sample_service 1 ''aud_a1''"
proof -
  have "permitted (sv_registry sample_service) 1 ''aud_a1'' CreateInvestigation (Network (sv_network sample_service))"
    using sample_require [of "''work''"] by (simp add: svc_require_iff split: if_splits)
  then show ?thesis
    by (simp add: service_ready_def EventProvenance_new_def from_checked_eq_Inr ascii_defs byte_def) (simp add: sample_ext_def)
qed

theorem case_closable_witness:
  "\<exists>cases' audit' c'. transitions sample_ext sample_service sample_clock ''aud_a1'' (ic_case_id (sample_case Open)) ''done''
       [Investigating, Resolved, CaseStatus.Closed] (sample_cases Open, mem_new) = Some (cases', audit')
    \<and> memcase_get cases' (ic_case_id (sample_case Open)) = Inr c' \<and> ic_status c' = CaseStatus.Closed
    \<and> ic_closed_reason c' = Some ''done'' \<and> length (ic_timeline c') = 3"
proof -
  have c: "ic_status (sample_case Open) = Open" "ic_timeline (sample_case Open) = []" by (simp_all add: sample_case_def)
  have "from_checked CaseIdT (ic_case_id (sample_case Open)) = Inr (ic_case_id (sample_case Open))"
    by (simp add: sample_case_def id_derive_checked)
  from case_closable [OF sample_stored_ok sample_get _ this, of sample_ext sample_service sample_clock "''aud_a1''" "''done''" mem_new]
  show ?thesis using sample_ready c by (simp add: sample_clock_def eval_nat_numeral)
qed

end
