(* ===== verification/Audit_Examples.thy ===== *)
theory Audit_Examples
  imports Audit_Recovery Audit_Access_Control "HOL-Library.Monad_Syntax"
begin

text \<open>
  The runnable walk-throughs of \<open>crates/integration-tests/examples\<close> and \<open>crates/rpc/examples\<close>: the in-memory
  source they share, and the programs over ingestion, integrity, authorization and the RPC forms.  A
  program is a function of what it reads (arguments, standard input, the fixture files as a map from
  paths to contents) with the lines it prints as its value; \<open>None\<close> is a panic, that is a failed
  \<open>unwrap\<close>, \<open>expect\<close>, index or assertion.  The clocks are fixed ones, as in the source.
\<close>

section \<open>Panics\<close>

definition expect :: "'e + 'a \<Rightarrow> 'a option" where
  "expect r = (case r of Inr a \<Rightarrow> Some a | Inl _ \<Rightarrow> None)"

definition expect_with :: "('e + 'a) \<times> 's \<Rightarrow> ('a \<times> 's) option" where
  "expect_with r = (case r of (Inr a, s) \<Rightarrow> Some (a, s) | (Inl _, _) \<Rightarrow> None)"

definition assert_that :: "bool \<Rightarrow> unit option" where
  "assert_that b = (if b then Some () else None)"

lemma expect_simps [simp]:
  "expect (Inr a) = Some a" "expect (Inl e) = None"
  "expect_with (Inr a, s) = Some (a, s)" "expect_with (Inl e, s) = None"
  "assert_that True = Some ()" "assert_that False = None"
  by (simp_all add: expect_def expect_with_def assert_that_def)

section \<open>The fixture source\<close>

record FixtureSource =
  fx_items :: "RawEventItem list"

text \<open>
  \<open>fetch_after\<close> with the name as a parameter; every example has its own.  The source asks for the item before
  \<open>end\<close> with \<open>items[end - 1]\<close>, which is in range for the positive limits the indexer passes.
\<close>

definition fixture_fetch_after ::
  "FixtureSource \<Rightarrow> string option \<Rightarrow> nat \<Rightarrow> (SourceError + SourcePage) \<times> FixtureSource" where
  "fixture_fetch_after src after limit =
     (and_then
        (case after of
           None \<Rightarrow> Inr 0
         | Some pos \<Rightarrow>
             (let k = position_or_len (\<lambda>i. it_position i = pos) (fx_items src)
              in if k < length (fx_items src) then Inr (k + 1) else Inl (InvalidPosition pos)))
        (\<lambda>start.
           let en = min (start + limit) (length (fx_items src));
               items = take (en - start) (drop start (fx_items src));
               next = (if en < length (fx_items src) then Some (it_position (fx_items src ! (en - 1))) else None)
           in Inr (SourcePage_new items next)), src)"

definition fixture_source :: "string \<Rightarrow> FixtureSource EventSource" where
  "fixture_source name =
     \<lparr>source_name = (\<lambda>_. name),
      fetch_after = (\<lambda>src after limit.
        (map_err SourceError_to_string (fst (fixture_fetch_after src after limit)), src))\<rparr>"

definition ingest_demo_source :: "FixtureSource EventSource" where
  "ingest_demo_source = fixture_source ''fixture:demo''"

definition verify_demo_source :: "FixtureSource EventSource" where
  "verify_demo_source = fixture_source ''fixture:demo''"

section \<open>Shared set-up\<close>

definition NormalizeConfig_new :: "NetworkId \<Rightarrow> string \<Rightarrow> VersionLabel \<Rightarrow> NormalizeConfig" where
  "NormalizeConfig_new network source parser_version =
     \<lparr>nc_network = network, nc_source = source, nc_parser_version = parser_version\<rparr>"

definition demo_indexer :: "('n, 'z) normalizer_ext_scheme \<Rightarrow> string \<Rightarrow> Indexer option" where
  "demo_indexer N source =
     do { network \<leftarrow> expect (NetworkId_new ''testnet'');
          version \<leftarrow> expect (VersionLabel_new ''1.0.0'');
          expect (Indexer_new (normalizing N (NormalizeConfig_new network source version)) (\<lambda>_. 1700000500)
            SkipDuplicates AbortOnMalformed 100) }"

text \<open>An unfiltered query for the first page of a store.\<close>

definition query_all :: "MemoryEventStore \<Rightarrow> nat \<Rightarrow> AuditRecord list option" where
  "query_all store limit =
     do { q \<leftarrow> expect (AuditQuery_build AuditQuery_builder);
          page \<leftarrow> expect (PageRequest_new limit);
          res \<leftarrow> mem_query store q page;
          page \<leftarrow> expect res;
          Some (pg_items page) }"

definition fixture :: "(string \<Rightarrow> string option) \<Rightarrow> string \<Rightarrow> string \<Rightarrow> string \<Rightarrow> RawEventItem option" where
  "fixture files scheme name pos =
     do { payload \<leftarrow> files name;
          expect (RawEventItem_new scheme payload pos) }"

section \<open>\<open>ingest-event\<close>\<close>

definition FIXTURES :: "(string \<times> string) list" where
  "FIXTURES =
     [(''bound-token/observed-hooks-event.json'', ''ledger:415''),
      (''config-change/observed-hooks-event.json'', ''ledger:419''),
      (''frozen-account/observed-hooks-event.json'', ''ledger:423'')]"

fun load_fixtures :: "(string \<Rightarrow> string option) \<Rightarrow> (string \<times> string) list \<Rightarrow> RawEventItem list option" where
  "load_fixtures files [] = Some []"
| "load_fixtures files ((path, pos) # rest) =
     do { item \<leftarrow> fixture files ''hooks-state-event'' path pos;
          items \<leftarrow> load_fixtures files rest;
          Some (item # items) }"

definition ingest_event_main ::
  "('n, 'z) normalizer_ext_scheme \<Rightarrow> (string \<Rightarrow> string option) \<Rightarrow> string list option" where
  "ingest_event_main N files =
     do { indexer \<leftarrow> demo_indexer N ''safeguard-hooks'';
          items \<leftarrow> load_fixtures files FIXTURES;
          (first, _, checkpoints, store) \<leftarrow> expect_with
            (run_once N indexer ingest_demo_source memcp mem_insert_batch \<lparr>fx_items = items\<rparr>
               InMemoryCheckpointStore_new mem_new);
          _ \<leftarrow> assert_that (mem_len store = length items);
          (second, _, _, store') \<leftarrow> expect_with
            (run_once N indexer ingest_demo_source memcp mem_insert_batch \<lparr>fx_items = items\<rparr>
               InMemoryCheckpointStore_new store);
          _ \<leftarrow> assert_that (ir_inserted second = 0);
          Some
            [''Ingesting '' @ show_nat (length items) @ '' fixture events from `hooks-state-event`...'',
             ''  first run:  '' @ IngestReport_to_string first,
             ''  re-run:     '' @ IngestReport_to_string second,
             ''Store holds '' @ show_nat (mem_len store') @ '' records; re-ingestion added ''
               @ show_nat (ir_inserted second) @ '' (idempotent).'',
             ''OK: ingestion is checkpointed, ordered, and idempotent.''] }"

section \<open>\<open>verify-record\<close>\<close>

definition verify_record_main ::
  "('y) integrity_ext_scheme \<Rightarrow> ('n, 'z) normalizer_ext_scheme \<Rightarrow> string list \<Rightarrow> (string \<Rightarrow> string option)
     \<Rightarrow> string list option" where
  "verify_record_main X N args files =
     do { indexer \<leftarrow> demo_indexer N ''safeguard-hooks'';
          i0 \<leftarrow> fixture files ''hooks-state-event'' ''bound-token/observed-hooks-event.json'' ''ledger:415'';
          i1 \<leftarrow> fixture files ''hooks-state-event'' ''config-change/observed-hooks-event.json'' ''ledger:419'';
          i2 \<leftarrow> fixture files ''hooks-state-event'' ''frozen-account/observed-hooks-event.json'' ''ledger:423'';
          (_, _, checkpoints, store) \<leftarrow> expect_with
            (run_once X indexer verify_demo_source memcp mem_insert_batch \<lparr>fx_items = [i0, i1, i2]\<rparr>
               InMemoryCheckpointStore_new mem_new);
          history \<leftarrow> query_all store 1000;
          sealed \<leftarrow> expect (seal_chain X history);
          _ \<leftarrow> expect (verify_chain X sealed);
          shown \<leftarrow>
            (if list_ex (\<lambda>a. a = ''--tamper'') args then
               do { _ \<leftarrow> assert_that (1 < length sealed);
                    found \<leftarrow> expect (locate_tampering X
                      (sealed[1 := (sealed ! 1)\<lparr>rc_recorded_at := 1700000007\<rparr>]));
                    _ \<leftarrow> assert_that (length found = 1);
                    Some [''  tamper demo:  record '' @ vo_record_id (hd found) @ '' -> ''
                            @ IntegrityStatus_as_str (vo_status (hd found)) @ '' (''
                            @ (case vo_detail (hd found) of Some d \<Rightarrow> d | None \<Rightarrow> '''') @ '').'',
                          ''  Detection confirmed: the altered record is named, not merely flagged.''] }
             else Some [''  Run with `-- --tamper` to see tamper detection in action.'']);
          Some
            ([''Sealing '' @ show_nat (length history) @ '' records into a chained digest sequence...'',
              ''  chain verified: every digest recomputes, every linkage holds.'']
             @ shown @ [''OK: records are tamper-evident and verification is deterministic.'']) }"

section \<open>\<open>authorize-access\<close>\<close>

definition pad_right :: "nat \<Rightarrow> string \<Rightarrow> string" where
  "pad_right n s = s @ replicate (n - length s) (CHR '' '')"

definition demo_grant :: "AuditorId \<Rightarrow> AuditorRole \<Rightarrow> NetworkId \<Rightarrow> string \<Rightarrow> Timestamp \<Rightarrow> Grant" where
  "demo_grant auditor role network material expires_at =
     with_credential (with_scope (Grant_new auditor role) (Network network))
       (Credential_new auditor material expires_at)"

definition outcome_label :: "AuthorizationDecision \<Rightarrow> string" where
  "outcome_label d =
     (case (ad_allowed d, ad_reason d) of
        (True, _) \<Rightarrow> ''GRANTED''
      | (False, Some r) \<Rightarrow> r
      | (False, None) \<Rightarrow> ''DENIED'')"

text \<open>The loop over the questions: decide, build the entry, record it, print the outcome.\<close>

fun ask ::
  "('z) event_ext_scheme \<Rightarrow> Registry \<Rightarrow> StoreAccessLog \<Rightarrow> Timestamp
     \<Rightarrow> (AuditorId \<times> string \<times> AccessAction \<times> AccessScope) list \<Rightarrow> MemoryEventStore
     \<Rightarrow> (string list \<times> MemoryEventStore) option" where
  "ask X registry log now [] store = Some ([], store)"
| "ask X registry log now ((auditor, what, action, scope) # rest) store =
     do { decision \<leftarrow> expect (authorize registry now auditor action scope);
          entry \<leftarrow> expect (entry_for_decision X decision (Some ''rec_1234''));
          (_, store) \<leftarrow> expect_with (record_into X mem_insert log now entry store);
          (shown, store) \<leftarrow> ask X registry log now rest store;
          Some ((''  ['' @ pad_right 18 (outcome_label decision) @ ''] '' @ what @ '' ''
                   @ [CHR 0xE2, CHR 0x80, CHR 0x94] @ '' scope '' @ ad_scope decision) # shown, store) }"

definition detail_or :: "string \<Rightarrow> AuditRecord \<Rightarrow> string \<Rightarrow> string" where
  "detail_or fallback r key =
     (case map_of (ev_details (rc_event r)) key of Some v \<Rightarrow> v | None \<Rightarrow> fallback)"

definition access_line :: "AuditRecord \<Rightarrow> string" where
  "access_line r =
     ''  '' @ detail_or ''?'' r ''entry'' @ '' | auditor='' @ detail_or ''?'' r ''auditor''
     @ '' | action='' @ detail_or ''?'' r ''action'' @ '' | result='' @ detail_or ''?'' r ''result''
     @ '' | at='' @ detail_or ''?'' r ''accessed_at''"

definition authorize_access_main :: "('z) event_ext_scheme \<Rightarrow> string list option" where
  "authorize_access_main X =
     do { network \<leftarrow> expect (NetworkId_new ''testnet'');
          let now = 1700000000;
          let senior = id_derive X AuditorIdT [''senior-auditor-01''];
          let reviewer = id_derive X AuditorIdT [''read-only-01''];
          let lapsed = id_derive X AuditorIdT [''lapsed-credential-01''];
          (_, registry) \<leftarrow> expect_with (Registry_register Registry_new
            (demo_grant senior SeniorAuditor network ''issued-senior-credential'' 1900000000));
          (_, registry) \<leftarrow> expect_with (Registry_register registry
            (demo_grant reviewer ReadOnlyReviewer network ''issued-reviewer-credential'' 1900000000));
          (_, registry) \<leftarrow> expect_with (Registry_register registry
            (demo_grant lapsed ReadOnlyReviewer network ''lapsed-credential'' 1600000000));
          parser \<leftarrow> expect (VersionLabel_new ''1.0.0'');
          let log = \<lparr>sal_network = network, sal_source = ''safeguard-audit-authorization'', sal_parser = parser\<rparr>;
          mainnet \<leftarrow> expect (NetworkId_new ''mainnet'');
          (shown, store) \<leftarrow> ask X registry log now
            [(senior, ''senior reads a record on testnet'', ReadRecord, Network network),
             (senior, ''senior generates a report on testnet'', GenerateReport, Network network),
             (senior, ''senior exports records on mainnet (out of scope)'', ExportRecords, Network mainnet),
             (reviewer, ''read-only reviewer reads on testnet'', ReadRecord, Network network),
             (reviewer, ''read-only reviewer requests protected data (denied by role)'', RequestProtectedData,
              Network network),
             (lapsed, ''lapsed-credential auditor reads on testnet (credential expired)'', ReadRecord,
              Network network)] mem_new;
          records \<leftarrow> query_all store 1000;
          Some (shown
            @ [CHR 0x0A # show_nat (length records)
                 @ '' audit-access record(s) persisted '' @ [CHR 0xE2, CHR 0x80, CHR 0x94]
                 @ '' the audit trail auditing itself:'']
            @ map access_line records
            @ [CHR 0x0A # ''OK: decisions are attributed, recorded, and replayable.'']) }"

section \<open>\<open>get_events\<close>\<close>

definition documented_params :: GetEventsParams where
  "documented_params =
     params_limit 2
       (params_add_filter
          \<lparr>ef_filter_type = Some EventTypeFilter.Contract,
           ef_contract_ids = [''CDLZFC3SYJYDZT7K67VZ75HPJVIEUVNIXF47ZG2FB2RMQQVU2HHGCYSC''],
           ef_topics = [[''AAAADwAAAAh0cmFuc2Zlcg=='', ''*'', ''*'', ''**'']]\<rparr>
          (params_start_ledger 199616 GetEventsParams_new))"

text \<open>What a run leaves behind; the arguments come without the program name, and \<open>stdin\<close> is \<open>None\<close> when unreadable.\<close>

record process_exit =
  px_stdout :: "string list"
  px_stderr :: "string list"
  px_code :: nat

definition event_line :: "SorobanEvent \<Rightarrow> string" where
  "event_line e =
     ''  id='' @ se_id e @ '' ledger='' @ show_int (se_ledger e) @ '' contract=''
     @ (case se_contract_id e of Some c \<Rightarrow> c | None \<Rightarrow> ''-'')"

definition get_events_main ::
  "('n, 'z) rpc_ext_scheme \<Rightarrow> string list \<Rightarrow> string option \<Rightarrow> process_exit" where
  "get_events_main X args stdin =
     (case args of
        ''build'' # _ \<Rightarrow>
          (case request_body X (GetEventsRequest_new 8675309 documented_params) of
             Inr body \<Rightarrow> \<lparr>px_stdout = [body], px_stderr = [], px_code = 0\<rparr>
           | Inl e \<Rightarrow> \<lparr>px_stdout = [], px_stderr = [''request rejected: '' @ RpcError_to_string e], px_code = 1\<rparr>)
      | ''parse'' # _ \<Rightarrow>
          (case stdin of
             None \<Rightarrow> \<lparr>px_stdout = [], px_stderr = [''could not read the response body from stdin''], px_code = 1\<rparr>
           | Some body \<Rightarrow>
               (case parse_get_events_response X body of
                  Inr result \<Rightarrow>
                    \<lparr>px_stdout =
                       [''parsed '' @ show_nat (length (sr_events result)) @ '' event(s)'']
                       @ map event_line (sr_events result)
                       @ [''cursor: '' @ (case sr_cursor result of Some c \<Rightarrow> c | None \<Rightarrow> ''-''),
                          ''ledger range: ''
                            @ show_int (case sr_oldest_ledger result of Some l \<Rightarrow> l | None \<Rightarrow> 0) @ ''..''
                            @ show_int (case sr_latest_ledger result of Some l \<Rightarrow> l | None \<Rightarrow> 0)],
                     px_stderr = [], px_code = 0\<rparr>
                | Inl e \<Rightarrow>
                    \<lparr>px_stdout = [], px_stderr = [''response rejected: '' @ RpcError_to_string e], px_code = 1\<rparr>))
      | _ \<Rightarrow>
          \<lparr>px_stdout = [],
           px_stderr = [''usage: get_events <build|parse>  (got ''
             @ debug_opt (debug_str X) (case args of [] \<Rightarrow> None | a # _ \<Rightarrow> Some a) @ '')''],
           px_code = 2\<rparr>)"

text \<open>The request of the documentation is one the client would send: building it only fails in the encoder.\<close>

lemma documented_request_valid: "params_validate documented_params = Inr ()"
  by (simp add: documented_params_def params_validate_def params_limit_def params_add_filter_def
      params_start_ledger_def GetEventsParams_new_def EventFilter_validate_def MIN_LIMIT_def MAX_LIMIT_def
      MAX_FILTERS_def MAX_CONTRACT_IDS_PER_FILTER_def)

lemma get_events_build:
  "json_to_string X (Object [(''id'', Number (num_of_int X 8675309)), (''jsonrpc'', String ''2.0''),
      (''method'', String ''getEvents''), (''params'', params_to_value X documented_params)]) = Inr body \<Longrightarrow>
   get_events_main X [''build''] stdin = \<lparr>px_stdout = [body], px_stderr = [], px_code = 0\<rparr>"
  by (simp add: get_events_main_def request_body_def GetEventsRequest_new_def documented_request_valid
      less_char_byte byte_def)

section \<open>Fixtures are a paged source\<close>

definition fixture_ready :: "FixtureSource \<Rightarrow> bool" where
  "fixture_ready src \<longleftrightarrow> distinct (map it_position (fx_items src))"

lemma position_or_len_nth:
  "distinct (map f xs) \<Longrightarrow> k < length xs \<Longrightarrow> position_or_len (\<lambda>x. f x = f (xs ! k)) xs = k"
proof (induction xs arbitrary: k)
  case (Cons x xs)
  then show ?case by (cases k) (auto dest: nth_mem)
qed simp

interpretation fixture: paged_source "fixture_source name" "\<lambda>src. map Some (fx_items src)" fixture_ready max_limit
  for name max_limit
proof
  fix src :: FixtureSource and l start :: nat and after
  assume a: "fixture_ready src" "1 \<le> l" "l \<le> max_limit" "resumes_at (map Some (fx_items src)) after start"
  let ?items = "fx_items src" and ?en = "min (start + l) (length (fx_items src))"
  let ?page = "SourcePage_new (take (?en - start) (drop start ?items))
    (if ?en < length ?items then Some (it_position (?items ! (?en - 1))) else None)"
  have "fetch_after (fixture_source name) src after l = (Inr ?page, src)"
  proof (cases after)
    case None
    with a(4) show ?thesis by (simp add: resumes_at_def fixture_source_def fixture_fetch_after_def Let_def)
  next
    case (Some c)
    with a(4) have s: "0 < start" "start \<le> length ?items" "it_position (?items ! (start - 1)) = c"
      by (auto simp: resumes_at_def)
    then have "position_or_len (\<lambda>i. it_position i = c) ?items = start - 1"
      using position_or_len_nth [of it_position ?items "start - 1"] a(1) by (auto simp: fixture_ready_def)
    with s Some show ?thesis
      by (simp add: fixture_source_def fixture_fetch_after_def Let_def)
  qed
  moreover have "take (?en - start) (drop start ?items) = take l (drop start ?items)"
    by (cases "start + l \<le> length ?items") (auto simp: min_def)
  moreover have "somes (map Some xs) = xs" for xs :: "RawEventItem list"
    by (induction xs) simp_all
  ultimately show "\<exists>page s'. fetch_after (fixture_source name) src after l = (Inr page, s') \<and> fixture_ready s'
      \<and> map Some (fx_items s') = map Some (fx_items src)
      \<and> source_name (fixture_source name) s' = source_name (fixture_source name) src
      \<and> sp_items page = somes (take l (drop start (map Some (fx_items src))))
      \<and> (SourcePage_has_more page \<longleftrightarrow> start + l < length (map Some (fx_items src)))"
    using a(1) by (auto simp: SourcePage_new_def SourcePage_has_more_def fixture_source_def take_map drop_map)
qed

section \<open>Ingesting fixtures\<close>

text \<open>Fixtures that an indexer takes in whole: accepted, of different events, with known placements in order.\<close>

definition demo_ok ::
  "('z) event_ext_scheme \<Rightarrow> (RawEventItem \<Rightarrow> NormalizerError + AuditEvent) \<Rightarrow> RawEventItem list \<Rightarrow> bool" where
  "demo_ok X n items \<longleftrightarrow>
     ingestible X n items \<and> distinct (map (ev_event_id \<circ> event_of n) items)
     \<and> list_all (\<lambda>i. eo_ledger_sequence (ev_order (event_of n i)) \<noteq> None) items
     \<and> items \<noteq> [] \<and> length items \<le> 100"

definition demo_record ::
  "('z) event_ext_scheme \<Rightarrow> (RawEventItem \<Rightarrow> NormalizerError + AuditEvent) \<Rightarrow> RawEventItem \<Rightarrow> AuditRecord" where
  "demo_record X n i = projr (from_event X (event_of n i) 1700000500)"

lemma demo_record_eq:
  assumes "accepted X n i"
  shows "from_event X (event_of n i) 1700000500 = Inr (demo_record X n i)"
  using accepted_record [OF assms, of 1700000500] by (auto simp: demo_record_def)

lemma demo_record_fields:
  assumes "accepted X n i"
  shows "rc_event (demo_record X n i) = event_of n i" "rc_recorded_at (demo_record X n i) = 1700000500"
    "rc_event_id (demo_record X n i) = ev_event_id (event_of n i)" "record_wf (demo_record X n i)"
  using from_event_fields [OF demo_record_eq [OF assms]] accepted_record_wf [OF assms demo_record_eq [OF assms]]
  by simp_all

lemma ingest_items_exact:
  assumes "list_all (accepted X (ix_normalize ix)) items" "ix_clock ix = (\<lambda>_. 1700000500)"
    and "distinct (map (ev_event_id \<circ> event_of (ix_normalize ix)) items)"
    and "(ev_event_id \<circ> event_of (ix_normalize ix)) ` set items \<inter> is_guard st = {}"
    and "list_all (\<lambda>i. eo_ledger_sequence (ev_order (event_of (ix_normalize ix) i)) \<noteq> None) items"
  shows "\<exists>g. ingest_items X ix items st =
    Inr (st\<lparr>is_guard := g, is_records := is_records st @ map (demo_record X (ix_normalize ix)) items,
            is_placements := is_placements st @ map (ev_order \<circ> event_of (ix_normalize ix)) items\<rparr>)"
  using assms
proof (induction items arbitrary: st)
  case (Cons i items)
  let ?n = "ix_normalize ix"
  have n: "?n i = Inr (event_of ?n i)" using Cons.prems(1) by (simp add: accepted_event [of X])
  have r: "from_event X (event_of ?n i) 1700000500 = Inr (demo_record X ?n i)"
    using Cons.prems(1) by (simp add: demo_record_eq)
  let ?st = "st\<lparr>is_guard := insert (ev_event_id (event_of ?n i)) (is_guard st),
      is_records := is_records st @ [demo_record X ?n i], is_placements := is_placements st @ [ev_order (event_of ?n i)]\<rparr>"
  have "ingest_item X ix i st = Inr ?st"
    using Cons.prems(2,4,5) n r by (simp add: ingest_item_def note_placement_def)
  with Cons.IH [of ?st] Cons.prems show ?case by auto
next
  case Nil
  show ?case by (intro exI [of _ "is_guard st"]) simp
qed

lemma demo_batch_wf:
  assumes "demo_ok X n items"
  shows "batch_wf (map (demo_record X n) items)"
proof -
  have acc: "accepted X n i" if "i \<in> set items" for i
    using assms that by (simp add: demo_ok_def ingestible_def list_all_iff)
  have eq: "map (rc_event_id \<circ> demo_record X n) items = map (ev_event_id \<circ> event_of n) items"
    using acc by (simp add: demo_record_fields)
  have d: "distinct (map (rc_event_id \<circ> demo_record X n) items)"
    unfolding eq using assms by (simp add: demo_ok_def)
  have "rc_event_id (demo_record X n i) = rc_event_id (demo_record X n j)"
    if i: "i \<in> set items" "j \<in> set items" "rc_record_id (demo_record X n i) = rc_record_id (demo_record X n j)" for i j
  proof -
    have "told_apart X n (set items)" using assms by (simp add: demo_ok_def ingestible_def)
    from this [unfolded told_apart_def, rule_format, OF i(1,2)
        from_event_clock [OF demo_record_eq [OF acc [OF i(1)]]] from_event_clock [OF demo_record_eq [OF acc [OF i(2)]]]] i(3)
    show ?thesis by (simp add: rc_event_id_def)
  qed
  then have "inj_on (rc_record_id \<circ> demo_record X n) (set items)"
    using d by (intro inj_onI) (metis comp_apply distinct_map inj_onD)
  with d have "distinct (map (rc_record_id \<circ> demo_record X n) items)" by (simp only: distinct_map)
  with d acc show ?thesis by (simp add: batch_wf_def demo_record_fields)
qed

text \<open>The whole cycle over fixtures, into any store.\<close>

lemma fixture_run:
  assumes "demo_ok X (ix_normalize ix) items" "label_ok 64 name"
    and "ix_clock ix = (\<lambda>_. 1700000500)" "ix_dedup_policy ix = SkipDuplicates" "ix_page_limit ix = 100"
  defines "rs \<equiv> map (demo_record X (ix_normalize ix)) items"
  shows "run_once X ix (fixture_source name) memcp mem_insert_batch \<lparr>fx_items = items\<rparr> InMemoryCheckpointStore_new s =
    (Inr \<lparr>ir_fetched = length items,
          ir_inserted = length (filter (\<lambda>r. \<not> mem_contains_event s (rc_event_id r)) rs),
          ir_duplicates = length (filter (\<lambda>r. mem_contains_event s (rc_event_id r)) rs),
          ir_quarantined = [], ir_unverified_order = 0, ir_has_more = False\<rparr>,
     \<lparr>fx_items = items\<rparr>, [name \<mapsto> it_position (last items)],
     foldl mem_commit s (filter (\<lambda>r. \<not> mem_contains_event s (rc_event_id r)) rs))"
proof -
  let ?n = "ix_normalize ix"
  have ok: "ingestible X ?n items" "distinct (map (ev_event_id \<circ> event_of ?n) items)"
    "list_all (\<lambda>i. eo_ledger_sequence (ev_order (event_of ?n i)) \<noteq> None) items" "items \<noteq> []" "length items \<le> 100"
    using assms(1) by (simp_all add: demo_ok_def)
  have page: "fetch_after (fixture_source name) \<lparr>fx_items = items\<rparr> None 100
      = (Inr (SourcePage_new items None), \<lparr>fx_items = items\<rparr>)"
    using ok(5) by (simp add: fixture_source_def fixture_fetch_after_def Let_def)
  have acc: "list_all (accepted X ?n) items" using ok(1) by (simp add: ingestible_def)
  from ingest_items_exact [OF acc assms(3) ok(2) _ ok(3), of "start_state (SourcePage_new items None)"] obtain g where
    st: "ingest_items X ix items (start_state (SourcePage_new items None))
      = Inr \<lparr>is_report = initial_report (SourcePage_new items None), is_guard = g, is_records = rs,
             is_placements = map (ev_order \<circ> event_of ?n) items\<rparr>"
    by (auto simp: rs_def)
  have inc: "is_strictly_increasing (map (ev_order \<circ> event_of ?n) items)"
  proof -
    have "filter (\<lambda>p. eo_ledger_sequence p \<noteq> None) (map (ev_order \<circ> event_of ?n) items) = map (ev_order \<circ> event_of ?n) items"
      using ok(3) by (auto simp: filter_id_conv list_all_iff)
    then show ?thesis using ok(1) by (simp only: ingestible_def)
  qed
  have wf: "batch_wf rs" using demo_batch_wf [OF assms(1)] by (simp add: rs_def)
  have "mem_insert_batch s rs = (Inr \<lparr>bo_inserted = length (filter (\<lambda>r. \<not> mem_contains_event s (rc_event_id r)) rs),
      bo_duplicates = length (filter (\<lambda>r. mem_contains_event s (rc_event_id r)) rs)\<rparr>,
      foldl mem_commit s (filter (\<lambda>r. \<not> mem_contains_event s (rc_event_id r)) rs))"
    using wf by (simp add: mem_insert_batch_Inr batch_wf_def)
  moreover have "rs \<noteq> []" using ok(4) by (simp add: rs_def)
  moreover have "label_ok 512 (it_position (last items))"
    using acc ok(4) by (simp add: list_all_iff accepted_def)
  ultimately show ?thesis
    using st page inc wf ok(4) assms(2,4,5)
    by (simp add: run_once_def ingest_page_def append_page_def iffD2 [OF WriteBatch_new_Inr] checkpoint_page_def
        SourceCursor_new_def Checkpoint_at_def validate_source_name_def memcp_def memcp_save_def memcp_load_def
        fixture_source_def initial_report_def SourcePage_new_def SourcePage_has_more_def InMemoryCheckpointStore_new_def)
qed


text \<open>Records that arrive in the order of their keys are kept in the order of arrival.\<close>

lemma bt_insert_last: "\<forall>q \<in> fst ` set m. q < k \<Longrightarrow> bt_insert k v m = m @ [(k, v)]"
  by (induction m) auto

lemma commit_in_order:
  "sorted_wrt (<) (map fst (ms_records s) @ map PositionKey_of rs) \<Longrightarrow>
     ms_records (foldl mem_commit s rs) = ms_records s @ map (\<lambda>r. (PositionKey_of r, r)) rs"
proof (induction rs arbitrary: s)
  case (Cons r rs)
  then have "ms_records (mem_commit s r) = ms_records s @ [(PositionKey_of r, r)]"
    by (auto simp: sorted_wrt_append intro!: bt_insert_last)
  with Cons.IH [of "mem_commit s r"] Cons.prems show ?case by simp
qed simp

lemma PositionKey_of_less:
  "compare_order (ev_order (rc_event r)) (ev_order (rc_event t)) = Less \<Longrightarrow> PositionKey_of r < PositionKey_of t"
  by (cases "cmp_unknown_last (eo_ledger_sequence (ev_order (rc_event r))) (eo_ledger_sequence (ev_order (rc_event t)))";
      cases "cmp_unknown_last (eo_operation_index (ev_order (rc_event r))) (eo_operation_index (ev_order (rc_event t)))")
     (auto simp: compare_order_def opt_cmp_unknown_last less_PositionKey_def PositionKey_cmp_def PositionKey_of_def Let_def)

lemma demo_history:
  assumes "demo_ok X n items"
  shows "map snd (ms_records (foldl mem_commit mem_new (map (demo_record X n) items))) = map (demo_record X n) items"
proof -
  have acc: "accepted X n i" if "i \<in> set items" for i
    using assms that by (simp add: demo_ok_def ingestible_def list_all_iff)
  have "filter (\<lambda>p. eo_ledger_sequence p \<noteq> None) (map (ev_order \<circ> event_of n) items) = map (ev_order \<circ> event_of n) items"
    using assms by (auto simp: demo_ok_def filter_id_conv list_all_iff)
  with assms have "is_strictly_increasing (map (ev_order \<circ> event_of n) items)"
    by (simp only: demo_ok_def ingestible_def)
  then have "sorted_wrt (\<lambda>i j. compare_order (ev_order (event_of n i)) (ev_order (event_of n j)) = Less) items"
    by (simp add: is_strictly_increasing_iff sorted_wrt_map)
  then have "sorted_wrt (\<lambda>i j. PositionKey_of (demo_record X n i) < PositionKey_of (demo_record X n j)) items"
    by (rule sorted_wrt_mono_rel [rotated]) (simp add: PositionKey_of_less demo_record_fields acc)
  then have "sorted_wrt (<) (map PositionKey_of (map (demo_record X n) items))"
    by (simp add: sorted_wrt_map)
  with commit_in_order [of mem_new "map (demo_record X n) items"] show ?thesis
    by (simp add: mem_new_def comp_def)
qed

lemma demo_indexer_eq:
  "demo_indexer N source =
     Some \<lparr>ix_normalize = normalizing N \<lparr>nc_network = ''testnet'', nc_source = source, nc_parser_version = ''1.0.0''\<rparr>,
           ix_clock = (\<lambda>_. 1700000500), ix_dedup_policy = SkipDuplicates, ix_malformed_policy = AbortOnMalformed,
           ix_page_limit = 100\<rparr>"
  by (simp add: demo_indexer_def NetworkId_new_def VersionLabel_new_def Indexer_new_def NormalizeConfig_new_def
      ascii_defs byte_def)

abbreviation demo_normalizer ::
  "('n, 'z) normalizer_ext_scheme \<Rightarrow> string \<Rightarrow> RawEventItem \<Rightarrow> NormalizerError + AuditEvent" where
  "demo_normalizer N source \<equiv>
     normalizing N \<lparr>nc_network = ''testnet'', nc_source = source, nc_parser_version = ''1.0.0''\<rparr>"

lemma demo_store_contains:
  assumes "demo_ok X n items" "i \<in> set items"
  shows "mem_contains_event (foldl mem_commit mem_new (map (demo_record X n) items)) (rc_event_id (demo_record X n i))"
  using assms(2) by auto

text \<open>The two runs of an example: into the empty store, and again into the store that results.\<close>

lemma demo_first_run:
  assumes "demo_ok X (ix_normalize ix) items" "label_ok 64 name"
    and "ix_clock ix = (\<lambda>_. 1700000500)" "ix_dedup_policy ix = SkipDuplicates" "ix_page_limit ix = 100"
  shows "run_once X ix (fixture_source name) memcp mem_insert_batch \<lparr>fx_items = items\<rparr> InMemoryCheckpointStore_new mem_new =
    (Inr \<lparr>ir_fetched = length items, ir_inserted = length items, ir_duplicates = 0,
          ir_quarantined = [], ir_unverified_order = 0, ir_has_more = False\<rparr>,
     \<lparr>fx_items = items\<rparr>, [name \<mapsto> it_position (last items)],
     foldl mem_commit mem_new (map (demo_record X (ix_normalize ix)) items))"
  using fixture_run [OF assms, of mem_new] by (simp add: mem_contains_event_def mem_new_def)

lemma demo_second_run:
  assumes "demo_ok X (ix_normalize ix) items" "label_ok 64 name"
    and "ix_clock ix = (\<lambda>_. 1700000500)" "ix_dedup_policy ix = SkipDuplicates" "ix_page_limit ix = 100"
  defines "s \<equiv> foldl mem_commit mem_new (map (demo_record X (ix_normalize ix)) items)"
  shows "run_once X ix (fixture_source name) memcp mem_insert_batch \<lparr>fx_items = items\<rparr> InMemoryCheckpointStore_new s =
    (Inr \<lparr>ir_fetched = length items, ir_inserted = 0, ir_duplicates = length items,
          ir_quarantined = [], ir_unverified_order = 0, ir_has_more = False\<rparr>,
     \<lparr>fx_items = items\<rparr>, [name \<mapsto> it_position (last items)], s)"
proof -
  have "filter (\<lambda>r. \<not> mem_contains_event s (rc_event_id r)) (map (demo_record X (ix_normalize ix)) items) = []"
    "filter (\<lambda>r. mem_contains_event s (rc_event_id r)) (map (demo_record X (ix_normalize ix)) items)
      = map (demo_record X (ix_normalize ix)) items"
    using demo_store_contains [OF assms(1)] by (auto simp: s_def filter_empty_conv filter_id_conv)
  with fixture_run [OF assms(1-5), of s] show ?thesis by simp
qed

lemma show_nat_digit: "show_nat 0 = ''0''" "show_nat 3 = ''3''" "show_nat 6 = ''6''" "show_nat (Suc (Suc (Suc 0))) = ''3''"
  by code_simp+

lemma load_fixtures_length: "load_fixtures files fs = Some items \<Longrightarrow> length items = length fs"
  by (induction files fs arbitrary: items rule: load_fixtures.induct) (auto simp: bind_eq_Some_conv)

text \<open>
  The \<open>ingest-event\<close> walk-through.  Whenever the three fixture files can be read and hold events of different
  identity that the normalizer accepts, with known placements in ledger order, the program does not
  panic and prints exactly these lines: both assertions hold, everything is recorded once, and the
  second run over the same window from a fresh checkpoint records nothing.
\<close>

lemma ingest_event_walkthrough:
  assumes "load_fixtures files FIXTURES = Some items" "demo_ok N (demo_normalizer N ''safeguard-hooks'') items"
  shows "ingest_event_main N files =
    Some [''Ingesting 3 fixture events from `hooks-state-event`...'',
          ''  first run:  fetched 3, inserted 3, duplicate 0, quarantined 0, unverified-order 0'',
          ''  re-run:     fetched 3, inserted 0, duplicate 3, quarantined 0, unverified-order 0'',
          ''Store holds 3 records; re-ingestion added 0 (idempotent).'',
          ''OK: ingestion is checkpointed, ordered, and idempotent.'']"
proof -
  have len: "length items = 3"
    using load_fixtures_length [OF assms(1)] by (simp add: FIXTURES_def)
  have name: "label_ok 64 ''fixture:demo''" by (simp add: label_ok_def ascii_defs byte_def)
  have n: "mem_len (foldl mem_commit mem_new (map (demo_record N (demo_normalizer N ''safeguard-hooks'')) items)) = 3"
    using arg_cong [OF demo_history [OF assms(2)], of length] len by (simp add: mem_len_def)
  let ?ix = "\<lparr>ix_normalize = demo_normalizer N ''safeguard-hooks'', ix_clock = (\<lambda>_. 1700000500),
    ix_dedup_policy = SkipDuplicates, ix_malformed_policy = AbortOnMalformed, ix_page_limit = 100\<rparr>"
  note runs = demo_first_run [of N ?ix items, OF _ name, folded ingest_demo_source_def]
    demo_second_run [of N ?ix items, OF _ name, folded ingest_demo_source_def]
  from runs show ?thesis
    using assms n len
    by (simp add: ingest_event_main_def demo_indexer_eq IngestReport_to_string_def show_nat_digit)
qed


text \<open>What makes a list of items fit for the programs, by the events they stand for.\<close>

lemma demo_ok_events:
  assumes "list_all2 (\<lambda>i e. n i = Inr e \<and> label_ok 512 (it_position i)) items es"
    and "\<forall>e \<in> set es. event_wf e \<and> ev_kind e \<noteq> EventKind.RecordCorrected \<and> eo_ledger_sequence (ev_order e) \<noteq> None
           \<and> json_event X e = Inr (enc e)"
    and "distinct (map ev_event_id es)" "distinct (map (id_derive_bytes X RecordIdT \<circ> enc) es)"
    and "is_strictly_increasing (map ev_order es)" "es \<noteq> []" "length es \<le> 100"
  shows "demo_ok X n items"
proof -
  have ev: "map (event_of n) items = es"
    using assms(1) by (induction rule: list_all2_induct) (auto simp: event_of_def)
  have mem: "event_of n i \<in> set es" "n i = Inr (event_of n i)" "label_ok 512 (it_position i)" if "i \<in> set items" for i
    using assms(1) that ev by (auto simp: list_all2_conv_all_nth in_set_conv_nth event_of_def)
  have rec: "from_event X (event_of n i) now = Inr r \<Longrightarrow> rc_record_id r = id_derive_bytes X RecordIdT (enc (event_of n i))
      \<and> rc_event r = event_of n i" if "i \<in> set items" for i now r
    using mem(1) [OF that] assms(2) by (auto simp: from_event_eq_Inr)
  have "accepted X n i" if "i \<in> set items" for i
    using mem [OF that] assms(2) by (auto simp: accepted_def from_event_eq_Inr)
  moreover have "told_apart X n (set items)"
    unfolding told_apart_def
  proof (intro ballI allI impI)
    fix i j r t
    assume ij: "i \<in> set items" "j \<in> set items"
      and f: "from_event X (event_of n i) 0 = Inr r" "from_event X (event_of n j) 0 = Inr t"
      and "rc_record_id r = rc_record_id t"
    with rec have "id_derive_bytes X RecordIdT (enc (event_of n i)) = id_derive_bytes X RecordIdT (enc (event_of n j))" by metis
    with assms(4) mem(1) ij have "event_of n i = event_of n j"
      by (simp only: distinct_map) (metis comp_apply inj_onD)
    with rec ij f show "rc_event_id r = rc_event_id t" by (simp add: rc_event_id_def)
  qed
  moreover have order: "map (ev_order \<circ> event_of n) items = map ev_order es" and ids: "map (ev_event_id \<circ> event_of n) items = map ev_event_id es"
    by (simp_all add: ev [symmetric])
  moreover have "list_all (\<lambda>p. eo_ledger_sequence p \<noteq> None) (map ev_order es)" using assms(2) by (auto simp: list_all_iff)
  then have "filter (\<lambda>p. eo_ledger_sequence p \<noteq> None) (map ev_order es) = map ev_order es"
    by (simp add: filter_id_conv list_all_iff)
  ultimately show ?thesis
    using assms(2,3,5-7) mem ev unfolding demo_ok_def ingestible_def order ids
    by (auto simp: list_all_iff)
qed

section \<open>The repository's fixtures\<close>

text \<open>
  The three files of \<open>fixtures/events\<close> the programs read, as the values they parse to, under parameters whose
  hash keeps the two ends of its input.
\<close>

definition demo_raws :: "(string \<times> RawHooksEvent) list" where
  "demo_raws =
     [(''bound-token/observed-hooks-event.json'',
       \<lparr>rh_hooks_type = HooksType.TokenBound,
        rh_token = Some ''CCONFIDENTIALTOKENDEMO000000000000000000000000000000'', rh_admin = None, rh_account = None,
        rh_policy = None, rh_sac_passthrough = None, rh_ledger = 415, rh_close_time = 1700000100,
        rh_transaction_hash = ''aaaaaaaaaaaaaaaaaaaaaaaaaaaaaaaaaaaaaaaaaaaaaaaaaaaaaaaaaaaaaaaa'', rh_operation_index = 0, rh_event_index = 0\<rparr>),
      (''config-change/observed-hooks-event.json'',
       \<lparr>rh_hooks_type = HooksType.ComplianceConfigChanged,
        rh_token = Some ''CCONFIDENTIALTOKENDEMO000000000000000000000000000000'', rh_admin = None, rh_account = None,
        rh_policy = Some ''CPOLICYCONTRACTDEMO0000000000000000000000000000000000'', rh_sac_passthrough = Some True,
        rh_ledger = 419, rh_close_time = 1700000050,
        rh_transaction_hash = ''bbbbbbbbbbbbbbbbbbbbbbbbbbbbbbbbbbbbbbbbbbbbbbbbbbbbbbbbbbbbbbbb'', rh_operation_index = 1, rh_event_index = 0\<rparr>),
      (''frozen-account/observed-hooks-event.json'',
       \<lparr>rh_hooks_type = HooksType.AccountFrozen,
        rh_token = Some ''CCONFIDENTIALTOKENDEMO000000000000000000000000000000'', rh_admin = None,
        rh_account = Some ''GAFROZENACCOUNTDEMO00000000000000000000000000000000000'', rh_policy = None,
        rh_sac_passthrough = None, rh_ledger = 423, rh_close_time = 1700000400,
        rh_transaction_hash = ''efefefefefefefefefefefefefefefefefefefefefefefefefefefefefefefef'', rh_operation_index = 2, rh_event_index = 0\<rparr>)]"

definition hooks_value :: "RawHooksEvent \<Rightarrow> int Value" where
  "hooks_value raw = Object
     ((case rh_account raw of Some a \<Rightarrow> [(''account'', String a)] | None \<Rightarrow> [])
      @ [(''close_time'', Number (rh_close_time raw)), (''event_index'', Number (int (rh_event_index raw))),
         (''ledger'', Number (rh_ledger raw)), (''operation_index'', Number (int (rh_operation_index raw)))]
      @ (case rh_policy raw of Some p \<Rightarrow> [(''policy'', String p)] | None \<Rightarrow> [])
      @ (case rh_sac_passthrough raw of Some b \<Rightarrow> [(''sac_passthrough'', Bool b)] | None \<Rightarrow> [])
      @ (case rh_token raw of Some t \<Rightarrow> [(''token'', String t)] | None \<Rightarrow> [])
      @ [(''transaction_hash'', String (rh_transaction_hash raw)),
         (''type'', String (HooksType_as_str (rh_hooks_type raw)))])"

definition demo_ext :: "int normalizer_ext" where
  "demo_ext =
     \<lparr>sha256 = Abs_hash256 \<circ> ends_32, json_strings = concat,
      json_event = \<lambda>e. Inr (case ev_transaction e of Some t \<Rightarrow> txr_hash t | None \<Rightarrow> ''{}''),
      json_from_str = \<lambda>p. (case map_of demo_raws p of Some raw \<Rightarrow> Inr (hooks_value raw) | None \<Rightarrow> Inl ''expected value''),
      num_as_i64 = Some, num_as_u64 = \<lambda>n. if n \<ge> 0 then Some (nat n) else None,
      event_from_value = \<lambda>_. Inl ''not an envelope''\<rparr>"

text \<open>Every file is its own path: the parameter \<open>json_from_str\<close> gives it its meaning.\<close>

definition demo_files :: "string \<Rightarrow> string option" where
  "demo_files path = map_option (\<lambda>_. path) (map_of demo_raws path)"

definition demo_items :: "RawEventItem list" where
  "demo_items = map (\<lambda>(path, pos). \<lparr>it_scheme = ''hooks-state-event'', it_payload = path, it_position = pos\<rparr>) FIXTURES"

abbreviation demo_config :: NormalizeConfig where
  "demo_config \<equiv> \<lparr>nc_network = ''testnet'', nc_source = ''safeguard-hooks'', nc_parser_version = ''1.0.0''\<rparr>"

lemma demo_fixtures: "load_fixtures demo_files FIXTURES = Some demo_items"
  by (simp add: FIXTURES_def fixture_def demo_files_def demo_raws_def demo_items_def RawEventItem_new_def
      validate_label_def label_ok_def ascii_defs byte_def)

lemma demo_raws_distinct: "distinct (map fst demo_raws)" "map fst demo_raws = map fst FIXTURES"
  by (simp_all add: demo_raws_def FIXTURES_def)

lemma demo_numbers [simp]:
  "num_as_i64 demo_ext n = Some n" "num_as_u64 demo_ext n = (if n \<ge> 0 then Some (nat n) else None)"
  by (simp_all add: demo_ext_def)

lemma demo_lookup: "(path, raw) \<in> set demo_raws \<Longrightarrow> json_from_str demo_ext path = Inr (hooks_value raw)"
  using demo_raws_distinct(1) by (simp add: demo_ext_def map_of_eq_Some_iff [THEN iffD2])

lemma demo_raws_valid:
  "list_all (\<lambda>(path, raw). validate_hooks_state raw = Inr ()) demo_raws"
  "list_all (\<lambda>(path, raw). rh_operation_index raw < 2 ^ 32 \<and> rh_event_index raw < 2 ^ 32 \<and> rh_admin raw = None
     \<and> 0 \<le> rh_ledger raw) demo_raws"
  unfolding validate_hooks_state_Inr Ball_def [symmetric] ball_Un
  by (simp_all add: demo_raws_def hooks_fields_match_def has_defs ref_ok_def REF_MAX_LEN_def ex_bool_eq
      is_sha256_hex_def ascii_defs byte_def list_all_iff)

lemma demo_raw_bounds:
  assumes "(path, raw) \<in> set demo_raws"
  shows "validate_hooks_state raw = Inr ()" "rh_operation_index raw < 2 ^ 32" "rh_event_index raw < 2 ^ 32"
    "rh_admin raw = None" "0 \<le> rh_ledger raw"
  using demo_raws_valid assms by (auto simp only: list_all_iff split: prod.splits)

lemma demo_parsed:
  assumes "(path, raw) \<in> set demo_raws"
  shows "parse_hooks_state demo_ext path = Inr raw"
  using demo_lookup [OF assms] demo_raw_bounds(2-5) [OF assms]
  by (cases "rh_account raw"; cases "rh_policy raw"; cases "rh_sac_passthrough raw"; cases "rh_token raw")
     (simp_all add: parse_hooks_state_def as_object_def parse_json_def HOOKS_FIELDS_def hooks_value_def
      optional_string_def required_string_def number_field_def u32_try_from_def)

lemma demo_normalized:
  assumes "(path, raw) \<in> set demo_raws"
  shows "demo_normalizer demo_ext ''safeguard-hooks'' \<lparr>it_scheme = ''hooks-state-event'', it_payload = path, it_position = pos\<rparr>
    = Inr (hooks_event demo_ext demo_config raw)"
proof -
  have p: "EventProvenance_new OnChain (nc_source demo_config) (nc_parser_version demo_config) =
     Inr \<lparr>ep_origin = OnChain, ep_source = ''safeguard-hooks'', ep_parser_version = ''1.0.0'', ep_derivation = None\<rparr>"
    by (simp add: EventProvenance_new_def ascii_defs byte_def)
  have "normalize demo_ext demo_config \<lparr>it_scheme = ''hooks-state-event'', it_payload = path, it_position = pos\<rparr>
    = Inr \<lparr>ne_event = hooks_event demo_ext demo_config raw, ne_scheme = HooksStateEvent, ne_position = pos\<rparr>"
    using classify_hooks_valid [OF demo_raw_bounds(1) [OF assms] p, of demo_ext]
    by (simp add: normalize_Inr demo_parsed [OF assms] demo_raw_bounds(1) [OF assms])
      (simp add: hooks_event_def Let_def)
  then show ?thesis by (simp add: normalizing_def)
qed

lemma demo_events:
  "map (event_of (demo_normalizer demo_ext ''safeguard-hooks'')) demo_items
     = map (hooks_event demo_ext demo_config \<circ> snd) demo_raws"
  using demo_normalized by (simp add: demo_items_def FIXTURES_def demo_raws_def event_of_def)

lemma take_hex_lower: "take (2 * n) (hex_lower bs) = hex_lower (take n bs)"
proof (induction n arbitrary: bs)
  case (Suc n)
  then show ?case by (cases bs) (simp_all add: hex_lower_def)
qed (simp add: hex_lower_def)

lemma take_ends_32: "take 16 (ends_32 bs) = take 16 (bs @ replicate 16 (CHR 0x00))"
  by (simp add: ends_32_def)

lemma ends_id_eq:
  assumes "sha256 X = Abs_hash256 \<circ> ends_32"
  shows "id_derive_bytes X t bs = PREFIX t @ ''_'' @ hex_lower (take 16 (bs @ replicate 16 (CHR 0x00)))"
  unfolding take_ends_32 [symmetric] using take_hex_lower [of 16 "ends_32 bs"]
  by (simp add: id_derive_bytes_def derive_bytes_def sha256_hex_def BODY_HEX_LEN_def assms)

lemma demo_sha256: "sha256 demo_ext = Abs_hash256 \<circ> ends_32"
  by (simp add: demo_ext_def)

lemma demo_id_inject:
  "id_derive_bytes demo_ext t bs = id_derive_bytes demo_ext t cs \<longleftrightarrow>
     take 16 (bs @ replicate 16 (CHR 0x00)) = take 16 (cs @ replicate 16 (CHR 0x00))"
  unfolding ends_id_eq [OF demo_sha256] by (simp add: hex_lower_inject)

lemma demo_event_ids: "distinct (map (ev_event_id \<circ> (hooks_event demo_ext demo_config \<circ> snd)) demo_raws)"
proof -
  have "ev_event_id (hooks_event demo_ext demo_config raw) = id_derive_bytes demo_ext EventIdT
      (''testnet'' @ rh_transaction_hash raw @ concat [''op:'' @ show_nat (rh_operation_index raw),
        ''ev:'' @ show_nat (rh_event_index raw), EventKind_as_str (to_event_kind (rh_hooks_type raw))])" for raw
    by (simp add: hooks_event_def Let_def derive_event_id_def id_derive_def id_derive_bytes_def derive_def demo_ext_def)
  then show ?thesis by (simp add: demo_raws_def demo_id_inject)
qed

lemma demo_record_ids:
  "distinct (map (id_derive_bytes demo_ext RecordIdT \<circ> (rh_transaction_hash \<circ> snd)) demo_raws)"
  by (simp add: demo_raws_def demo_id_inject)

abbreviation demo_event :: "RawHooksEvent \<Rightarrow> AuditEvent" where
  "demo_event \<equiv> hooks_event demo_ext demo_config"

lemma demo_from_event:
  "from_event demo_ext (demo_event raw) now = Inr r \<Longrightarrow>
     rc_record_id r = id_derive_bytes demo_ext RecordIdT (rh_transaction_hash raw) \<and> rc_event r = demo_event raw"
  by (auto simp: from_event_eq_Inr) (simp add: demo_ext_def hooks_event_def Let_def)

lemma demo_items_ok: "demo_ok demo_ext (demo_normalizer demo_ext ''safeguard-hooks'') demo_items"
proof (rule demo_ok_events [where es = "map (demo_event \<circ> snd) demo_raws"
      and enc = "\<lambda>e. case ev_transaction e of Some t \<Rightarrow> txr_hash t | None \<Rightarrow> ''{}''"])
  show "list_all2 (\<lambda>i e. demo_normalizer demo_ext ''safeguard-hooks'' i = Inr e \<and> label_ok 512 (it_position i)) demo_items
      (map (demo_event \<circ> snd) demo_raws)"
    using demo_normalized by (simp add: demo_items_def FIXTURES_def demo_raws_def label_ok_def ascii_defs byte_def)
  show "distinct (map ev_event_id (map (demo_event \<circ> snd) demo_raws))" using demo_event_ids by (simp add: comp_assoc)
  have "(case ev_transaction (demo_event raw) of Some t \<Rightarrow> txr_hash t | None \<Rightarrow> ''{}'') = rh_transaction_hash raw" for raw
    by (simp add: hooks_event_def Let_def)
  then show "distinct (map (id_derive_bytes demo_ext RecordIdT \<circ> (\<lambda>e. case ev_transaction e of Some t \<Rightarrow> txr_hash t | None \<Rightarrow> ''{}''))
      (map (demo_event \<circ> snd) demo_raws))" using demo_record_ids by (simp add: comp_def)
  show "is_strictly_increasing (map ev_order (map (demo_event \<circ> snd) demo_raws))"
    by (simp add: demo_raws_def hooks_event_def Let_def compare_order_def)
  have "ev_kind (demo_event raw) \<noteq> EventKind.RecordCorrected" for raw
    by (cases "rh_hooks_type raw") (simp_all add: hooks_event_def Let_def)
  moreover have "eo_ledger_sequence (ev_order (demo_event raw)) \<noteq> None" for raw by (simp add: hooks_event_def Let_def)
  moreover have "json_event demo_ext e = Inr (case ev_transaction e of Some t \<Rightarrow> txr_hash t | None \<Rightarrow> ''{}'')" for e
    by (simp add: demo_ext_def)
  ultimately show "\<forall>e \<in> set (map (demo_event \<circ> snd) demo_raws). event_wf e \<and> ev_kind e \<noteq> EventKind.RecordCorrected
      \<and> eo_ledger_sequence (ev_order e) \<noteq> None
      \<and> json_event demo_ext e = Inr (case ev_transaction e of Some t \<Rightarrow> txr_hash t | None \<Rightarrow> ''{}'')"
    using hooks_event_wf by auto
qed (simp_all add: demo_raws_def)

lemma demo_accepted: "i \<in> set demo_items \<Longrightarrow> accepted demo_ext (demo_normalizer demo_ext ''safeguard-hooks'') i"
  using demo_items_ok by (simp add: demo_ok_def ingestible_def list_all_iff)

lemma ingest_event_committed_fixtures:
  "ingest_event_main demo_ext demo_files =
    Some [''Ingesting 3 fixture events from `hooks-state-event`...'',
          ''  first run:  fetched 3, inserted 3, duplicate 0, quarantined 0, unverified-order 0'',
          ''  re-run:     fetched 3, inserted 0, duplicate 3, quarantined 0, unverified-order 0'',
          ''Store holds 3 records; re-ingestion added 0 (idempotent).'',
          ''OK: ingestion is checkpointed, ordered, and idempotent.'']"
  by (rule ingest_event_walkthrough [OF demo_fixtures demo_items_ok])


section \<open>\<open>verify-record\<close>: the altered record is named\<close>

lemma query_all_history:
  assumes "mem_inv s" "mem_len s \<le> limit" "1 \<le> limit" "limit \<le> 1000"
  shows "query_all s limit = Some (map snd (ms_records s))"
proof -
  have q: "matches AuditQuery_builder r" for r by (simp add: matches_def AuditQuery_builder_def)
  then have "page_rest s AuditQuery_builder None = map snd (ms_records s)"
    by (simp add: page_rest_def mem_matched_def AuditQuery_builder_def)
  with mem_query_eq [OF assms(1), of "\<lparr>pr_limit = limit, pr_cursor = None\<rparr>" None AuditQuery_builder] assms(2-4)
  show ?thesis
    by (simp add: query_all_def AuditQuery_build_def AuditQuery_builder_def PageRequest_new_def
        PageRequest_with_cursor_def boundary_def mem_len_def Page_new_def MAX_PAGE_SIZE_def)
qed

lemma demo_query:
  assumes "demo_ok X n items"
  shows "query_all (foldl mem_commit mem_new (map (demo_record X n) items)) 1000 = Some (map (demo_record X n) items)"
proof -
  let ?s = "foldl mem_commit mem_new (map (demo_record X n) items)"
  have "mem_inv ?s"
    using demo_batch_wf [OF assms] by (intro mem_inv_foldl_commit) (auto simp: batch_wf_def list_all_iff)
  moreover have "mem_len ?s \<le> 1000"
    using arg_cong [OF demo_history [OF assms], of length] assms by (simp add: mem_len_def demo_ok_def)
  ultimately show ?thesis using query_all_history [of ?s 1000] demo_history [OF assms] by simp
qed

text \<open>The fixtures of \<open>verify-record\<close> are those of \<open>ingest-event\<close>, loaded one by one.\<close>

lemma fixtures_loaded:
  assumes "load_fixtures files FIXTURES = Some items"
  obtains i0 i1 i2 where "items = [i0, i1, i2]"
    "fixture files ''hooks-state-event'' ''bound-token/observed-hooks-event.json'' ''ledger:415'' = Some i0"
    "fixture files ''hooks-state-event'' ''config-change/observed-hooks-event.json'' ''ledger:419'' = Some i1"
    "fixture files ''hooks-state-event'' ''frozen-account/observed-hooks-event.json'' ''ledger:423'' = Some i2"
  using assms that by (auto simp: FIXTURES_def bind_eq_Some_conv)

lemma seal_three:
  assumes "map (canonical_record_input X) [r, s, t] = [Inr a, Inr b, Inr c]"
  shows "\<exists>r' s' t'. seal_chain X [r, s, t] = Inr [r', s', t'] \<and> verify_chain X [r', s', t'] = Inr ()
    \<and> chain_head None [r'] = Some (hash_bytes X a) \<and> (\<exists>i. s' = s\<lparr>rc_integrity := i\<rparr>)"
proof -
  have "\<exists>ss. seal_from X None [r, s, t] = Inr ss" using assms seal_from_total [of X None "[r, s, t]"] by auto
  then obtain r' s' t' where s: "seal_from X None [r, s, t] = Inr [r', s', t']" "(\<exists>i. s' = s\<lparr>rc_integrity := i\<rparr>)"
      "rc_integrity r' = Some \<lparr>ri_digest = hash_bytes X a, ri_prev_digest = None, ri_chained = True\<rparr>"
    using assms by (auto simp: map_ok_eq_Inr record_digest_def split: sum.splits)
  moreover from seal_from_again [OF s(1)] have "verify_from X None [r', s', t'] = Inr ()"
    by (simp only: verify_from_iff_sealed)
  ultimately show ?thesis unfolding seal_chain_def verify_chain_def
    by (intro exI [of _ r'] exI [of _ s'] exI [of _ t']) (simp add: chain_head_def del: verify_from.simps seal_from.simps)
qed

text \<open>
  The \<open>verify-record\<close> walk-through.  Over readable fixtures the normalizer accepts (as above) whose records
  serialize, the program does not panic: the sealed history verifies, and with \<open>--tamper\<close> the altered
  record is named by its identifier, unless the altered content has the same SHA-256 value.
\<close>

lemma verify_record_walkthrough:
  fixes X :: "('y) integrity_ext_scheme" and N :: "('n, 'z) normalizer_ext_scheme"
  defines "n \<equiv> demo_normalizer N ''safeguard-hooks''"
  assumes "load_fixtures files FIXTURES = Some items" "demo_ok X n items"
    and "map (canonical_record_input X \<circ> demo_record X n) items = [Inr a, Inr b, Inr c]"
    and "canonical_record_input X ((demo_record X n (items ! 1))\<lparr>rc_recorded_at := 1700000007\<rparr>) = Inr b'"
    and "sha256 X (sha256_hex X a @ b') \<noteq> sha256 X (sha256_hex X a @ b)"
  shows "verify_record_main X N args files =
    Some ([''Sealing 3 records into a chained digest sequence...'',
           ''  chain verified: every digest recomputes, every linkage holds.'']
          @ (if ''--tamper'' \<in> set args
             then [''  tamper demo:  record '' @ rc_record_id (demo_record X n (items ! 1))
                     @ '' -> digest-mismatch (record digest does not recompute from its content).'',
                   ''  Detection confirmed: the altered record is named, not merely flagged.'']
             else [''  Run with `-- --tamper` to see tamper detection in action.''])
          @ [''OK: records are tamper-evident and verification is deterministic.''])"
proof -
  from assms(2) obtain i0 i1 i2 where items: "items = [i0, i1, i2]" and
    fx: "fixture files ''hooks-state-event'' ''bound-token/observed-hooks-event.json'' ''ledger:415'' = Some i0"
    "fixture files ''hooks-state-event'' ''config-change/observed-hooks-event.json'' ''ledger:419'' = Some i1"
    "fixture files ''hooks-state-event'' ''frozen-account/observed-hooks-event.json'' ''ledger:423'' = Some i2"
    by (rule fixtures_loaded)
  let ?r = "demo_record X n"
  from assms(4) have "map (canonical_record_input X) [?r i0, ?r i1, ?r i2] = [Inr a, Inr b, Inr c]"
    by (simp add: items)
  from seal_three [OF this] obtain r s t i where sealed: "seal_chain X [?r i0, ?r i1, ?r i2] = Inr [r, s, t]"
    "verify_chain X [r, s, t] = Inr ()" "chain_head None [r] = Some (hash_bytes X a)" "s = (?r i1)\<lparr>rc_integrity := i\<rparr>" by blast
  let ?s = "s\<lparr>rc_recorded_at := 1700000007\<rparr>"
  have "canonical_record_input X s = Inr b" using sealed(4) assms(4) by (simp add: items)
  moreover have "?s = (?r i1)\<lparr>rc_recorded_at := 1700000007\<rparr>\<lparr>rc_integrity := i\<rparr>" using sealed(4) by simp
  then have "canonical_record_input X ?s = Inr b'" using assms(5) by (simp only: canonical_input_integrity items) simp
  ultimately have "locate_tampering X [r, ?s, t] =
      Inr [VerificationOutcome_new (rc_record_id s) DigestMismatch None None
             (Some ''record digest does not recompute from its content'')]"
    using altered_record_located [OF sealed(2), of 1 ?s b' b] assms(6) sealed(3) by (simp add: link_input_def)
  moreover have "rc_record_id s = rc_record_id (?r i1)" using sealed(4) by simp
  moreover have "label_ok 64 ''fixture:demo''" by (simp add: label_ok_def ascii_defs byte_def)
  from demo_first_run [OF _ this, of X _ items, folded verify_demo_source_def] demo_query [OF assms(3)]
  have "\<exists>rep src cps. run_once X
      \<lparr>ix_normalize = n, ix_clock = (\<lambda>_. 1700000500), ix_dedup_policy = SkipDuplicates,
       ix_malformed_policy = AbortOnMalformed, ix_page_limit = 100\<rparr> verify_demo_source memcp mem_insert_batch
      \<lparr>fx_items = items\<rparr> InMemoryCheckpointStore_new mem_new =
      (Inr rep, src, cps, foldl mem_commit mem_new (map ?r items))"
    using assms(3) by auto
  ultimately show ?thesis
    using fx sealed(1,2) demo_query [OF assms(3)]
    by (auto simp: verify_record_main_def demo_indexer_eq n_def [symmetric] items show_nat_digit list_ex_iff
        VerificationOutcome_new_def)
qed

definition demo_integrity_ext :: integrity_ext where
  "demo_integrity_ext =
     \<lparr>sha256 = sha256 demo_ext, json_strings = json_strings demo_ext, json_event = json_event demo_ext,
      json_record = \<lambda>r. Inr (''{'' @ [char_of (rc_recorded_at r)] @ ''}''), json_entries = \<lambda>_. Inr ''[]''\<rparr>"

lemma demo_integrity_from_event: "from_event demo_integrity_ext = from_event demo_ext"
proof (intro ext)
  fix event now
  have "event_canonical_bytes demo_integrity_ext event = event_canonical_bytes demo_ext event"
    "id_derive_bytes demo_integrity_ext RecordIdT = id_derive_bytes demo_ext RecordIdT"
    by (auto simp: event_canonical_bytes_def id_derive_bytes_def derive_bytes_def sha256_hex_def demo_integrity_ext_def)
  then show "from_event demo_integrity_ext event now = from_event demo_ext event now"
    unfolding from_event_def by metis
qed

lemma demo_integrity_ok: "demo_ok demo_integrity_ext (demo_normalizer demo_ext ''safeguard-hooks'') demo_items"
proof -
  have "accepted demo_integrity_ext n = accepted demo_ext n" "told_apart demo_integrity_ext n = told_apart demo_ext n" for n
    by (intro ext; simp only: accepted_def told_apart_def demo_integrity_from_event)+
  with demo_items_ok show ?thesis by (simp only: demo_ok_def ingestible_def simp_thms)
qed

lemma demo_integrity_record: "demo_record demo_integrity_ext = demo_record demo_ext"
  by (intro ext) (simp add: demo_record_def demo_integrity_from_event)

lemma demo_integrity_input:
  "canonical_record_input demo_integrity_ext r = Inr (''{'' @ [char_of (rc_recorded_at r)] @ ''}'')"
  by (simp add: canonical_record_input_def record_canonical_bytes_def demo_integrity_ext_def)

lemma demo_second_record:
  "rc_record_id (demo_record demo_ext (demo_normalizer demo_ext ''safeguard-hooks'') (demo_items ! 1)) =
     ''rec_62626262626262626262626262626262''"
proof -
  let ?n = "demo_normalizer demo_ext ''safeguard-hooks''" and ?i = "demo_items ! 1"
  have digits: "char_of (54 :: nat) = CHR ''6''" "char_of (50 :: nat) = CHR ''2''" by code_simp+
  have i: "?i \<in> set demo_items" by (simp add: demo_items_def FIXTURES_def)
  have "event_of ?n ?i = demo_event (snd (demo_raws ! 1))"
    using arg_cong [OF demo_events, of "\<lambda>l. l ! 1"] by (simp add: demo_items_def FIXTURES_def demo_raws_def)
  with demo_from_event demo_record_eq [OF demo_accepted [OF i]]
  have "rc_record_id (demo_record demo_ext ?n ?i) = id_derive_bytes demo_ext RecordIdT (rh_transaction_hash (snd (demo_raws ! 1)))"
    by metis
  also have "\<dots> = ''rec_62626262626262626262626262626262''"
    unfolding ends_id_eq [OF demo_sha256] by (simp add: demo_raws_def hex_lower_def hex_digit_def byte_def digits)
  finally show ?thesis .
qed

lemma verify_record_committed_fixtures:
  "verify_record_main demo_integrity_ext demo_ext [''verify-record'', ''--tamper''] demo_files =
    Some [''Sealing 3 records into a chained digest sequence...'',
          ''  chain verified: every digest recomputes, every linkage holds.'',
          ''  tamper demo:  record rec_62626262626262626262626262626262''
            @ '' -> digest-mismatch (record digest does not recompute from its content).'',
          ''  Detection confirmed: the altered record is named, not merely flagged.'',
          ''OK: records are tamper-evident and verification is deterministic.'']"
proof -
  let ?n = "demo_normalizer demo_ext ''safeguard-hooks''"
  let ?a = "''{'' @ [char_of (1700000500 :: int)] @ ''}''"
  have at: "rc_recorded_at (demo_record demo_ext ?n i) = 1700000500" if "i \<in> set demo_items" for i
    using demo_record_fields(2) [OF demo_accepted [OF that]] .
  have "map (\<lambda>i. canonical_record_input demo_integrity_ext (demo_record demo_ext ?n i)) demo_items = map (\<lambda>_. Inr ?a) demo_items"
    using at by (intro map_cong) (simp_all only: demo_integrity_input)
  then have a: "map (canonical_record_input demo_integrity_ext \<circ> demo_record demo_integrity_ext ?n) demo_items = [Inr ?a, Inr ?a, Inr ?a]"
    by (simp add: demo_integrity_record demo_items_def FIXTURES_def comp_def)
  have b: "canonical_record_input demo_integrity_ext
      ((demo_record demo_integrity_ext ?n (demo_items ! 1))\<lparr>rc_recorded_at := 1700000007\<rparr>)
    = Inr (''{'' @ [char_of (1700000007 :: int)] @ ''}'')"
    by (simp add: demo_integrity_input)
  have "ends_32 (p @ ''{'' @ [char_of (1700000007 :: int)] @ ''}'') \<noteq> ends_32 (p @ ?a)" for p
    by (rule ends_32_differ) simp
  then have "sha256 demo_integrity_ext (p @ ''{'' @ [char_of (1700000007 :: int)] @ ''}'') \<noteq> sha256 demo_integrity_ext (p @ ?a)" for p
    by (simp only: demo_integrity_ext_def demo_ext_def hash_ext.select_convs comp_apply ends_32_inject) simp
  from verify_record_walkthrough [OF demo_fixtures demo_integrity_ok a b this, of "[''verify-record'', ''--tamper'']"]
  show ?thesis by (simp add: demo_integrity_record demo_second_record [unfolded One_nat_def])
qed

end
