(* ===== verification/Audit_Walkthroughs.thy ===== *)
theory Audit_Walkthroughs
  imports Audit_Examples Audit_System Audit_Workflow
begin

text \<open>
  The walk-throughs of \<open>crates/integration-tests/examples\<close> over the three services: a case from its opening to
  its closing, a report generated twice, an evidence package sealed, verified and tampered with.  They
  ingest envelope fixtures through the source and the indexer of \<open>Audit_Examples\<close>, and every clock reads the
  same instant.
\<close>

section \<open>Shared set-up\<close>

definition demo_clock :: clock_reads where
  "demo_clock = \<lparr>at_authorize = 1700000500, at_now = 1700000500, at_record = 1700000500\<rparr>"

definition demo_registry ::
  "AuditorId \<Rightarrow> AuditorRole \<Rightarrow> NetworkId \<Rightarrow> string \<Rightarrow> Registry option" where
  "demo_registry auditor role network material =
     map_option snd (expect_with (Registry_register Registry_new (demo_grant auditor role network material 1900000000)))"

definition investigation_demo_source :: "FixtureSource EventSource" where
  "investigation_demo_source = fixture_source ''fixture:investigation-demo''"

definition reporting_demo_source :: "FixtureSource EventSource" where
  "reporting_demo_source = fixture_source ''fixture:reporting-demo''"

definition evidence_demo_source :: "FixtureSource EventSource" where
  "evidence_demo_source = fixture_source ''fixture:evidence-demo''"

text \<open>The single ingestion of an example into a new store.\<close>

definition ingest_demo ::
  "('y) event_ext_scheme \<Rightarrow> ('n, 'z) normalizer_ext_scheme \<Rightarrow> FixtureSource EventSource \<Rightarrow> RawEventItem list
     \<Rightarrow> MemoryEventStore option" where
  "ingest_demo X N S items =
     do { indexer \<leftarrow> demo_indexer N ''safeguard-audit'';
          (_, _, _, store) \<leftarrow> expect_with
            (run_once X indexer S memcp mem_insert_batch \<lparr>fx_items = items\<rparr> InMemoryCheckpointStore_new mem_new);
          Some store }"

section \<open>\<open>create-investigation\<close>\<close>

definition history_kind :: "AuditRecord \<Rightarrow> string" where
  "history_kind r =
     (case ev_kind (rc_event r) of
        InvestigationOpened \<Rightarrow> ''investigation-opened''
      | InvestigationUpdated \<Rightarrow> ''investigation-updated ('' @ detail_or ''?'' r ''status'' @ '')''
      | InvestigationClosed \<Rightarrow> ''investigation-closed''
      | other \<Rightarrow> EventKind_as_str other)"

definition history_line :: "AuditRecord \<Rightarrow> string" where
  "history_line r = ''  '' @ pad_right 28 (history_kind r) @ '' case='' @ detail_or ''-'' r ''case''"

definition case_workflow ::
  "('y) event_ext_scheme \<Rightarrow> CaseService \<Rightarrow> AuditorId \<Rightarrow> RecordId \<Rightarrow> MemoryEventStore
     \<Rightarrow> (InvestigationCase \<times> InvestigationCase \<times> MemoryEventStore) option" where
  "case_workflow X service investigator denial_id audit =
     do { (opened, cases, audit) \<leftarrow> expect_with (svc_open_case X memcase mem_audit service demo_clock
            InMemoryCaseStore_new audit investigator ''review of repeated denials'' Priority.High
            (''denial:'' @ denial_id));
          (_, cases, audit) \<leftarrow> expect_with (svc_assign X memcase mem_audit service demo_clock cases audit investigator
            (ic_case_id opened) investigator);
          (_, cases, audit) \<leftarrow> expect_with (svc_link_record X memcase mem_audit service demo_clock cases audit
            investigator (ic_case_id opened) denial_id Denial);
          (_, cases, audit) \<leftarrow> expect_with (svc_transition X memcase mem_audit service demo_clock cases audit
            investigator (ic_case_id opened) Investigating None);
          (_, cases, audit) \<leftarrow> expect_with (svc_add_finding X memcase mem_audit service demo_clock cases audit
            investigator (ic_case_id opened)
            (with_records (NewFinding_new Anomaly Severity.Medium ''denials cluster around a single source account'')
               [denial_id]));
          (_, cases, audit) \<leftarrow> expect_with (svc_add_note X memcase mem_audit service demo_clock cases audit
            investigator (ic_case_id opened) ''comparing against the policy-change record before closing'');
          (_, cases, audit) \<leftarrow> expect_with (svc_transition X memcase mem_audit service demo_clock cases audit
            investigator (ic_case_id opened) Resolved None);
          (closed, cases, audit) \<leftarrow> expect_with (svc_transition X memcase mem_audit service demo_clock cases audit
            investigator (ic_case_id opened) CaseStatus.Closed (Some ''pattern explained; no remediation needed''));
          Some (opened, closed, audit) }"

definition create_investigation_main ::
  "('y) event_ext_scheme \<Rightarrow> ('n, 'z) normalizer_ext_scheme \<Rightarrow> (string \<Rightarrow> string option) \<Rightarrow> string list option" where
  "create_investigation_main X N files =
     do { network \<leftarrow> expect (NetworkId_new ''testnet'');
          let investigator = id_derive X AuditorIdT [''investigator-01''];
          registry \<leftarrow> demo_registry investigator Investigator network ''issued-investigator-credential'';
          parser \<leftarrow> expect (VersionLabel_new ''1.0.0'');
          let service = \<lparr>sv_network = network, sv_source = ''safeguard-audit-investigation'', sv_parser = parser,
                         sv_registry = registry\<rparr>;
          item \<leftarrow> fixture files ''audit-envelope'' ''denied-transfer/event.json'' ''ledger:430'';
          audit \<leftarrow> ingest_demo X N investigation_demo_source [item];
          items \<leftarrow> query_all audit 10;
          denial \<leftarrow> (case items of [] \<Rightarrow> None | r # _ \<Rightarrow> Some r);
          (opened, closed, audit) \<leftarrow> case_workflow X service investigator (rc_record_id denial) audit;
          history \<leftarrow> query_all audit 100;
          Some
            ([''Ingested denial record '' @ rc_record_id denial @ '' (kind: ''
                @ EventKind_as_str (ev_kind (rc_event denial)) @ '').'',
              ''Opened case '' @ ic_case_id opened,
              ''Case closed: '' @ show_nat (length (ic_timeline closed)) @ '' timeline entries, ''
                @ show_nat (length (ic_findings closed)) @ '' finding(s), ''
                @ show_nat (length (ic_notes closed)) @ '' note(s).'',
              CHR 0x0A # ''Audit-store history ('' @ show_nat (length history) @ '' records):'']
             @ map history_line history
             @ [CHR 0x0A # ''OK: the case is closed, its history is append-only, and replay is idempotent.'']) }"

section \<open>\<open>generate-report\<close>\<close>

definition digest_or_dash :: "IntegrityDigest option \<Rightarrow> string" where
  "digest_or_dash d = (case d of Some d \<Rightarrow> dg_value d | None \<Rightarrow> ''-'')"

definition demo_report_request :: "AuditorId \<Rightarrow> ReportRequest" where
  "demo_report_request senior =
     ReportRequest_new DeniedTransactions (ReportQuery_with_outcome DecisionResult.Denied) senior 1700000499"

definition generate_report_main ::
  "('y) report_ext_scheme \<Rightarrow> ('n, 'z) normalizer_ext_scheme \<Rightarrow> (string \<Rightarrow> string option) \<Rightarrow> string list option" where
  "generate_report_main X N files =
     do { network \<leftarrow> expect (NetworkId_new ''testnet'');
          let senior = id_derive X AuditorIdT [''senior-auditor-01''];
          registry \<leftarrow> demo_registry senior SeniorAuditor network ''issued-senior-credential'';
          parser \<leftarrow> expect (VersionLabel_new ''1.0.0'');
          generator \<leftarrow> expect (VersionLabel_new ''0.5.0'');
          let service = ReportService_new network ''safeguard-audit-reporting'' parser generator registry;
          i0 \<leftarrow> fixture files ''audit-envelope'' ''approved-transfer/event.json'' ''ledger:430'';
          i1 \<leftarrow> fixture files ''audit-envelope'' ''denied-transfer/event.json'' ''ledger:431'';
          i2 \<leftarrow> fixture files ''audit-envelope'' ''frozen-account/event.json'' ''ledger:432'';
          audit \<leftarrow> ingest_demo X N reporting_demo_source [i0, i1, i2];
          let request = demo_report_request senior;
          generated \<leftarrow> report_generate X mem_audit service demo_clock audit request;
          (report, audit) \<leftarrow> expect_with generated;
          items \<leftarrow> query_all audit 100;
          generation \<leftarrow> find (\<lambda>r. ev_kind (rc_event r) = EventKind.ReportGenerated) items;
          generated \<leftarrow> report_generate X mem_audit service demo_clock audit request;
          (reproduced, audit) \<leftarrow> expect_with generated;
          _ \<leftarrow> assert_that (report = reproduced);
          Some
            [''Ingested 3 records (approved, denied, frozen).'',
             ''Report '' @ rp_report_id report @ '' ('' @ ReportKind_as_str (rp_kind report) @ '') over ''
               @ show_nat (su_total_records (rp_summary report)) @ '' record(s): ''
               @ show_nat (case map_of (su_by_outcome (rp_summary report)) DecisionResult.Denied of Some n \<Rightarrow> n | None \<Rightarrow> 0)
               @ '' denied, '' @ show_nat (length (rp_record_refs report)) @ '' row(s), digest ''
               @ digest_or_dash (rp_digest report),
             ''Recorded report-generated event (kind '' @ detail_or ''?'' generation ''kind'' @ '', records ''
               @ detail_or ''?'' generation ''records'' @ '')'',
             ''Reproduced identical report '' @ rp_report_id reproduced @ '' (digest ''
               @ digest_or_dash (rp_digest reproduced) @ '').'',
             CHR 0x0A # ''OK: the report is sealed, its generation is on the trail, and it reproduces.''] }"

section \<open>\<open>generate-evidence\<close>\<close>

fun joined :: "string \<Rightarrow> string list \<Rightarrow> string" where
  "joined sep [] = ''''"
| "joined sep [s] = s"
| "joined sep (s # ss) = s @ sep @ joined sep ss"

definition show_bool :: "bool \<Rightarrow> string" where
  "show_bool b = (if b then ''true'' else ''false'')"

text \<open>
  The package is written to JSON, the value of its artifact's digest is overwritten, and the result is read
  back: with the derived encodings, a package with that one field changed.  A package without a digest would
  be read back as one with a digest that has no algorithm, which fails.
\<close>

definition tamper_digest :: "EvidencePackage \<Rightarrow> EvidencePackage option" where
  "tamper_digest package =
     map_option (\<lambda>d. package\<lparr>pk_artifact := (pk_artifact package)
         \<lparr>ea_digest := Some (d\<lparr>dg_value := concat (replicate 32 ''ee'')\<rparr>)\<rparr>\<rparr>)
       (ea_digest (pk_artifact package))"

definition generate_evidence_main ::
  "('y) artifact_ext_scheme \<Rightarrow> ('n, 'z) normalizer_ext_scheme \<Rightarrow> (string \<Rightarrow> string option) \<Rightarrow> string list option" where
  "generate_evidence_main X N files =
     do { network \<leftarrow> expect (NetworkId_new ''testnet'');
          let senior = id_derive X AuditorIdT [''senior-auditor-01''];
          registry \<leftarrow> demo_registry senior SeniorAuditor network ''issued-senior-credential'';
          parser \<leftarrow> expect (VersionLabel_new ''1.0.0'');
          generator \<leftarrow> expect (VersionLabel_new ''0.4.0'');
          let builder = \<lparr>eb_network = network, eb_source = ''safeguard-audit-evidence'', eb_parser = parser,
                         eb_generator_version = generator, eb_registry = registry\<rparr>;
          i0 \<leftarrow> fixture files ''audit-envelope'' ''denied-transfer/event.json'' ''ledger:430'';
          i1 \<leftarrow> fixture files ''audit-envelope'' ''frozen-account/event.json'' ''ledger:431'';
          audit \<leftarrow> ingest_demo X N evidence_demo_source [i0, i1];
          items \<leftarrow> query_all audit 10;
          let record_ids = map rc_record_id items;
          options \<leftarrow> expect (EvidenceBuildOptions_new TransactionEvidence record_ids senior);
          (package, audit) \<leftarrow> expect_with (evidence_build X mem_audit builder demo_clock audit options);
          trail \<leftarrow> query_all audit 100;
          generation \<leftarrow> find (\<lambda>r. ev_kind (rc_event r) = EventKind.EvidenceGenerated) trail;
          structure \<leftarrow> expect (verify_package_structure X package);
          full \<leftarrow> expect (verify_package X mem_audit package audit);
          tampered \<leftarrow> tamper_digest package;
          detected \<leftarrow> expect (verify_package_structure X tampered);
          Some
            [''Ingested '' @ show_nat (length record_ids) @ '' records: ''
               @ joined '', '' (map (EventKind_as_str \<circ> ev_kind \<circ> rc_event) items),
             ''Sealed evidence '' @ ea_evidence_id (pk_artifact package) @ '' (''
               @ show_nat (em_record_count (pk_manifest package)) @ '' records, manifest ''
               @ em_manifest_id (pk_manifest package) @ '', digest ''
               @ digest_or_dash (ea_digest (pk_artifact package)) @ '')'',
             ''Recorded evidence-generated event (kind '' @ detail_or ''?'' generation ''kind'' @ '', records ''
               @ detail_or ''?'' generation ''records'' @ '')'',
             ''Verified: structure='' @ show_bool (vv_verified structure) @ '' records='' @ show_bool (vv_verified full),
             ''Tampered artifact digest detected: verified='' @ show_bool (vv_verified detected) @ '' artifact=''
               @ show_bool (vv_artifact_verified detected),
             CHR 0x0A # ''OK: the package verifies, its generation is on the trail, and tampering is detectable.''] }"

section \<open>What the set-up gives\<close>

lemma demo_registry_eq:
  "demo_registry auditor role network material = Some [(auditor, demo_grant auditor role network material 1900000000)]"
  by (simp add: demo_registry_def Registry_register_eq demo_grant_def with_credential_def with_scope_def Grant_new_def Registry_new_def)

lemma demo_permitted:
  "permitted [(auditor, demo_grant auditor role network material 1900000000)] 1700000500 auditor action (Network network)
     \<longleftrightarrow> role_allows role action"
  by (simp add: permitted_def demo_grant_def with_credential_def with_scope_def Grant_new_def Credential_new_def)

lemma ingest_demo_eq:
  assumes "demo_ok X (demo_normalizer N ''safeguard-audit'') items" "label_ok 64 name"
  shows "ingest_demo X N (fixture_source name) items =
    Some (foldl mem_commit mem_new (map (demo_record X (demo_normalizer N ''safeguard-audit'')) items))"
  using demo_first_run [of X "\<lparr>ix_normalize = demo_normalizer N ''safeguard-audit'', ix_clock = (\<lambda>_. 1700000500),
    ix_dedup_policy = SkipDuplicates, ix_malformed_policy = AbortOnMalformed, ix_page_limit = 100\<rparr>" items name] assms
  by (simp add: ingest_demo_def demo_indexer_eq)

lemma demo_store:
  assumes "demo_ok X n items"
  defines "s \<equiv> foldl mem_commit mem_new (map (demo_record X n) items)"
  shows "mem_inv s" "map snd (ms_records s) = map (demo_record X n) items"
    "mem_contains_event s e \<longleftrightarrow> e \<in> (rc_event_id \<circ> demo_record X n) ` set items"
    "ms_by_record s rid \<noteq> None \<longleftrightarrow> rid \<in> (rc_record_id \<circ> demo_record X n) ` set items"
proof -
  show "mem_inv s"
    using demo_batch_wf [OF assms(1)] by (auto simp: s_def batch_wf_def list_all_iff intro!: mem_inv_foldl_commit)
  show "map snd (ms_records s) = map (demo_record X n) items"
    using demo_history [OF assms(1)] by (simp add: s_def)
  show "mem_contains_event s e \<longleftrightarrow> e \<in> (rc_event_id \<circ> demo_record X n) ` set items"
    by (auto simp: s_def) (simp add: mem_contains_event_def mem_new_def)
  have "ms_by_record (foldl mem_commit st rs) rid \<noteq> None \<longleftrightarrow> ms_by_record st rid \<noteq> None \<or> rid \<in> rc_record_id ` set rs" for st rs
    by (induction rs arbitrary: st) auto
  from this [of mem_new "map (demo_record X n) items"]
  show "ms_by_record s rid \<noteq> None \<longleftrightarrow> rid \<in> (rc_record_id \<circ> demo_record X n) ` set items"
    by (simp add: s_def mem_new_def image_image)
qed

lemma demo_unsealed:
  assumes "demo_ok X n items"
  shows "list_all (\<lambda>r. rc_integrity r = None) (map (demo_record X n) items)"
    "distinct (map rc_record_id (map (demo_record X n) items))"
proof -
  have "rc_integrity (demo_record X n i) = None" if "i \<in> set items" for i
  proof -
    have "accepted X n i" using assms that by (simp add: demo_ok_def ingestible_def list_all_iff)
    from demo_record_eq [OF this] show ?thesis by (auto simp: from_event_eq_Inr)
  qed
  then show "list_all (\<lambda>r. rc_integrity r = None) (map (demo_record X n) items)" by (simp add: list_all_iff)
  show "distinct (map rc_record_id (map (demo_record X n) items))"
    using demo_batch_wf [OF assms] by (simp add: batch_wf_def comp_def)
qed

section \<open>\<open>generate-report\<close>: the assertion holds\<close>

lemma find_filter: "find P xs = (case filter P xs of [] \<Rightarrow> None | x # _ \<Rightarrow> Some x)"
  by (induction xs) auto

text \<open>The encoders of the services are defined on every value.\<close>

definition encoders_total :: "('y) artifact_ext_scheme \<Rightarrow> bool" where
  "encoders_total X \<longleftrightarrow> encodes X \<and> (\<forall>r. \<exists>bs. json_report X r = Inr bs)"

lemma encoders_totalD:
  assumes "encoders_total X"
  shows "\<exists>bs. json_event X e = Inr bs" "\<exists>bs. json_report X r = Inr bs"
  using assms by (auto simp: encoders_total_def encodes_def)

lemma generation_record_total:
  assumes "encoders_total X" "rl_source l = ''safeguard-audit-reporting''" "rl_parser l = ''1.0.0''"
  shows "\<exists>r. generation_record X l now = Inr r"
proof -
  obtain e where e: "report_lifecycle_event X l EventSlot_default = Inr e"
    by (simp add: report_lifecycle_event_def derived_audit_event_base_def DerivationInfo_new_def
        EventProvenance_new_def invalid_field_def ascii_defs byte_def assms(2,3))
  have "AuditEvent_validate e = Inr ()"
    using payload_envelope [OF payload_event.intros(9) [OF e]]
    by (simp add: envelope_def tx_on_def AuditEvent_validate_Inr)
  moreover obtain bs where "json_event X e = Inr bs" using encoders_totalD(1) [OF assms(1)] by metis
  ultimately show ?thesis
    using e by (auto simp: generation_record_def from_event_classified_def from_event_def event_canonical_bytes_def)
qed

lemma generation_details:
  assumes "generation_record X l now = Inr r"
  shows "detail_or d r ''kind'' = ReportKind_as_str (rl_kind l)" "detail_or d r ''records'' = show_nat (rl_record_count l)"
  using generation_record_fields(6) [OF assms]
  by (auto simp: report_lifecycle_event_def derived_audit_event_base_def map_ok_eq_Inr and_then_eq_Inr Let_def AuditEvent_new_def
      set_detail_def set_detail_opt_def detail_or_def map_of_bt_insert split: option.splits)

lemma build_report_total:
  assumes "encoders_total X"
  shows "\<exists>report. build_report X sv now request rs = Inr report"
proof -
  obtain bs where "json_report X r = Inr (bs r)" for r
    using encoders_totalD(2) [OF assms] by metis
  then show ?thesis
    by (simp add: build_report_def Let_def report_canonical_bytes_def Report_validate_def
        Report_with_digest_def with_summary_def with_rows_def with_generated_by_def Report_new_def)
qed

text \<open>The records a denied-transactions report is over.\<close>

definition denials :: "AuditRecord list \<Rightarrow> AuditRecord list" where
  "denials rs = filter (\<lambda>r. ev_outcome (rc_event r) = Some DecisionResult.Denied
     \<or> map_option pdr_result (ev_decision (rc_event r)) = Some DecisionResult.Denied) rs"

lemma demo_request_valid:
  "validate_request (demo_report_request a) = Inr ()"
  "\<exists>q. to_audit_query (rt_query (demo_report_request a)) = Inr q"
  "\<not> counts_itself (rt_query (demo_report_request a)) network now"
  "rt_requested_by (demo_report_request a) = a" "rt_kind (demo_report_request a) = DeniedTransactions"
  by (simp_all add: demo_report_request_def ReportRequest_new_def ReportQuery_all_def ReportQuery_with_outcome_def
      validate_request_def to_audit_query_def AuditQuery_build_def AuditQuery_builder_def counts_itself_def)

lemma demo_request_covers: "filter (covers (rt_query (demo_report_request a))) rs = denials rs"
  unfolding denials_def
  by (rule filter_cong) (simp_all add: covers_def Let_def demo_report_request_def ReportRequest_new_def ReportQuery_all_def
      ReportQuery_with_outcome_def)

abbreviation demo_reporting :: "AuditorId \<Rightarrow> ReportService" where
  "demo_reporting a \<equiv> ReportService_new ''testnet'' ''safeguard-audit-reporting'' ''1.0.0'' ''0.5.0''
     [(a, demo_grant a SeniorAuditor ''testnet'' ''issued-senior-credential'' 1900000000)]"

text \<open>The demonstration's service, over any store that holds no record under the identifiers of a generation.\<close>

lemma demo_report_twice:
  fixes X :: "('y) report_ext_scheme" and s :: MemoryEventStore
  assumes "encoders_total X" "mem_inv s" "mem_keys_ok s" "length (ms_records s) < 100"
    and "\<And>report s' r. report_generate X mem_audit (demo_reporting a) demo_clock s (demo_report_request a) = Some (Inr report, s') \<Longrightarrow>
           generation_record X (generation_step X (demo_reporting a) (demo_report_request a) report) (at_record demo_clock) = Inr r \<Longrightarrow>
           \<not> mem_contains_event s (rc_event_id r) \<and> ms_by_record s (rc_record_id r) = None"
    and "list_all (\<lambda>(k, r). ev_kind (rc_event r) \<noteq> EventKind.ReportGenerated) (ms_records s)"
  defines "den \<equiv> denials (map snd (ms_records s))"
  obtains report s' r where
    "report_generate X mem_audit (demo_reporting a) demo_clock s (demo_report_request a) = Some (Inr report, s')"
    "report_generate X mem_audit (demo_reporting a) demo_clock s' (demo_report_request a) = Some (Inr report, s')"
    "query_all s' 100 = Some (map snd (ms_records s'))"
    "find (\<lambda>r. ev_kind (rc_event r) = EventKind.ReportGenerated) (map snd (ms_records s')) = Some r"
    "detail_or ''?'' r ''kind'' = ''denied-transactions''" "detail_or ''?'' r ''records'' = show_nat (length den)"
    "su_total_records (rp_summary report) = length den" "rp_kind report = DeniedTransactions"
    "counts (su_by_outcome (rp_summary report)) out = length (filter (\<lambda>r. ev_outcome (rc_event r) = Some out) den)"
    "rp_record_refs report = List.map_filter (\<lambda>r. ev_transaction (rc_event r)) den"
proof -
  let ?req = "demo_report_request a" and ?sv = "demo_reporting a"
  have page: "1 \<le> rs_page_size ?sv" "rs_page_size ?sv \<le> MAX_PAGE_SIZE"
    by (simp_all add: ReportService_new_def MAX_PAGE_SIZE_def)
  have req: "report_require ?sv (at_authorize demo_clock) (rt_requested_by ?req) = Inr ()"
    by (simp add: report_require_iff ReportService_new_def demo_clock_def demo_permitted demo_request_valid
        role_allows_def)
  obtain q where q: "to_audit_query (rt_query ?req) = Inr q" using demo_request_valid(2) by blast
  obtain report where report: "build_report X ?sv (at_now demo_clock) ?req (mem_matched s q) = Inr report"
    using build_report_total [OF assms(1)] by blast
  obtain r where r: "generation_record X (generation_step X ?sv ?req report) (at_record demo_clock) = Inr r"
    using generation_record_total [OF assms(1), of "generation_step X ?sv ?req report" "at_record demo_clock"]
    by (auto simp: generation_step_def ReportService_new_def)
  note f = generation_record_fields [OF r]
  have "report_generate X mem_audit (demo_reporting a) demo_clock s ?req = Some (Inr report, snd (mem_insert s r))"
    unfolding report_generate_success [OF assms(2,3) page] using req demo_request_valid(1) q report r by auto
  note g = this and new = assms(5) [OF this r]
  have ins: "snd (mem_insert s r) = mem_commit s r" using new f(1) by (simp add: mem_insert_wf)
  note g = g [unfolded ins]
  have again: "report_generate X mem_audit (demo_reporting a) demo_clock (mem_commit s r) ?req = Some (Inr report, mem_commit s r)"
    using report_generate_again [OF assms(2,3) page _ g] conjunct2 [OF assms(5) [OF g]] demo_request_valid(3)
    by (simp add: demo_clock_def in_i64_def)
  have inv: "mem_inv (mem_commit s r)" using mem_inv_commit [OF assms(2) f(1)] .
  have len: "mem_len (mem_commit s r) \<le> 100" using mem_commit_len [OF assms(2), of r] new assms(4) by (simp add: mem_len_def)
  let ?P = "\<lambda>r. ev_kind (rc_event r) = EventKind.ReportGenerated"
  obtain as bs where ab: "filter ?P (map snd (ms_records s)) = as @ bs"
    "filter ?P (map snd (ms_records (mem_commit s r))) = as @ (if ?P r then [r] else []) @ bs"
    by (rule filter_commit [OF assms(2) conjunct2 [OF new]])
  have "filter ?P (map snd (ms_records s)) = []"
    using assms(6) by (auto simp: filter_empty_conv list_all_iff)
  with ab report_event_fields(1) [OF f(6)]
  have find: "find ?P (map snd (ms_records (mem_commit s r))) = Some r" unfolding find_filter by simp
  note fields = build_report_fields [OF report, unfolded covered_history [OF q] demo_request_covers, folded den_def]
  have kind: "rp_kind report = DeniedTransactions"
    using report by (auto simp: build_report_def Let_def and_then_eq_Inr with_summary_def with_rows_def
      with_generated_by_def Report_new_def Report_with_digest_def demo_request_valid)
  show ?thesis
    using that [OF g again query_all_history [OF inv len] find] generation_details [OF r] fields(1,2) kind
    by (simp add: summarize_counts generation_step_def demo_request_valid)
qed

text \<open>
  The one record the demonstration adds to its fixtures, that of the report it generates, does not
  come under the identifiers of one of them.
\<close>

definition ids_apart :: "('y) report_ext_scheme \<Rightarrow> AuditorId \<Rightarrow> AuditRecord list \<Rightarrow> bool" where
  "ids_apart X a rs \<longleftrightarrow>
     (\<forall>report s' r. report_generate X mem_audit (demo_reporting a) demo_clock (foldl mem_commit mem_new rs)
          (demo_report_request a) = Some (Inr report, s') \<longrightarrow>
        generation_record X (generation_step X (demo_reporting a) (demo_report_request a) report) (at_record demo_clock) = Inr r \<longrightarrow>
        rc_event_id r \<notin> rc_event_id ` set rs \<and> rc_record_id r \<notin> rc_record_id ` set rs)"

lemma demo_keys_ok:
  assumes "demo_ok X n items" "list_all (\<lambda>i. key_ok (PositionKey_of (demo_record X n i))) items"
  shows "mem_keys_ok (foldl mem_commit mem_new (map (demo_record X n) items))"
proof -
  have "length (rc_record_id (demo_record X n i)) \<le> 64" if "i \<in> set items" for i
  proof -
    have "accepted X n i" using assms(1) that by (simp add: demo_ok_def ingestible_def list_all_iff)
    from demo_record_eq [OF this] show ?thesis by (auto simp: from_event_eq_Inr length_id_derive_bytes)
  qed
  with assms(2) have "\<forall>r \<in> set (map (demo_record X n) items). key_ok (PositionKey_of r) \<and> length (rc_record_id r) \<le> 64"
    by (auto simp: list_all_iff)
  moreover have "mem_keys_ok s \<Longrightarrow> \<forall>r \<in> set rs. key_ok (PositionKey_of r) \<and> length (rc_record_id r) \<le> 64
      \<Longrightarrow> mem_keys_ok (foldl mem_commit s rs)" for s rs
    by (induction rs arbitrary: s) (simp_all add: mem_keys_ok_commit)
  moreover have "mem_keys_ok mem_new" by (simp add: mem_keys_ok_def mem_new_def)
  ultimately show ?thesis by blast
qed

text \<open>
  The \<open>generate-report\<close> walk-through.  Over readable envelope fixtures that the normalizer accepts, with keys in
  the range of their types and identifiers apart from those of the generation, and total encoders, the
  program does not panic: the report counts exactly the denials among the ingested records, its generation
  is found on the trail with the same kind and count, and the assertion that the second run reproduces
  the identical report holds.
\<close>

lemma generate_report_walkthrough:
  fixes X :: "('y) report_ext_scheme" and N :: "('n, 'z) normalizer_ext_scheme"
  defines "n \<equiv> demo_normalizer N ''safeguard-audit''"
  assumes "encoders_total X"
    and "fixture files ''audit-envelope'' ''approved-transfer/event.json'' ''ledger:430'' = Some i0"
    and "fixture files ''audit-envelope'' ''denied-transfer/event.json'' ''ledger:431'' = Some i1"
    and "fixture files ''audit-envelope'' ''frozen-account/event.json'' ''ledger:432'' = Some i2"
    and "demo_ok X n [i0, i1, i2]" "rs = map (demo_record X n) [i0, i1, i2]"
    and "list_all (\<lambda>r. key_ok (PositionKey_of r) \<and> ev_kind (rc_event r) \<noteq> EventKind.ReportGenerated) rs"
    and "ids_apart X (id_derive X AuditorIdT [''senior-auditor-01'']) rs" "den = denials rs"
  shows "\<exists>rid digest. generate_report_main X N files =
    Some [''Ingested 3 records (approved, denied, frozen).'',
          ''Report '' @ rid @ '' (denied-transactions) over '' @ show_nat (length den) @ '' record(s): ''
            @ show_nat (length (filter (\<lambda>r. ev_outcome (rc_event r) = Some DecisionResult.Denied) den)) @ '' denied, ''
            @ show_nat (length (List.map_filter (\<lambda>r. ev_transaction (rc_event r)) den)) @ '' row(s), digest '' @ digest,
          ''Recorded report-generated event (kind denied-transactions, records '' @ show_nat (length den) @ '')'',
          ''Reproduced identical report '' @ rid @ '' (digest '' @ digest @ '').'',
          CHR 0x0A # ''OK: the report is sealed, its generation is on the trail, and it reproduces.'']"
proof -
  let ?items = "[i0, i1, i2]" and ?s = "foldl mem_commit mem_new (map (demo_record X n) [i0, i1, i2])"
  have name: "label_ok 64 ''fixture:reporting-demo''" by (simp add: label_ok_def ascii_defs byte_def)
  have ingest: "ingest_demo X N reporting_demo_source ?items = Some ?s"
    using ingest_demo_eq [OF assms(6) [unfolded n_def] name] by (simp add: reporting_demo_source_def n_def)
  note store = demo_store [OF assms(6)]
  have keys: "mem_keys_ok ?s" using assms(7,8) by (intro demo_keys_ok [OF assms(6)]) simp
  have small: "length (ms_records ?s) < 100" using arg_cong [OF store(2), of length] by simp
  let ?a = "id_derive X AuditorIdT [''senior-auditor-01'']"
  have apart: "\<not> mem_contains_event ?s (rc_event_id r) \<and> ms_by_record ?s (rc_record_id r) = None"
    if "report_generate X mem_audit (demo_reporting ?a) demo_clock ?s (demo_report_request ?a) = Some (Inr report, s')"
      "generation_record X (generation_step X (demo_reporting ?a) (demo_report_request ?a) report) (at_record demo_clock) = Inr r"
    for report s' r
  proof -
    from assms(9) that have "rc_event_id r \<notin> rc_event_id ` set rs \<and> rc_record_id r \<notin> rc_record_id ` set rs"
      unfolding ids_apart_def assms(7) by blast
    then show ?thesis using store(3) [of "rc_event_id r"] store(4) [of "rc_record_id r"] by (auto simp: assms(7) image_comp)
  qed
  have "list_all (\<lambda>r. ev_kind (rc_event r) \<noteq> EventKind.ReportGenerated) (map snd (ms_records ?s))"
    unfolding store(2) using assms(7,8) by simp
  then have kinds: "list_all (\<lambda>(k, r). ev_kind (rc_event r) \<noteq> EventKind.ReportGenerated) (ms_records ?s)"
    by (simp add: list_all_iff split_beta)
  show ?thesis
  proof (rule demo_report_twice [OF assms(2) store(1) keys small apart kinds, where a = ?a
        and out = DecisionResult.Denied, unfolded store(2), folded assms(7) assms(10)])
    fix report s' r
    assume "report_generate X mem_audit (demo_reporting ?a) demo_clock (foldl mem_commit mem_new rs) (demo_report_request ?a) = Some (Inr report, s')"
      and "report_generate X mem_audit (demo_reporting ?a) demo_clock s' (demo_report_request ?a) = Some (Inr report, s')"
      and "query_all s' 100 = Some (map snd (ms_records s'))"
      and "find (\<lambda>r. ev_kind (rc_event r) = EventKind.ReportGenerated) (map snd (ms_records s')) = Some r"
      and "detail_or ''?'' r ''kind'' = ''denied-transactions''" "detail_or ''?'' r ''records'' = show_nat (length den)"
      and "su_total_records (rp_summary report) = length den" "rp_kind report = DeniedTransactions"
      and "counts (su_by_outcome (rp_summary report)) DecisionResult.Denied =
        length (filter (\<lambda>r. ev_outcome (rc_event r) = Some DecisionResult.Denied) den)"
      and "rp_record_refs report = List.map_filter (\<lambda>r. ev_transaction (rc_event r)) den"
    with ingest [folded assms(7)] assms(3-5) show ?thesis
      by (intro exI [of _ "rp_report_id report"] exI [of _ "digest_or_dash (rp_digest report)"])
         (simp add: generate_report_main_def NetworkId_new_def VersionLabel_new_def demo_registry_eq Let_def
           ascii_defs byte_def counts_def)
  qed
qed

section \<open>The repository's envelope fixtures\<close>

definition envelope_base :: "EventId \<Rightarrow> EventKind \<Rightarrow> EventProvenance \<Rightarrow> int \<Rightarrow> nat \<Rightarrow> string \<Rightarrow> AuditEvent" where
  "envelope_base event_id kind provenance ledger op hash =
     (AuditEvent_new event_id kind ''testnet'' provenance)
       \<lparr>ev_order := \<lparr>eo_ledger_sequence = Some ledger, eo_transaction_position = None, eo_operation_index = Some op,
                     eo_event_index = None\<rparr>,
        ev_transaction := Some \<lparr>txr_network = ''testnet'', txr_hash = hash\<rparr>,
        ev_token := Some (for_contract ''testnet'' ''CCONFIDENTIALTOKENDEMO000000000000000000000000000000'')\<rparr>"

definition outcome_provenance :: "string \<Rightarrow> EventProvenance" where
  "outcome_provenance note =
     \<lparr>ep_origin = Derived, ep_source = ''safeguard-audit'', ep_parser_version = ''1.0.0'',
      ep_derivation = Some \<lparr>di_method = ''transaction-outcome-analysis'', di_source_events = [], di_note = note\<rparr>\<rparr>"

definition transfer_parties :: "AuditEvent \<Rightarrow> AuditEvent" where
  "transfer_parties e =
     e\<lparr>ev_actor := Some \<lparr>acr_network = ''testnet'', acr_account = ''GASENDERACCOUNTDEMO0000000000000000000000000000000000''\<rparr>,
       ev_subject := Some \<lparr>acr_network = ''testnet'', acr_account = ''GCRECEIVERACCOUNTDEMO00000000000000000000000000000000''\<rparr>\<rparr>"

definition approved_transfer :: AuditEvent where
  "approved_transfer =
     transfer_parties (envelope_base ''evt_aaaaaaaaaaaaaaaaaaaaaaaaaaaaaaaa'' TransferAuthorized
       (outcome_provenance ''transfer outcome reconstructed from the recorded transaction and enforcement decision'')
       420 0 ''abababababababababababababababababababababababababababababababab'')
     \<lparr>ev_observed_at := Some 1700000100, ev_outcome := Some Allowed, ev_reason := Some ''OK''\<rparr>"

definition denied_transfer :: AuditEvent where
  "denied_transfer =
     transfer_parties (envelope_base ''evt_bbbbbbbbbbbbbbbbbbbbbbbbbbbbbbbb'' TransferDenied
       (outcome_provenance ''denial reconstructed from the failed transaction; reverts discard events'')
       421 0 ''cdcdcdcdcdcdcdcdcdcdcdcdcdcdcdcdcdcdcdcdcdcdcdcdcdcdcdcdcdcdcdcd'')
     \<lparr>ev_observed_at := Some 1700000200,
      ev_decision := Some \<lparr>pdr_policy = PolicyReference_new ''CPOLICYCONTRACTDEMO0000000000000000000000000000000000'' ''1.0.0'',
        pdr_result = DecisionResult.Denied, pdr_reason = Some ''POLICY_DENIED'', pdr_decided_at = Some 1700000199\<rparr>,
      ev_enforcement := Some \<lparr>err_hook = ''safeguard-hooks'', err_hook_version = ''0.4.0'',
        err_result = DecisionResult.Denied, err_reason = Some ''POLICY_DENIED''\<rparr>,
      ev_outcome := Some DecisionResult.Denied, ev_reason := Some ''POLICY_DENIED''\<rparr>"

definition frozen_account :: AuditEvent where
  "frozen_account =
     envelope_base ''evt_dddddddddddddddddddddddddddddddd'' EventKind.AccountFrozen
       \<lparr>ep_origin = OnChain, ep_source = ''safeguard-hooks'', ep_parser_version = ''0.4.0'', ep_derivation = None\<rparr>
       423 2 ''efefefefefefefefefefefefefefefefefefefefefefefefefefefefefefefef''
     \<lparr>ev_observed_at := Some 1700000400,
      ev_order := \<lparr>eo_ledger_sequence = Some 423, eo_transaction_position = None, eo_operation_index = Some 2,
                   eo_event_index = Some 0\<rparr>,
      ev_ledger := Some \<lparr>lr_network = ''testnet'', lr_sequence = 423, lr_close_time = Some 1700000400\<rparr>,
      ev_subject := Some \<lparr>acr_network = ''testnet'', acr_account = ''GAFROZENACCOUNTDEMO00000000000000000000000000000000000''\<rparr>\<rparr>"

definition envelope_files :: "(string \<times> AuditEvent) list" where
  "envelope_files =
     [(''approved-transfer/event.json'', approved_transfer), (''denied-transfer/event.json'', denied_transfer),
      (''frozen-account/event.json'', frozen_account)]"

lemmas envelope_defs = envelope_base_def outcome_provenance_def transfer_parties_def approved_transfer_def denied_transfer_def
  frozen_account_def AuditEvent_new_def

lemma envelopes_valid:
  "validate_envelope approved_transfer = Inr ()" "validate_envelope denied_transfer = Inr ()"
  "validate_envelope frozen_account = Inr ()"
  by (simp_all add: envelope_defs validate_envelope_def Let_def AuditEvent_validate_Inr event_wf_def
      EVENT_SCHEMA_VERSION_def envelope_field_def NetworkId_new_def validate_provenance_def VersionLabel_new_def if_some_def
      DerivationInfo_new_def validate_transaction_def TransactionHash_new_def validate_token_def for_contract_def
      ContractId_new_def validate_account_def AccountId_new_def validate_decision_def ReasonCode_new_def
      validate_enforcement_def EnforcementResultReference_new_def validate_ledger_def LedgerReference_new_def
      PolicyReference_new_def validate_ref_def REF_MAX_LEN_def ascii_defs byte_def)

definition walk_normalizer :: "int normalizer_ext" where
  "walk_normalizer =
     \<lparr>sha256 = Abs_hash256 \<circ> ends_32, json_strings = concat, json_event = \<lambda>e. Inr (ev_event_id e),
      json_from_str = \<lambda>p. if map_of envelope_files p = None then Inl ''expected value'' else Inr (Object [(''event_id'', String p)]),
      num_as_i64 = Some, num_as_u64 = \<lambda>n. if n \<ge> 0 then Some (nat n) else None,
      event_from_value = \<lambda>v. case v of
          Object [(_, String p)] \<Rightarrow> (case map_of envelope_files p of Some e \<Rightarrow> Inr e | None \<Rightarrow> Inl ''not an event'')
        | _ \<Rightarrow> Inl ''not an event''\<rparr>"

definition walk_ext :: report_ext where
  "walk_ext =
     \<lparr>sha256 = Abs_hash256 \<circ> ends_32, json_strings = concat, json_event = \<lambda>e. Inr (ev_event_id e),
      json_record = \<lambda>r. Inr (''{'' @ rc_record_id r @ ''}''), json_entries = \<lambda>es. Inr (concat (map me_record_id es)),
      json_evidence = \<lambda>a. Inr (''{'' @ ea_evidence_id a @ ''}''), json_report = \<lambda>r. Inr (''{'' @ rp_report_id r @ ''}''),
      json_query = \<lambda>_. Inr ''{}''\<rparr>"

definition walk_files :: "string \<Rightarrow> string option" where
  "walk_files path = map_option (\<lambda>_. path) (map_of envelope_files path)"

definition walk_item :: "string \<Rightarrow> string \<Rightarrow> RawEventItem" where
  "walk_item path pos = \<lparr>it_scheme = ''audit-envelope'', it_payload = path, it_position = pos\<rparr>"

lemma walk_fixture:
  assumes "map_of envelope_files path = Some e" "length path \<le> 64" "label_ok 512 pos"
  shows "fixture walk_files ''audit-envelope'' path pos = Some (walk_item path pos)"
  using assms by (simp add: fixture_def walk_files_def RawEventItem_new_def validate_label_def walk_item_def)
    (simp add: label_ok_def ascii_defs byte_def)

lemma walk_normalized:
  assumes "map_of envelope_files path = Some e"
  shows "demo_normalizer walk_normalizer ''safeguard-audit'' (walk_item path pos) = Inr e"
proof -
  have e: "validate_envelope e = Inr ()" "ev_network e = ''testnet''"
    using map_of_SomeD [OF assms] envelopes_valid by (auto simp: envelope_files_def) (auto simp: envelope_defs)
  have "parse_envelope walk_normalizer path = Inr e"
    using assms by (simp add: parse_envelope_def as_object_def parse_json_def walk_normalizer_def reject_unknown_fields_Inr
        ENVELOPE_FIELDS_def)
  with e have "normalize walk_normalizer \<lparr>nc_network = ''testnet'', nc_source = ''safeguard-audit'', nc_parser_version = ''1.0.0''\<rparr>
      (walk_item path pos) = Inr \<lparr>ne_event = e, ne_scheme = AuditEnvelope, ne_position = pos\<rparr>"
    by (simp add: normalize_Inr walk_item_def)
  then show ?thesis by (simp add: normalizing_def)
qed

lemma walk_sha256: "sha256 walk_ext = Abs_hash256 \<circ> ends_32" and walk_json_event: "json_event walk_ext e = Inr (ev_event_id e)"
  and walk_encoders: "encoders_total walk_ext"
  by (simp_all add: walk_ext_def encoders_total_def encodes_def record_digest_def canonical_record_input_def
      record_canonical_bytes_def map_ok_eq_Inr)

lemma fixture_event_fields:
  "map ev_event_id [approved_transfer, denied_transfer, frozen_account] =
     [''evt_aaaaaaaaaaaaaaaaaaaaaaaaaaaaaaaa'', ''evt_bbbbbbbbbbbbbbbbbbbbbbbbbbbbbbbb'', ''evt_dddddddddddddddddddddddddddddddd'']"
  "map ev_kind [approved_transfer, denied_transfer, frozen_account] = [TransferAuthorized, TransferDenied, EventKind.AccountFrozen]"
  "map ev_outcome [approved_transfer, denied_transfer, frozen_account] = [Some Allowed, Some DecisionResult.Denied, None]"
  "map (map_option pdr_result \<circ> ev_decision) [approved_transfer, denied_transfer, frozen_account] = [None, Some DecisionResult.Denied, None]"
  "map ev_order [approved_transfer, denied_transfer, frozen_account] =
     [\<lparr>eo_ledger_sequence = Some 420, eo_transaction_position = None, eo_operation_index = Some 0, eo_event_index = None\<rparr>,
      \<lparr>eo_ledger_sequence = Some 421, eo_transaction_position = None, eo_operation_index = Some 0, eo_event_index = None\<rparr>,
      \<lparr>eo_ledger_sequence = Some 423, eo_transaction_position = None, eo_operation_index = Some 2, eo_event_index = Some 0\<rparr>]"
  "ev_transaction denied_transfer \<noteq> None"
  by (simp_all add: envelope_defs)

lemma envelope_wf: "event_wf approved_transfer" "event_wf denied_transfer" "event_wf frozen_account"
  by (simp_all add: envelope_defs event_wf_def for_contract_def EVENT_SCHEMA_VERSION_def)

text \<open>Any of the fixtures, in their order, are fit for the programs.\<close>

lemma walk_ok:
  assumes "es \<in> {[approved_transfer, denied_transfer, frozen_account], [denied_transfer, frozen_account], [denied_transfer]}"
    and "list_all2 (\<lambda>(path, pos) e. map_of envelope_files path = Some e \<and> label_ok 512 pos) fs es"
  shows "demo_ok walk_ext (demo_normalizer walk_normalizer ''safeguard-audit'') (map (\<lambda>(path, pos). walk_item path pos) fs)"
proof (rule demo_ok_events [where es = es and enc = ev_event_id])
  show "list_all2 (\<lambda>i e. demo_normalizer walk_normalizer ''safeguard-audit'' i = Inr e \<and> label_ok 512 (it_position i))
      (map (\<lambda>(path, pos). walk_item path pos) fs) es"
    using assms(2) walk_normalized
    by (auto simp: list_all2_map1 elim!: list_all2_mono) (simp add: walk_item_def)
  show "\<forall>e \<in> set es. event_wf e \<and> ev_kind e \<noteq> EventKind.RecordCorrected \<and> eo_ledger_sequence (ev_order e) \<noteq> None
      \<and> json_event walk_ext e = Inr (ev_event_id e)"
    using assms(1) envelope_wf fixture_event_fields by (auto simp: walk_json_event)
  show "distinct (map ev_event_id es)" "is_strictly_increasing (map ev_order es)" "es \<noteq> []" "length es \<le> 100"
    using assms(1) fixture_event_fields by (auto simp: compare_order_def)
  show "distinct (map (id_derive_bytes walk_ext RecordIdT \<circ> ev_event_id) es)"
    using assms(1) fixture_event_fields by (auto simp: ends_id_eq [OF walk_sha256] hex_lower_inject)
qed

lemma walk_record:
  assumes "map_of envelope_files path = Some e" "label_ok 512 pos"
  shows "demo_record walk_ext (demo_normalizer walk_normalizer ''safeguard-audit'') (walk_item path pos) =
    \<lparr>rc_record_id = id_derive_bytes walk_ext RecordIdT (ev_event_id e), rc_event = e, rc_recorded_at = 1700000500,
     rc_schema_version = RECORD_SCHEMA_VERSION, rc_classification = Confidential, rc_redactions = [],
     rc_supersedes = None, rc_correction_reason = None, rc_integrity = None\<rparr>"
proof -
  have "event_wf e" using map_of_SomeD [OF assms(1)] envelope_wf by (auto simp: envelope_files_def)
  then have "from_event walk_ext e 1700000500 = Inr \<lparr>rc_record_id = id_derive_bytes walk_ext RecordIdT (ev_event_id e),
     rc_event = e, rc_recorded_at = 1700000500, rc_schema_version = RECORD_SCHEMA_VERSION, rc_classification = Confidential,
     rc_redactions = [], rc_supersedes = None, rc_correction_reason = None, rc_integrity = None\<rparr>"
    by (simp add: from_event_eq_Inr walk_json_event)
  then show ?thesis
    by (simp add: demo_record_def event_of_def walk_normalized [OF assms(1)])
qed

lemma walk_derived_id: "\<exists>x. derived_event_id walk_ext ''testnet'' method refs = ''evt_7'' @ x"
proof -
  have "char_of (55 :: nat) = CHR ''7''" by code_simp
  moreover have "derived_event_id walk_ext ''testnet'' method refs =
      id_derive_bytes walk_ext EventIdT (''testnetderived:'' @ method @ concat refs)"
    by (simp add: derived_event_id_def derive_event_id_def id_derive_def id_derive_bytes_def derive_def walk_ext_def)
  ultimately show ?thesis
    by (simp add: ends_id_eq [OF walk_sha256] hex_lower_def hex_digit_def byte_def)
qed

lemma walk_generation_ids:
  assumes "generation_record walk_ext l now = Inr r" "rl_network l = ''testnet''"
  shows "\<exists>x. rc_event_id r = ''evt_7'' @ x" "rc_record_id r = id_derive_bytes walk_ext RecordIdT (rc_event_id r)"
proof -
  from generation_record_fields(6) [OF assms(1)] obtain e where
    "derived_audit_event_base walk_ext EventKind.ReportGenerated (rl_network l) (rl_source l) (rl_parser l)
          \<lparr>ds_method = ''report-generation'', ds_note = ''report generation recorded by the reporting service'',
           ds_source_refs = [rl_report l, ReportKind_as_str (rl_kind l), show_nat (rl_record_count l)],
           ds_tx = None, ds_source_events = []\<rparr> EventSlot_default = Inr e" "ev_event_id (rc_event r) = ev_event_id e"
    by (auto simp: report_lifecycle_event_def map_ok_eq_Inr)
  with derived_base(4) [OF this(1)] walk_derived_id show "\<exists>x. rc_event_id r = ''evt_7'' @ x"
    by (simp add: rc_event_id_def assms(2))
  show "rc_record_id r = id_derive_bytes walk_ext RecordIdT (rc_event_id r)"
    using assms(1) by (auto simp: generation_record_def and_then_eq_Inr map_ok_eq_Inr from_event_classified_def from_event_def
      event_canonical_bytes_def walk_json_event rc_event_id_def split: sum.splits)
qed

text \<open>The records of the three fixtures.\<close>

abbreviation walk_items :: "RawEventItem list" where
  "walk_items \<equiv> [walk_item ''approved-transfer/event.json'' ''ledger:430'', walk_item ''denied-transfer/event.json'' ''ledger:431'',
     walk_item ''frozen-account/event.json'' ''ledger:432'']"

abbreviation walk_records :: "AuditRecord list" where
  "walk_records \<equiv> map (demo_record walk_ext (demo_normalizer walk_normalizer ''safeguard-audit'')) walk_items"

lemma walk_lookup [simp]:
  "map_of envelope_files ''approved-transfer/event.json'' = Some approved_transfer"
  "map_of envelope_files ''denied-transfer/event.json'' = Some denied_transfer"
  "map_of envelope_files ''frozen-account/event.json'' = Some frozen_account"
  by (simp_all add: envelope_files_def)

lemma walk_positions: "label_ok 512 ''ledger:430''" "label_ok 512 ''ledger:431''" "label_ok 512 ''ledger:432''"
  by (simp_all add: label_ok_def ascii_defs byte_def)

lemma walk_records_events: "map rc_event walk_records = [approved_transfer, denied_transfer, frozen_account]"
  by (simp add: walk_record walk_positions)

lemma walk_records_ids: "map rc_record_id walk_records = map (id_derive_bytes walk_ext RecordIdT \<circ> ev_event_id \<circ> rc_event) walk_records"
  by (simp add: walk_record walk_positions)

lemma walk_ids_apart: "ids_apart walk_ext a walk_records"
  unfolding ids_apart_def
proof (intro allI impI)
  fix report r
  assume r: "generation_record walk_ext (generation_step walk_ext (demo_reporting a) (demo_report_request a) report)
    (at_record demo_clock) = Inr r"
  have "rl_network (generation_step walk_ext (demo_reporting a) (demo_report_request a) report) = ''testnet''"
    by (simp add: generation_step_def ReportService_new_def)
  note id = walk_generation_ids [OF r this]
  have "rc_event_id r \<noteq> rc_event_id t \<and> rc_record_id r \<noteq> rc_record_id t" if "t \<in> set walk_records" for t
    using id that fixture_event_fields(1)
    by (auto simp: walk_record walk_positions rc_event_id_def ends_id_eq [OF walk_sha256] hex_lower_inject)
  then show "rc_event_id r \<notin> rc_event_id ` set walk_records \<and> rc_record_id r \<notin> rc_record_id ` set walk_records" by blast
qed

lemma walk_keys: "list_all (\<lambda>r. key_ok (PositionKey_of r) \<and> ev_kind (rc_event r) \<noteq> EventKind.ReportGenerated) walk_records"
  using fixture_event_fields
  by (simp add: walk_record walk_positions key_ok_def PositionKey_of_def id_derive_bytes_checked in_i64_def in_u32_def)

lemma generate_report_committed_fixtures:
  "\<exists>rid digest. generate_report_main walk_ext walk_normalizer walk_files =
    Some [''Ingested 3 records (approved, denied, frozen).'',
          ''Report '' @ rid @ '' (denied-transactions) over 1 record(s): 1 denied, 1 row(s), digest '' @ digest,
          ''Recorded report-generated event (kind denied-transactions, records 1)'',
          ''Reproduced identical report '' @ rid @ '' (digest '' @ digest @ '').'',
          CHR 0x0A # ''OK: the report is sealed, its generation is on the trail, and it reproduces.'']"
proof -
  have ok: "demo_ok walk_ext (demo_normalizer walk_normalizer ''safeguard-audit'') walk_items"
    using walk_ok [of "[approved_transfer, denied_transfer, frozen_account]" "[(''approved-transfer/event.json'', ''ledger:430''),
      (''denied-transfer/event.json'', ''ledger:431''), (''frozen-account/event.json'', ''ledger:432'')]"] walk_positions by simp
  have one: "show_nat (Suc 0) = ''1''" by code_simp
  have "denials walk_records = [walk_records ! 1]"
    using fixture_event_fields by (simp add: denials_def walk_record walk_positions)
  moreover have "rc_event (walk_records ! 1) = denied_transfer" by (simp add: walk_record walk_positions)
  moreover note generate_report_walkthrough [OF walk_encoders walk_fixture walk_fixture walk_fixture ok HOL.refl walk_keys walk_ids_apart HOL.refl]
  ultimately show ?thesis
    using fixture_event_fields one walk_positions by (auto simp: List.map_filter_def)
qed


section \<open>\<open>generate-evidence\<close>: verified, and the forged digest detected\<close>

lemma structure_of_verified:
  assumes "verify_package X A package audit = Inr v" "vv_verified v"
  shows "\<exists>st. verify_package_structure X package = Inr st \<and> vv_verified st"
  using assms
  by (auto simp: verify_package_def and_then_eq_Inr Let_def)
     (auto simp: verify_package_structure_def and_then_eq_Inr Let_def)

text \<open>A forged digest value of a verified package is detected unless it is the artifact's own.\<close>

lemma forged_digest_detected:
  fixes forged :: string
  assumes "verify_package_structure X package = Inr st" "ea_digest (pk_artifact package) = Some (hash_bytes X bs)"
    and "evidence_canonical_bytes X (pk_artifact package) = Inr bs" "vv_verified st"
  defines "forgery \<equiv> package\<lparr>pk_artifact := (pk_artifact package)\<lparr>ea_digest := Some ((hash_bytes X bs)\<lparr>dg_value := forged\<rparr>)\<rparr>\<rparr>"
  shows "verify_package_structure X forgery =
    Inr (st\<lparr>vv_artifact_verified := (sha256_hex X bs = forged), vv_verified := (sha256_hex X bs = forged)\<rparr>)"
proof -
  have "evidence_canonical_bytes X (pk_artifact forgery) = Inr bs"
    using assms(3) by (simp add: forgery_def evidence_canonical_bytes_def)
  moreover have "hash_bytes X bs = (hash_bytes X bs)\<lparr>dg_value := forged\<rparr> \<longleftrightarrow> sha256_hex X bs = forged"
    by (metis IntegrityDigest.select_convs(2) IntegrityDigest.surjective IntegrityDigest.update_convs(2) hash_bytes_fields(2))
  moreover have "core_manifest forgery = core_manifest package" by (simp add: forgery_def core_manifest_def)
  moreover have "EvidenceArtifact_validate (pk_artifact forgery) = EvidenceArtifact_validate (pk_artifact package)"
    by (simp add: forgery_def EvidenceArtifact_validate_def)
  moreover have "ea_digest (pk_artifact forgery) = Some ((hash_bytes X bs)\<lparr>dg_value := forged\<rparr>)" by (simp add: forgery_def)
  ultimately show ?thesis
    using assms(1-4) by (auto simp: verify_package_structure_def and_then_eq_Inr Let_def)
qed

text \<open>What the builder returns carries the digest of its canonical bytes.\<close>

lemma built_digest:
  assumes "evidence_build X A b t s options = (Inr package, s')"
  obtains bs where "evidence_canonical_bytes X (pk_artifact package) = Inr bs"
    "ea_digest (pk_artifact package) = Some (hash_bytes X bs)"
  using assms by (rule evidence_build_Inr) (auto elim!: assemble_Inr intro: that)

lemma mem_get_stored:
  assumes "mem_inv s" "distinct (map rc_record_id (map snd (ms_records s)))" "r \<in> set (map snd (ms_records s))"
  shows "mem_get s (rc_record_id r) = Inr r"
proof -
  from assms(3) obtain k where "(k, r) \<in> set (ms_records s)" by auto
  then obtain k' where k': "ms_by_record s (rc_record_id r) = Some k'" using mem_inv_entry(4) [OF assms(1)] by auto
  then obtain r' where r': "map_of (ms_records s) k' = Some r'" "rc_record_id r' = rc_record_id r"
    by (rule mem_inv_by_record [OF assms(1)])
  then have "r' \<in> set (map snd (ms_records s))" by (force dest: map_of_SomeD)
  moreover have "inj_on rc_record_id (set (map snd (ms_records s)))" using assms(2) by (simp only: distinct_map)
  ultimately have "r' = r" using assms(3) r'(2) by (metis inj_onD)
  with k' r'(1) show ?thesis by (simp add: mem_get_def)
qed

abbreviation demo_evidence_builder :: "AuditorId \<Rightarrow> EvidenceBuilder" where
  "demo_evidence_builder a \<equiv> \<lparr>eb_network = ''testnet'', eb_source = ''safeguard-audit-evidence'', eb_parser = ''1.0.0'',
     eb_generator_version = ''0.4.0'',
     eb_registry = [(a, demo_grant a SeniorAuditor ''testnet'' ''issued-senior-credential'' 1900000000)]\<rparr>"

abbreviation demo_evidence_options :: "AuditorId \<Rightarrow> AuditRecord list \<Rightarrow> EvidenceBuildOptions" where
  "demo_evidence_options a rs \<equiv> \<lparr>bo_kind = TransactionEvidence, bo_record_ids = map rc_record_id rs, bo_generated_by = a\<rparr>"

definition evidence_ids_apart :: "('y) artifact_ext_scheme \<Rightarrow> AuditorId \<Rightarrow> AuditRecord list \<Rightarrow> bool" where
  "evidence_ids_apart X a rs \<longleftrightarrow>
     (\<forall>package s' r. evidence_build X mem_audit (demo_evidence_builder a) demo_clock (foldl mem_commit mem_new rs)
          (demo_evidence_options a rs) = (Inr package, s') \<longrightarrow>
        evidence_record X (evidence_lifecycle (demo_evidence_builder a) (demo_evidence_options a rs) package)
          (at_record demo_clock) = Inr r \<longrightarrow>
        rc_event_id r \<notin> rc_event_id ` set rs \<and> rc_record_id r \<notin> rc_record_id ` set rs)"

text \<open>The demonstration's builder over the records of a store, none of them sealed or under the identifiers of a generation.\<close>

lemma demo_evidence_built:
  fixes X :: "('y) artifact_ext_scheme" and s :: MemoryEventStore
  assumes "encodes X" "mem_inv s" "ms_records s \<noteq> []" "length (ms_records s) < 100"
    and "\<And>package s' r. evidence_build X mem_audit (demo_evidence_builder a) demo_clock s options = (Inr package, s') \<Longrightarrow>
           evidence_record X (evidence_lifecycle (demo_evidence_builder a) options package) (at_record demo_clock) = Inr r \<Longrightarrow>
           \<not> mem_contains_event s (rc_event_id r) \<and> ms_by_record s (rc_record_id r) = None"
    and "list_all (\<lambda>r. ev_kind (rc_event r) \<noteq> EventKind.EvidenceGenerated \<and> rc_integrity r = None) (map snd (ms_records s))"
    and "distinct (map rc_record_id (map snd (ms_records s)))"
    and "options = demo_evidence_options a (map snd (ms_records s))"
  obtains package s' r v st bs where
    "evidence_build X mem_audit (demo_evidence_builder a) demo_clock s options = (Inr package, s')"
    "query_all s' 100 = Some (map snd (ms_records s'))"
    "find (\<lambda>r. ev_kind (rc_event r) = EventKind.EvidenceGenerated) (map snd (ms_records s')) = Some r"
    "detail_or ''?'' r ''kind'' = ''transaction-evidence''" "detail_or ''?'' r ''records'' = show_nat (length (ms_records s))"
    "em_record_count (pk_manifest package) = length (ms_records s)"
    "verify_package X mem_audit package s' = Inr v" "vv_verified v"
    "verify_package_structure X package = Inr st" "vv_verified st"
    "evidence_canonical_bytes X (pk_artifact package) = Inr bs" "ea_digest (pk_artifact package) = Some (hash_bytes X bs)"
proof -
  have req: "evidence_require (demo_evidence_builder a) (at_authorize demo_clock) (bo_generated_by options) = Inr ()"
    by (simp add: evidence_require_iff assms(8) demo_clock_def demo_permitted role_allows_def)
  have intact: "ids_intact X s (bo_record_ids options)"
    using assms(3,6,7) mem_get_stored [OF assms(2,7)]
    by (auto simp: ids_intact_def assms(8) list_all_iff)
  have v: "VersionLabel_new (eb_generator_version (demo_evidence_builder a)) = Inr ''0.4.0''"
    by (simp add: VersionLabel_new_def ascii_defs byte_def)
  obtain p where p: "EventProvenance_new Derived (eb_source (demo_evidence_builder a)) (eb_parser (demo_evidence_builder a)) = Inr p"
    by (simp add: EventProvenance_new_def ascii_defs byte_def)
  show ?thesis
  proof (rule evidence_build_intact [OF assms(1,2) req intact v p])
    fix package r
    assume b: "evidence_build X mem_audit (demo_evidence_builder a) demo_clock s options = (Inr package, snd (mem_insert s r))"
      "evidence_record X (evidence_lifecycle (demo_evidence_builder a) options package) (at_record demo_clock) = Inr r"
      "em_record_count (pk_manifest package) = length (bo_record_ids options)"
      and ver: "ms_by_record s (rc_record_id r) = None \<Longrightarrow>
        \<exists>ver. verify_package X mem_audit package (snd (mem_insert s r)) = Inr ver \<and> vv_verified ver"
    note f = evidence_record_fields [OF b(2)] and d = evidence_record_details [OF b(2)]
    have new: "\<not> mem_contains_event s (rc_event_id r)" "ms_by_record s (rc_record_id r) = None"
      using assms(5) [OF b(1,2)] by simp_all
    have ins: "snd (mem_insert s r) = mem_commit s r" using new f(1) by (simp add: mem_insert_wf)
    have len: "mem_len (mem_commit s r) \<le> 100" using mem_commit_len [OF assms(2) new(2)] assms(4) by (simp add: mem_len_def)
    let ?P = "\<lambda>r. ev_kind (rc_event r) = EventKind.EvidenceGenerated"
    obtain as bs where ab: "filter ?P (map snd (ms_records s)) = as @ bs"
      "filter ?P (map snd (ms_records (mem_commit s r))) = as @ (if ?P r then [r] else []) @ bs"
      by (rule filter_commit [OF assms(2) new(2)])
    have "filter ?P (map snd (ms_records s)) = []" using assms(6) unfolding filter_empty_conv list_all_iff by blast
    with ab f(2) have find: "find ?P (map snd (ms_records (mem_commit s r))) = Some r" unfolding find_filter by simp
    from ver [OF new(2)] obtain v where v: "verify_package X mem_audit package (mem_commit s r) = Inr v" "vv_verified v"
      by (auto simp: ins)
    from structure_of_verified [OF v] obtain st where st: "verify_package_structure X package = Inr st" "vv_verified st" by blast
    show ?thesis
    proof (rule built_digest [OF b(1)])
      fix bs
      assume "evidence_canonical_bytes X (pk_artifact package) = Inr bs" "ea_digest (pk_artifact package) = Some (hash_bytes X bs)"
      then show ?thesis
        using that [OF b(1) [unfolded ins] query_all_history [OF mem_inv_commit [OF assms(2) f(1)] len] find _ _ _ v st] d b(3)
        by (simp add: detail_or_def assms(8) evidence_lifecycle_def)
    qed
  qed
qed

text \<open>
  C7: the \<open>generate-evidence\<close> walk-through.  Over readable envelope fixtures that the normalizer accepts, with
  identifiers apart from those of the generation, and total encoders, the program does not panic: the
  package over both records is built and recorded, it verifies on its own and against the store, and the
  forged digest is reported, unless it is the digest the program has printed.
\<close>

theorem generate_evidence_walkthrough:
  fixes X :: "('y) artifact_ext_scheme" and N :: "('n, 'z) normalizer_ext_scheme"
  defines "n \<equiv> demo_normalizer N ''safeguard-audit''"
  assumes "encodes X"
    and "fixture files ''audit-envelope'' ''denied-transfer/event.json'' ''ledger:430'' = Some i0"
    and "fixture files ''audit-envelope'' ''frozen-account/event.json'' ''ledger:431'' = Some i1"
    and "demo_ok X n [i0, i1]" "rs = map (demo_record X n) [i0, i1]"
    and "list_all (\<lambda>r. ev_kind (rc_event r) \<noteq> EventKind.EvidenceGenerated) rs"
    and "evidence_ids_apart X (id_derive X AuditorIdT [''senior-auditor-01'']) rs"
  shows "\<exists>evidence manifest digest. generate_evidence_main X N files =
    Some [''Ingested 2 records: '' @ joined '', '' (map (EventKind_as_str \<circ> ev_kind \<circ> rc_event) rs),
          ''Sealed evidence '' @ evidence @ '' (2 records, manifest '' @ manifest @ '', digest '' @ digest @ '')'',
          ''Recorded evidence-generated event (kind transaction-evidence, records 2)'',
          ''Verified: structure=true records=true'',
          ''Tampered artifact digest detected: verified='' @ show_bool (digest = concat (replicate 32 ''ee''))
            @ '' artifact='' @ show_bool (digest = concat (replicate 32 ''ee'')),
          CHR 0x0A # ''OK: the package verifies, its generation is on the trail, and tampering is detectable.'']"
proof -
  let ?s = "foldl mem_commit mem_new (map (demo_record X n) [i0, i1])"
  have name: "label_ok 64 ''fixture:evidence-demo''" by (simp add: label_ok_def ascii_defs byte_def)
  have ingest: "ingest_demo X N evidence_demo_source [i0, i1] = Some ?s"
    using ingest_demo_eq [OF assms(5) [unfolded n_def] name] by (simp add: evidence_demo_source_def n_def)
  note store = demo_store [OF assms(5)]
  have two: "show_nat 2 = ''2''" "show_nat (Suc (Suc 0)) = ''2''" by code_simp+
  have len: "length (ms_records ?s) = 2" using arg_cong [OF store(2), of length] by simp
  then have query: "query_all ?s 10 = Some rs"
    using query_all_history [OF store(1), of 10] store(2) by (simp add: mem_len_def assms(6))
  let ?a = "id_derive X AuditorIdT [''senior-auditor-01'']"
  have apart: "\<not> mem_contains_event ?s (rc_event_id r) \<and> ms_by_record ?s (rc_record_id r) = None"
    if "evidence_build X mem_audit (demo_evidence_builder ?a) demo_clock ?s
        (demo_evidence_options ?a (map snd (ms_records ?s))) = (Inr package, s')"
      "evidence_record X (evidence_lifecycle (demo_evidence_builder ?a) (demo_evidence_options ?a (map snd (ms_records ?s))) package)
        (at_record demo_clock) = Inr r" for package s' r
  proof -
    have "map snd (ms_records ?s) = rs" using store(2) by (simp add: assms(6))
    with assms(8) that have "rc_event_id r \<notin> rc_event_id ` set rs \<and> rc_record_id r \<notin> rc_record_id ` set rs"
      unfolding evidence_ids_apart_def assms(6) by metis
    then show ?thesis using store(3) [of "rc_event_id r"] store(4) [of "rc_record_id r"] by (auto simp: assms(6) image_comp)
  qed
  have plain: "list_all (\<lambda>r. ev_kind (rc_event r) \<noteq> EventKind.EvidenceGenerated \<and> rc_integrity r = None) (map snd (ms_records ?s))"
    using assms(7) demo_unsealed(1) [OF assms(5)] unfolding store(2) assms(6) by simp
  have dist: "distinct (map rc_record_id (map snd (ms_records ?s)))" unfolding store(2) by (rule demo_unsealed(2) [OF assms(5)])
  have ne: "ms_records ?s \<noteq> []" "length (ms_records ?s) < 100" using len by auto
  show ?thesis
  proof (rule demo_evidence_built [OF assms(2) store(1) ne apart plain dist HOL.refl, where a = ?a])
    fix package s' r v st bs
    assume b: "evidence_build X mem_audit (demo_evidence_builder ?a) demo_clock ?s
        (demo_evidence_options ?a (map snd (ms_records ?s))) = (Inr package, s')"
      "query_all s' 100 = Some (map snd (ms_records s'))"
      "find (\<lambda>r. ev_kind (rc_event r) = EventKind.EvidenceGenerated) (map snd (ms_records s')) = Some r"
      "detail_or ''?'' r ''kind'' = ''transaction-evidence''" "detail_or ''?'' r ''records'' = show_nat (length (ms_records ?s))"
      "em_record_count (pk_manifest package) = length (ms_records ?s)"
      "verify_package X mem_audit package s' = Inr v" "vv_verified v"
      "verify_package_structure X package = Inr st" "vv_verified st"
      and d: "evidence_canonical_bytes X (pk_artifact package) = Inr bs" "ea_digest (pk_artifact package) = Some (hash_bytes X bs)"
    note t = forged_digest_detected [OF b(9) d(2,1) b(10)]
    have rs: "map rc_record_id (map snd (ms_records ?s)) = map rc_record_id rs" "length rs = 2" "rs \<noteq> []"
      using store(2) by (simp_all add: assms(6))
    show ?thesis
      using assms(3,4) ingest query b t d(2) rs len
      by (intro exI [of _ "ea_evidence_id (pk_artifact package)"] exI [of _ "em_manifest_id (pk_manifest package)"]
          exI [of _ "sha256_hex X bs"])
         (simp add: generate_evidence_main_def NetworkId_new_def VersionLabel_new_def demo_registry_eq Let_def
           EvidenceBuildOptions_new_def tamper_digest_def digest_or_dash_def hash_bytes_fields show_bool_def two ascii_defs byte_def
           del: replicate.simps concat.simps)
  qed
qed

lemma walk_evidence_ids:
  assumes "evidence_record walk_ext l now = Inr r" "el_network l = ''testnet''"
  shows "\<exists>x. rc_event_id r = ''evt_7'' @ x" "rc_record_id r = id_derive_bytes walk_ext RecordIdT (rc_event_id r)"
proof -
  note f = evidence_record_fields(3,4) [OF assms(1)]
  from f(1) obtain e where
    "derived_audit_event_base walk_ext EventKind.EvidenceGenerated (el_network l) (el_source l) (el_parser l)
          \<lparr>ds_method = ''evidence-generation'', ds_note = ''evidence artifact generation recorded by the evidence service'',
           ds_source_refs = [el_evidence l, EvidenceKind_as_str (el_kind l), show_nat (el_record_count l)],
           ds_tx = None, ds_source_events = []\<rparr> EventSlot_default = Inr e" "ev_event_id (rc_event r) = ev_event_id e"
    by (auto simp: evidence_lifecycle_event_def map_ok_eq_Inr)
  with derived_base(4) [OF this(1)] walk_derived_id show "\<exists>x. rc_event_id r = ''evt_7'' @ x"
    by (simp add: rc_event_id_def assms(2))
  show "rc_record_id r = id_derive_bytes walk_ext RecordIdT (rc_event_id r)"
    using f(2) by (simp add: walk_json_event rc_event_id_def)
qed

abbreviation walk_pair :: "AuditRecord list" where
  "walk_pair \<equiv> map (demo_record walk_ext (demo_normalizer walk_normalizer ''safeguard-audit''))
     [walk_item ''denied-transfer/event.json'' ''ledger:430'', walk_item ''frozen-account/event.json'' ''ledger:431'']"

lemma walk_evidence_apart: "evidence_ids_apart walk_ext a walk_pair"
  unfolding evidence_ids_apart_def
proof (intro allI impI)
  fix package r
  assume r: "evidence_record walk_ext (evidence_lifecycle (demo_evidence_builder a) (demo_evidence_options a walk_pair) package)
    (at_record demo_clock) = Inr r"
  have "el_network (evidence_lifecycle (demo_evidence_builder a) (demo_evidence_options a walk_pair) package) = ''testnet''"
    by (simp add: evidence_lifecycle_def)
  note id = walk_evidence_ids [OF r this]
  have "rc_event_id r \<noteq> rc_event_id t \<and> rc_record_id r \<noteq> rc_record_id t" if "t \<in> set walk_pair" for t
    using id that fixture_event_fields(1)
    by (auto simp: walk_record walk_positions rc_event_id_def ends_id_eq [OF walk_sha256] hex_lower_inject)
  then show "rc_event_id r \<notin> rc_event_id ` set walk_pair \<and> rc_record_id r \<notin> rc_record_id ` set walk_pair" by blast
qed

theorem generate_evidence_walkthrough_witness:
  "\<exists>evidence manifest digest. generate_evidence_main walk_ext walk_normalizer walk_files =
    Some [''Ingested 2 records: transfer-denied, account-frozen'',
          ''Sealed evidence '' @ evidence @ '' (2 records, manifest '' @ manifest @ '', digest '' @ digest @ '')'',
          ''Recorded evidence-generated event (kind transaction-evidence, records 2)'',
          ''Verified: structure=true records=true'',
          ''Tampered artifact digest detected: verified='' @ show_bool (digest = concat (replicate 32 ''ee''))
            @ '' artifact='' @ show_bool (digest = concat (replicate 32 ''ee'')),
          CHR 0x0A # ''OK: the package verifies, its generation is on the trail, and tampering is detectable.'']"
proof -
  let ?n = "demo_normalizer walk_normalizer ''safeguard-audit''"
  have ok: "demo_ok walk_ext ?n [walk_item ''denied-transfer/event.json'' ''ledger:430'', walk_item ''frozen-account/event.json'' ''ledger:431'']"
    using walk_ok [of "[denied_transfer, frozen_account]" "[(''denied-transfer/event.json'', ''ledger:430''),
      (''frozen-account/event.json'', ''ledger:431'')]"] walk_positions by simp
  have kinds: "map (ev_kind \<circ> rc_event) walk_pair = [TransferDenied, EventKind.AccountFrozen]"
    using fixture_event_fields(2) by (simp add: walk_record walk_positions)
  then have plain: "list_all (\<lambda>r. ev_kind (rc_event r) \<noteq> EventKind.EvidenceGenerated) walk_pair" by simp
  have enc: "encodes walk_ext" using walk_encoders by (simp add: encoders_total_def)
  have "fixture walk_files ''audit-envelope'' ''denied-transfer/event.json'' ''ledger:430'' = Some (walk_item ''denied-transfer/event.json'' ''ledger:430'')"
    "fixture walk_files ''audit-envelope'' ''frozen-account/event.json'' ''ledger:431'' = Some (walk_item ''frozen-account/event.json'' ''ledger:431'')"
    using walk_fixture walk_positions by simp_all
  from generate_evidence_walkthrough [OF enc this ok HOL.refl plain walk_evidence_apart] show ?thesis
    using kinds by simp
qed

section \<open>\<open>create-investigation\<close>: the case runs to its closing\<close>

text \<open>The steps of the workflow, each under the next number of the trail; the case ends closed.\<close>

lemma case_workflow_runs:
  assumes "service_ready X sv 1700000500 a" "mem_inv s" "ms_by_record s rid \<noteq> None"
  defines "i \<equiv> id_derive X CaseIdT [sv_network sv, ''denial:'' @ rid]"
  obtains opened closed s' where "case_workflow X sv a rid s = Some (opened, closed, s')" "ic_case_id opened = i"
    "ic_status closed = CaseStatus.Closed" "length (ic_timeline closed) = 7" "length (ic_findings closed) = 1"
    "length (ic_notes closed) = 1" "mem_inv s'" "mem_len s' \<le> mem_len s + 8"
    "\<And>ev. mem_contains_event s' ev \<longleftrightarrow> mem_contains_event s ev \<or> (\<exists>n < 8. ev = lifecycle_id X (sv_network sv) i a n)"
proof -
  have ready: "service_ready X sv (at_authorize demo_clock) a" using assms(1) by (simp add: demo_clock_def)
  have i: "from_checked CaseIdT i = Inr i" by (simp add: i_def id_derive_checked)
  note go = progress_operations [OF ready i]
  let ?P = "progress X sv a i s"
  obtain c0 cs0 s0 where s0: "svc_open_case X memcase mem_audit sv demo_clock InMemoryCaseStore_new s a
      ''review of repeated denials'' Priority.High (''denial:'' @ rid) = (Inr c0, cs0, s0)" "?P Open 0 0 0 c0 cs0 s0"
    using svc_open_case_proceeds [OF ready, of "''review of repeated denials''" "''denial:'' @ rid" s "Priority.High"]
    by (auto simp: i_def elim: progress_start [OF _ assms(2)])
  from go(1) [OF s0(2), of a] obtain c1 cs1 s1 where
    s1: "svc_assign X memcase mem_audit sv demo_clock cs0 s0 a i a = (Inr c1, cs1, s1)" "?P Open 1 0 0 c1 cs1 s1"
    by auto
  from go(2) [OF s1(2) _ _ assms(3), of Denial] obtain c2 cs2 s2 where
    s2: "svc_link_record X memcase mem_audit sv demo_clock cs1 s1 a i rid Denial = (Inr c2, cs2, s2)" "?P Open 2 0 0 c2 cs2 s2"
    by (auto simp: needs_actor_def simp flip: numeral_2_eq_2)
  from go(5) [OF s2(2), of Investigating None] obtain c3 cs3 s3 where
    s3: "svc_transition X memcase mem_audit sv demo_clock cs2 s2 a i Investigating None = (Inr c3, cs3, s3)"
      "?P Investigating 3 0 0 c3 cs3 s3" by auto
  let ?nf = "with_records (NewFinding_new Anomaly Severity.Medium ''denials cluster around a single source account'') [rid]"
  from go(3) [OF s3(2), of ?nf] obtain c4 cs4 s4 where
    s4: "svc_add_finding X memcase mem_audit sv demo_clock cs3 s3 a i ?nf = (Inr c4, cs4, s4)" "?P Investigating 4 1 0 c4 cs4 s4"
    by (auto simp: with_records_def NewFinding_new_def)
  let ?body = "''comparing against the policy-change record before closing''"
  from go(4) [OF s4(2), of ?body] obtain c5 cs5 s5 where
    s5: "svc_add_note X memcase mem_audit sv demo_clock cs4 s4 a i ?body = (Inr c5, cs5, s5)" "?P Investigating 5 1 1 c5 cs5 s5"
    by auto
  from go(5) [OF s5(2), of Resolved None] obtain c6 cs6 s6 where
    s6: "svc_transition X memcase mem_audit sv demo_clock cs5 s5 a i Resolved None = (Inr c6, cs6, s6)"
      "?P Resolved 6 1 1 c6 cs6 s6" by auto
  let ?why = "Some ''pattern explained; no remediation needed''"
  from go(5) [OF s6(2), of CaseStatus.Closed ?why] obtain c7 cs7 s7 where
    s7: "svc_transition X memcase mem_audit sv demo_clock cs6 s6 a i CaseStatus.Closed ?why = (Inr c7, cs7, s7)"
      "?P CaseStatus.Closed 7 1 1 c7 cs7 s7" by auto
  have at: "ic_case_id c0 = i" using s0(2) by (simp add: progress_def case_at_def)
  have run: "case_workflow X sv a rid s = Some (c0, c7, s7)"
    using s0(1) s1(1) s2(1) s3(1) s4(1) s5(1) s6(1) s7(1) at by (simp add: case_workflow_def)
  have eight: "k \<le> 7 \<longleftrightarrow> k < 8" for k :: nat by auto
  from s7(2) have f: "ic_status c7 = CaseStatus.Closed" "length (ic_timeline c7) = 7" "length (ic_findings c7) = 1"
    "length (ic_notes c7) = 1" "mem_inv s7" "mem_len s7 \<le> mem_len s + 8"
    "\<And>ev. mem_contains_event s7 ev \<longleftrightarrow> mem_contains_event s ev \<or> (\<exists>n < 8. ev = lifecycle_id X (sv_network sv) i a n)"
    by (simp_all add: progress_def case_at_def eight)
  show thesis by (rule that [OF run at f])
qed

abbreviation demo_investigation :: "AuditorId \<Rightarrow> CaseService" where
  "demo_investigation a \<equiv> \<lparr>sv_network = ''testnet'', sv_source = ''safeguard-audit-investigation'', sv_parser = ''1.0.0'',
     sv_registry = [(a, demo_grant a Investigator ''testnet'' ''issued-investigator-credential'' 1900000000)]\<rparr>"

text \<open>
  The \<open>create-investigation\<close> walk-through.  Over a readable envelope fixture that the normalizer accepts, and
  when events serialize, the program does not panic: the case is opened on the denial, worked on and closed
  with seven timeline entries, a finding and a note; the trail it prints is that of a store that knows the
  denial and the eight steps of the case, and no other event.
\<close>

lemma create_investigation_walkthrough:
  fixes X :: "('y) event_ext_scheme" and N :: "('n, 'z) normalizer_ext_scheme"
  defines "n \<equiv> demo_normalizer N ''safeguard-audit''"
    and "a \<equiv> id_derive X AuditorIdT [''investigator-01'']"
  assumes "\<forall>e. \<exists>bs. json_event X e = Inr bs"
    and "fixture files ''audit-envelope'' ''denied-transfer/event.json'' ''ledger:430'' = Some item"
    and "demo_ok X n [item]" "r = demo_record X n item"
    and "case_id = id_derive X CaseIdT [''testnet'', ''denial:'' @ rc_record_id r]"
  shows "\<exists>s. create_investigation_main X N files =
      Some ([''Ingested denial record '' @ rc_record_id r @ '' (kind: '' @ EventKind_as_str (ev_kind (rc_event r)) @ '').'',
             ''Opened case '' @ case_id,
             ''Case closed: 7 timeline entries, 1 finding(s), 1 note(s).'',
             CHR 0x0A # ''Audit-store history ('' @ show_nat (mem_len s) @ '' records):'']
            @ map history_line (map snd (ms_records s))
            @ [CHR 0x0A # ''OK: the case is closed, its history is append-only, and replay is idempotent.''])
    \<and> (\<forall>ev. mem_contains_event s ev \<longleftrightarrow> ev = rc_event_id r \<or> (\<exists>k < 8. ev = lifecycle_id X ''testnet'' case_id a k))"
proof -
  let ?s = "foldl mem_commit mem_new (map (demo_record X n) [item])"
  have name: "label_ok 64 ''fixture:investigation-demo''" by (simp add: label_ok_def ascii_defs byte_def)
  have ingest: "ingest_demo X N investigation_demo_source [item] = Some ?s"
    using ingest_demo_eq [OF assms(5) [unfolded n_def] name] by (simp add: investigation_demo_source_def n_def)
  note store = demo_store [OF assms(5)]
  have len: "mem_len ?s = 1" using arg_cong [OF store(2), of length] by (simp add: mem_len_def)
  have query: "query_all ?s 10 = Some [r]"
    using query_all_history [OF store(1), of 10] store(2) len by (simp add: assms(6))
  have ready: "service_ready X (demo_investigation a) 1700000500 a"
    using assms(3) by (simp add: service_ready_def EventProvenance_new_def demo_permitted role_allows_def a_def id_derive_checked
        ascii_defs byte_def)
  have known: "ms_by_record ?s (rc_record_id r) \<noteq> None" using store(4) [of "rc_record_id r"] by (simp add: assms(6))
  show ?thesis
  proof (rule case_workflow_runs [OF ready store(1) known])
    fix opened closed s'
    assume w: "case_workflow X (demo_investigation a) a (rc_record_id r) ?s = Some (opened, closed, s')"
      "ic_case_id opened = id_derive X CaseIdT [sv_network (demo_investigation a), ''denial:'' @ rc_record_id r]"
      "length (ic_timeline closed) = 7" "length (ic_findings closed) = 1" "length (ic_notes closed) = 1"
      "mem_inv s'" "mem_len s' \<le> mem_len ?s + 8"
      and ids: "\<And>ev. mem_contains_event s' ev \<longleftrightarrow> mem_contains_event ?s ev
        \<or> (\<exists>k < 8. ev = lifecycle_id X (sv_network (demo_investigation a))
             (id_derive X CaseIdT [sv_network (demo_investigation a), ''denial:'' @ rc_record_id r]) a k)"
    have history: "query_all s' 100 = Some (map snd (ms_records s'))" using query_all_history [OF w(6), of 100] w(7) len by simp
    have digits: "show_nat 7 = ''7''" "show_nat 1 = ''1''" "show_nat (Suc 0) = ''1''" by code_simp+
    have "create_investigation_main X N files = Some ([''Ingested denial record '' @ rc_record_id r @ '' (kind: '' @ EventKind_as_str (ev_kind (rc_event r)) @ '').'',
             ''Opened case '' @ case_id,
             ''Case closed: 7 timeline entries, 1 finding(s), 1 note(s).'',
             CHR 0x0A # ''Audit-store history ('' @ show_nat (mem_len s') @ '' records):'']
            @ map history_line (map snd (ms_records s'))
            @ [CHR 0x0A # ''OK: the case is closed, its history is append-only, and replay is idempotent.''])"
      using assms(4) ingest query w(1-5) history
      by (simp add: create_investigation_main_def NetworkId_new_def VersionLabel_new_def demo_registry_eq Let_def digits
          mem_len_def assms(7) ascii_defs byte_def flip: a_def)
    moreover have "mem_contains_event ?s ev \<longleftrightarrow> ev = rc_event_id r" for ev using store(3) [of ev] by (simp add: assms(6))
    ultimately show ?thesis using ids by (intro exI [of _ s']) (simp add: assms(7))
  qed
qed

end
