(* ===== verification/Spec2Isabelle.thy ===== *)
theory Spec2Isabelle
  imports Audit_Time Audit_Memory_Store Audit_Integrity Audit_Indexer Audit_Soroban Audit_Investigation
    Audit_Reporting Audit_Evidence Audit_Privacy Audit_Retention Audit_Normalizer Audit_Rpc
    Audit_Access_Control Audit_System Audit_Pipeline Audit_Recovery Audit_Workflow Audit_Examples
    Audit_Walkthroughs
begin

text \<open>
  A verification library for the Safeguard audit layer.

  \<^bold>\<open>The program.\<close>  The audit layer collects compliance events from a ledger, keeps them in an append-only
  store, proves that nothing was altered, and lets authorized auditors investigate, report and produce
  evidence.  Events enter through a source (\<open>soroban\<close>, fed by \<open>rpc\<close>), are normalized
  (\<open>event-normalizer\<close>) and written page by page by the indexer (\<open>event-indexer\<close>), which keeps a
  checkpoint per source.  Everything an auditor does (accesses, case steps, reports, evidence) is itself
  written to the same store as a derived event built by \<open>audit-events\<close>.  All services ask
  \<open>authorization\<close> first; \<open>privacy\<close> decides which detail values a reader sees.

  \<^bold>\<open>Theories and sources\<close> (under \<open>src/crates\<close>).
  \<^item> \<open>Audit_Prelude\<close>: \<open>Result\<close> combinators, ASCII, decimal numbers, ordered maps, lemma collections.
  \<^item> \<open>Audit_Identifiers\<close>, \<open>Audit_Time\<close>, \<open>Audit_Event\<close>, \<open>Audit_Record\<close>: \<open>audit-core\<close> (\<open>errors\<close>,
    \<open>identifiers\<close>, \<open>timestamps\<close>, \<open>pagination\<close>, \<open>correlation\<close>, \<open>privacy\<close>, \<open>event\<close>, \<open>record\<close>).
  \<^item> \<open>Audit_Storage\<close>: \<open>storage\<close>, with the \<open>EventStore\<close> contract as a locale; \<open>Audit_Memory_Store\<close>:
    \<open>memory-store\<close> and its interpretation of that contract.
  \<^item> \<open>Audit_Integrity\<close>: \<open>integrity\<close> and \<open>audit-core/src/integrity.rs\<close>.
  \<^item> \<open>Audit_Source\<close>, \<open>Audit_Indexer\<close>: \<open>audit-core/src/source.rs\<close> and \<open>event-indexer\<close>.
  \<^item> \<open>Audit_Json\<close>, \<open>Audit_Normalizer\<close>: \<open>event-normalizer\<close>.
  \<^item> \<open>Audit_Soroban\<close>, \<open>Audit_Rpc\<close>: \<open>soroban\<close> and \<open>rpc\<close>.
  \<^item> \<open>Audit_Access\<close>, \<open>Audit_Case\<close>, \<open>Audit_Artifacts\<close>: the models of \<open>audit-core\<close> for authorization,
    investigation, evidence and reports.
  \<^item> \<open>Audit_Events\<close>: \<open>audit-events\<close>, every payload and its projection onto the envelope.
  \<^item> \<open>Audit_Authorization\<close>, \<open>Audit_Investigation\<close>, \<open>Audit_Reporting\<close>, \<open>Audit_Evidence\<close>,
    \<open>Audit_Privacy\<close>: the crates of these names (\<open>Audit_Privacy\<close> also holds
    \<open>audit-core/src/decryption.rs\<close>); \<open>Audit_Retention\<close>: \<open>audit-core/src/retention.rs\<close>.
  \<^item> \<open>Audit_Access_Control\<close>: the access policy and the checks of the three services against it.
  \<^item> \<open>Audit_System\<close>: all the writers of the one store together (ingestion, the access log, cases, reports,
    evidence) as a step relation, and the append-only log it implements.
  \<^item> \<open>Audit_Pipeline\<close>: \<open>rpc\<close>, \<open>soroban\<close>, \<open>event-indexer\<close> and the store composed, and what the
    normalizer does with the events of that composition.
  \<^item> \<open>Audit_Recovery\<close>: that composition with failed cycles, crashes between the append and the checkpoint,
    and restarts, as a step relation; \<open>Audit_Workflow\<close>: runs of the case service, up to the closing of a case.
  \<^item> \<open>Audit_Examples\<close>, \<open>Audit_Walkthroughs\<close>: the runnable programs of \<open>integration-tests/examples\<close> and
    \<open>rpc/examples\<close>, each a function from what it reads to the lines it prints (\<open>None\<close> is a panic).

  \<^bold>\<open>How code is written here.\<close>  A struct is a record whose field names carry a prefix, an enum a datatype
  with the source's variants, \<open>Result\<close> a sum with the error on the left, a panic \<open>None\<close>, an error the
  source's variant with its exact text.  Strings are lists of bytes, \<open>i64\<close> is \<open>int\<close>, and \<open>u32\<close>, \<open>u64\<close> and
  \<open>usize\<close> are \<open>nat\<close>; where a width matters it is written out (\<open>Audit_Retention\<close> uses 64-bit words).  A
  \<open>BTreeMap\<close> is an ordered association list, a \<open>HashMap\<close> a map.  Code that changes state takes the state
  and returns it.  Clock readings are arguments: one per reading of the source.

  \<^bold>\<open>Parameters.\<close>  SHA-256 and \<open>serde_json\<close> are not part of the repository and are fields of a record that
  the definitions take: \<open>hash_ext\<close> (the hash, the encoding of string lists), extended by \<open>event_ext\<close>,
  \<open>integrity_ext\<close>, \<open>artifact_ext\<close>, \<open>report_ext\<close>, \<open>normalizer_ext\<close>, and \<open>rpc_ext\<close> on its own.  No property
  assumes that hashes are collision-free: where a collision would matter, the conclusion names the two
  inputs.  Hypotheses on the encoders are that a record is written as a JSON object, that string lists
  are encoded injectively, or that a serialized event decodes to itself.  Feeds, sources, checkpoint
  stores and clients are arguments as well.

  \<^bold>\<open>Interfaces.\<close>  The contracts between components are locales, each interpreted on the model's own
  definitions: \<open>comparator\<close> (the total orders of placements and position keys), \<open>event_store\<close>
  (insertions and lookups of a store), \<open>event_sink\<close> and \<open>audit_sink\<close> (what the services rely on when
  they record their own events), \<open>checkpoint_store\<close> and \<open>ingest\<close> (the indexer's cycle over any store
  and checkpoint store), \<open>case_store\<close> and \<open>case_service\<close> (the case service over any case store),
  \<open>paged_rpc\<close> (the feed over any client), \<open>paged_source\<close> (what a replay relies on in a source; every
  \<open>paged_rpc\<close> behind the Soroban source is one, and so is the fixture source of the examples).

  \<^bold>\<open>What is shown.\<close>
  \<^item> Storage: insertion refines appending to a history keyed by event id, except that a new event under a
    record id in use replaces what is stored under it; reachable stores are consistent; paging returns
    each matching record once, in order, when the record ids fit a cursor; batches are sequences of insertions.
  \<^item> Integrity: verification accepts exactly sealed chains, a head digest commits to the whole history,
    deletions inside a chain are detected, an altered record is named wherever it stands, manifests
    verify against their records and no others.
  \<^item> Ingestion: a completed cycle loses nothing, a failed one does not move the checkpoint, a repeated
    one that skips duplicates writes nothing; normalization equals a reference definition, can be repeated on its own output,
    and keeps the whole history on one network; a Soroban page holds exactly the valid events of registered
    contracts past the resume position, and the feed can be drained;
    retrying returns what its contract says.  Whatever fails or crashes in between, the checkpoint is
    never ahead of the store, and undisturbed cycles afterwards bring the store up to date if the indexer
    skips duplicates, its normalizer accepts the recording and no page in the middle is without an admitted event.
  \<^item> Services: the authorizer's decision is characterised exactly, and no call of the case, report or
    evidence service has an effect the access policy does not permit; cases form a state machine whose
    history only grows (a closed case does not change at all, since its reopening fails) and whose every step
    is on the audit trail, and an open case can be closed exactly
    when its timeline validates; reports cover exactly the matching records, and running a request again
    gives the same report exactly when it does not count its own generation; evidence over intact records
    is always built, verifies and does not depend on the order of its sources; a disclosure shows
    exactly what the grants cover and leaks nothing else; retention is evaluated correctly within its
    range.
  \<^item> The system: whatever sequence of operations runs, the store changes by appending records of new
    events and nothing else; the store holds the event of every action that succeeded and none that has
    no action behind it; an evidence package verifies at every time after it was built.  A replay through
    the RPC client and the Soroban source stores every admitted event of the recording under the same
    conditions; the normalizer of the repository refuses each of them, so that a cycle fails, or
    quarantines the page and moves on, by the policy for malformed items.
  \<^item> The example programs: over readable fixtures that the normalizer accepts, those on ingestion,
    integrity, cases, reports and evidence do not panic and print what they are written to print; the
    ones on ingestion, integrity, reports and evidence are also run on the contents of committed fixtures.
  \<^item> Behaviour that departs from the documentation is stated as theorems too: for example that an
    administrator cannot reopen a closed case, that repeated accesses are not recorded, that records
    sealed in a chain behind its first are refused as evidence (up to a hash collision), that a source page with nothing admitted stops the
    indexer, and that very long retention periods count as elapsed.

  \<^bold>\<open>Loops and fuel.\<close>  Loops over lists are structural recursion; \<open>trim_is_empty\<close>, \<open>str_replace\<close> and
  \<open>retry_from\<close> have a measure.  An unbudgeted replay and the scan of a report may run for ever and are partial functions
  into \<open>option\<close>; their termination under a page budget, respectively over a consistent store, is proved.
  \<open>drain\<close> and \<open>feed_drain\<close>, which only state properties, take a number of pages that one more than the
  number of records always suffices for; so does \<open>cycles\<close>, the number of cycles of the indexer.  \<open>transitions\<close>
  follows a list of statuses.

  \<^bold>\<open>Not modelled.\<close>  Accessors and builders that only read or set one field, \<open>Debug\<close> and \<open>Serialize\<close>
  implementations beyond the canonical encodings above, the \<open>DecryptionProvider\<close> trait (no implementation
  exists), crate roots, and tests.  There is no concurrency in the code: every operation takes its state
  exclusively.
\<close>

end
